(* ===== verification/Swad_Prelude.thy ===== *)
theory Swad_Prelude
  imports Main "HOL-Library.Word" "HOL-Library.Char_ord"
begin

unbundle bit_operations_syntax

text \<open>
  Shared vocabulary of the development: C characters and strings, the functions of the C
  library that swad calls on them, output positions, and the collections of lemmas the
  component theories use.

  A C \<open>char\<close> is a \<^typ>\<open>char\<close> (eight bits); \<open>chval c\<close> is its code between 0 and 255. A C string is
  the list of its bytes before the terminating NUL, a byte buffer is a list of bytes in which
  NUL may occur, and \<open>cstr\<close> reads the C string a buffer holds. Character classification is
  that of the "C" locale, which swad runs in, as it never calls \<open>setlocale\<close>.
\<close>

named_theorems swad_inv \<open>every operation keeps its component's invariant\<close>
named_theorems swad_bound \<open>bounds of indices, sizes and widths\<close>

type_synonym u8 = "8 word"
type_synonym u16 = "16 word"
type_synonym u64 = "64 word"

section \<open>Characters\<close>

abbreviation chval :: "char \<Rightarrow> nat" where
  "chval c \<equiv> of_char c"

abbreviation chr :: "nat \<Rightarrow> char" where
  "chr n \<equiv> char_of n"

abbreviation NUL :: char where
  "NUL \<equiv> CHR 0x00"

abbreviation CR :: char where
  "CR \<equiv> CHR 0x0D"

abbreviation LF :: char where
  "LF \<equiv> CHR 0x0A"

abbreviation TAB :: char where
  "TAB \<equiv> CHR 0x09"

lemma chval_less_256 [simp, swad_bound]: "chval c < 256"
  by (rule nat_of_char_less_256)

lemma chval_chr: "n < 256 \<Longrightarrow> chval (chr n) = n"
  by (simp add: of_char_of)

lemma chval_inject [simp]: "chval c = chval d \<longleftrightarrow> c = d"
  by (metis char_of_char)

definition isupper :: "char \<Rightarrow> bool" where
  "isupper c \<longleftrightarrow> 65 \<le> chval c \<and> chval c \<le> 90"

definition islower :: "char \<Rightarrow> bool" where
  "islower c \<longleftrightarrow> 97 \<le> chval c \<and> chval c \<le> 122"

definition isdigit :: "char \<Rightarrow> bool" where
  "isdigit c \<longleftrightarrow> 48 \<le> chval c \<and> chval c \<le> 57"

definition isspace :: "char \<Rightarrow> bool" where
  "isspace c \<longleftrightarrow> c = CHR 0x20 \<or> 9 \<le> chval c \<and> chval c \<le> 13"

definition tolower :: "char \<Rightarrow> char" where
  "tolower c = (if isupper c then chr (chval c + 32) else c)"

definition toupper :: "char \<Rightarrow> char" where
  "toupper c = (if islower c then chr (chval c - 32) else c)"

lemma tolower_idem [simp]: "tolower (tolower c) = tolower c"
  by (auto simp: tolower_def isupper_def chval_chr)

lemma tolower_NUL_iff [simp]: "tolower c = NUL \<longleftrightarrow> c = NUL"
proof (cases "isupper c")
  case True
  then have "chval (tolower c) \<noteq> chval NUL"
    by (simp add: tolower_def isupper_def chval_chr)
  then show ?thesis using True by (auto simp: isupper_def)
next
  case False
  then show ?thesis by (simp add: tolower_def)
qed

section \<open>C strings\<close>

definition cstr :: "string \<Rightarrow> string" where
  "cstr buf = takeWhile (\<lambda>c. c \<noteq> NUL) buf"

definition nulfree :: "string \<Rightarrow> bool" where
  "nulfree s \<longleftrightarrow> NUL \<notin> set s"

lemma cstr_nulfree [simp]: "nulfree (cstr buf)"
  by (auto simp: cstr_def nulfree_def dest: set_takeWhileD)

lemma cstr_id [simp]: "nulfree s \<Longrightarrow> cstr s = s"
  by (auto simp: cstr_def nulfree_def takeWhile_eq_all_conv)

lemma cstr_append_NUL: "nulfree s \<Longrightarrow> cstr (s @ NUL # t) = s"
  by (auto simp: cstr_def nulfree_def takeWhile_tail takeWhile_eq_all_conv)

lemma nulfree_simps [simp]:
  "nulfree []"
  "nulfree (c # s) \<longleftrightarrow> c \<noteq> NUL \<and> nulfree s"
  "nulfree (s @ t) \<longleftrightarrow> nulfree s \<and> nulfree t"
  by (auto simp: nulfree_def)

text \<open>\<open>strcspn s reject\<close>: the length of the initial part of \<open>s\<close> with no character of \<open>reject\<close>.\<close>

definition strcspn :: "string \<Rightarrow> string \<Rightarrow> nat" where
  "strcspn s reject = length (takeWhile (\<lambda>c. c \<notin> set reject) s)"

lemma strcspn_le [simp, swad_bound]: "strcspn s reject \<le> length s"
  by (simp add: strcspn_def length_takeWhile_le)

lemma take_strcspn: "take (strcspn s r) s = takeWhile (\<lambda>c. c \<notin> set r) s"
  by (simp add: strcspn_def takeWhile_eq_take [symmetric])

lemma drop_strcspn: "drop (strcspn s r) s = dropWhile (\<lambda>c. c \<notin> set r) s"
  by (simp add: strcspn_def dropWhile_eq_drop)

text \<open>\<open>strchr s c\<close>: the position of the first \<open>c\<close> in \<open>s\<close>, if there is one.\<close>

fun strchr :: "string \<Rightarrow> char \<Rightarrow> nat option" where
  "strchr [] c = None"
| "strchr (d # s) c = (if d = c then Some 0 else map_option Suc (strchr s c))"

lemma strchr_Some:
  "strchr s c = Some i \<Longrightarrow> i < length s \<and> s ! i = c \<and> c \<notin> set (take i s)"
  by (induction s arbitrary: i) (auto split: if_splits)

lemma strchr_append: "c \<notin> set t \<Longrightarrow> strchr (t @ c # r) c = Some (length t)"
  by (induction t) auto

lemma strchr_None: "strchr s c = None \<longleftrightarrow> c \<notin> set s"
  by (induction s) (auto split: if_splits)

text \<open>\<open>strcasecmp\<close> and \<open>strncasecmp\<close> compare with case folded; only equality is used.\<close>

definition strcaseeq :: "string \<Rightarrow> string \<Rightarrow> bool" where
  "strcaseeq a b \<longleftrightarrow> map tolower a = map tolower b"

definition strncaseeq :: "string \<Rightarrow> string \<Rightarrow> nat \<Rightarrow> bool" where
  "strncaseeq a b n \<longleftrightarrow> map tolower (take n a) = map tolower (take n b)"

definition first_char :: "string \<Rightarrow> char" where
  "first_char s = (case s of [] \<Rightarrow> NUL | c # _ \<Rightarrow> c)"

lemma first_char_append [simp]: "n \<noteq> [] \<Longrightarrow> first_char (n @ r) = first_char n"
  by (cases n) (simp_all add: first_char_def)

section \<open>Decimal numbers\<close>

text \<open>
  \<open>strtoll(s, &endp, 10)\<close>: white space, a sign, digits; the number, clamped to 64 bits, and the rest
  of the string at \<open>endp\<close>. Without digits it is 0 and \<open>endp\<close> is the whole string.
\<close>

definition dec_value :: "string \<Rightarrow> nat" where
  "dec_value ds = foldl (\<lambda>v c. 10 * v + (chval c - 48)) 0 ds"

definition strtoll :: "string \<Rightarrow> int \<times> string" where
  "strtoll s =
     (let t = dropWhile isspace s;
          neg = (first_char t = CHR ''-'');
          u = (if first_char t \<in> {CHR ''-'', CHR ''+''} then tl t else t);
          ds = takeWhile isdigit u;
          v = int (dec_value ds)
      in if ds = [] then (0, s)
         else (if neg then max (- v) (- (2 ^ 63)) else min v (2 ^ 63 - 1), dropWhile isdigit u))"

text \<open>Printing a number, as the formats \<open>%zu\<close>, \<open>%u\<close> and \<open>%d\<close> do.\<close>

fun dec :: "nat \<Rightarrow> string" where
  "dec n = (if n < 10 then [chr (48 + n)] else dec (n div 10) @ [chr (48 + n mod 10)])"

declare dec.simps [simp del]

lemma dec_value_snoc [simp]: "dec_value (ds @ [c]) = 10 * dec_value ds + (chval c - 48)"
  by (simp add: dec_value_def)

lemma isdigit_chr: "n < 10 \<Longrightarrow> isdigit (chr (48 + n))"
  by (simp add: isdigit_def chval_chr)

lemma dec_digits: "list_all isdigit (dec n)"
  by (induction n rule: dec.induct) (subst dec.simps, simp add: isdigit_chr)

lemma dec_not_Nil [simp]: "dec n \<noteq> []"
  by (subst dec.simps) simp

lemma dec_value_dec [simp]: "dec_value (dec n) = n"
proof (induction n rule: dec.induct)
  case (1 n)
  show ?case
  proof (cases "n < 10")
    case True
    then show ?thesis by (simp add: dec.simps [of n] dec_value_def chval_chr)
  next
    case False
    then show ?thesis using 1 by (simp add: dec.simps [of n] chval_chr)
  qed
qed

lemma length_dec: "n < 10 ^ k \<Longrightarrow> 0 < k \<Longrightarrow> length (dec n) \<le> k"
proof (induction n arbitrary: k rule: dec.induct)
  case (1 n)
  show ?case
  proof (cases "n < 10")
    case True
    then show ?thesis using 1 by (simp add: dec.simps [of n])
  next
    case False
    obtain k' where k: "k = Suc k'" using 1(3) by (cases k) auto
    with False 1(2) have "0 < k'" by (cases k') auto
    moreover have "n div 10 < 10 ^ k'" using 1(2) k by (simp add: div_less_iff_less_mult mult.commute)
    ultimately show ?thesis using 1(1) [of k'] False k by (simp add: dec.simps [of n])
  qed
qed

lemma digits_scan:
  "list_all isdigit ds \<Longrightarrow> \<not> isdigit (first_char r) \<Longrightarrow>
    takeWhile isdigit (ds @ r) = ds \<and> dropWhile isdigit (ds @ r) = r"
  by (induction ds) (auto simp: first_char_def split: list.splits)

text \<open>\<open>strtoll\<close> reads a printed number back and stops behind it.\<close>

lemma strtoll_dec:
  assumes "n < 2 ^ 63" "\<not> isdigit (first_char r)"
  shows "strtoll (dec n @ r) = (int n, r)"
proof -
  obtain c ds where d: "dec n = c # ds" using dec_not_Nil [of n] by (cases "dec n") auto
  then have c: "isdigit c" using dec_digits [of n] by simp
  then have "\<not> isspace c" "c \<noteq> CHR ''-''" "c \<noteq> CHR ''+''"
    by (auto simp: isdigit_def isspace_def)
  moreover have "min (int n) (2 ^ 63 - 1) = int n" using assms(1) by (simp add: min_def)
  ultimately show ?thesis
    using digits_scan [OF dec_digits [of n] assms(2)] d dec_value_dec [of n]
    by (simp add: strtoll_def first_char_def)
qed

lemma not_isdigit_NUL [simp]: "\<not> isdigit NUL"
  by (simp add: isdigit_def)

section \<open>Lists\<close>

lemma length_filter_mono_in:
  "(\<And>x. x \<in> set xs \<Longrightarrow> P x \<Longrightarrow> Q x) \<Longrightarrow> length (filter P xs) \<le> length (filter Q xs)"
  by (induction xs) (auto simp: le_SucI)

lemma bind_SomeE:
  assumes "Option.bind m f = Some y"
  obtains x where "m = Some x" "f x = Some y"
  using assms by (cases m) auto

section \<open>Bit-level facts on bytes\<close>

lemma unat_u8_less [simp, swad_bound]: "unat (w :: u8) < 256"
  using unsigned_less [of w, where ?'a = nat] by simp

lemma u8_eqI:
  fixes a b :: u8
  assumes "bit a 0 = bit b 0" "bit a 1 = bit b 1" "bit a 2 = bit b 2" "bit a 3 = bit b 3"
    "bit a 4 = bit b 4" "bit a 5 = bit b 5" "bit a 6 = bit b 6" "bit a 7 = bit b 7"
  shows "a = b"
proof (rule bit_word_eqI)
  fix n assume "n < LENGTH(8)"
  then have "n = 0 \<or> n = 1 \<or> n = 2 \<or> n = 3 \<or> n = 4 \<or> n = 5 \<or> n = 6 \<or> n = 7"
    by simp arith
  with assms show "bit a n = bit b n" by blast
qed

end
