(* ===== verification/Str_Util.thy ===== *)
theory Str_Util
  imports Swad_Prelude
begin

text \<open>
  \<open>util.c\<close> and \<open>util.h\<close>: lower-casing and joining strings, the string hash and the masks of
  the hash tables, and the growing output buffer every encoder writes to.

  An output buffer (\<open>char **str, size_t *size, size_t *pos\<close>) is an \<open>obuf\<close>: its cells, one per
  allocated byte and \<^term>\<open>None\<close> while the byte is indeterminate, and the position of the next
  write. A write outside the allocated cells would be lost (\<^term>\<open>list_update\<close> drops it), so
  \<open>contents_appendchr\<close> below also says that no write leaves the allocation.
\<close>

section \<open>Strings\<close>

definition lowerstr :: "string \<Rightarrow> string" where
  "lowerstr src = map tolower src"

text \<open>
  \<open>joinstr\<close> copies the first string, then the delimiter and the next one for each further
  string of the null-terminated array; it returns a null pointer for an empty array.
\<close>

fun joinstr_rest :: "string \<Rightarrow> string list \<Rightarrow> string" where
  "joinstr_rest delim [] = []"
| "joinstr_rest delim (s # ss) = delim @ s @ joinstr_rest delim ss"

definition joinstr :: "string \<Rightarrow> string list \<Rightarrow> string option" where
  "joinstr delim strings =
     (case strings of [] \<Rightarrow> None | s # ss \<Rightarrow> Some (s @ joinstr_rest delim ss))"

text \<open>The size \<open>joinstr\<close> allocates, without the terminating NUL.\<close>

definition joinstr_size :: "string \<Rightarrow> string list \<Rightarrow> nat" where
  "joinstr_size delim strings =
     (let n = length strings; rlen = sum_list (map length strings)
      in if n > 1 then rlen + (n - 1) * length delim else rlen)"

lemma lowerstr_simps [simp]:
  "lowerstr [] = []"
  "length (lowerstr s) = length s"
  "lowerstr (lowerstr s) = lowerstr s"
  "nulfree (lowerstr s) = nulfree s"
  by (simp_all add: lowerstr_def nulfree_def image_iff) (metis tolower_NUL_iff)

lemma lowerstr_eq_iff: "lowerstr a = lowerstr b \<longleftrightarrow> strcaseeq a b"
  by (simp add: lowerstr_def strcaseeq_def)

lemma length_joinstr_rest:
  "length (joinstr_rest delim ss) = length ss * length delim + sum_list (map length ss)"
  by (induction ss) auto

lemma length_joinstr: "joinstr delim ss = Some r \<Longrightarrow> length r = joinstr_size delim ss"
  by (auto simp: joinstr_def joinstr_size_def length_joinstr_rest Let_def split: list.splits)

section \<open>The string hash\<close>

fun hashstr_loop :: "u64 \<Rightarrow> string \<Rightarrow> u64" where
  "hashstr_loop h [] = h"
| "hashstr_loop h (c # key) = hashstr_loop (h + (push_bit 5 h + of_nat (chval c))) key"

definition hashstr :: "string \<Rightarrow> u8 \<Rightarrow> u8" where
  "hashstr key msk = ucast (hashstr_loop 5381 key AND ucast msk)"

definition HT_MASK :: "nat \<Rightarrow> u8" where
  "HT_MASK bits = ucast ((push_bit bits 1 - 1 :: 32 word) AND 0xff)"

definition HT_SIZE :: "nat \<Rightarrow> nat" where
  "HT_SIZE bits = unat (HT_MASK bits) + 1"

definition hash :: "string \<Rightarrow> nat \<Rightarrow> u8" where
  "hash key bits = hashstr key (HT_MASK bits)"

lemma hashstr_le_mask: "hashstr key m \<le> m"
proof -
  have "hashstr key m = ucast (hashstr_loop 5381 key) AND m"
    by (rule bit_eqI) (auto simp: hashstr_def bit_simps)
  then show ?thesis by (simp add: word_and_le1)
qed

lemma hash_bound [simp, swad_bound]: "unat (hash key bits) < HT_SIZE bits"
  using hashstr_le_mask [of key "HT_MASK bits"]
  by (simp add: hash_def HT_SIZE_def word_le_nat_alt)

lemma HT_SIZE_values: "HT_SIZE 4 = 16" "HT_SIZE 5 = 32" "HT_SIZE 6 = 64" "HT_SIZE 8 = 256"
  by (simp_all add: HT_SIZE_def HT_MASK_def)

section \<open>The growing output buffer\<close>

record obuf =
  cells :: "char option list"
  opos :: nat

definition obuf_alloc :: "nat \<Rightarrow> obuf" where
  "obuf_alloc sz = \<lparr>cells = replicate sz None, opos = 0\<rparr>"

definition appendchr :: "nat \<Rightarrow> char \<Rightarrow> obuf \<Rightarrow> obuf" where
  "appendchr chunksz c b =
     (let b1 = (if opos b \<ge> length (cells b)
                then b\<lparr>cells := cells b @ replicate chunksz None\<rparr> else b)
      in b1\<lparr>cells := (cells b1)[opos b1 := Some c], opos := opos b1 + 1\<rparr>)"

definition appendstrlit :: "nat \<Rightarrow> string \<Rightarrow> obuf \<Rightarrow> obuf" where
  "appendstrlit chunksz lit b = fold (appendchr chunksz) lit b"

text \<open>The bytes written so far, and the invariant: they lie inside the allocation.\<close>

definition contents :: "obuf \<Rightarrow> string" where
  "contents b = map the (take (opos b) (cells b))"

definition obuf_inv :: "obuf \<Rightarrow> bool" where
  "obuf_inv b \<longleftrightarrow> opos b \<le> length (cells b) \<and> None \<notin> set (take (opos b) (cells b))"

lemma obuf_alloc_simps [simp]:
  "obuf_inv (obuf_alloc n)" "contents (obuf_alloc n) = []" "opos (obuf_alloc n) = 0"
  by (simp_all add: obuf_alloc_def obuf_inv_def contents_def)

lemma length_contents [simp]: "obuf_inv b \<Longrightarrow> length (contents b) = opos b"
  by (simp add: obuf_inv_def contents_def)

lemma appendchr_take:
  assumes "0 < chunksz" "obuf_inv b"
  shows "take (opos b + 1) (cells (appendchr chunksz c b)) = take (opos b) (cells b) @ [Some c]"
    and "opos b + 1 \<le> length (cells (appendchr chunksz c b))"
    and "opos (appendchr chunksz c b) = opos b + 1"
  using assms by (auto simp: appendchr_def Let_def obuf_inv_def take_Suc_conv_app_nth)

lemma obuf_inv_appendchr [simp, swad_inv]:
  "0 < chunksz \<Longrightarrow> obuf_inv b \<Longrightarrow> obuf_inv (appendchr chunksz c b)"
  using appendchr_take [of chunksz b c] by (simp add: obuf_inv_def)

lemma contents_appendchr [simp]:
  "0 < chunksz \<Longrightarrow> obuf_inv b \<Longrightarrow> contents (appendchr chunksz c b) = contents b @ [c]"
  using appendchr_take [of chunksz b c] by (simp add: contents_def)

lemma appendstrlit_spec [simp, swad_inv]:
  assumes "0 < chunksz" "obuf_inv b"
  shows "obuf_inv (appendstrlit chunksz s b)"
    and "contents (appendstrlit chunksz s b) = contents b @ s"
proof -
  have "obuf_inv (appendstrlit chunksz s b) \<and> contents (appendstrlit chunksz s b) = contents b @ s"
    using assms(2)
  proof (induction s arbitrary: b)
    case Nil
    then show ?case by (simp add: appendstrlit_def)
  next
    case (Cons c s)
    have "appendstrlit chunksz (c # s) b = appendstrlit chunksz s (appendchr chunksz c b)"
      by (simp add: appendstrlit_def)
    with Cons assms(1) show ?case by simp
  qed
  then show "obuf_inv (appendstrlit chunksz s b)"
    "contents (appendstrlit chunksz s b) = contents b @ s" by blast+
qed

end
