(* ===== verification/Base64.thy ===== *)
theory Base64
  imports Str_Util
begin

text \<open>
  \<open>base64.c\<close>: encoding bytes without padding and decoding them again. The tokens swad hands
  out (session ids, CSRF tokens) are random bytes in this encoding. A loop over
  \<open>data[pos]\<close> is a recursion over the bytes from \<open>pos\<close> on.
\<close>

definition base64encsz :: "nat \<Rightarrow> nat" where
  "base64encsz sz =
     (let res = sz mod 3; res = (if res \<noteq> 0 then res + 1 else res) in 4 * (sz div 3) + res)"

definition base64decsz :: "nat \<Rightarrow> nat" where
  "base64decsz sz =
     (let res = sz mod 4; res = (if res > 1 then res - 1 else res) in 3 * (sz div 4) + res)"

definition enc1 :: "u8 \<Rightarrow> char" where
  "enc1 v =
     (let v = v AND 0x3f
      in if v < 0x1a then chr (chval CHR ''A'' + unat v)
         else if v < 0x34 then chr (chval CHR ''a'' + unat (v - 0x1a))
         else if v < 0x3e then chr (chval CHR ''0'' + unat (v - 0x34))
         else if v = 0x3e then CHR ''+'' else CHR ''/'')"

definition dec1 :: "char \<Rightarrow> u8" where
  "dec1 c =
     (if isupper c then of_nat (chval c - chval CHR ''A'')
      else if islower c then of_nat (chval c - chval CHR ''a'' + 0x1a)
      else if isdigit c then of_nat (chval c - chval CHR ''0'' + 0x34)
      else if c = CHR ''+'' then 0x3e
      else 0x3f)"

fun base64enc_loop :: "u8 list \<Rightarrow> string" where
  "base64enc_loop (a # b # c # r) =
     [enc1 (drop_bit 2 a),
      enc1 (push_bit 4 a OR drop_bit 4 b),
      enc1 (push_bit 2 b OR drop_bit 6 c),
      enc1 c] @ base64enc_loop r"
| "base64enc_loop [a, b] =
     [enc1 (drop_bit 2 a), enc1 (push_bit 4 a OR drop_bit 4 b), enc1 (push_bit 2 b)]"
| "base64enc_loop [a] = [enc1 (drop_bit 2 a), enc1 (push_bit 4 a)]"
| "base64enc_loop [] = []"

definition base64enc :: "u8 list \<Rightarrow> nat \<Rightarrow> string" where
  "base64enc data sz = base64enc_loop (take sz data) @ [NUL]"

fun base64dec_loop :: "string \<Rightarrow> u8 list" where
  "base64dec_loop (c1 # c2 # c3 # c4 # r) =
     (let b1 = dec1 c1; b2 = dec1 c2; b3 = dec1 c3
      in [push_bit 2 b1 OR drop_bit 4 b2,
          push_bit 4 b2 OR drop_bit 2 b3,
          push_bit 6 b3 OR dec1 c4] @ base64dec_loop r)"
| "base64dec_loop [c1, c2, c3] =
     (let b1 = dec1 c1; b2 = dec1 c2; b3 = dec1 c3
      in [push_bit 2 b1 OR drop_bit 4 b2, push_bit 4 b2 OR drop_bit 2 b3])"
| "base64dec_loop [c1, c2] = [push_bit 2 (dec1 c1) OR drop_bit 4 (dec1 c2)]"
| "base64dec_loop [c1] = []"
| "base64dec_loop [] = []"

definition base64dec :: "string \<Rightarrow> nat \<Rightarrow> u8 list" where
  "base64dec enc sz = base64dec_loop (take sz enc)"

section \<open>The alphabet\<close>

lemma unat_sub_ge: "\<not> w < v \<Longrightarrow> unat (w - v) = unat w - unat (v :: 'a::len word)"
  by (simp add: unat_sub not_less)

lemma enc1_cases:
  obtains (upper) n where "n < 26" "v AND 0x3f = of_nat n" "enc1 v = chr (65 + n)"
  | (lower) n where "n < 26" "v AND 0x3f = of_nat (n + 26)" "enc1 v = chr (97 + n)"
  | (digit) n where "n < 10" "v AND 0x3f = of_nat (n + 52)" "enc1 v = chr (48 + n)"
  | (plus) "v AND 0x3f = 0x3e" "enc1 v = CHR ''+''"
  | (slash) "v AND 0x3f = 0x3f" "enc1 v = CHR ''/''"
proof -
  define w where "w = v AND 0x3f"
  have le: "unat w \<le> 63"
    using word_and_le1 [of v "0x3f"] unfolding w_def word_le_nat_alt by simp
  have w: "w = of_nat (unat w)" by simp
  consider "unat w < 26" | "26 \<le> unat w" "unat w < 52" | "52 \<le> unat w" "unat w < 62"
    | "unat w = 62" | "unat w = 63" using le by linarith
  then show thesis
  proof cases
    case 1
    then show thesis
      by (intro upper [of "unat w"]) (simp_all add: enc1_def w_def [symmetric] word_less_nat_alt)
  next
    case 2
    then show thesis
      by (intro lower [of "unat w - 26"])
        (simp_all add: enc1_def w_def [symmetric] word_less_nat_alt unat_sub_ge)
  next
    case 3
    then show thesis
      by (intro digit [of "unat w - 52"])
        (simp_all add: enc1_def w_def [symmetric] word_less_nat_alt unat_sub_ge)
  next
    case 4
    then have "w = 62" by (simp add: word_unat_eq_iff)
    then show thesis
      by (intro plus) (simp_all add: enc1_def w_def [symmetric])
  next
    case 5
    then have "w = 63" by (simp add: word_unat_eq_iff)
    then show thesis
      by (intro slash) (simp_all add: enc1_def w_def [symmetric])
  qed
qed

lemma dec1_enc1: "dec1 (enc1 v) = v AND 0x3f"
  by (cases v rule: enc1_cases)
    (simp_all add: dec1_def isupper_def islower_def isdigit_def chval_chr)

lemma enc1_alphabet: "isupper (enc1 v) \<or> islower (enc1 v) \<or> isdigit (enc1 v) \<or> enc1 v \<in> set ''+/''"
  by (cases v rule: enc1_cases)
    (simp_all add: isupper_def islower_def isdigit_def chval_chr)

lemma enc1_not_NUL [simp]: "enc1 v \<noteq> NUL"
  using enc1_alphabet [of v] by (auto simp: isupper_def islower_def isdigit_def)

text \<open>Reassembling the bits the encoder spread over four characters.\<close>

lemma bits_first:
  "push_bit 2 (drop_bit 2 a AND 0x3f) OR drop_bit 4 ((push_bit 4 a OR drop_bit 4 b) AND 0x3f) = (a :: u8)"
  by (rule u8_eqI) (simp_all add: bit_simps)

lemma bits_second:
  "push_bit 4 ((push_bit 4 a OR drop_bit 4 b) AND 0x3f)
    OR drop_bit 2 ((push_bit 2 b OR drop_bit 6 c) AND 0x3f) = (b :: u8)"
  by (rule u8_eqI) (simp_all add: bit_simps)

lemma bits_third: "push_bit 6 ((push_bit 2 b OR drop_bit 6 c) AND 0x3f) OR (c AND 0x3f) = (c :: u8)"
  by (rule u8_eqI) (simp_all add: bit_simps)

lemma dec_enc_bytes [simp]:
  "push_bit 2 (dec1 (enc1 (drop_bit 2 a))) OR drop_bit 4 (dec1 (enc1 (push_bit 4 a OR drop_bit 4 b))) = a"
  "push_bit 2 (dec1 (enc1 (drop_bit 2 a))) OR drop_bit 4 (dec1 (enc1 (push_bit 4 a))) = a"
  "push_bit 4 (dec1 (enc1 (push_bit 4 a OR drop_bit 4 b)))
    OR drop_bit 2 (dec1 (enc1 (push_bit 2 b OR drop_bit 6 c))) = b"
  "push_bit 4 (dec1 (enc1 (push_bit 4 a OR drop_bit 4 b)))
    OR drop_bit 2 (dec1 (enc1 (push_bit 2 b))) = b"
  "push_bit 6 (dec1 (enc1 (push_bit 2 b OR drop_bit 6 c))) OR dec1 (enc1 c) = c"
  unfolding dec1_enc1 using bits_first [of a b] bits_first [of a 0]
    bits_second [of a b c] bits_second [of a b 0] bits_third [of b c]
  by (simp_all only: drop_bit_of_0 or.right_neutral)

section \<open>Sizes and the round trip\<close>

lemma base64dec_enc_loop: "base64dec_loop (base64enc_loop data) = data"
  by (induction data rule: base64enc_loop.induct)
    (simp_all add: Let_def)

lemma base64encsz_Suc3 [simp]: "base64encsz (Suc (Suc (Suc n))) = Suc (Suc (Suc (Suc (base64encsz n))))"
proof -
  have "Suc (Suc (Suc n)) div 3 = Suc (n div 3)" "Suc (Suc (Suc n)) mod 3 = n mod 3" by presburger+
  then show ?thesis unfolding base64encsz_def Let_def by simp
qed

lemma base64encsz_small [simp]: "base64encsz 0 = 0" "base64encsz (Suc 0) = 2" "base64encsz (Suc (Suc 0)) = 3"
  by (simp_all add: base64encsz_def)

lemma length_base64enc_loop [simp]: "length (base64enc_loop data) = base64encsz (length data)"
  by (induction data rule: base64enc_loop.induct) simp_all

lemma base64decsz_Suc4 [simp]:
  "base64decsz (Suc (Suc (Suc (Suc n)))) = Suc (Suc (Suc (base64decsz n)))"
proof -
  have "Suc (Suc (Suc (Suc n))) div 4 = Suc (n div 4)" "Suc (Suc (Suc (Suc n))) mod 4 = n mod 4"
    by presburger+
  then show ?thesis unfolding base64decsz_def Let_def by simp
qed

lemma base64decsz_small [simp]:
  "base64decsz 0 = 0" "base64decsz (Suc 0) = 1" "base64decsz (Suc (Suc 0)) = 1"
  "base64decsz (Suc (Suc (Suc 0))) = 2"
  by (simp_all add: base64decsz_def)

lemma mod4_Suc4: "Suc (Suc (Suc (Suc n))) mod 4 = n mod 4"
  by presburger

lemma length_base64dec_loop [simp]: "length s mod 4 \<noteq> 1 \<Longrightarrow> length (base64dec_loop s) = base64decsz (length s)"
  by (induction s rule: base64dec_loop.induct) (simp_all add: Let_def mod4_Suc4)

lemma base64encsz_eq: "r < 3 \<Longrightarrow> base64encsz (3 * q + r) = 4 * q + (if r = 0 then 0 else r + 1)"
  by (simp add: base64encsz_def Let_def)

lemma base64decsz_eq: "r < 4 \<Longrightarrow> base64decsz (4 * q + r) = 3 * q + (if r > 1 then r - 1 else r)"
  by (simp add: base64decsz_def Let_def)

lemma base64decsz_encsz [simp]: "base64decsz (base64encsz n) = n"
proof -
  define q r where "q = n div 3" and "r = n mod 3"
  then have n: "n = 3 * q + r" and r: "r < 3" by simp_all
  define r' where "r' = (if r = 0 then 0 else r + 1)"
  have "base64encsz n = 4 * q + r'" using r by (simp add: n base64encsz_eq r'_def)
  moreover have "r' < 4" using r by (simp add: r'_def)
  ultimately have "base64decsz (base64encsz n) = 3 * q + (if r' > 1 then r' - 1 else r')"
    by (simp only: base64decsz_eq)
  then show ?thesis by (auto simp: n r'_def)
qed

text \<open>
  \<open>base64decsz m\<close> is the number of bytes whose encoding fits into \<open>m\<close> characters, except
  where \<open>m\<close> leaves a remainder of 1: there it is one byte too many.
\<close>

lemma base64encsz_decsz:
  "base64encsz (base64decsz m) = (if m mod 4 = 1 then m + 1 else m)"
proof -
  define q r where "q = m div 4" and "r = m mod 4"
  then have m: "m = 4 * q + r" and r: "r < 4" by simp_all
  define r' where "r' = (if r > 1 then r - 1 else r)"
  have "base64decsz m = 3 * q + r'" using r by (simp add: m base64decsz_eq r'_def)
  moreover have "r' < 3" using r by (auto simp: r'_def)
  ultimately have "base64encsz (base64decsz m) = 4 * q + (if r' = 0 then 0 else r' + 1)"
    by (simp only: base64encsz_eq)
  then show ?thesis using r by (auto simp: m r'_def)
qed

lemma nulfree_base64enc_loop [simp]: "nulfree (base64enc_loop data)"
  by (induction data rule: base64enc_loop.induct) simp_all

section \<open>Property\<close>

text \<open>
  Decoding the encoding of any bytes gives them back, the encoder stores exactly
  \<open>base64encsz\<close> characters and one NUL, none of them earlier, and \<open>base64decsz\<close> of that
  size is the number of bytes again.
\<close>

theorem base64_roundtrip:
  "base64dec (base64enc data (length data)) (base64encsz (length data)) = data
   \<and> length (base64enc data (length data)) = base64encsz (length data) + 1
   \<and> length (cstr (base64enc data (length data))) = base64encsz (length data)
   \<and> base64decsz (base64encsz (length data)) = length data"
  by (simp add: base64enc_def base64dec_def base64dec_enc_loop cstr_append_NUL)

end
