(* ===== verification/Rnd.thy ===== *)
theory Rnd
  imports Base64
begin

text \<open>
  \<open>random.c\<close>: random bytes and random tokens. What the kernel's \<open>getrandom\<close> answers is a
  parameter, the list of its answers in order; a function that needs more answers than the list
  holds has not returned yet, which is \<^term>\<open>None\<close>. The fallback generator keeps its state in
  static variables behind a mutex.
\<close>

section \<open>The fallback generator\<close>

record prng_state =
  pr_locked :: bool
  pr_seeded :: bool
  pr_s0 :: u64
  pr_s1 :: u64
  pr_s2 :: u64
  pr_s3 :: u64

definition prng_static :: prng_state where
  "prng_static = \<lparr>pr_locked = False, pr_seeded = False, pr_s0 = 0, pr_s1 = 0, pr_s2 = 0, pr_s3 = 0\<rparr>"

text \<open>One round of the generator, on the four words of its state.\<close>

definition prng_round :: "prng_state \<Rightarrow> u64 \<times> prng_state" where
  "prng_round st =
     (let num = pr_s0 st + pr_s3 st;
          tmp = push_bit 17 (pr_s1 st);
          s2 = pr_s2 st XOR pr_s0 st;
          s3 = pr_s3 st XOR pr_s1 st;
          s1 = pr_s1 st XOR s2;
          s0 = pr_s0 st XOR s3;
          s2 = s2 XOR tmp;
          s3 = push_bit 45 s3 OR drop_bit 19 s3
      in (num, st\<lparr>pr_s0 := s0, pr_s1 := s1, pr_s2 := s2, pr_s3 := s3\<rparr>))"

text \<open>
  \<open>prng\<close> locks its mutex, seeds the generator at its first call, computes one round and
  unlocks. Seeding calls \<open>prng\<close> itself a hundred times. The mutex is a default one, so locking it
  again in the thread that holds it does not return: \<^term>\<open>None\<close>. The first argument bounds the
  depth of the recursion; \<open>now\<close> is the time.
\<close>

fun prng :: "nat \<Rightarrow> u64 \<Rightarrow> prng_state \<Rightarrow> (u64 \<times> prng_state) option" where
  "prng 0 now st = None"
| "prng (Suc d) now st =
     (if pr_locked st then None
      else
        (let st = st\<lparr>pr_locked := True\<rparr>;
             seeded =
               (if pr_seeded st then Some st
                else
                  foldl (\<lambda>r i. Option.bind r (\<lambda>s. map_option snd (prng d now s)))
                    (Some (st\<lparr>pr_seeded := True, pr_s0 := now\<rparr>)) [0..<100])
         in case seeded of
              None \<Rightarrow> None
            | Some st \<Rightarrow>
                (let (num, st) = prng_round st in Some (num, st\<lparr>pr_locked := False\<rparr>))))"

section \<open>Random bytes\<close>

text \<open>The answers of \<open>getrandom\<close>: some bytes, an error worth retrying, any other error.\<close>

datatype getrandom_answer = Delivered "u8 list" | Again | Failed

text \<open>
  The first loop of \<open>getRndBytes\<close>: the bytes obtained, and whether the loop ended by a failure.
  A kernel never delivers more than it was asked for.
\<close>

fun getrandom_loop :: "getrandom_answer list \<Rightarrow> nat \<Rightarrow> u8 list \<Rightarrow> u8 list option" where
  "getrandom_loop answers num buf =
     (if length buf < num
      then (case answers of
          [] \<Rightarrow> None
        | Again # r \<Rightarrow> getrandom_loop r num buf
        | Failed # r \<Rightarrow> Some buf
        | Delivered bs # r \<Rightarrow> getrandom_loop r num (buf @ bs))
      else Some buf)"

declare getrandom_loop.simps [simp del]

definition le_bytes :: "u64 \<Rightarrow> u8 list" where
  "le_bytes w = map (\<lambda>i. ucast (drop_bit (8 * i) w)) [0..<8]"

fun prng_chunks :: "nat \<Rightarrow> u64 \<Rightarrow> prng_state \<Rightarrow> nat \<Rightarrow> u8 list \<Rightarrow> (u8 list \<times> prng_state) option" where
  "prng_chunks d now st 0 buf = Some (buf, st)"
| "prng_chunks d now st (Suc n) buf =
     (case prng d now st of
        None \<Rightarrow> None
      | Some (rn, st) \<Rightarrow> prng_chunks d now st n (buf @ le_bytes rn))"

definition getRndBytes ::
  "nat \<Rightarrow> u64 \<Rightarrow> getrandom_answer list \<Rightarrow> prng_state \<Rightarrow> nat \<Rightarrow> (u8 list \<times> prng_state) option" where
  "getRndBytes d now answers st num =
     (case getrandom_loop answers num [] of
        None \<Rightarrow> None
      | Some buf \<Rightarrow>
          if length buf < num
          then
            (let chunks = (num - length buf) div 8; bytes = (num - length buf) mod 8;
                 r = (if bytes \<noteq> 0
                      then (case prng d now st of
                              None \<Rightarrow> None
                            | Some (rn, st) \<Rightarrow> Some (buf @ take bytes (le_bytes rn), st))
                      else Some (buf, st))
             in case r of
                  None \<Rightarrow> None
                | Some (buf, st) \<Rightarrow> prng_chunks d now st chunks buf)
          else Some (buf, st))"

section \<open>Random strings\<close>

text \<open>
  \<open>getRndStr\<close> reduces \<open>num\<close> so that the encoding fits into \<open>size\<close> bytes; its result is what it
  writes to \<open>str\<close>, the NUL included, whether or not that fits.
\<close>

definition getRndStr_num :: "nat \<Rightarrow> nat \<Rightarrow> nat" where
  "getRndStr_num sz num =
     (let reqsz = base64encsz num + 1 in if sz < reqsz then base64decsz (sz - 1) else num)"

definition getRndStr ::
  "nat \<Rightarrow> u64 \<Rightarrow> getrandom_answer list \<Rightarrow> prng_state \<Rightarrow> nat \<Rightarrow> nat \<Rightarrow> (string \<times> prng_state) option" where
  "getRndStr d now answers st sz num =
     (let num = getRndStr_num sz num
      in case getRndBytes d now answers st num of
           None \<Rightarrow> None
         | Some (buf, st) \<Rightarrow> Some (base64enc buf num, st))"

definition createRndStr ::
  "nat \<Rightarrow> u64 \<Rightarrow> getrandom_answer list \<Rightarrow> prng_state \<Rightarrow> nat \<Rightarrow> (string \<times> prng_state) option" where
  "createRndStr d now answers st num = getRndStr d now answers st (base64encsz num + 1) num"

section \<open>Lemmas\<close>

definition delivered :: "getrandom_answer list \<Rightarrow> u8 list" where
  "delivered answers = concat (map (\<lambda>a. case a of Delivered bs \<Rightarrow> bs | _ \<Rightarrow> []) answers)"

text \<open>The kernel honours requests for \<open>num\<close> bytes: no failure, never more than asked for.\<close>

definition entropy_ok :: "getrandom_answer list \<Rightarrow> nat \<Rightarrow> bool" where
  "entropy_ok answers num \<longleftrightarrow> Failed \<notin> set answers \<and> length (delivered answers) = num"

lemma getrandom_loop_delivered:
  "Failed \<notin> set answers \<Longrightarrow> length buf + length (delivered answers) = num
    \<Longrightarrow> getrandom_loop answers num buf = Some (buf @ delivered answers)"
proof (induction answers arbitrary: buf)
  case Nil
  then show ?case by (simp add: delivered_def getrandom_loop.simps [of "[]"])
next
  case (Cons a r)
  show ?case
  proof (cases "length buf < num")
    case True
    then show ?thesis
      using Cons.IH [of buf] Cons.IH [of "buf @ (case a of Delivered bs \<Rightarrow> bs | _ \<Rightarrow> [])"] Cons.prems
      by (cases a) (simp_all add: getrandom_loop.simps [of "_ # r"] delivered_def)
  next
    case False
    then have "length (delivered (a # r)) = 0" using Cons.prems(2) by linarith
    then have "delivered (a # r) = []" by simp
    then show ?thesis using False by (simp add: getrandom_loop.simps [of "_ # r"])
  qed
qed

lemma getRndBytes_entropy:
  "entropy_ok answers num \<Longrightarrow> getRndBytes d now answers st num = Some (delivered answers, st)"
  by (simp add: getRndBytes_def entropy_ok_def getrandom_loop_delivered)

lemma length_le_bytes [simp]: "length (le_bytes w) = 8"
  by (simp add: le_bytes_def)

lemma length_prng_chunks:
  "prng_chunks d now st n buf = Some (r, st') \<Longrightarrow> length r = length buf + 8 * n"
proof (induction n arbitrary: st buf)
  case (Suc n)
  then obtain rn st1 where "prng d now st = Some (rn, st1)"
    "prng_chunks d now st1 n (buf @ le_bytes rn) = Some (r, st')"
    by (auto split: option.splits)
  with Suc.IH [of st1 "buf @ le_bytes rn"] show ?case by simp
qed simp

lemma foldl_bind_None: "foldl (\<lambda>r i. Option.bind r f) None xs = None"
  by (induction xs) simp_all

lemma prng_unseeded: "\<not> pr_seeded st \<Longrightarrow> prng d now st = None"
proof (cases d)
  case (Suc d')
  assume u: "\<not> pr_seeded st"
  have locked: "prng d' now s = None" if "pr_locked s" for s
    using that by (cases d') simp_all
  have "[0..<100] = 0 # [1..<100::nat]" by (simp add: upt_conv_Cons)
  then show ?thesis using u by (simp add: Suc Let_def locked foldl_bind_None)
qed simp

lemma mod4_Suc_eq_2: "k mod 4 = 1 \<longleftrightarrow> Suc k mod 4 = 2"
  by (cases "Suc (k mod 4) = 4") (auto simp: mod_Suc)

section \<open>Properties\<close>

text \<open>
  A random token. While the kernel delivers, \<open>getRndStr\<close> stores the NUL-terminated encoding of
  exactly the delivered bytes, from which they can be decoded again; \<open>createRndStr\<close>'s buffer is
  exactly filled. A \<open>size\<close> that is too small reduces the number of bytes, so that the result
  fills \<open>size\<close>, except where \<open>size\<close> leaves a remainder of 2 modulo 4: there the terminator is
  written one byte behind the buffer.
\<close>

theorem getRndStr_token:
  assumes "0 < sz" "entropy_ok answers (getRndStr_num sz num)"
  shows "\<exists>str. getRndStr d now answers st sz num = Some (str, st)
    \<and> str = cstr str @ [NUL] \<and> base64dec (cstr str) (length (cstr str)) = delivered answers
    \<and> length str = (if base64encsz num < sz then base64encsz num + 1
                    else if sz mod 4 = 2 then sz + 1 else sz)
    \<and> (sz = base64encsz num + 1 \<longrightarrow> createRndStr d now answers st num = Some (str, st) \<and> length str = sz)"
proof -
  define n where "n = getRndStr_num sz num"
  have len: "length (delivered answers) = n" using assms(2) by (simp add: entropy_ok_def n_def)
  let ?e = "base64enc_loop (delivered answers)"
  have res: "getRndStr d now answers st sz num = Some (?e @ [NUL], st)"
    using assms(2) len
    by (simp add: getRndStr_def n_def [symmetric] getRndBytes_entropy base64enc_def Let_def)
  have "(sz - 1) mod 4 = 1 \<longleftrightarrow> sz mod 4 = 2" using mod4_Suc_eq_2 [of "sz - 1"] assms(1) by simp
  then have fill: "base64encsz (base64decsz (sz - 1)) + 1 = (if sz mod 4 = 2 then sz + 1 else sz)"
    unfolding base64encsz_decsz using assms(1) by (auto split: if_splits)
  have "length (?e @ [NUL]) = (if base64encsz num < sz then base64encsz num + 1
      else if sz mod 4 = 2 then sz + 1 else sz)"
  proof (cases "base64encsz num < sz")
    case True
    then have "n = num" by (simp add: n_def getRndStr_num_def)
    then show ?thesis using True by (simp add: len)
  next
    case False
    then have "n = base64decsz (sz - 1)" by (simp add: n_def getRndStr_num_def)
    then show ?thesis using False fill by (simp only: len length_append length_base64enc_loop) simp
  qed
  then show ?thesis
    using res by (auto simp: cstr_append_NUL base64dec_def base64dec_enc_loop createRndStr_def)
qed

theorem getRndStr_token_witness:
  "\<exists>str. getRndStr 9 0 [Again, Delivered [1], Delivered [2]] prng_static 4 5 = Some (str, prng_static)
     \<and> length str = 4
   \<and> (\<exists>str. getRndStr 9 0 [Delivered [1, 2, 3, 4]] prng_static 6 5 = Some (str, prng_static)
        \<and> length str = 7)"
  using getRndStr_token [of 4 "[Again, Delivered [1], Delivered [2]]" 5 9 0 prng_static]
    getRndStr_token [of 6 "[Delivered [1, 2, 3, 4]]" 5 9 0 prng_static]
  by (auto simp: entropy_ok_def delivered_def getRndStr_num_def base64encsz_def base64decsz_def)

text \<open>
  The fallback for a failing kernel does not work. Once \<open>getrandom\<close> has failed before all bytes
  were delivered, \<open>getRndBytes\<close> does not return, however deep its generator may recurse: seeding
  it locks the mutex it already holds.
\<close>

theorem getRndBytes_fallback_stuck:
  assumes "getrandom_loop answers num [] = Some buf" "length buf < num"
  shows "getRndBytes d now answers prng_static num = None"
proof (cases "(num - length buf) mod 8 = 0")
  case True
  moreover have "(num - length buf) div 8 \<noteq> 0" using True assms(2) by presburger
  ultimately obtain m where "(num - length buf) div 8 = Suc m" using not0_implies_Suc by blast
  with True assms show ?thesis
    by (simp add: getRndBytes_def prng_unseeded prng_static_def Let_def)
next
  case False
  with assms show ?thesis
    by (simp add: getRndBytes_def prng_unseeded prng_static_def Let_def)
qed

theorem getRndBytes_fallback_stuck_witness:
  "getRndBytes 1000 0 [Delivered [7], Failed] prng_static 20 = None"
  by (rule getRndBytes_fallback_stuck [of _ _ "[7]"]) (simp_all add: getrandom_loop.simps)

end
