(* ===== verification/Url_Code.thy ===== *)
theory Url_Code
  imports Str_Util
begin

text \<open>
  \<open>urlencode.c\<close>: percent-encoding and form-decoding. The loop of \<open>urldecode\<close> over
  \<open>str[inpos]\<close> is a recursion over the bytes from \<open>inpos\<close> to \<open>size\<close>, so the guard
  \<open>size - inpos > 1\<close> is a pattern of two more bytes. \<open>urldecode\<close> and \<open>urlencode\<close> return the
  allocated buffer, the terminating NUL included; \<open>urldecode\<close> can put NULs inside it.
\<close>

definition URL_OUTCHUNK :: nat where
  "URL_OUTCHUNK = 512"

lemma URL_OUTCHUNK_pos [simp]: "0 < URL_OUTCHUNK"
  by (simp add: URL_OUTCHUNK_def)

section \<open>Decoding\<close>

definition hexupper :: "char \<Rightarrow> bool" where
  "hexupper c \<longleftrightarrow> chval CHR ''A'' \<le> chval c \<and> chval c \<le> chval CHR ''F'' \<or> isdigit c"

definition hexupper_val :: "char \<Rightarrow> nat" where
  "hexupper_val c =
     (if chval c \<le> chval CHR ''9'' then chval c - chval CHR ''0''
      else chval c - (chval CHR ''A'' - 10))"

fun urldecode_loop :: "string \<Rightarrow> obuf \<Rightarrow> obuf" where
  "urldecode_loop [] out = out"
| "urldecode_loop (c # rest) out =
     (if c = CHR ''+'' then urldecode_loop rest (appendchr URL_OUTCHUNK CHR '' '' out)
      else if c = CHR ''%'' then
        (case rest of
          d1 # d2 # rest' \<Rightarrow>
            if hexupper d1 \<and> hexupper d2
            then urldecode_loop rest'
              (appendchr URL_OUTCHUNK (chr (hexupper_val d2 OR push_bit 4 (hexupper_val d1))) out)
            else urldecode_loop rest (appendchr URL_OUTCHUNK c out)
        | _ \<Rightarrow> urldecode_loop rest (appendchr URL_OUTCHUNK c out))
      else urldecode_loop rest (appendchr URL_OUTCHUNK c out))"

definition urldecode :: "string \<Rightarrow> nat \<Rightarrow> string" where
  "urldecode str sz =
     contents (appendchr 1 NUL (urldecode_loop (take sz str) (obuf_alloc sz)))"

section \<open>Encoding\<close>

definition url_unreserved :: "char \<Rightarrow> bool" where
  "url_unreserved c \<longleftrightarrow> isupper c \<or> islower c \<or> isdigit c \<or> c \<in> set ''-._~''"

definition hexdigit_upper :: "nat \<Rightarrow> char" where
  "hexdigit_upper n = (if n > 9 then chr (n - 10 + chval CHR ''A'') else chr (n + chval CHR ''0''))"

fun urlencodeto :: "string \<Rightarrow> obuf \<Rightarrow> obuf" where
  "urlencodeto [] out = out"
| "urlencodeto (c # str) out =
     (if url_unreserved c then urlencodeto str (appendchr URL_OUTCHUNK c out)
      else
        (let out = appendchr URL_OUTCHUNK CHR ''%'' out;
             out = appendchr URL_OUTCHUNK (hexdigit_upper (drop_bit 4 (chval c))) out;
             out = appendchr URL_OUTCHUNK (hexdigit_upper (chval c AND 15)) out
         in urlencodeto str out))"

definition urlencode :: "string \<Rightarrow> string" where
  "urlencode str =
     contents (appendchr 1 NUL (urlencodeto str (obuf_alloc (length str + URL_OUTCHUNK))))"

section \<open>What the two loops write\<close>

text \<open>The decoded and the encoded text on their own, without the buffer.\<close>

fun url_dec :: "string \<Rightarrow> string" where
  "url_dec [] = []"
| "url_dec (c # rest) =
     (if c = CHR ''+'' then CHR '' '' # url_dec rest
      else if c = CHR ''%'' then
        (case rest of
          d1 # d2 # rest' \<Rightarrow>
            if hexupper d1 \<and> hexupper d2
            then chr (16 * hexupper_val d1 + hexupper_val d2) # url_dec rest'
            else c # url_dec rest
        | _ \<Rightarrow> c # url_dec rest)
      else c # url_dec rest)"

definition url_enc :: "string \<Rightarrow> string" where
  "url_enc str =
     concat (map (\<lambda>c. if url_unreserved c then [c]
                      else [CHR ''%'', hexdigit_upper (chval c div 16), hexdigit_upper (chval c mod 16)]) str)"

lemma hexupper_val_bound [swad_bound]: "hexupper c \<Longrightarrow> hexupper_val c < 16"
  by (auto simp: hexupper_def hexupper_val_def isdigit_def)

lemma nibbles_or:
  assumes "a < 16" "b < 16"
  shows "(b :: nat) OR push_bit 4 a = 16 * a + b"
proof -
  have "take_bit 4 b = b" using assms(2) by (simp add: take_bit_nat_eq_self)
  then have "\<not> bit b n \<or> \<not> bit (push_bit 4 a) n" for n
    by (metis bit_push_bit_iff bit_take_bit_iff not_less)
  then have "b OR push_bit 4 a = b + push_bit 4 a"
    by (simp add: disjunctive_add)
  then show ?thesis by (simp add: push_bit_eq_mult)
qed

lemma and_15: "(n :: nat) AND 15 = n mod 16"
proof -
  have "(15 :: nat) = mask 4" by (simp add: mask_eq_exp_minus_1)
  then show ?thesis by (simp only: take_bit_eq_mask [symmetric]) (simp add: take_bit_eq_mod)
qed

lemma drop_bit_4: "drop_bit 4 (n :: nat) = n div 16"
  by (simp add: drop_bit_eq_div)

lemma urldecode_loop_spec:
  "obuf_inv out \<Longrightarrow> obuf_inv (urldecode_loop s out) \<and>
     contents (urldecode_loop s out) = contents out @ url_dec s"
proof (induction "length s" arbitrary: s out rule: less_induct)
  case less
  note IH = less.hyps [OF _ obuf_inv_appendchr [OF URL_OUTCHUNK_pos less.prems]]
  show ?case
  proof (cases s)
    case Nil
    then show ?thesis using less.prems by simp
  next
    case (Cons c rest)
    consider (plus) "c = CHR ''+''"
      | (escape) d1 d2 rest' where "c = CHR ''%''" "rest = d1 # d2 # rest'" "hexupper d1" "hexupper d2"
      | (percent) "c = CHR ''%''" "\<nexists>d1 d2 rest'. rest = d1 # d2 # rest' \<and> hexupper d1 \<and> hexupper d2"
      | (other) "c \<noteq> CHR ''+''" "c \<noteq> CHR ''%''" by blast
    then show ?thesis
    proof cases
      case plus
      then show ?thesis using IH [of rest] less.prems by (simp add: Cons)
    next
      case escape
      then show ?thesis using IH [of rest'] less.prems
        by (simp add: Cons nibbles_or hexupper_val_bound)
    next
      case percent
      then have "urldecode_loop (c # rest) out = urldecode_loop rest (appendchr URL_OUTCHUNK c out)"
        "url_dec (c # rest) = c # url_dec rest"
        by (cases rest rule: remdups_adj.cases; auto)+
      then show ?thesis using IH [of rest] less.prems
        by (simp add: Cons del: urldecode_loop.simps url_dec.simps)
    next
      case other
      then show ?thesis using IH [of rest] less.prems by (simp add: Cons)
    qed
  qed
qed

lemma urldecode_eq: "urldecode str sz = url_dec (take sz str) @ [NUL]"
  using urldecode_loop_spec [OF obuf_alloc_simps(1)] by (simp add: urldecode_def)

lemma urlencodeto_spec [simp]:
  assumes "obuf_inv out"
  shows "obuf_inv (urlencodeto s out)" "contents (urlencodeto s out) = contents out @ url_enc s"
proof -
  have "obuf_inv (urlencodeto s out) \<and> contents (urlencodeto s out) = contents out @ url_enc s"
    using assms
    by (induction s out rule: urlencodeto.induct)
      (auto simp: url_enc_def Let_def drop_bit_4 and_15)
  then show "obuf_inv (urlencodeto s out)" "contents (urlencodeto s out) = contents out @ url_enc s"
    by blast+
qed

lemma urlencode_eq: "urlencode s = url_enc s @ [NUL]"
  by (simp add: urlencode_def)

section \<open>Decoding undoes encoding\<close>

lemma hexdigit_upper_spec:
  assumes "n < 16"
  shows "hexupper (hexdigit_upper n)" "hexupper_val (hexdigit_upper n) = n"
  using assms
  by (auto simp: hexdigit_upper_def hexupper_def hexupper_val_def isdigit_def chval_chr)

lemma url_unreserved_plain: "url_unreserved c \<Longrightarrow> c \<noteq> CHR ''+'' \<and> c \<noteq> CHR ''%'' \<and> c \<noteq> NUL"
  by (auto simp: url_unreserved_def isupper_def islower_def isdigit_def)

lemma hexdigit_upper_unreserved: "n < 16 \<Longrightarrow> url_unreserved (hexdigit_upper n)"
  by (auto simp: hexdigit_upper_def url_unreserved_def isupper_def isdigit_def chval_chr)

lemma chval_div_16 [simp, swad_bound]: "chval c div 16 < 16"
  by (rule less_mult_imp_div_less) simp

lemma url_enc_Cons:
  "url_enc (c # s) = (if url_unreserved c then [c]
      else [CHR ''%'', hexdigit_upper (chval c div 16), hexdigit_upper (chval c mod 16)]) @ url_enc s"
  by (simp add: url_enc_def)

lemma url_dec_enc: "url_dec (url_enc s @ t) = s @ url_dec t"
proof (induction s)
  case Nil
  then show ?case by (simp add: url_enc_def)
next
  case (Cons c s)
  show ?case
  proof (cases "url_unreserved c")
    case True
    with Cons url_unreserved_plain [OF True] show ?thesis by (simp add: url_enc_Cons)
  next
    case False
    with Cons show ?thesis by (simp add: url_enc_Cons hexdigit_upper_spec)
  qed
qed

lemma set_url_enc: "c \<in> set (url_enc s) \<Longrightarrow> url_unreserved c \<or> c = CHR ''%''"
  by (auto simp: url_enc_def hexdigit_upper_unreserved split: if_splits)

lemma nulfree_url_enc [simp]: "nulfree (url_enc s)"
  using set_url_enc [of NUL s] url_unreserved_plain [of NUL] by (auto simp: nulfree_def)

lemma length_url_enc_le [swad_bound]: "length (url_enc s) \<le> 3 * length s"
  by (induction s) (auto simp: url_enc_Cons url_enc_def)

lemma length_url_dec_le [swad_bound]: "length (url_dec s) \<le> length s"
proof (induction "length s" arbitrary: s rule: less_induct)
  case less
  show ?case
  proof (cases s)
    case (Cons c rest)
    show ?thesis
      using less.hyps [of rest] less.hyps [of "tl (tl rest)"]
      by (cases rest rule: remdups_adj.cases) (auto simp: Cons)
  qed simp
qed

text \<open>A text with neither \<open>+\<close> nor \<open>%\<close> is its own decoding.\<close>

lemma url_dec_plain: "CHR ''+'' \<notin> set s \<Longrightarrow> CHR ''%'' \<notin> set s \<Longrightarrow> url_dec s = s"
  by (induction s) auto

section \<open>Properties\<close>

text \<open>
  C11: decoding what \<open>urlencode\<close> produced for a C string returns this string: for any string
  \<open>s\<close> the encoded C string decodes to the bytes of \<open>s\<close> and the terminating NUL.
\<close>

theorem urldecode_urlencode:
  "urldecode (cstr (urlencode s)) (length (cstr (urlencode s))) = s @ [NUL]"
  using url_dec_enc [of s "[]"] by (simp add: urldecode_eq urlencode_eq cstr_append_NUL)

text \<open>
  \<open>urldecode\<close> never writes more bytes than it reads, plus the terminating NUL, whatever the
  escapes in the input, and the encoder emits nothing but unreserved characters and \<open>%\<close>.
\<close>

theorem url_coding_bounds:
  "length (urldecode str sz) \<le> min sz (length str) + 1
   \<and> set (cstr (urlencode s)) \<subseteq> {c. url_unreserved c} \<union> {CHR ''%''}"
  using length_url_dec_le [of "take sz str"] set_url_enc [of _ s]
  by (auto simp: urldecode_eq urlencode_eq cstr_append_NUL)

end
