(* ===== verification/Utf8.thy ===== *)
theory Utf8
  imports Swad_Prelude
begin

text \<open>
  \<open>utf8.c\<close>: checking a C string for UTF-8 structure and repairing it. One loop serves both:
  \<open>utf8_check\<close> returns at the first bad byte, \<open>utf8_sanitize\<close> overwrites it with a question
  mark and goes on. The loop's position \<open>str\<close> is the rest of the string; \<open>l\<close> counts characters,
  \<open>rc\<close> is the result so far. The result carries the string as it is after the call and the
  count, which the early return does not deliver.
\<close>

definition cbyte :: "char \<Rightarrow> u8" where
  "cbyte c = of_nat (chval c)"

text \<open>
  \<open>unsigned x = *str\<close> sign-extends the plain char; only its six low bits are ever tested. The
  loop \<open>while (x & 0x20)\<close> shifts bit \<open>k\<close> up to bit 5 after \<open>5 - k\<close> rounds, so it makes at most
  six: that is the fuel \<open>utf8_extra\<close> gets.
\<close>

fun utf8_extra_loop :: "nat \<Rightarrow> 32 word \<Rightarrow> nat \<Rightarrow> nat" where
  "utf8_extra_loop 0 x s = s"
| "utf8_extra_loop (Suc fuel) x s =
     (if x AND 0x20 \<noteq> 0 then utf8_extra_loop fuel (push_bit 1 x) (s + 1) else s)"

definition utf8_extra :: "char \<Rightarrow> nat" where
  "utf8_extra c = utf8_extra_loop 6 (scast (cbyte c)) 1"

definition utf8_bad_lead :: "char \<Rightarrow> bool" where
  "utf8_bad_lead c \<longleftrightarrow> cbyte c AND 0xf8 = 0xf8 \<or> cbyte c AND 0xc0 \<noteq> 0xc0"

definition utf8_cont :: "char \<Rightarrow> bool" where
  "utf8_cont c \<longleftrightarrow> cbyte c AND 0xc0 = 0x80"

text \<open>
  The inner loop reads \<open>str[1]\<close> to \<open>str[s]\<close> and stops at the first byte that is no
  continuation; the terminating NUL is none, so it never reads past the string.
\<close>

definition utf8_conts :: "nat \<Rightarrow> string \<Rightarrow> bool" where
  "utf8_conts s rest \<longleftrightarrow> s \<le> length rest \<and> list_all utf8_cont (take s rest)"

function utf8_loop :: "bool \<Rightarrow> string \<Rightarrow> nat \<Rightarrow> int \<Rightarrow> int \<times> string \<times> nat option" where
  "utf8_loop sanitize [] l rc = (rc, [], Some l)"
| "utf8_loop sanitize (c # rest) l rc =
     (if cbyte c AND 0x80 \<noteq> 0 then
        if utf8_bad_lead c \<or> \<not> utf8_conts (utf8_extra c) rest then
          if \<not> sanitize then (-1, c # rest, None)
          else case utf8_loop sanitize rest (l + 1) (-1) of
            (rc', rest', len) \<Rightarrow> (rc', CHR ''?'' # rest', len)
        else case utf8_loop sanitize (drop (utf8_extra c) rest) (l + 1) rc of
          (rc', rest', len) \<Rightarrow> (rc', c # take (utf8_extra c) rest @ rest', len)
      else case utf8_loop sanitize rest (l + 1) rc of
        (rc', rest', len) \<Rightarrow> (rc', c # rest', len))"
  by pat_completeness auto
termination
  by (relation "measure (\<lambda>(sanitize, s, l, rc). length s)") auto

declare utf8_loop.simps(2) [simp del]

definition utf8_check :: "string \<Rightarrow> int \<times> nat option" where
  "utf8_check str = (case utf8_loop False str 0 0 of (rc, _, len) \<Rightarrow> (rc, len))"

definition utf8_sanitize :: "string \<Rightarrow> int \<times> string \<times> nat option" where
  "utf8_sanitize str = utf8_loop True str 0 0"

section \<open>The byte classes as ranges\<close>

text \<open>The three bit tests on a lead byte, by range of the byte's code.\<close>

definition utf8_lead :: "char \<Rightarrow> nat option" where
  "utf8_lead c =
     (let n = chval c
      in if n < 0x80 then Some 0
         else if 0xC0 \<le> n \<and> n < 0xE0 then Some 1
         else if 0xE0 \<le> n \<and> n < 0xF0 then Some 2
         else if 0xF0 \<le> n \<and> n < 0xF8 then Some 3
         else None)"

lemma bit_cbyte: "k < 8 \<Longrightarrow> bit (cbyte c) k \<longleftrightarrow> odd (chval c div 2 ^ k)"
  by (simp add: cbyte_def bit_simps bit_nat_def)

lemma u8_eq_iff: "a = b \<longleftrightarrow> (bit a 0 = bit b 0) \<and> (bit a 1 = bit b 1) \<and> (bit a 2 = bit b 2)
    \<and> (bit a 3 = bit b 3) \<and> (bit a 4 = bit b 4) \<and> (bit a 5 = bit b 5) \<and> (bit a 6 = bit b 6)
    \<and> (bit a 7 = bit (b :: u8) 7)"
  by (auto intro: u8_eqI)

lemma cbyte_and_0x80: "cbyte c AND 0x80 \<noteq> 0 \<longleftrightarrow> bit (cbyte c) 7"
  using and_exp_eq_0_iff_not_bit [of "cbyte c" 7] by simp

lemma cbyte_and_0xc0:
  "cbyte c AND 0xc0 = 0xc0 \<longleftrightarrow> bit (cbyte c) 7 \<and> bit (cbyte c) 6"
  "cbyte c AND 0xc0 = 0x80 \<longleftrightarrow> bit (cbyte c) 7 \<and> \<not> bit (cbyte c) 6"
  unfolding u8_eq_iff by (auto simp: bit_simps)

lemma cbyte_and_0xf8:
  "cbyte c AND 0xf8 = 0xf8 \<longleftrightarrow> bit (cbyte c) 7 \<and> bit (cbyte c) 6 \<and> bit (cbyte c) 5 \<and> bit (cbyte c) 4
    \<and> bit (cbyte c) 3"
  unfolding u8_eq_iff by (auto simp: bit_simps)

lemma odd_div_iff:
  assumes "even k" "k * m \<le> n" "n < (k + 2) * m"
  shows "odd (n div m) \<longleftrightarrow> (k + 1) * m \<le> (n :: nat)"
proof (cases "(k + 1) * m \<le> n")
  case True
  with assms(3) have "n div m = k + 1" by (intro div_nat_eqI) (simp_all add: algebra_simps)
  with True assms(1) show ?thesis by simp
next
  case False
  with assms(2) have "n div m = k" by (intro div_nat_eqI) (simp_all add: algebra_simps)
  with False assms(1) show ?thesis by simp
qed

lemma cbyte_bit7: "bit (cbyte c) 7 \<longleftrightarrow> 128 \<le> chval c"
  using odd_div_iff [of 0 128 "chval c"] by (simp add: bit_cbyte)

lemma cbyte_bit6: "128 \<le> chval c \<Longrightarrow> bit (cbyte c) 6 \<longleftrightarrow> 192 \<le> chval c"
  using odd_div_iff [of 2 64 "chval c"] by (simp add: bit_cbyte)

lemma cbyte_bit5: "192 \<le> chval c \<Longrightarrow> bit (cbyte c) 5 \<longleftrightarrow> 224 \<le> chval c"
  using odd_div_iff [of 6 32 "chval c"] by (simp add: bit_cbyte)

lemma cbyte_bit4: "224 \<le> chval c \<Longrightarrow> bit (cbyte c) 4 \<longleftrightarrow> 240 \<le> chval c"
  using odd_div_iff [of 14 16 "chval c"] by (simp add: bit_cbyte)

lemma cbyte_bit3: "240 \<le> chval c \<Longrightarrow> bit (cbyte c) 3 \<longleftrightarrow> 248 \<le> chval c"
  using odd_div_iff [of 30 8 "chval c"] by (simp add: bit_cbyte)

lemmas cbyte_bits = cbyte_bit7 cbyte_bit6 cbyte_bit5 cbyte_bit4 cbyte_bit3

lemma high_bit_iff: "cbyte c AND 0x80 \<noteq> 0 \<longleftrightarrow> 128 \<le> chval c"
  by (simp add: cbyte_and_0x80 cbyte_bit7)

lemma utf8_cont_iff: "utf8_cont c \<longleftrightarrow> 128 \<le> chval c \<and> chval c < 192"
  using cbyte_bits [of c] by (auto simp: utf8_cont_def cbyte_and_0xc0)

lemma utf8_bad_lead_iff: "utf8_bad_lead c \<longleftrightarrow> 248 \<le> chval c \<or> chval c < 192"
proof -
  have "cbyte c AND 0xc0 = 0xc0 \<longleftrightarrow> 192 \<le> chval c"
    using cbyte_bits [of c] by (auto simp: cbyte_and_0xc0)
  moreover have "cbyte c AND 0xf8 = 0xf8 \<longleftrightarrow> 248 \<le> chval c"
    using cbyte_bits [of c] unfolding cbyte_and_0xf8 by auto
  ultimately show ?thesis by (auto simp: utf8_bad_lead_def)
qed

lemma and_0x20: "(x :: 32 word) AND 0x20 = 0 \<longleftrightarrow> \<not> bit x 5"
  using and_exp_eq_0_iff_not_bit [of x 5] by simp

text \<open>
  The loop counts the set bits from bit 5 of the start value downwards; six rounds are enough
  for any value, since bit 5 is clear once the value has been shifted left six times.
\<close>

lemma utf8_extra_loop_eq:
  "6 \<le> fuel + k \<Longrightarrow> k \<le> 6 \<Longrightarrow>
    utf8_extra_loop fuel (push_bit k x) s = s + length (takeWhile (bit x) (rev [0..<6 - k]))"
proof (induction fuel arbitrary: k s)
  case 0
  then show ?case by simp
next
  case (Suc fuel)
  show ?case
  proof (cases "k = 6")
    case True
    then show ?thesis by (simp add: and_0x20 bit_push_bit_iff del: push_bit_numeral)
  next
    case False
    with Suc.prems have k: "k \<le> 5" by simp
    then have "6 - k = Suc (5 - k)" by simp
    then have upt: "[0..<6 - k] = [0..<5 - k] @ [5 - k]" by simp
    have IH: "utf8_extra_loop fuel (push_bit (Suc k) x) (s + 1)
        = s + 1 + length (takeWhile (bit x) (rev [0..<5 - k]))"
      using Suc.IH [of "Suc k" "s + 1"] Suc.prems k by simp
    have "push_bit 1 (push_bit k x) = push_bit (Suc k) x"
      by (simp only: push_bit_push_bit) simp
    moreover have "push_bit k x AND 0x20 \<noteq> 0 \<longleftrightarrow> bit x (5 - k)"
      using k by (simp add: and_0x20 bit_push_bit_iff)
    ultimately show ?thesis
      using IH by (simp only: utf8_extra_loop.simps upt rev_append) simp
  qed
qed

lemma utf8_extra_fuel: "utf8_extra_loop (6 + n) x s = utf8_extra_loop 6 x s"
  using utf8_extra_loop_eq [of "6 + n" 0 x s] utf8_extra_loop_eq [of 6 0 x s] by simp

lemma utf8_extra_eq:
  assumes "192 \<le> chval c" "chval c < 248"
  shows "utf8_extra c = (if 240 \<le> chval c then 3 else if 224 \<le> chval c then 2 else 1)"
proof -
  have "utf8_extra c = 1 + length (takeWhile (bit (scast (cbyte c) :: 32 word)) (rev [0..<6]))"
    using utf8_extra_loop_eq [of 6 0 "scast (cbyte c)" 1] by (simp add: utf8_extra_def)
  moreover have "rev [0..<6] = [5, 4, 3, 2, 1, 0 :: nat]"
    by (simp add: upt_rec)
  moreover have "bit (scast (cbyte c) :: 32 word) k = bit (cbyte c) k" if "k < 7" for k
    using that by (simp add: bit_simps)
  ultimately show ?thesis
    using assms cbyte_bits [of c] by simp
qed

lemma utf8_lead_Some_iff:
  "utf8_lead c = Some s \<longleftrightarrow>
     (if cbyte c AND 0x80 \<noteq> 0 then \<not> utf8_bad_lead c \<and> s = utf8_extra c else s = 0)"
  unfolding high_bit_iff utf8_bad_lead_iff
  by (auto simp: utf8_lead_def Let_def utf8_extra_eq)

section \<open>The format\<close>

text \<open>
  UTF-8 structure, as a grammar: a byte below 0x80, or a lead byte that announces one, two or
  three continuation bytes and these. The second argument counts the characters. (Overlong
  forms and surrogates are not excluded; the code does not look at them.)
\<close>

inductive utf8_seq :: "string \<Rightarrow> nat \<Rightarrow> bool" where
  empty: "utf8_seq [] 0"
| ascii: "chval c < 0x80 \<Longrightarrow> utf8_seq s n \<Longrightarrow> utf8_seq (c # s) (Suc n)"
| two: "0xC0 \<le> chval c \<Longrightarrow> chval c < 0xE0 \<Longrightarrow> utf8_cont d \<Longrightarrow> utf8_seq s n \<Longrightarrow>
    utf8_seq (c # d # s) (Suc n)"
| three: "0xE0 \<le> chval c \<Longrightarrow> chval c < 0xF0 \<Longrightarrow> utf8_cont d \<Longrightarrow> utf8_cont e \<Longrightarrow> utf8_seq s n \<Longrightarrow>
    utf8_seq (c # d # e # s) (Suc n)"
| four: "0xF0 \<le> chval c \<Longrightarrow> chval c < 0xF8 \<Longrightarrow> utf8_cont d \<Longrightarrow> utf8_cont e \<Longrightarrow> utf8_cont f \<Longrightarrow>
    utf8_seq s n \<Longrightarrow> utf8_seq (c # d # e # f # s) (Suc n)"

inductive_cases utf8_seq_ConsE: "utf8_seq (c # s) n"

definition wf_utf8 :: "string \<Rightarrow> bool" where
  "wf_utf8 s \<longleftrightarrow> (\<exists>n. utf8_seq s n)"

lemma utf8_conts_simps [simp]:
  "utf8_conts 0 r"
  "utf8_conts (Suc k) (d # r) \<longleftrightarrow> utf8_cont d \<and> utf8_conts k r"
  "\<not> utf8_conts (Suc k) []"
  by (auto simp: utf8_conts_def)

lemma utf8_conts_Suc: "utf8_conts (Suc k) r \<longleftrightarrow> (\<exists>d r'. r = d # r' \<and> utf8_cont d \<and> utf8_conts k r')"
  by (cases r) auto

lemma utf8_seq_Cons:
  "utf8_seq (c # r) n \<longleftrightarrow>
     (\<exists>k m. utf8_lead c = Some k \<and> utf8_conts k r \<and> utf8_seq (drop k r) m \<and> n = Suc m)"
proof
  assume "utf8_seq (c # r) n"
  then show "\<exists>k m. utf8_lead c = Some k \<and> utf8_conts k r \<and> utf8_seq (drop k r) m \<and> n = Suc m"
    by (rule utf8_seq_ConsE) (force simp: utf8_lead_def numeral_2_eq_2 numeral_3_eq_3)+
next
  assume "\<exists>k m. utf8_lead c = Some k \<and> utf8_conts k r \<and> utf8_seq (drop k r) m \<and> n = Suc m"
  then obtain k m where k: "utf8_lead c = Some k" "utf8_conts k r" "utf8_seq (drop k r) m" "n = Suc m"
    by blast
  from k(1) consider "k = 0" "chval c < 0x80" | "k = 1" "0xC0 \<le> chval c" "chval c < 0xE0"
    | "k = 2" "0xE0 \<le> chval c" "chval c < 0xF0" | "k = 3" "0xF0 \<le> chval c" "chval c < 0xF8"
    by (auto simp: utf8_lead_def Let_def split: if_splits)
  then show "utf8_seq (c # r) n"
    using k(2-4)
    by cases (auto simp: numeral_2_eq_2 numeral_3_eq_3 utf8_conts_Suc intro: utf8_seq.intros)
qed

lemma utf8_seq_det: "utf8_seq s n \<Longrightarrow> utf8_seq s m \<Longrightarrow> n = m"
proof (induction "length s" arbitrary: s n m rule: less_induct)
  case less
  show ?case
  proof (cases s)
    case Nil
    with less.prems show ?thesis by (auto elim: utf8_seq.cases)
  next
    case (Cons c r)
    then obtain k n' m' where "n = Suc n'" "m = Suc m'" "utf8_seq (drop k r) n'" "utf8_seq (drop k r) m'"
      using less.prems by (auto simp: utf8_seq_Cons)
    moreover have "length (drop k r) < length s" by (simp add: Cons)
    ultimately show ?thesis using less.hyps by blast
  qed
qed

text \<open>One round of the loop, by the class of the byte.\<close>

lemma utf8_loop_good:
  assumes "utf8_lead c = Some k" "utf8_conts k rest"
  shows "utf8_loop sanitize (c # rest) l rc =
    (case utf8_loop sanitize (drop k rest) (l + 1) rc of
      (rc', rest', len) \<Rightarrow> (rc', c # take k rest @ rest', len))"
  using assms by (auto simp: utf8_loop.simps utf8_lead_Some_iff split: if_splits)

lemma utf8_loop_bad:
  assumes "\<nexists>k. utf8_lead c = Some k \<and> utf8_conts k rest"
  shows "utf8_loop sanitize (c # rest) l rc =
    (if \<not> sanitize then (-1, c # rest, None)
     else case utf8_loop sanitize rest (l + 1) (-1) of
       (rc', rest', len) \<Rightarrow> (rc', CHR ''?'' # rest', len))"
  using assms by (auto simp: utf8_loop.simps utf8_lead_Some_iff split: if_splits)

lemma utf8_loop_valid: "utf8_seq s n \<Longrightarrow> utf8_loop sanitize s l rc = (rc, s, Some (l + n))"
proof (induction "length s" arbitrary: s n l rule: less_induct)
  case less
  show ?case
  proof (cases s)
    case Nil
    with less.prems show ?thesis by (auto elim: utf8_seq.cases)
  next
    case (Cons c r)
    with less.prems obtain k m where k: "utf8_lead c = Some k" "utf8_conts k r"
      "utf8_seq (drop k r) m" "n = Suc m" by (auto simp: utf8_seq_Cons)
    have "utf8_loop sanitize (drop k r) (l + 1) rc = (rc, drop k r, Some (l + 1 + m))"
      using k(3) by (intro less.hyps) (simp_all add: Cons)
    then show ?thesis using k by (simp add: Cons utf8_loop_good)
  qed
qed

lemma utf8_loop_invalid: "\<not> wf_utf8 s \<Longrightarrow> utf8_loop False s l rc = (-1, s, None)"
proof (induction "length s" arbitrary: s l rule: less_induct)
  case less
  show ?case
  proof (cases s)
    case Nil
    with less.prems show ?thesis by (auto simp: wf_utf8_def intro: utf8_seq.intros)
  next
    case (Cons c r)
    show ?thesis
    proof (cases "\<exists>k. utf8_lead c = Some k \<and> utf8_conts k r")
      case True
      then obtain k where k: "utf8_lead c = Some k" "utf8_conts k r" by blast
      with less.prems have "\<not> wf_utf8 (drop k r)" by (auto simp: Cons wf_utf8_def utf8_seq_Cons)
      then have "utf8_loop False (drop k r) (l + 1) rc = (-1, drop k r, None)"
        by (intro less.hyps) (simp_all add: Cons)
      with k show ?thesis by (simp add: Cons utf8_loop_good)
    next
      case False
      then show ?thesis by (simp add: Cons utf8_loop_bad)
    qed
  qed
qed

text \<open>What sanitizing may do to a byte: keep it or replace it by a question mark.\<close>

definition sanitized :: "string \<Rightarrow> string \<Rightarrow> bool" where
  "sanitized s t \<longleftrightarrow> list_all2 (\<lambda>c d. d = c \<or> d = CHR ''?'' \<and> 0x80 \<le> chval c) s t"

lemma utf8_loop_sanitize:
  "\<exists>rc' s' n. utf8_loop True s l rc = (rc', s', Some (l + n)) \<and> utf8_seq s' n \<and> sanitized s s'
     \<and> (rc' = (if wf_utf8 s then rc else -1))"
proof (induction "length s" arbitrary: s l rc rule: less_induct)
  case less
  show ?case
  proof (cases s)
    case Nil
    then show ?thesis by (auto simp: wf_utf8_def sanitized_def intro: utf8_seq.intros)
  next
    case (Cons c r)
    show ?thesis
    proof (cases "\<exists>k. utf8_lead c = Some k \<and> utf8_conts k r")
      case True
      then obtain k where k: "utf8_lead c = Some k" "utf8_conts k r" by blast
      have len: "length (drop k r) < length s" by (simp add: Cons)
      obtain rc' s' n where IH: "utf8_loop True (drop k r) (l + 1) rc = (rc', s', Some (l + 1 + n))"
        "utf8_seq s' n" "sanitized (drop k r) s'" "rc' = (if wf_utf8 (drop k r) then rc else -1)"
        using less.hyps [of "drop k r" "l + 1" rc] len by blast
      have conts: "utf8_conts k (take k r @ s')" "drop k (take k r @ s') = s'"
        using k(2) by (auto simp: utf8_conts_def min_def)
      have "utf8_seq (c # take k r @ s') (Suc n)"
        using k(1) IH(2) conts by (auto simp: utf8_seq_Cons)
      moreover have "sanitized r (take k r @ s')"
        using IH(3) list_all2_appendI [of _ "take k r" "take k r" "drop k r" s']
        by (auto simp: sanitized_def list.rel_refl)
      moreover have "wf_utf8 (drop k r) \<longleftrightarrow> wf_utf8 s"
        using k by (auto simp: Cons wf_utf8_def utf8_seq_Cons)
      ultimately show ?thesis
        using k IH by (auto simp: Cons utf8_loop_good sanitized_def)
    next
      case False
      have len: "length r < length s" by (simp add: Cons)
      obtain rc' s' n where IH: "utf8_loop True r (l + 1) (-1) = (rc', s', Some (l + 1 + n))"
        "utf8_seq s' n" "sanitized r s'" "rc' = (if wf_utf8 r then -1 else -1)"
        using less.hyps [of r "l + 1" "-1"] len by blast
      have "\<not> wf_utf8 s" using False by (auto simp: Cons wf_utf8_def utf8_seq_Cons)
      moreover have "0x80 \<le> chval c"
        using False by (auto simp: utf8_lead_def Let_def split: if_splits)
      moreover have "utf8_seq (CHR ''?'' # s') (Suc n)"
        using IH(2) by (intro utf8_seq.ascii) simp_all
      ultimately show ?thesis
        using False IH by (auto simp: Cons utf8_loop_bad sanitized_def)
    qed
  qed
qed

section \<open>Properties\<close>

text \<open>
  \<open>utf8_check\<close> decides UTF-8 structure: it succeeds exactly on the strings of the grammar
  and then reports the number of characters; on any other string it fails and reports none.
\<close>

theorem utf8_check_decides:
  "(utf8_check s = (0, Some n) \<longleftrightarrow> utf8_seq s n) \<and> (\<not> wf_utf8 s \<longleftrightarrow> utf8_check s = (-1, None))"
  using utf8_loop_valid [of s _ False 0 0] utf8_loop_invalid [of s 0 0] utf8_seq_det [of s]
  by (force simp: utf8_check_def wf_utf8_def)+

text \<open>
  C10: \<open>utf8_sanitize\<close> always leaves a well-formed string of the same length behind, in which at
  most bytes with the high bit set were overwritten, each by a question mark; it reports the
  number of characters of the result, and success exactly when nothing had to be repaired.
\<close>

theorem utf8_sanitize_repairs:
  "\<exists>rc s' n. utf8_sanitize s = (rc, s', Some n) \<and> utf8_seq s' n \<and> sanitized s s'
     \<and> (rc = 0 \<longleftrightarrow> wf_utf8 s) \<and> (rc = 0 \<longleftrightarrow> s' = s)"
proof -
  obtain rc s' n where r: "utf8_loop True s 0 0 = (rc, s', Some (0 + n))" "utf8_seq s' n"
    "sanitized s s'" "rc = (if wf_utf8 s then 0 else -1)"
    using utf8_loop_sanitize [of s 0 0] by blast
  moreover have "wf_utf8 s \<Longrightarrow> s' = s"
    using r(1) utf8_loop_valid [of s _ True 0 0] by (auto simp: wf_utf8_def)
  moreover have "s' = s \<Longrightarrow> wf_utf8 s" using r(2) by (auto simp: wf_utf8_def)
  ultimately show ?thesis by (auto simp: utf8_sanitize_def)
qed

end
