(* ===== verification/Psc_Hash.thy ===== *)
theory Psc_Hash
  imports Swad_Prelude "HOL-Library.AList"
begin

text \<open>
  The hash table of the poser library (\<open>PSC_HashTable\<close>), which swad uses for rate limits,
  cookies and authentication data. Its code is a git submodule that is not part of the
  repository, so it is a parameter: a record of its operations, handed to every definition that
  uses it. What swad relies on is \<open>psc_hash_laws\<close>, a named hypothesis of the properties: the
  table is a finite map from strings to objects, \<open>deleteAll\<close> removes the entries its callback
  selects, and an iterator visits every entry once. An object that swad changes in place through
  its pointer is stored back under its key.
\<close>

record ('t, 'v) psc_hash =
  ph_create :: "nat \<Rightarrow> 't"
  ph_get :: "'t \<Rightarrow> string \<Rightarrow> 'v option"
  ph_set :: "'t \<Rightarrow> string \<Rightarrow> 'v \<Rightarrow> 't"
  ph_delete :: "'t \<Rightarrow> string \<Rightarrow> 't"
  ph_deleteAll :: "'t \<Rightarrow> (string \<Rightarrow> 'v \<Rightarrow> bool) \<Rightarrow> 't"
  ph_items :: "'t \<Rightarrow> (string \<times> 'v) list"

definition psc_hash_laws :: "('t, 'v) psc_hash \<Rightarrow> bool" where
  "psc_hash_laws ops \<longleftrightarrow>
     (\<forall>bits k. ph_get ops (ph_create ops bits) k = None)
   \<and> (\<forall>t k v k'. ph_get ops (ph_set ops t k v) k' = (if k' = k then Some v else ph_get ops t k'))
   \<and> (\<forall>t k k'. ph_get ops (ph_delete ops t k) k' = (if k' = k then None else ph_get ops t k'))
   \<and> (\<forall>t P k. ph_get ops (ph_deleteAll ops t P) k =
        (case ph_get ops t k of None \<Rightarrow> None | Some v \<Rightarrow> if P k v then None else Some v))
   \<and> (\<forall>t. distinct (map fst (ph_items ops t)))
   \<and> (\<forall>t k. map_of (ph_items ops t) k = ph_get ops t k)"

lemma psc_hash_lawsD:
  assumes "psc_hash_laws ops"
  shows "ph_get ops (ph_create ops bits) k = None"
    and "ph_get ops (ph_set ops t k v) k' = (if k' = k then Some v else ph_get ops t k')"
    and "ph_get ops (ph_delete ops t k) k' = (if k' = k then None else ph_get ops t k')"
    and "ph_get ops (ph_deleteAll ops t P) k =
      (case ph_get ops t k of None \<Rightarrow> None | Some v \<Rightarrow> if P k v then None else Some v)"
    and "distinct (map fst (ph_items ops t))"
    and "map_of (ph_items ops t) k = ph_get ops t k"
  using assms unfolding psc_hash_laws_def by blast+

section \<open>An implementation by association lists\<close>

text \<open>It shows that the laws can hold; the witnesses of the properties run on it.\<close>

definition alist_hash :: "((string \<times> 'v) list, 'v) psc_hash" where
  "alist_hash =
     \<lparr>ph_create = (\<lambda>_. []),
      ph_get = map_of,
      ph_set = (\<lambda>t k v. AList.update k v t),
      ph_delete = (\<lambda>t k. AList.delete k t),
      ph_deleteAll = (\<lambda>t P. filter (\<lambda>(k, v). \<not> P k v) (AList.clearjunk t)),
      ph_items = AList.clearjunk\<rparr>"

lemma map_of_filter_distinct:
  "distinct (map fst t) \<Longrightarrow> map_of (filter (\<lambda>(k, v). \<not> P k v) t) k =
     (case map_of t k of None \<Rightarrow> None | Some v \<Rightarrow> if P k v then None else Some v)"
proof (induction t)
  case (Cons a t)
  have "k \<notin> fst ` set t \<Longrightarrow> map_of (filter (\<lambda>(k, v). \<not> P k v) t) k = None"
    by (auto simp: map_of_eq_None_iff)
  with Cons show ?case by (cases a) (auto split: option.splits)
qed simp

lemma alist_hash_laws [simp]: "psc_hash_laws alist_hash"
  by (simp add: psc_hash_laws_def alist_hash_def AList.update_conv' AList.delete_conv'
      AList.map_of_clearjunk map_of_filter_distinct)

end
