(* ===== verification/Rate_Limit.thy ===== *)
theory Rate_Limit
  imports Psc_Hash
begin

text \<open>
  \<open>ratelimit.c\<close>: how often an id (a remote address, a user name) may do something. A \<open>Limit\<close>
  divides its window of \<open>seconds\<close> into \<open>ncounts\<close> ticks of \<open>res\<close> seconds and keeps, per id, a
  ring of counters, one per tick, and their total. All fields are 16 bits wide and wrap as in C;
  \<open>tv_sec\<close> is the monotonic clock. A division by zero is the result \<^term>\<open>None\<close>.

  The lemmas lead from the ring (one step of it is one tick) to a specification without rings
  and wrap-around: per id the list of ticks at which a request was accepted, and a request is
  accepted if fewer than \<open>limit\<close> of them lie within the last \<open>ncounts\<close> ticks.
\<close>

section \<open>Data\<close>

record entry =
  e_last :: u16
  e_total :: u16
  e_countpos :: u16
  e_counts :: "u16 list"

record 't limit =
  l_entries :: "'t option"
  l_seconds :: u16
  l_limit :: u16
  l_res :: u16
  l_ncounts :: u16

definition MAXCOUNTS :: nat where
  "MAXCOUNTS = 512"

section \<open>Operations\<close>

text \<open>
  \<open>RateLimitOpts_addLimit\<close> computes \<open>res\<close> and \<open>ncounts\<close> in \<open>int\<close> and stores them in 16 bits. For
  \<open>seconds = 0\<close> the resolution is 0 and the second division traps.
\<close>

definition RateLimitOpts_addLimit :: "'t limit list \<Rightarrow> u16 \<Rightarrow> u16 \<Rightarrow> 't limit list option" where
  "RateLimitOpts_addLimit limits seconds lim =
     (let res = of_nat ((unat seconds + MAXCOUNTS - 1) div MAXCOUNTS) :: u16
      in if res = 0 then None
         else Some (limits @
           [\<lparr>l_entries = None, l_seconds = seconds, l_limit = lim, l_res = res,
             l_ncounts = of_nat ((unat seconds + unat res - 1) div unat res)\<rparr>]))"

text \<open>\<open>RateLimit_create\<close> copies the configured limits, none of which has entries yet.\<close>

definition RateLimit_create :: "'t limit list \<Rightarrow> 't limit list" where
  "RateLimit_create opts = opts"

text \<open>The callback of \<open>deleteAll\<close>; the difference is an \<open>int\<close> and may be negative.\<close>

definition expired :: "string \<Rightarrow> u16 \<Rightarrow> u16 \<Rightarrow> string \<Rightarrow> entry \<Rightarrow> bool" where
  "expired idt now ncounts key e \<longleftrightarrow>
     key \<noteq> idt \<and> int (unat now) - int (unat (e_last e)) \<ge> int (unat ncounts)"

definition entry_new :: "u16 \<Rightarrow> u16 \<Rightarrow> entry" where
  "entry_new now ncounts =
     \<lparr>e_last = now, e_total = 0, e_countpos = 0, e_counts = replicate (unat ncounts) 0\<rparr>"

text \<open>The body of the loop \<open>for (; e->last != now; ++e->last)\<close>, and the loop.\<close>

definition ring_step :: "u16 \<Rightarrow> entry \<Rightarrow> entry" where
  "ring_step ncounts e =
     (let pos = (if e_countpos e + 1 = ncounts then 0 else e_countpos e + 1)
      in e\<lparr>e_countpos := pos,
           e_total := e_total e - e_counts e ! unat pos,
           e_counts := (e_counts e)[unat pos := 0],
           e_last := e_last e + 1\<rparr>)"

lemma u16_distance:
  assumes "a \<noteq> b"
  shows "unat (b - (a + 1)) < unat (b - a :: u16)"
proof -
  have "b - a \<noteq> 0" using assms by simp
  moreover have "b - (a + 1) = (b - a) - 1" by (simp add: algebra_simps)
  ultimately show ?thesis using measure_unat by metis
qed

function ring_advance :: "u16 \<Rightarrow> u16 \<Rightarrow> entry \<Rightarrow> entry" where
  "ring_advance now ncounts e =
     (if e_last e \<noteq> now then ring_advance now ncounts (ring_step ncounts e) else e)"
  by pat_completeness auto
termination
  by (relation "measure (\<lambda>(now, ncounts, e). unat (now - e_last e))")
    (auto simp: ring_step_def Let_def u16_distance)

declare ring_advance.simps [simp del]

definition entry_count :: "entry \<Rightarrow> entry" where
  "entry_count e =
     e\<lparr>e_counts := (e_counts e)[unat (e_countpos e) := e_counts e ! unat (e_countpos e) + 1],
       e_total := e_total e + 1\<rparr>"

definition checkLimit ::
  "('t, entry) psc_hash \<Rightarrow> 't limit \<Rightarrow> nat \<Rightarrow> string \<Rightarrow> (bool \<times> 't limit) option" where
  "checkLimit ops self tv_sec idt =
     (if l_res self = 0 then None
      else
        (let now = of_nat (tv_sec div unat (l_res self));
             tab = (case l_entries self of
                 None \<Rightarrow> ph_create ops 6
               | Some t \<Rightarrow> ph_deleteAll ops t (expired idt now (l_ncounts self)));
             (tab, e) = (case ph_get ops tab idt of
                 None \<Rightarrow> (ph_set ops tab idt (entry_new now (l_ncounts self)),
                          entry_new now (l_ncounts self))
               | Some e \<Rightarrow> (tab, e));
             e = ring_advance now (l_ncounts self) e;
             ok = (e_total e < l_limit self);
             e = (if ok then entry_count e else e)
         in Some (ok, self\<lparr>l_entries := Some (ph_set ops tab idt e)\<rparr>)))"

text \<open>
  \<open>RateLimit_check\<close> asks every limit, also after one has refused; \<open>ts\<close> is \<^term>\<open>None\<close> where
  \<open>clock_gettime\<close> fails.
\<close>

fun check_limits ::
  "('t, entry) psc_hash \<Rightarrow> 't limit list \<Rightarrow> nat \<Rightarrow> string \<Rightarrow> bool \<Rightarrow> (bool \<times> 't limit list) option" where
  "check_limits ops [] tv_sec idt ok = Some (ok, [])"
| "check_limits ops (l # ls) tv_sec idt ok =
     (case checkLimit ops l tv_sec idt of
        None \<Rightarrow> None
      | Some (r, l') \<Rightarrow>
          (case check_limits ops ls tv_sec idt (ok \<and> r) of
             None \<Rightarrow> None
           | Some (ok', ls') \<Rightarrow> Some (ok', l' # ls')))"

definition RateLimit_check ::
  "('t, entry) psc_hash \<Rightarrow> 't limit list \<Rightarrow> nat option \<Rightarrow> string \<Rightarrow> (bool \<times> 't limit list) option" where
  "RateLimit_check ops self ts idt =
     (case ts of None \<Rightarrow> Some (False, self) | Some tv_sec \<Rightarrow> check_limits ops self tv_sec idt True)"

section \<open>The ring of counters, newest tick first\<close>

definition ages :: "nat \<Rightarrow> entry \<Rightarrow> u16 list" where
  "ages n e = map (\<lambda>k. e_counts e ! ((unat (e_countpos e) + n - k) mod n)) [0..<n]"

text \<open>
  The shape of an entry: \<open>ncounts\<close> counters, the current position among them, and a total that
  is their sum and at most the limit (so that no 16-bit counter ever wraps).
\<close>

definition entry_ok :: "u16 \<Rightarrow> u16 \<Rightarrow> entry \<Rightarrow> bool" where
  "entry_ok ncounts lim e \<longleftrightarrow>
     length (e_counts e) = unat ncounts \<and> e_countpos e < ncounts
     \<and> unat (e_total e) = sum_list (map unat (ages (unat ncounts) e)) \<and> e_total e \<le> lim"

lemma length_ages [simp]: "length (ages n e) = n"
  by (simp add: ages_def)

lemma ages_new: "ages (unat n) (entry_new now n) = replicate (unat n) 0"
  by (auto simp: ages_def entry_new_def list_eq_iff_nth_eq)

lemma sum_list_zeros [simp]: "sum_list (replicate n (0::nat)) = 0"
  by (induction n) auto

lemma entry_ok_new: "n \<noteq> 0 \<Longrightarrow> entry_ok n lim (entry_new now n)"
  by (simp add: entry_ok_def ages_new) (simp add: entry_new_def word_gt_0)

text \<open>The position after a step, as a number.\<close>

lemma ring_step_pos:
  assumes "e_countpos e < n"
  shows "unat (e_countpos (ring_step n e)) = (unat (e_countpos e) + 1) mod unat n"
    and "e_countpos (ring_step n e) < n"
proof -
  have lt: "unat (e_countpos e) < unat n" using assms by (simp add: word_less_nat_alt)
  have succ: "unat (e_countpos e + 1) = unat (e_countpos e) + 1"
    using lt unsigned_less [of n, where ?'a = nat] by (simp add: unat_word_ariths)
  show "unat (e_countpos (ring_step n e)) = (unat (e_countpos e) + 1) mod unat n"
    using lt succ by (auto simp: ring_step_def Let_def word_unat_eq_iff mod_less)
  then have "unat (e_countpos (ring_step n e)) < unat n" using lt by simp
  then show "e_countpos (ring_step n e) < n" by (simp add: word_less_nat_alt)
qed

lemma ring_step_fields:
  "e_last (ring_step n e) = e_last e + 1"
  "length (e_counts (ring_step n e)) = length (e_counts e)"
  "e_counts (ring_step n e) = (e_counts e)[unat (e_countpos (ring_step n e)) := 0]"
  "e_total (ring_step n e) = e_total e - e_counts e ! unat (e_countpos (ring_step n e))"
  by (simp_all add: ring_step_def Let_def)

lemma ring_index:
  assumes "p < n" "k < (n::nat)"
  shows "((p + 1) mod n + n - k) mod n = (if k = 0 then (p + 1) mod n else (p + n - (k - 1)) mod n)"
proof (cases "k = 0")
  case False
  have "((p + 1) mod n + n - k) mod n = ((p + 1) mod n + (n - k)) mod n"
    using assms by simp
  also have "\<dots> = (p + 1 + (n - k)) mod n" by (simp add: mod_add_left_eq)
  also have "p + 1 + (n - k) = p + n - (k - 1)" using assms False by simp
  finally show ?thesis using False by simp
qed simp

lemma ring_neq:
  assumes "p < n" "0 < k" "k < (n::nat)"
  shows "(p + n - (k - 1)) mod n \<noteq> (p + 1) mod n"
proof
  assume "(p + n - (k - 1)) mod n = (p + 1) mod n"
  then have "int n dvd int (p + n - (k - 1)) - int (p + 1)"
    by (metis mod_eq_dvd_iff of_nat_mod)
  moreover have "int (p + n - (k - 1)) - int (p + 1) = int (n - k)"
    using assms by (simp add: of_nat_diff)
  ultimately have "n dvd n - k" by (simp only: int_dvd_int_iff)
  then show False using assms by (auto dest: dvd_imp_le)
qed

lemma ring_self:
  assumes "p < n" "k < (n::nat)" "(p + n - k) mod n = p"
  shows "k = 0"
proof (rule ccontr)
  assume "k \<noteq> 0"
  show False
  proof (cases "k \<le> p")
    case True
    then have "(p + n - k) mod n = p - k" using assms(1)
      by (metis Nat.add_diff_assoc2 less_imp_diff_less mod_add_self2 mod_less)
    with assms(3) True \<open>k \<noteq> 0\<close> show False by simp
  next
    case False
    then have "(p + n - k) mod n = p + n - k" using assms(1) by simp
    with assms(2,3) False show False by simp
  qed
qed

text \<open>One step ages every counter by one tick: a fresh zero in front, the oldest one dropped.\<close>

lemma ages_ring_step:
  assumes ok: "length (e_counts e) = unat n" "e_countpos e < n"
  shows "ages (unat n) (ring_step n e) = 0 # butlast (ages (unat n) e)"
proof -
  let ?n = "unat n" and ?p = "unat (e_countpos e)"
  have p: "?p < ?n" using ok(2) by (simp add: word_less_nat_alt)
  have "ages ?n (ring_step n e) ! k = (0 # butlast (ages ?n e)) ! k" if k: "k < ?n" for k
  proof -
    have idx: "((?p + 1) mod ?n + ?n - k) mod ?n
        = (if k = 0 then (?p + 1) mod ?n else (?p + ?n - (k - 1)) mod ?n)"
      using ring_index [OF p k] .
    have new: "ages ?n (ring_step n e) ! k =
        (e_counts e)[(?p + 1) mod ?n := 0] ! (((?p + 1) mod ?n + ?n - k) mod ?n)"
      using k by (simp add: ages_def ring_step_fields ring_step_pos(1) [OF ok(2)])
    show ?thesis
    proof (cases "k = 0")
      case True
      then show ?thesis using new idx ok(1) p by simp
    next
      case False
      have "(?p + ?n - (k - 1)) mod ?n \<noteq> (?p + 1) mod ?n"
        using False k p ring_neq [of ?p ?n k] by simp
      moreover have "(0 # butlast (ages ?n e)) ! k = ages ?n e ! (k - 1)"
        using False k by (simp add: nth_Cons' nth_butlast)
      moreover have "ages ?n e ! (k - 1) = e_counts e ! ((?p + ?n - (k - 1)) mod ?n)"
        using k False nth_upt [of 0 "k - 1" ?n] by (simp add: ages_def)
      ultimately show ?thesis using new idx False by simp
    qed
  qed
  then show ?thesis using p by (intro nth_equalityI) simp_all
qed

lemma sum_list_butlast: "xs \<noteq> [] \<Longrightarrow> sum_list (butlast xs) = sum_list xs - (last xs :: nat)"
  by (metis add_diff_cancel_right' append_butlast_last_id sum_list_append sum_list.Cons sum_list.Nil add.right_neutral)

lemma last_ages:
  assumes "n \<noteq> 0" "e_countpos e < n"
  shows "last (ages (unat n) e) = e_counts e ! unat (e_countpos (ring_step n e))"
proof -
  have n: "0 < unat n" using assms(1) by (simp add: unat_gt_0)
  then have "last (ages (unat n) e) = ages (unat n) e ! (unat n - 1)"
    by (subst last_conv_nth) (auto simp: ages_def)
  also have "\<dots> = e_counts e ! ((unat (e_countpos e) + unat n - (unat n - 1)) mod unat n)"
    using n by (simp add: ages_def)
  also have "unat (e_countpos e) + unat n - (unat n - 1) = unat (e_countpos e) + 1"
    using n by simp
  finally show ?thesis by (simp add: ring_step_pos(1) [OF assms(2)])
qed

lemma entry_ok_ring_step [swad_inv]:
  assumes "entry_ok n lim e"
  shows "entry_ok n lim (ring_step n e)"
proof -
  let ?A = "ages (unat n) e"
  have ok: "length (e_counts e) = unat n" "e_countpos e < n"
    and tot: "unat (e_total e) = sum_list (map unat ?A)" and le: "e_total e \<le> lim"
    using assms by (simp_all add: entry_ok_def)
  have n: "n \<noteq> 0" using ok(2) by auto
  then have ne: "?A \<noteq> []" using length_ages [of "unat n" e] by (metis length_0_conv unat_eq_zero)
  have lastA: "last ?A = e_counts e ! unat (e_countpos (ring_step n e))"
    using last_ages [OF n ok(2)] .
  have "unat (last ?A) \<le> unat (e_total e)"
    using ne tot by (simp add: member_le_sum_list)
  then have sub: "unat (e_total (ring_step n e)) = unat (e_total e) - unat (last ?A)"
    by (simp add: ring_step_fields lastA unat_sub word_le_nat_alt)
  also have "\<dots> = sum_list (map unat (butlast ?A))"
    using ne tot sum_list_butlast [of "map unat ?A"] by (simp add: map_butlast last_map)
  finally have "unat (e_total (ring_step n e)) = sum_list (map unat (ages (unat n) (ring_step n e)))"
    by (simp add: ages_ring_step [OF ok])
  moreover have "e_total (ring_step n e) \<le> lim"
    using sub le by (simp add: word_le_nat_alt)
  ultimately show ?thesis
    using ok ring_step_pos(2) [OF ok(2)] by (simp add: entry_ok_def ring_step_fields)
qed

text \<open>Counting a request: the newest counter and the total go up by one, without wrapping.\<close>

lemma entry_count_ages:
  assumes ok: "entry_ok n lim e" and room: "e_total e < lim"
  shows "map unat (ages (unat n) (entry_count e)) = (map unat (ages (unat n) e))[0 := unat (ages (unat n) e ! 0) + 1]"
    and "entry_ok n lim (entry_count e)"
proof -
  let ?n = "unat n" and ?p = "unat (e_countpos e)" and ?A = "ages (unat n) e"
  have len: "length (e_counts e) = ?n" and p: "?p < ?n"
    and tot: "unat (e_total e) = sum_list (map unat ?A)"
    using ok by (simp_all add: entry_ok_def word_less_nat_alt)
  have A0: "?A ! 0 = e_counts e ! ?p" using p by (simp add: ages_def)
  have "unat (?A ! 0) \<le> unat (e_total e)"
    using tot p by (simp add: member_le_sum_list)
  then have "unat (e_counts e ! ?p) < unat lim" using A0 room by (simp add: word_less_nat_alt)
  then have inc: "unat (e_counts e ! ?p + 1) = unat (e_counts e ! ?p) + 1"
    using unsigned_less [of lim, where ?'a = nat] by (simp add: unat_word_ariths)
  have nth: "ages ?n (entry_count e) ! k = (if k = 0 then e_counts e ! ?p + 1 else ?A ! k)" if "k < ?n" for k
    using that p len ring_neq [of ?p ?n "k + 1"] ring_self [of ?p ?n k]
    by (auto simp: ages_def entry_count_def nth_list_update)
  show ages: "map unat (ages ?n (entry_count e)) = (map unat ?A)[0 := unat (?A ! 0) + 1]"
    using p by (intro nth_equalityI) (auto simp: nth nth_list_update A0 inc)
  have "sum_list ((map unat ?A)[0 := unat (?A ! 0) + 1]) = sum_list (map unat ?A) + 1"
    using p by (cases ?A) (auto dest: arg_cong [where f = length])
  moreover have "unat (e_total e + 1) = unat (e_total e) + 1"
    using room unsigned_less [of lim, where ?'a = nat] by (simp add: unat_word_ariths word_less_nat_alt)
  ultimately show "entry_ok n lim (entry_count e)"
    using ok room tot unfolding entry_ok_def ages
    by (auto simp: entry_count_def word_le_nat_alt word_less_nat_alt)
qed

section \<open>The specification: accepted requests by tick\<close>

text \<open>
  \<open>E\<close> lists the ticks at which requests of one id were accepted, over unbounded time. A tick \<open>t\<close>
  is in the window at \<open>T\<close> if it is one of the last \<open>n\<close> ticks up to \<open>T\<close>.
\<close>

definition in_window :: "nat \<Rightarrow> nat \<Rightarrow> nat list \<Rightarrow> nat" where
  "in_window n T E = length (filter (\<lambda>t. T < t + n) E)"

definition spec_check ::
  "nat \<Rightarrow> nat \<Rightarrow> (string \<Rightarrow> nat list) \<Rightarrow> nat \<Rightarrow> string \<Rightarrow> bool \<times> (string \<Rightarrow> nat list)" where
  "spec_check n lim E T idt =
     (if in_window n T (E idt) < lim then (True, E(idt := T # E idt)) else (False, E))"

definition hist :: "nat \<Rightarrow> nat \<Rightarrow> nat list \<Rightarrow> nat list" where
  "hist n T E = map (\<lambda>k. if k \<le> T then count_list E (T - k) else 0) [0..<n]"

definition ring_rel :: "u16 \<Rightarrow> u16 \<Rightarrow> nat \<Rightarrow> nat list \<Rightarrow> entry \<Rightarrow> bool" where
  "ring_rel n lim T E e \<longleftrightarrow>
     entry_ok n lim e \<and> e_last e = of_nat T \<and> map unat (ages (unat n) e) = hist (unat n) T E
     \<and> (\<forall>t \<in> set E. t \<le> T)"

lemma length_hist [simp]: "length (hist n T E) = n"
  by (simp add: hist_def)

lemma hist_Suc:
  assumes "\<forall>t \<in> set E. t \<le> T" "0 < n"
  shows "hist n (Suc T) E = 0 # butlast (hist n T E)"
proof (rule nth_equalityI)
  fix k assume "k < length (hist n (Suc T) E)"
  then have k: "k < n" by simp
  show "hist n (Suc T) E ! k = (0 # butlast (hist n T E)) ! k"
  proof (cases k)
    case 0
    have "Suc T \<notin> set E" using assms(1) by auto
    then show ?thesis using 0 k by (simp add: hist_def count_list_0_iff)
  next
    case (Suc j)
    then have "(0 # butlast (hist n T E)) ! k = hist n T E ! j"
      using k by (simp add: nth_butlast)
    then show ?thesis using Suc k by (simp add: hist_def)
  qed
qed (use assms in simp)

lemma sum_list_indicator: "sum_list (map (\<lambda>k. if k = j then 1 else 0) [0..<n]) = (if j < n then 1 else (0::nat))"
  by (induction n) auto

lemma sum_hist:
  assumes "\<forall>t \<in> set E. t \<le> T"
  shows "sum_list (hist n T E) = in_window n T E"
  using assms
proof (induction E)
  case Nil
  have "hist n T [] = replicate n 0" by (auto simp: hist_def list_eq_iff_nth_eq)
  then show ?case by (simp add: in_window_def)
next
  case (Cons t E)
  have "map (\<lambda>k. if k \<le> T then count_list (t # E) (T - k) else 0) [0..<n]
      = map (\<lambda>k. (if k \<le> T then count_list E (T - k) else 0) + (if k = T - t then 1 else 0)) [0..<n]"
    using Cons.prems by (intro map_cong) auto
  then have "sum_list (hist n T (t # E)) =
      sum_list (hist n T E) + (if T - t < n then 1 else 0)"
    by (simp only: hist_def sum_list_addf sum_list_indicator)
  then show ?case using Cons by (auto simp: in_window_def)
qed

lemma hist_count:
  assumes "0 < n"
  shows "hist n T (T # E) = (hist n T E)[0 := hist n T E ! 0 + 1]"
  using assms by (intro nth_equalityI) (auto simp: hist_def nth_list_update)

lemma ring_rel_total:
  "ring_rel n lim T E e \<Longrightarrow> unat (e_total e) = in_window (unat n) T E"
  by (simp add: ring_rel_def entry_ok_def sum_hist)

lemma ring_rel_new:
  assumes "n \<noteq> 0" "\<forall>t \<in> set E. t + unat n \<le> T"
  shows "ring_rel n lim T E (entry_new (of_nat T) n)"
proof -
  have "count_list E (T - k) = 0" if "k < unat n" "k \<le> T" for k
    using assms(2) that by (fastforce simp: count_list_0_iff)
  then have "hist (unat n) T E = replicate (unat n) 0"
    by (auto simp: hist_def list_eq_iff_nth_eq)
  then show ?thesis
    using assms by (auto simp: ring_rel_def entry_ok_new ages_new) (simp add: entry_new_def)
qed

lemma ring_rel_step:
  assumes "ring_rel n lim T E e"
  shows "ring_rel n lim (Suc T) E (ring_step n e)"
proof -
  have ok: "length (e_counts e) = unat n" "e_countpos e < n" and E: "\<forall>t \<in> set E. t \<le> T"
    using assms by (auto simp: ring_rel_def entry_ok_def)
  have "0 < unat n" using ok(2) by (metis unat_gt_0 not_less_zero word_neq_0_conv word_not_simps(1))
  then show ?thesis
    using assms E by (auto simp: ring_rel_def entry_ok_ring_step ages_ring_step [OF ok] map_butlast
        hist_Suc ring_step_fields add.commute)
qed

lemma ring_rel_advance:
  "ring_rel n lim T E e \<Longrightarrow> d < 65536 \<Longrightarrow>
    ring_rel n lim (T + d) E (ring_advance (of_nat (T + d)) n e)"
proof (induction d arbitrary: T e)
  case 0
  then have "ring_advance (of_nat T) n e = e"
    by (subst ring_advance.simps) (simp add: ring_rel_def)
  with 0 show ?case by simp
next
  case (Suc d)
  have last: "e_last e = of_nat T" using Suc.prems(1) by (simp add: ring_rel_def)
  have "(of_nat (Suc d) :: u16) \<noteq> 0"
    using Suc.prems(2) by (auto simp: word_of_nat_eq_0_iff simp del: of_nat_Suc dest: dvd_imp_le)
  then have "e_last e \<noteq> of_nat (T + Suc d)" by (simp add: last)
  then have "ring_advance (of_nat (T + Suc d)) n e = ring_advance (of_nat (Suc T + d)) n (ring_step n e)"
    by (subst ring_advance.simps) simp
  with Suc.IH [OF ring_rel_step [OF Suc.prems(1)]] Suc.prems(2) show ?case by simp
qed

lemma ring_rel_count:
  assumes "ring_rel n lim T E e" "e_total e < lim"
  shows "ring_rel n lim T (T # E) (entry_count e)"
proof -
  have ok: "entry_ok n lim e" and h: "map unat (ages (unat n) e) = hist (unat n) T E"
    using assms(1) by (simp_all add: ring_rel_def)
  have n: "0 < unat n" using ok by (auto simp: entry_ok_def word_less_nat_alt)
  then have "unat (ages (unat n) e ! 0) = hist (unat n) T E ! 0"
    using h by (metis length_ages nth_map)
  then show ?thesis
    using assms entry_count_ages [OF ok assms(2)] n
    by (auto simp: ring_rel_def hist_count) (simp add: entry_count_def)
qed

section \<open>The table of a limit refines the specification\<close>

text \<open>
  \<open>T\<close> is the tick of the last call, \<open>seen\<close> the tick at which each id was last checked, \<open>E\<close> the
  ticks at which it was accepted. An id without an entry has nothing in its window any more.
\<close>

definition limit_ok :: "'t limit \<Rightarrow> bool" where
  "limit_ok self \<longleftrightarrow> l_res self \<noteq> 0 \<and> l_ncounts self \<noteq> 0"

definition limit_get :: "('t, entry) psc_hash \<Rightarrow> 't limit \<Rightarrow> string \<Rightarrow> entry option" where
  "limit_get ops self k = Option.bind (l_entries self) (\<lambda>t. ph_get ops t k)"

definition entry_rel ::
  "u16 \<Rightarrow> u16 \<Rightarrow> nat \<Rightarrow> nat option \<Rightarrow> nat list \<Rightarrow> entry option \<Rightarrow> bool" where
  "entry_rel n lim T s E eo \<longleftrightarrow>
     (case eo of
        None \<Rightarrow> \<forall>t \<in> set E. t + unat n \<le> T
      | Some e \<Rightarrow> \<exists>T0. s = Some T0 \<and> T0 \<le> T \<and> ring_rel n lim T0 E e)"

definition limit_rel ::
  "('t, entry) psc_hash \<Rightarrow> 't limit \<Rightarrow> nat \<Rightarrow> (string \<Rightarrow> nat option) \<Rightarrow> (string \<Rightarrow> nat list) \<Rightarrow> bool" where
  "limit_rel ops self T seen E \<longleftrightarrow>
     (\<forall>k. entry_rel (l_ncounts self) (l_limit self) T (seen k) (E k) (limit_get ops self k))"

lemma entry_rel_mono: "entry_rel n lim T s E eo \<Longrightarrow> T \<le> T' \<Longrightarrow> entry_rel n lim T' s E eo"
  by (auto simp: entry_rel_def split: option.splits)

text \<open>
  Deleting an entry the callback calls expired is sound even across a wrap of the 16-bit clock:
  the true distance is never below the difference the callback computes.
\<close>

lemma expired_old:
  assumes "expired idt (of_nat T) n key e" "ring_rel n lim T0 E e" "T0 \<le> T" "t \<in> set E"
  shows "t + unat n \<le> T"
proof -
  have mods: "unat (of_nat T :: u16) = T mod 65536" "unat (e_last e) = T0 mod 65536"
    using assms(2) by (simp_all add: unat_of_nat ring_rel_def)
  have "T mod 65536 \<ge> T0 mod 65536 + unat n"
    using assms(1) unfolding expired_def mods by linarith
  moreover have "T0 div 65536 \<le> T div 65536" using assms(3) by (rule div_le_mono)
  moreover have "T = 65536 * (T div 65536) + T mod 65536" "T0 = 65536 * (T0 div 65536) + T0 mod 65536"
    by simp_all
  ultimately have "T0 + unat n \<le> T" by linarith
  then show ?thesis using assms(2,4) by (auto simp: ring_rel_def)
qed

lemma checkLimit_refines:
  assumes laws: "psc_hash_laws ops" and ok: "limit_ok self"
    and rel: "limit_rel ops self T seen E"
    and T': "T' = tv_sec div unat (l_res self)" "T \<le> T'"
    and pace: "\<forall>s. seen idt = Some s \<longrightarrow> T' < s + 65536"
  shows "\<exists>r self' E'. checkLimit ops self tv_sec idt = Some (r, self')
     \<and> spec_check (unat (l_ncounts self)) (unat (l_limit self)) E T' idt = (r, E')
     \<and> limit_rel ops self' T' (seen(idt \<mapsto> T')) E'
     \<and> l_res self' = l_res self \<and> l_ncounts self' = l_ncounts self \<and> l_limit self' = l_limit self"
proof -
  let ?n = "l_ncounts self" and ?lim = "l_limit self" and ?now = "of_nat T' :: u16"
  note L = psc_hash_lawsD [OF laws]
  define tab where "tab = (case l_entries self of None \<Rightarrow> ph_create ops 6
    | Some t \<Rightarrow> ph_deleteAll ops t (expired idt ?now ?n))"
  have tab: "entry_rel ?n ?lim T' (seen k) (E k) (ph_get ops tab k)" for k
  proof -
    have old: "entry_rel ?n ?lim T' (seen k) (E k) (limit_get ops self k)"
      using rel T'(2) entry_rel_mono unfolding limit_rel_def by blast
    show ?thesis
    proof (cases "limit_get ops self k")
      case None
      then have "ph_get ops tab k = None"
        by (auto simp: tab_def limit_get_def L split: option.splits)
      with None old show ?thesis by simp
    next
      case (Some e)
      then obtain t where t: "l_entries self = Some t" "ph_get ops t k = Some e"
        by (auto simp: limit_get_def bind_eq_Some_conv)
      show ?thesis
      proof (cases "expired idt ?now ?n k e")
        case True
        with t Some old have "\<forall>t \<in> set (E k). t + unat ?n \<le> T'"
          by (auto simp: entry_rel_def intro: expired_old)
        with True t show ?thesis by (simp add: tab_def L entry_rel_def)
      next
        case False
        with t Some old show ?thesis by (simp add: tab_def L)
      qed
    qed
  qed
  define e0 where "e0 = (case ph_get ops tab idt of None \<Rightarrow> entry_new ?now ?n | Some e \<Rightarrow> e)"
  define tab1 where "tab1 = (case ph_get ops tab idt of
      None \<Rightarrow> ph_set ops tab idt (entry_new ?now ?n) | Some e \<Rightarrow> tab)"
  define e1 where "e1 = ring_advance ?now ?n e0"
  have e1: "ring_rel ?n ?lim T' (E idt) e1"
  proof (cases "ph_get ops tab idt")
    case None
    with tab [of idt] ok have "ring_rel ?n ?lim T' (E idt) e0"
      by (simp add: entry_rel_def e0_def ring_rel_new limit_ok_def)
    then show ?thesis using ring_rel_advance [of ?n ?lim T' "E idt" e0 0] by (simp add: e1_def)
  next
    case (Some e)
    with tab [of idt] obtain T0 where T0: "seen idt = Some T0" "T0 \<le> T'" "ring_rel ?n ?lim T0 (E idt) e"
      by (auto simp: entry_rel_def)
    then show ?thesis
      using ring_rel_advance [OF T0(3), of "T' - T0"] pace Some by (simp add: e1_def e0_def)
  qed
  have dec: "e_total e1 < ?lim \<longleftrightarrow> in_window (unat ?n) T' (E idt) < unat ?lim"
    using ring_rel_total [OF e1] by (simp add: word_less_nat_alt)
  define e2 where "e2 = (if e_total e1 < ?lim then entry_count e1 else e1)"
  define E' where "E' = (if e_total e1 < ?lim then E(idt := T' # E idt) else E)"
  have e2: "ring_rel ?n ?lim T' (E' idt) e2"
    using e1 ring_rel_count [OF e1] by (simp add: e2_def E'_def)
  let ?self' = "self\<lparr>l_entries := Some (ph_set ops tab1 idt e2)\<rparr>"
  have "limit_rel ops ?self' T' (seen(idt \<mapsto> T')) E'"
    unfolding limit_rel_def
  proof
    fix k
    show "entry_rel (l_ncounts ?self') (l_limit ?self') T' ((seen(idt \<mapsto> T')) k) (E' k) (limit_get ops ?self' k)"
    proof (cases "k = idt")
      case True
      then show ?thesis using e2 by (simp add: entry_rel_def limit_get_def L)
    next
      case False
      then have "limit_get ops ?self' k = ph_get ops tab k"
        by (auto simp: limit_get_def L tab1_def split: option.splits)
      then show ?thesis using tab [of k] False by (simp add: E'_def)
    qed
  qed
  moreover have "checkLimit ops self tv_sec idt = Some (e_total e1 < ?lim, ?self')"
    using ok unfolding checkLimit_def limit_ok_def Let_def
    by (simp add: e2_def e1_def e0_def tab1_def tab_def T'(1) split: option.split)
  moreover have "spec_check (unat ?n) (unat ?lim) E T' idt = (e_total e1 < ?lim, E')"
    by (simp add: spec_check_def E'_def dec)
  ultimately show ?thesis by fastforce
qed

section \<open>Runs\<close>

text \<open>A run is a list of calls, each with the clock's seconds and the id that is checked.\<close>

fun check_run ::
  "('t, entry) psc_hash \<Rightarrow> 't limit \<Rightarrow> (nat \<times> string) list \<Rightarrow> (bool list \<times> 't limit) option" where
  "check_run ops self [] = Some ([], self)"
| "check_run ops self ((tv_sec, idt) # cs) =
     (case checkLimit ops self tv_sec idt of
        None \<Rightarrow> None
      | Some (r, self') \<Rightarrow> map_option (\<lambda>(rs, l). (r # rs, l)) (check_run ops self' cs))"

fun spec_run ::
  "nat \<Rightarrow> nat \<Rightarrow> nat \<Rightarrow> (string \<Rightarrow> nat list) \<Rightarrow> (nat \<times> string) list \<Rightarrow> bool list" where
  "spec_run n lim res E [] = []"
| "spec_run n lim res E ((tv_sec, idt) # cs) =
     (case spec_check n lim E (tv_sec div res) idt of (r, E') \<Rightarrow> r # spec_run n lim res E' cs)"

text \<open>The clock does not go back, and an id comes again within 65536 ticks of its last check.\<close>

fun paced :: "nat \<Rightarrow> nat \<Rightarrow> (string \<Rightarrow> nat option) \<Rightarrow> (nat \<times> string) list \<Rightarrow> bool" where
  "paced res T seen [] = True"
| "paced res T seen ((tv_sec, idt) # cs) =
     (T \<le> tv_sec div res
      \<and> (case seen idt of None \<Rightarrow> True | Some s \<Rightarrow> tv_sec div res < s + 65536)
      \<and> paced res (tv_sec div res) (seen(idt \<mapsto> tv_sec div res)) cs)"

lemma check_run_refines:
  assumes "psc_hash_laws ops"
  shows "limit_ok self \<Longrightarrow> limit_rel ops self T seen E \<Longrightarrow> paced (unat (l_res self)) T seen cs \<Longrightarrow>
    \<exists>self'. check_run ops self cs =
      Some (spec_run (unat (l_ncounts self)) (unat (l_limit self)) (unat (l_res self)) E cs, self')"
proof (induction cs arbitrary: self T seen E)
  case (Cons c cs)
  obtain tv idt where c: "c = (tv, idt)" by fastforce
  let ?T' = "tv div unat (l_res self)"
  have T': "T \<le> ?T'" and pace: "\<forall>s. seen idt = Some s \<longrightarrow> ?T' < s + 65536"
    and rest: "paced (unat (l_res self)) ?T' (seen(idt \<mapsto> ?T')) cs"
    using Cons.prems(3) by (auto simp: c)
  from checkLimit_refines [OF assms Cons.prems(1,2) refl T' pace] obtain r self' E' where step:
    "checkLimit ops self tv idt = Some (r, self')"
    "spec_check (unat (l_ncounts self)) (unat (l_limit self)) E ?T' idt = (r, E')"
    "limit_rel ops self' ?T' (seen(idt \<mapsto> ?T')) E'"
    "l_res self' = l_res self" "l_ncounts self' = l_ncounts self" "l_limit self' = l_limit self"
    by blast
  have "limit_ok self'" using Cons.prems(1) step by (simp add: limit_ok_def)
  moreover have "paced (unat (l_res self')) ?T' (seen(idt \<mapsto> ?T')) cs"
    using rest step by simp
  ultimately obtain self'' where "check_run ops self' cs = Some (spec_run (unat (l_ncounts self'))
      (unat (l_limit self')) (unat (l_res self')) E' cs, self'')"
    using Cons.IH step(3) by blast
  then show ?case using step by (simp add: c)
qed simp

text \<open>What a run accepted for an id, as ticks, and how many of them lie in a window.\<close>

definition accepted :: "nat \<Rightarrow> string \<Rightarrow> (nat \<times> string) list \<Rightarrow> bool list \<Rightarrow> nat list" where
  "accepted res idt cs rs =
     map (\<lambda>((tv, _), _). tv div res) (filter (\<lambda>((_, i), r). i = idt \<and> r) (zip cs rs))"

definition ticks_in :: "nat \<Rightarrow> nat \<Rightarrow> nat list \<Rightarrow> nat" where
  "ticks_in W n ts = length (filter (\<lambda>t. W < t \<and> t \<le> W + n) ts)"

lemma ticks_in_append: "ticks_in W n (a @ b) = ticks_in W n a + ticks_in W n b"
  by (simp add: ticks_in_def)

lemma ticks_in_accept:
  assumes "\<forall>t \<in> set E. t \<le> T" "in_window n T E < lim" "ticks_in W n E \<le> lim"
  shows "ticks_in W n (T # E) \<le> lim"
proof (cases "W < T \<and> T \<le> W + n")
  case True
  have "ticks_in W n E \<le> in_window n T E"
    unfolding ticks_in_def in_window_def
    using True assms(1) by (intro length_filter_mono_in) auto
  with True assms(2) show ?thesis by (simp add: ticks_in_def)
next
  case False
  then show ?thesis using assms(3) by (auto simp: ticks_in_def)
qed

lemma spec_run_limit:
  assumes "paced res T seen cs" "ticks_in W n (E idt) \<le> lim"
    "\<forall>i. \<forall>t \<in> set (E i). t \<le> T"
  shows "ticks_in W n (accepted res idt cs (spec_run n lim res E cs)) + ticks_in W n (E idt) \<le> lim"
  using assms
proof (induction cs arbitrary: T seen E)
  case Nil
  then show ?case by (simp add: accepted_def ticks_in_def)
next
  case (Cons c cs)
  obtain tv i where c: "c = (tv, i)" by fastforce
  let ?T' = "tv div res"
  have T': "T \<le> ?T'" and rest: "paced res ?T' (seen(i \<mapsto> ?T')) cs"
    using Cons.prems(1) by (auto simp: c)
  have old: "\<forall>j. \<forall>t \<in> set (E j). t \<le> ?T'" using Cons.prems(3) T' by fastforce
  show ?case
  proof (cases "in_window n ?T' (E i) < lim")
    case True
    let ?E' = "E(i := ?T' # E i)"
    have all: "\<forall>j. \<forall>t \<in> set (?E' j). t \<le> ?T'" using old by auto
    have "ticks_in W n (?E' idt) \<le> lim"
      using ticks_in_accept [OF _ True, of W] old Cons.prems(2) by auto
    with Cons.IH [OF rest _ all]
    have "ticks_in W n (accepted res idt cs (spec_run n lim res ?E' cs)) + ticks_in W n (?E' idt) \<le> lim"
      by blast
    moreover have "spec_run n lim res E (c # cs) = True # spec_run n lim res ?E' cs"
      using True by (simp add: c spec_check_def)
    ultimately show ?thesis by (auto simp: accepted_def c ticks_in_def)
  next
    case False
    then have "spec_run n lim res E (c # cs) = False # spec_run n lim res E cs"
      by (simp add: c spec_check_def)
    moreover have "ticks_in W n (accepted res idt cs (spec_run n lim res E cs)) + ticks_in W n (E idt) \<le> lim"
      using Cons.IH [OF rest _ old] Cons.prems(2) by blast
    ultimately show ?thesis by (simp add: accepted_def c)
  qed
qed

lemma limit_rel_fresh: "l_entries self = None \<Longrightarrow> limit_rel ops self 0 (\<lambda>_. None) (\<lambda>_. [])"
  by (simp add: limit_rel_def entry_rel_def limit_get_def)

section \<open>Configuring a limit\<close>

lemma ceil_div:
  assumes "0 < (d::nat)"
  shows "n \<le> d * ((n + d - 1) div d)" "0 < n \<Longrightarrow> d * ((n + d - 1) div d - 1) < n"
proof -
  define q where "q = (n + d - 1) div d"
  have "n + d - 1 = d * q + (n + d - 1) mod d" by (simp add: q_def)
  moreover have "(n + d - 1) mod d < d" using assms by simp
  ultimately have b: "d * q \<le> n + d - 1" "n + d - 1 < d * q + d" by linarith+
  then show "n \<le> d * ((n + d - 1) div d)" using assms unfolding q_def [symmetric] by linarith
  assume "0 < n"
  then have "0 < q" using assms unfolding q_def by (simp add: div_greater_zero_iff)
  then have "d * (q - 1) = d * q - d" by (simp add: diff_mult_distrib2)
  then show "d * ((n + d - 1) div d - 1) < n"
    using b \<open>0 < n\<close> assms unfolding q_def [symmetric] by linarith
qed

lemma addLimit_eq:
  assumes "seconds \<noteq> 0"
  defines "res \<equiv> (unat seconds + 511) div 512"
  shows "\<exists>l. RateLimitOpts_addLimit ls seconds lim = Some (ls @ [l]) \<and> l_entries l = None
    \<and> unat (l_res l) = res \<and> 0 < res \<and> unat (l_ncounts l) = (unat seconds + res - 1) div res
    \<and> l_limit l = lim"
proof -
  have s: "0 < unat seconds" "unat seconds < 65536"
    using assms(1) unsigned_less [of seconds, where ?'a = nat] by (simp_all add: unat_gt_0)
  have res: "0 < res" "res < 65536"
    using s by (simp_all add: res_def div_greater_zero_iff div_less_iff_less_mult)
  have "(unat seconds + res - 1) div res \<le> 512"
  proof -
    have "unat seconds \<le> 512 * res" using ceil_div(1) [of 512 "unat seconds"] by (simp add: res_def)
    then have "unat seconds + res - 1 < 513 * res" using res(1) by linarith
    then have "(unat seconds + res - 1) div res < 513" using res(1) by (simp add: div_less_iff_less_mult)
    then show ?thesis by simp
  qed
  then have n: "unat (of_nat ((unat seconds + res - 1) div res) :: u16) = (unat seconds + res - 1) div res"
    by (simp add: unat_of_nat)
  have r: "unat (of_nat res :: u16) = res" using res(2) by (simp add: unat_of_nat)
  then have nz: "(of_nat res :: u16) \<noteq> 0" using res(1) by (metis unat_0 less_numeral_extra(3))
  have m: "(unat seconds + MAXCOUNTS - 1) div MAXCOUNTS = res" by (simp add: MAXCOUNTS_def res_def)
  show ?thesis
    unfolding RateLimitOpts_addLimit_def Let_def m
    using n r res nz by (simp add: res_def [symmetric])
qed

section \<open>Properties\<close>

text \<open>
  C8: rate limiting implements its specification. For any sequence of checks on a limit without
  entries, in which the clock does not go back and no id pauses for 65536 ticks or more, the
  code returns, and answers every check exactly as "accept if fewer than \<open>limit\<close> requests of this
  id were accepted within the last \<open>ncounts\<close> ticks": rings, wrapping 16-bit clocks and the
  deletion of expired entries have no visible effect.
\<close>

theorem rate_limit_refines_window:
  assumes "psc_hash_laws ops" "limit_ok self" "l_entries self = None"
    "paced (unat (l_res self)) 0 (\<lambda>_. None) calls"
  shows "\<exists>self'. check_run ops self calls =
    Some (spec_run (unat (l_ncounts self)) (unat (l_limit self)) (unat (l_res self)) (\<lambda>_. []) calls, self')"
  using check_run_refines [OF assms(1,2) limit_rel_fresh [OF assms(3)] assms(4)] .

text \<open>Two ids and a limit of one per three ticks: the second check of \<open>a\<close> is refused.\<close>

definition ex_limit :: "(string \<times> entry) list limit" where
  "ex_limit = \<lparr>l_entries = None, l_seconds = 3, l_limit = 1, l_res = 1, l_ncounts = 3\<rparr>"

definition ex_calls :: "(nat \<times> string) list" where
  "ex_calls = [(10, ''a''), (11, ''b''), (12, ''a''), (13, ''a'')]"

lemma ex_setup:
  "limit_ok ex_limit" "l_entries ex_limit = None" "paced (unat (l_res ex_limit)) 0 (\<lambda>_. None) ex_calls"
  by (simp_all add: ex_limit_def ex_calls_def limit_ok_def)

lemma ex_spec: "spec_run 3 1 1 (\<lambda>_. []) ex_calls = [True, True, False, True]"
  by (simp add: ex_calls_def spec_check_def in_window_def)

theorem rate_limit_refines_window_witness:
  "\<exists>self'. check_run alist_hash ex_limit ex_calls = Some ([True, True, False, True], self')"
  using rate_limit_refines_window [OF alist_hash_laws ex_setup] ex_spec
  by (simp add: ex_limit_def)

text \<open>
  C9: the limit holds. In such a run no window of \<open>ncounts\<close> consecutive ticks, wherever it lies,
  contains more than \<open>limit\<close> accepted requests of one id.
\<close>

theorem rate_limit_safe:
  assumes "psc_hash_laws ops" "limit_ok self" "l_entries self = None"
    "paced (unat (l_res self)) 0 (\<lambda>_. None) calls"
    "check_run ops self calls = Some (rs, self')"
  shows "ticks_in W (unat (l_ncounts self)) (accepted (unat (l_res self)) idt calls rs)
    \<le> unat (l_limit self)"
proof -
  have "rs = spec_run (unat (l_ncounts self)) (unat (l_limit self)) (unat (l_res self)) (\<lambda>_. []) calls"
    using check_run_refines [OF assms(1,2) limit_rel_fresh [OF assms(3)] assms(4)] assms(5) by simp
  then show ?thesis
    using spec_run_limit [OF assms(4), of W "unat (l_ncounts self)" "\<lambda>_. []" idt "unat (l_limit self)"]
    by (simp add: ticks_in_def)
qed

theorem rate_limit_safe_witness:
  "\<exists>rs self'. check_run alist_hash ex_limit ex_calls = Some (rs, self')
     \<and> ticks_in 9 3 (accepted 1 ''a'' ex_calls rs) \<le> 1"
proof -
  obtain self' where run: "check_run alist_hash ex_limit ex_calls =
      Some (spec_run 3 1 1 (\<lambda>_. []) ex_calls, self')"
    using check_run_refines [OF alist_hash_laws ex_setup(1) limit_rel_fresh [OF ex_setup(2)] ex_setup(3)]
    by (auto simp: ex_limit_def)
  from rate_limit_safe [OF alist_hash_laws ex_setup this, of 9 "''a''"] run show ?thesis
    by (auto simp: ex_limit_def)
qed

text \<open>
  Configuring a window of 1 to 65535 seconds cuts it into at most 512 ticks of equal length
  that cover it, with less than one tick to spare; a window of 0 seconds divides by zero.
\<close>

theorem addLimit_window:
  "RateLimitOpts_addLimit ls 0 lim = None
   \<and> (seconds \<noteq> 0 \<longrightarrow>
     (\<exists>l. RateLimitOpts_addLimit ls seconds lim = Some (ls @ [l]) \<and> limit_ok l \<and> l_entries l = None
       \<and> l_limit l = lim \<and> unat (l_ncounts l) \<le> 512
       \<and> unat seconds \<le> unat (l_res l) * unat (l_ncounts l)
       \<and> unat (l_res l) * (unat (l_ncounts l) - 1) < unat seconds))"
proof (intro conjI impI)
  show "RateLimitOpts_addLimit ls 0 lim = None"
    by (simp add: RateLimitOpts_addLimit_def MAXCOUNTS_def)
next
  assume s: "seconds \<noteq> 0"
  define res where "res = (unat seconds + 511) div 512"
  obtain l where l: "RateLimitOpts_addLimit ls seconds lim = Some (ls @ [l])" "l_entries l = None"
    "unat (l_res l) = res" "0 < res" "unat (l_ncounts l) = (unat seconds + res - 1) div res" "l_limit l = lim"
    using addLimit_eq [OF s, of ls lim] unfolding res_def by blast
  have s0: "0 < unat seconds" using s by (simp add: unat_gt_0)
  have cover: "unat seconds \<le> res * unat (l_ncounts l)" "res * (unat (l_ncounts l) - 1) < unat seconds"
    using ceil_div [OF l(4)] s0 by (simp_all only: l(5))
  have "unat seconds \<le> 512 * res" using ceil_div(1) [of 512 "unat seconds"] by (simp add: res_def)
  then have "res * (unat (l_ncounts l) - 1) < res * 512"
    using cover(2) by (metis mult.commute order_less_le_trans)
  then have "unat (l_ncounts l) - 1 < 512" using mult_less_cancel1 by blast
  then have "unat (l_ncounts l) \<le> 512" by simp
  moreover have "limit_ok l"
    using l(3,4) cover(1) s0 by (auto simp: limit_ok_def)
  ultimately show "\<exists>l. RateLimitOpts_addLimit ls seconds lim = Some (ls @ [l]) \<and> limit_ok l
       \<and> l_entries l = None \<and> l_limit l = lim \<and> unat (l_ncounts l) \<le> 512
       \<and> unat seconds \<le> unat (l_res l) * unat (l_ncounts l)
       \<and> unat (l_res l) * (unat (l_ncounts l) - 1) < unat seconds"
    using l cover by auto
qed

theorem addLimit_window_witness:
  "\<exists>l. RateLimitOpts_addLimit [] 3600 25 = Some [l :: unit limit] \<and> limit_ok l
     \<and> 3600 \<le> unat (l_res l) * unat (l_ncounts l)"
  using addLimit_window [of "[] :: unit limit list" 25 3600] by auto

end
