(* ===== verification/Chain_Table.thy ===== *)
theory Chain_Table
  imports Str_Util "HOL-Library.Multiset"
begin

text \<open>
  The small hash tables that contexts, sessions and templates build into their objects: an array of
  buckets, each a chain of entries linked by \<open>next\<close>. \<open>findProp\<close> searches the chain of a key's
  bucket, \<open>insertOrUpdate\<close> reuses the entry of a key or appends one at the end of the chain, and
  releases what the entry owned before it is overwritten. The three copies of this code differ only
  in the entries, so the entry type and the selection of its key are arguments here.

  The locale \<open>owning_table\<close> states what the owners rely on, and proves once that what is stored is
  either still there or was released, each thing exactly once.
\<close>

section \<open>The table\<close>

definition ct_empty :: "nat \<Rightarrow> 'e list list" where
  "ct_empty bits = replicate (HT_SIZE bits) []"

fun chain_find :: "('e \<Rightarrow> string) \<Rightarrow> string \<Rightarrow> 'e list \<Rightarrow> 'e option" where
  "chain_find keyof key [] = None"
| "chain_find keyof key (prop # nxt) =
     (if keyof prop = key then Some prop else chain_find keyof key nxt)"

definition ct_find :: "nat \<Rightarrow> ('e \<Rightarrow> string) \<Rightarrow> 'e list list \<Rightarrow> string \<Rightarrow> 'e option" where
  "ct_find bits keyof tab key = chain_find keyof key (tab ! unat (hash key bits))"

text \<open>\<open>insertOrUpdate\<close> followed by the caller's assignments to the entry it returns.\<close>

fun chain_store :: "('e \<Rightarrow> string) \<Rightarrow> 'e \<Rightarrow> 'e list \<Rightarrow> 'e list" where
  "chain_store keyof e [] = [e]"
| "chain_store keyof e (prop # nxt) =
     (if keyof prop = keyof e then e # nxt else prop # chain_store keyof e nxt)"

definition ct_store :: "nat \<Rightarrow> ('e \<Rightarrow> string) \<Rightarrow> 'e list list \<Rightarrow> 'e \<Rightarrow> 'e list list" where
  "ct_store bits keyof tab e =
     (let h = unat (hash (keyof e) bits) in tab[h := chain_store keyof e (tab ! h)])"

section \<open>Lemmas\<close>

definition ct_ok :: "nat \<Rightarrow> ('e \<Rightarrow> string) \<Rightarrow> 'e list list \<Rightarrow> bool" where
  "ct_ok bits keyof tab \<longleftrightarrow> length tab = HT_SIZE bits
     \<and> (\<forall>i < HT_SIZE bits. \<forall>e \<in> set (tab ! i). unat (hash (keyof e) bits) = i)"

lemma chain_find_store:
  "chain_find keyof k (chain_store keyof e es) = (if k = keyof e then Some e else chain_find keyof k es)"
  by (induction es) auto

lemma set_chain_store: "set (chain_store keyof e es) \<subseteq> insert e (set es)"
  by (induction es) auto

lemma mset_chain_store:
  "mset (chain_store keyof e es) + (case chain_find keyof (keyof e) es of None \<Rightarrow> {#} | Some old \<Rightarrow> {#old#})
    = add_mset e (mset es)"
  by (induction es) (auto split: option.splits)

lemma chain_find_key: "chain_find keyof k es = Some e \<Longrightarrow> keyof e = k \<and> e \<in> set es"
  by (induction es) (auto split: if_splits)

lemma mset_concat_update:
  "i < length tab \<Longrightarrow> mset (concat (tab[i := c])) + mset (tab ! i) = mset (concat tab) + mset c"
proof (induction tab arbitrary: i)
  case (Cons b tab)
  then show ?case by (cases i) (simp_all add: union_ac)
qed simp

lemma ct_empty_ok: "ct_ok bits keyof (ct_empty bits)" "ct_find bits keyof (ct_empty bits) key = None"
  "concat (ct_empty bits) = []"
  by (simp_all add: ct_ok_def ct_empty_def ct_find_def)

lemma ct_store_ok: "ct_ok bits keyof tab \<Longrightarrow> ct_ok bits keyof (ct_store bits keyof tab e)"
  unfolding ct_ok_def ct_store_def Let_def
  using set_chain_store [of keyof e "tab ! unat (hash (keyof e) bits)"]
  by (auto simp: nth_list_update)

lemma ct_find_store:
  "ct_ok bits keyof tab \<Longrightarrow>
    ct_find bits keyof (ct_store bits keyof tab e) k = (if k = keyof e then Some e else ct_find bits keyof tab k)"
  by (auto simp: ct_find_def ct_store_def ct_ok_def Let_def chain_find_store nth_list_update)

lemma mset_ct_store:
  assumes "ct_ok bits keyof tab"
  shows "mset (concat (ct_store bits keyof tab e))
      + (case ct_find bits keyof tab (keyof e) of None \<Rightarrow> {#} | Some old \<Rightarrow> {#old#})
    = add_mset e (mset (concat tab))"
proof -
  let ?h = "unat (hash (keyof e) bits)"
  have "?h < length tab" using assms by (simp add: ct_ok_def)
  note upd = mset_concat_update [OF this, of "chain_store keyof e (tab ! ?h)"]
  let ?old = "case chain_find keyof (keyof e) (tab ! ?h) of None \<Rightarrow> {#} | Some old \<Rightarrow> {#old#}"
  let ?A = "mset (concat (tab[?h := chain_store keyof e (tab ! ?h)]))"
  have "(?A + ?old) + mset (tab ! ?h) = (?A + mset (tab ! ?h)) + ?old" by (simp only: union_ac)
  also have "\<dots> = mset (concat tab) + (mset (chain_store keyof e (tab ! ?h)) + ?old)"
    unfolding upd by (simp only: union_ac)
  also have "\<dots> = add_mset e (mset (concat tab)) + mset (tab ! ?h)"
    unfolding mset_chain_store by simp
  finally show ?thesis
    unfolding ct_store_def ct_find_def Let_def by (rule add_right_imp_eq)
qed

lemma ct_find_key: "ct_find bits keyof tab k = Some e \<Longrightarrow> keyof e = k"
  unfolding ct_find_def using chain_find_key by fast

section \<open>The interface\<close>

text \<open>
  A store of entries by name. \<open>owned\<close> is what an entry owns (an object with the function that
  deletes it, an allocated string), \<open>put\<close> returns what was released to make room.
\<close>

locale owning_table =
  fixes empty :: 's
    and get :: "'s \<Rightarrow> string \<Rightarrow> 'e option"
    and put :: "'s \<Rightarrow> 'e \<Rightarrow> 's"
    and keyof :: "'e \<Rightarrow> string"
    and entries :: "'s \<Rightarrow> 'e list"
    and inv :: "'s \<Rightarrow> bool"
    and owned :: "'e \<Rightarrow> 'r multiset"
  assumes inv_empty: "inv empty"
    and inv_put: "inv s \<Longrightarrow> inv (put s e)"
    and get_empty: "get empty k = None"
    and get_put: "inv s \<Longrightarrow> get (put s e) k = (if k = keyof e then Some e else get s k)"
    and entries_empty: "entries empty = []"
    and entries_put: "inv s \<Longrightarrow> mset (entries (put s e))
        + (case get s (keyof e) of None \<Rightarrow> {#} | Some old \<Rightarrow> {#old#}) = add_mset e (mset (entries s))"
begin

definition released :: "'s \<Rightarrow> string \<Rightarrow> 'r multiset" where
  "released s k = (case get s k of None \<Rightarrow> {#} | Some old \<Rightarrow> owned old)"

definition holds :: "'s \<Rightarrow> 'r multiset" where
  "holds s = \<Sum>\<^sub># (image_mset owned (mset (entries s)))"

lemma holds_empty [simp]: "holds empty = {#}"
  by (simp add: holds_def entries_empty)

lemma holds_put: "inv s \<Longrightarrow> holds (put s e) + released s (keyof e) = holds s + owned e"
  using arg_cong [OF entries_put, of s "\<lambda>m. \<Sum>\<^sub># (image_mset owned m)" e]
  by (auto simp: holds_def released_def union_ac split: option.splits)

text \<open>A run of stores: the table and everything released on the way.\<close>

fun run :: "'s \<Rightarrow> 'r multiset \<Rightarrow> 'e list \<Rightarrow> 's \<times> 'r multiset" where
  "run s r [] = (s, r)"
| "run s r (e # es) = run (put s e) (r + released s (keyof e)) es"

lemma run_inv: "inv s \<Longrightarrow> inv (fst (run s r es))"
  by (induction es arbitrary: s r) (simp_all add: inv_put)

lemma run_conserves:
  "inv s \<Longrightarrow> snd (run s r es) + holds (fst (run s r es)) = r + holds s + \<Sum>\<^sub># (image_mset owned (mset es))"
proof (induction es arbitrary: s r)
  case (Cons e es)
  have "snd (run s r (e # es)) + holds (fst (run s r (e # es)))
      = r + (released s (keyof e) + holds (put s e)) + \<Sum>\<^sub># (image_mset owned (mset es))"
    using Cons.IH [OF inv_put [OF Cons.prems, of e], of "r + released s (keyof e)"] by (simp add: union_ac)
  also have "released s (keyof e) + holds (put s e) = holds s + owned e"
    using holds_put [OF Cons.prems, of e] by (simp add: union_commute)
  finally show ?case by (simp add: union_ac)
qed simp

lemma run_get:
  "inv s \<Longrightarrow> get (fst (run s r es)) k =
    (case filter (\<lambda>e. keyof e = k) es of [] \<Rightarrow> get s k | xs \<Rightarrow> Some (last xs))"
  by (induction es arbitrary: s r) (auto simp: inv_put get_put split: list.splits)

end

end
