(* ===== verification/Header.thy ===== *)
theory Header
  imports Str_Util
begin

text \<open>
  \<open>http/header.c\<close>: one HTTP header, a name and a value with their lengths in 16 bits. A header is
  only created if its line fits 16 bits too, so the size the code computes is the number of bytes
  it writes.
\<close>

record header =
  h_name :: string
  h_value :: string
  h_namesize :: u16
  h_valuesize :: u16

definition UINT16_MAX :: nat where
  "UINT16_MAX = 65535"

text \<open>The lengths of name and value, or \<^term>\<open>None\<close> where the code returns -1.\<close>

definition validate :: "string \<Rightarrow> string \<Rightarrow> (nat \<times> nat) option" where
  "validate name val =
     (if length name > UINT16_MAX then None
      else if length val > UINT16_MAX then None
      else if length name + length val + 4 > UINT16_MAX then None
      else Some (length name, length val))"

definition header_new :: "string \<Rightarrow> string \<Rightarrow> nat \<Rightarrow> nat \<Rightarrow> header" where
  "header_new name val namesize valuesize =
     \<lparr>h_name = name, h_value = val, h_namesize = of_nat namesize, h_valuesize = of_nat valuesize\<rparr>"

definition Header_create :: "string \<Rightarrow> string \<Rightarrow> header option" where
  "Header_create name val =
     (case validate name val of None \<Rightarrow> None
      | Some (namesize, valuesize) \<Rightarrow> Some (header_new name val namesize valuesize))"

text \<open>
  \<open>Header_createPassVal\<close> takes the value over: it is the header's, or it is freed where no header
  is created. The second component says whether it was freed.
\<close>

definition Header_createPassVal :: "string \<Rightarrow> string \<Rightarrow> header option \<times> bool" where
  "Header_createPassVal name val =
     (case validate name val of None \<Rightarrow> (None, True)
      | Some (namesize, valuesize) \<Rightarrow> (Some (header_new name val namesize valuesize), False))"

definition Header_size :: "header \<Rightarrow> u16" where
  "Header_size self = h_namesize self + h_valuesize self + 4"

text \<open>The bytes written, and the number returned.\<close>

definition Header_writeTo :: "header \<Rightarrow> string \<times> u16" where
  "Header_writeTo self =
     (take (unat (h_namesize self)) (h_name self) @ '': '' @
      take (unat (h_valuesize self)) (h_value self) @ [CR, LF], Header_size self)"

section \<open>Well-formed headers\<close>

definition header_ok :: "header \<Rightarrow> bool" where
  "header_ok h \<longleftrightarrow> unat (h_namesize h) = length (h_name h) \<and> unat (h_valuesize h) = length (h_value h)
     \<and> length (h_name h) + length (h_value h) + 4 \<le> UINT16_MAX"

lemma Header_create_ok [swad_inv]: "Header_create name val = Some h \<Longrightarrow> header_ok h"
  by (auto simp: Header_create_def validate_def header_new_def header_ok_def UINT16_MAX_def
      unat_of_nat split: if_splits)

lemma Header_create_fields:
  "Header_create name val = Some h \<Longrightarrow> h_name h = name \<and> h_value h = val"
  by (auto simp: Header_create_def header_new_def split: option.splits)

lemma Header_create_Some_iff:
  "Header_create name val \<noteq> None \<longleftrightarrow> length name + length val + 4 \<le> UINT16_MAX"
  by (auto simp: Header_create_def validate_def UINT16_MAX_def split: if_splits option.splits)

lemma Header_createPassVal_eq:
  "Header_createPassVal name val = (Header_create name val, Header_create name val = None)"
  by (auto simp: Header_createPassVal_def Header_create_def split: option.splits)

lemma Header_size_ok: "header_ok h \<Longrightarrow> unat (Header_size h) = length (h_name h) + length (h_value h) + 4"
  by (auto simp: header_ok_def Header_size_def UINT16_MAX_def unat_word_ariths)

lemma Header_writeTo_ok:
  "header_ok h \<Longrightarrow> Header_writeTo h = (h_name h @ '': '' @ h_value h @ [CR, LF], Header_size h)"
  by (simp add: Header_writeTo_def header_ok_def)

end
