(* ===== verification/Header_Set.thy ===== *)
theory Header_Set
  imports Header
begin

text \<open>
  \<open>http/headerset.c\<close>: the headers of a message, a hash table of 32 buckets keyed by the header
  name in lower case. A bucket is a chain of entries in the order they were added, here the list
  of its entries; a pointer to an entry of a chain is the list from that entry on, and a parent
  pointer the position before it. Destroying an entry removes it from its list.

  The abstraction is \<open>hs_all\<close>, the headers of one name in the order of addition. The locale
  \<open>multimap\<close> states what the users of a header set rely on.
\<close>

section \<open>Data\<close>

record hsentry =
  hse_key :: string
  hse_header :: header

record headerset =
  hs_count :: u64
  hs_buckets :: "hsentry list list"
  hs_size :: u16

record headeriterator =
  it_key :: "string option"
  it_entry :: "nat option"
  it_hash :: u8

definition HSHT_BITS :: nat where
  "HSHT_BITS = 5"

definition HSHT_SIZE :: nat where
  "HSHT_SIZE = HT_SIZE HSHT_BITS"

section \<open>Operations\<close>

definition HeaderSet_create :: headerset where
  "HeaderSet_create = \<lparr>hs_count = 0, hs_buckets = replicate HSHT_SIZE [], hs_size = 0\<rparr>"

text \<open>\<open>i\<close> is the position of the entry in its chain, which says what its parent is.\<close>

definition removeEntry :: "headerset \<Rightarrow> u8 \<Rightarrow> nat \<Rightarrow> hsentry \<Rightarrow> headerset" where
  "removeEntry self hv i e =
     (let chain = hs_buckets self ! unat hv
      in self\<lparr>hs_count := hs_count self - 1,
              hs_size := hs_size self - Header_size (hse_header e),
              hs_buckets := (hs_buckets self)[unat hv := take i chain @ drop (i + 1) chain]\<rparr>)"

definition HeaderSet_add :: "headerset \<Rightarrow> header \<Rightarrow> headerset" where
  "HeaderSet_add self h =
     (let key = lowerstr (h_name h);
          e = \<lparr>hse_key = key, hse_header = h\<rparr>;
          hashval = unat (hash key HSHT_BITS)
      in self\<lparr>hs_buckets := (hs_buckets self)[hashval := hs_buckets self ! hashval @ [e]],
              hs_count := hs_count self + 1,
              hs_size := hs_size self + Header_size h\<rparr>)"

fun remove_loop :: "headerset \<Rightarrow> u8 \<Rightarrow> string \<Rightarrow> string \<Rightarrow> nat \<Rightarrow> hsentry list \<Rightarrow> bool \<times> headerset" where
  "remove_loop self hv key val i [] = (False, self)"
| "remove_loop self hv key val i (current # nxt) =
     (if key = hse_key current \<and> val = h_value (hse_header current)
      then (True, removeEntry self hv i current)
      else remove_loop self hv key val (i + 1) nxt)"

definition HeaderSet_remove :: "headerset \<Rightarrow> header \<Rightarrow> bool \<times> headerset" where
  "HeaderSet_remove self h =
     (let key = lowerstr (h_name h); hv = hash key HSHT_BITS
      in remove_loop self hv key (h_value h) 0 (hs_buckets self ! unat hv))"

fun removeAll_loop :: "headerset \<Rightarrow> u8 \<Rightarrow> string \<Rightarrow> nat \<Rightarrow> hsentry list \<Rightarrow> nat \<Rightarrow> nat \<times> headerset" where
  "removeAll_loop self hv key i [] rc = (rc, self)"
| "removeAll_loop self hv key i (current # nxt) rc =
     (if key = hse_key current
      then removeAll_loop (removeEntry self hv i current) hv key i nxt (rc + 1)
      else removeAll_loop self hv key (i + 1) nxt rc)"

definition HeaderSet_removeAll :: "headerset \<Rightarrow> string \<Rightarrow> nat \<times> headerset" where
  "HeaderSet_removeAll self name =
     (let key = lowerstr name; hv = hash key HSHT_BITS
      in removeAll_loop self hv key 0 (hs_buckets self ! unat hv) 0)"

definition HeaderSet_set :: "headerset \<Rightarrow> header \<Rightarrow> headerset" where
  "HeaderSet_set self h = HeaderSet_add (snd (HeaderSet_removeAll self (h_name h))) h"

fun first_loop :: "string \<Rightarrow> hsentry list \<Rightarrow> header option" where
  "first_loop key [] = None"
| "first_loop key (e # es) = (if key = hse_key e then Some (hse_header e) else first_loop key es)"

definition HeaderSet_first :: "headerset \<Rightarrow> string \<Rightarrow> header option" where
  "HeaderSet_first self name =
     (let key = lowerstr name in first_loop key (hs_buckets self ! unat (hash key HSHT_BITS)))"

fun single_loop :: "string \<Rightarrow> header option \<Rightarrow> hsentry list \<Rightarrow> header option" where
  "single_loop key found [] = found"
| "single_loop key found (e # es) =
     (if key = hse_key e
      then (if found = None then single_loop key (Some (hse_header e)) es else None)
      else single_loop key found es)"

definition HeaderSet_single :: "headerset \<Rightarrow> string \<Rightarrow> header option" where
  "HeaderSet_single self name =
     (let key = lowerstr name in single_loop key None (hs_buckets self ! unat (hash key HSHT_BITS)))"

definition HeaderSet_size :: "headerset \<Rightarrow> u16" where
  "HeaderSet_size self = hs_size self"

subsection \<open>Iterators\<close>

text \<open>
  An iterator points at the set it iterates, which its operations take as an argument; \<open>it_entry\<close>
  is the position in the chain of bucket \<open>it_hash\<close>.
\<close>

definition HeaderSet_all :: headeriterator where
  "HeaderSet_all = \<lparr>it_key = None, it_entry = None, it_hash = 0xff\<rparr>"

definition HeaderSet_any :: "string \<Rightarrow> headeriterator" where
  "HeaderSet_any name =
     \<lparr>it_key = Some (lowerstr name), it_entry = None, it_hash = hash (lowerstr name) HSHT_BITS\<rparr>"

definition HeaderIterator_current :: "headerset \<Rightarrow> headeriterator \<Rightarrow> header option" where
  "HeaderIterator_current self it =
     (case it_entry it of None \<Rightarrow> None
      | Some i \<Rightarrow> Some (hse_header (hs_buckets self ! unat (it_hash it) ! i)))"

text \<open>The next position from \<open>i\<close> on, in the rest of a chain, whose entry the key selects.\<close>

fun next_match :: "string option \<Rightarrow> nat \<Rightarrow> hsentry list \<Rightarrow> nat option" where
  "next_match key i [] = None"
| "next_match key i (e # es) =
     (if key = None \<or> key = Some (hse_key e) then Some i else next_match key (i + 1) es)"

text \<open>
  The loop over the buckets behind \<open>hash\<close>. The first argument is the bound of the source's
  condition; where it is 32 rather than 31 the loop reads \<open>buckets[32]\<close>, outside the array,
  which is \<^term>\<open>None\<close>.
\<close>

function next_bucket :: "nat \<Rightarrow> headerset \<Rightarrow> nat \<Rightarrow> nat option option" where
  "next_bucket bound self h =
     (if h < bound
      then (if HSHT_SIZE \<le> h + 1 then None
            else if hs_buckets self ! (h + 1) \<noteq> [] then Some (Some (h + 1))
            else next_bucket bound self (h + 1))
      else Some None)"
  by pat_completeness auto
termination by (relation "measure (\<lambda>(bound, self, h). bound - h)") auto

declare next_bucket.simps [simp del]

text \<open>
  The last loop of \<open>moveNext\<close> starts at hash 255, which its first step makes 0, tests bucket 0,
  and goes on while the hash is less than 32.
\<close>

definition HeaderIterator_moveNext :: "headerset \<Rightarrow> headeriterator \<Rightarrow> (bool \<times> headeriterator) option" where
  "HeaderIterator_moveNext self it =
     (let chain = hs_buckets self ! unat (it_hash it)
      in case it_entry it of
           Some i \<Rightarrow>
             (case next_match (it_key it) (i + 1) (drop (i + 1) chain) of
                Some j \<Rightarrow> Some (True, it\<lparr>it_entry := Some j\<rparr>)
              | None \<Rightarrow>
                  if it_key it \<noteq> None then Some (False, it\<lparr>it_entry := None\<rparr>)
                  else (case next_bucket (HSHT_SIZE - 1) self (unat (it_hash it)) of
                          None \<Rightarrow> None
                        | Some (Some h) \<Rightarrow> Some (True, it\<lparr>it_hash := of_nat h, it_entry := Some 0\<rparr>)
                        | Some None \<Rightarrow> Some (False, it\<lparr>it_hash := 0xff, it_entry := None\<rparr>)))
         | None \<Rightarrow>
             (if it_key it \<noteq> None
              then (case next_match (it_key it) 0 chain of
                      Some j \<Rightarrow> Some (True, it\<lparr>it_entry := Some j\<rparr>)
                    | None \<Rightarrow> Some (False, it))
              else
                (let first = unat (it_hash it + 1)
                 in if HSHT_SIZE \<le> first then None
                    else if hs_buckets self ! first \<noteq> []
                    then Some (True, it\<lparr>it_hash := of_nat first, it_entry := Some 0\<rparr>)
                    else (case next_bucket HSHT_SIZE self first of
                            None \<Rightarrow> None
                          | Some (Some h) \<Rightarrow> Some (True, it\<lparr>it_hash := of_nat h, it_entry := Some 0\<rparr>)
                          | Some None \<Rightarrow> Some (False, it\<lparr>it_hash := 0xff\<rparr>)))))"

section \<open>Invariant and abstraction\<close>

definition hs_matching :: "string \<Rightarrow> hsentry list \<Rightarrow> hsentry list" where
  "hs_matching key es = filter (\<lambda>e. hse_key e = key) es"

definition headers_of :: "headerset \<Rightarrow> string \<Rightarrow> header list" where
  "headers_of self name =
     map hse_header
       (hs_matching (lowerstr name) (hs_buckets self ! unat (hash (lowerstr name) HSHT_BITS)))"

definition hs_sum :: "(hsentry \<Rightarrow> 'a::ab_group_add) \<Rightarrow> hsentry list list \<Rightarrow> 'a" where
  "hs_sum f bs = sum_list (map f (concat bs))"

definition hse_ok :: "nat \<Rightarrow> hsentry \<Rightarrow> bool" where
  "hse_ok i e \<longleftrightarrow>
     hse_key e = lowerstr (h_name (hse_header e)) \<and> unat (hash (hse_key e) HSHT_BITS) = i"

definition hs_ok :: "headerset \<Rightarrow> bool" where
  "hs_ok self \<longleftrightarrow>
     length (hs_buckets self) = HSHT_SIZE
   \<and> (\<forall>i < HSHT_SIZE. \<forall>e \<in> set (hs_buckets self ! i). hse_ok i e)
   \<and> hs_count self = hs_sum (\<lambda>_. 1) (hs_buckets self)
   \<and> hs_size self = hs_sum (Header_size \<circ> hse_header) (hs_buckets self)"

lemma hs_bucket_bound [simp, swad_bound]: "unat (hash key HSHT_BITS) < HSHT_SIZE"
  by (simp add: HSHT_SIZE_def)

lemma hs_matching_simps [simp]:
  "hs_matching k [] = []"
  "hs_matching k (e # es) = (if hse_key e = k then e # hs_matching k es else hs_matching k es)"
  "hs_matching k (es @ es') = hs_matching k es @ hs_matching k es'"
  by (simp_all add: hs_matching_def)

lemma hs_sum_update:
  "i < length bs \<Longrightarrow>
    hs_sum f (bs[i := c]) = hs_sum f bs - sum_list (map f (bs ! i)) + sum_list (map f c)"
proof (induction bs arbitrary: i)
  case (Cons b bs)
  then show ?case by (cases i) (simp_all add: hs_sum_def algebra_simps)
qed simp

lemma hs_sum_empty [simp]: "hs_sum f (replicate n []) = 0"
  by (induction n) (simp_all add: hs_sum_def)

lemma HSHT_SIZE_eq: "HSHT_SIZE = 32"
  by (simp add: HSHT_SIZE_def HSHT_BITS_def HT_SIZE_values)

text \<open>Replacing one bucket: the other names keep their headers.\<close>

definition hs_put :: "headerset \<Rightarrow> nat \<Rightarrow> hsentry list \<Rightarrow> headerset" where
  "hs_put self i chain =
     self\<lparr>hs_buckets := (hs_buckets self)[i := chain],
          hs_count := hs_count self - of_nat (length (hs_buckets self ! i)) + of_nat (length chain),
          hs_size := hs_size self - sum_list (map (Header_size \<circ> hse_header) (hs_buckets self ! i))
            + sum_list (map (Header_size \<circ> hse_header) chain)\<rparr>"

lemma sum_list_ones: "sum_list (map (\<lambda>_. 1) xs) = of_nat (length xs)"
  by (induction xs) simp_all

lemma hs_ok_put:
  assumes "hs_ok self" "i < HSHT_SIZE" "\<forall>e \<in> set chain. hse_ok i e"
  shows "hs_ok (hs_put self i chain)"
  using assms unfolding hs_ok_def hs_put_def
  by (auto simp: hs_sum_update sum_list_ones nth_list_update)

lemma headers_of_put:
  assumes "hs_ok self" "i = unat (hash key HSHT_BITS)"
    "\<forall>k. k \<noteq> key \<longrightarrow> hs_matching k chain = hs_matching k (hs_buckets self ! i)"
  shows "headers_of (hs_put self i chain) name =
    (if lowerstr name = key then map hse_header (hs_matching key chain) else headers_of self name)"
  using assms unfolding headers_of_def hs_put_def by (auto simp: hs_ok_def nth_list_update)

lemma HeaderSet_add_put:
  assumes "hs_ok self"
  shows "HeaderSet_add self h =
    (let i = unat (hash (lowerstr (h_name h)) HSHT_BITS)
     in hs_put self i (hs_buckets self ! i @ [\<lparr>hse_key = lowerstr (h_name h), hse_header = h\<rparr>]))"
  by (simp add: HeaderSet_add_def hs_put_def Let_def algebra_simps)

lemma removeEntry_at:
  assumes "hs_buckets self ! unat hv = pre @ cur # post" "unat hv < length (hs_buckets self)"
  shows "removeEntry self hv (length pre) cur = hs_put self (unat hv) (pre @ post)"
    and "hs_buckets (removeEntry self hv (length pre) cur) ! unat hv = pre @ post"
  using assms by (simp_all add: removeEntry_def hs_put_def Let_def algebra_simps)

lemma hs_put_put:
  "i < length (hs_buckets self) \<Longrightarrow> hs_put (hs_put self i c) i c' = hs_put self i c'"
  by (simp add: hs_put_def algebra_simps)

lemma hs_put_same [simp]: "hs_put self i (hs_buckets self ! i) = self"
  by (simp add: hs_put_def)

lemma hs_put_buckets [simp]: "hs_buckets (hs_put self i c) = (hs_buckets self)[i := c]"
  by (simp add: hs_put_def)

lemma removeAll_loop_eq:
  assumes "unat hv < length (hs_buckets self)" "hs_buckets self ! unat hv = pre @ cur"
  shows "removeAll_loop self hv key (length pre) cur rc =
    (rc + length (hs_matching key cur),
     hs_put self (unat hv) (pre @ filter (\<lambda>e. hse_key e \<noteq> key) cur))"
  using assms
proof (induction cur arbitrary: self pre rc)
  case Nil
  then have "hs_put self (unat hv) pre = self" using hs_put_same [of self "unat hv"] by simp
  then show ?case by simp
next
  case (Cons e cur)
  show ?case
  proof (cases "hse_key e = key")
    case True
    have b: "removeEntry self hv (length pre) e = hs_put self (unat hv) (pre @ cur)"
      using removeEntry_at(1) [OF Cons.prems(2,1)] .
    show ?thesis
      using Cons.IH [of "hs_put self (unat hv) (pre @ cur)" pre "rc + 1"] Cons.prems True
      by (simp add: b hs_put_put)
  next
    case False
    then show ?thesis using Cons.IH [of self "pre @ [e]" rc] Cons.prems by auto
  qed
qed

fun remove_first :: "('a \<Rightarrow> bool) \<Rightarrow> 'a list \<Rightarrow> 'a list" where
  "remove_first P [] = []"
| "remove_first P (x # xs) = (if P x then xs else x # remove_first P xs)"

definition hs_same :: "string \<Rightarrow> string \<Rightarrow> hsentry \<Rightarrow> bool" where
  "hs_same key val e \<longleftrightarrow> key = hse_key e \<and> val = h_value (hse_header e)"

lemma hs_sameD: "hs_same key val e \<Longrightarrow> hse_key e = key"
  by (simp add: hs_same_def)

lemma remove_loop_eq:
  assumes "unat hv < length (hs_buckets self)" "hs_buckets self ! unat hv = pre @ cur"
  shows "remove_loop self hv key val (length pre) cur =
    (\<exists>e \<in> set cur. hs_same key val e,
     hs_put self (unat hv) (pre @ remove_first (hs_same key val) cur))"
  using assms
proof (induction cur arbitrary: pre)
  case Nil
  then have "hs_put self (unat hv) pre = self" using hs_put_same [of self "unat hv"] by simp
  then show ?case by simp
next
  case (Cons e cur)
  have b: "removeEntry self hv (length pre) e = hs_put self (unat hv) (pre @ cur)"
    using removeEntry_at(1) [OF Cons.prems(2,1)] .
  show ?case
    using Cons.IH [of "pre @ [e]"] Cons.prems b by (auto simp: hs_same_def)
qed

lemma hs_okD:
  assumes "hs_ok self"
  shows "length (hs_buckets self) = HSHT_SIZE"
    and "e \<in> set (hs_buckets self ! unat (hash k HSHT_BITS)) \<Longrightarrow> hse_ok (unat (hash k HSHT_BITS)) e"
  using assms by (auto simp: hs_ok_def)

lemma set_remove_first: "set (remove_first P xs) \<subseteq> set xs"
  by (induction xs) auto

lemma hs_matching_remove_first:
  "hs_matching k (remove_first (hs_same key val) es) =
    (if k = key then remove_first (hs_same key val) (hs_matching k es) else hs_matching k es)"
  by (induction es) (auto dest: hs_sameD)

lemma map_remove_first:
  "(\<And>x. x \<in> set xs \<Longrightarrow> P x = Q (f x)) \<Longrightarrow> map f (remove_first P xs) = remove_first Q (map f xs)"
  by (induction xs) auto

lemma hs_matching_filter_not:
  "hs_matching k (filter (\<lambda>e. hse_key e \<noteq> key) es) = (if k = key then [] else hs_matching k es)"
  by (induction es) auto

section \<open>The operations on the abstraction\<close>

lemma HeaderSet_create_spec: "hs_ok HeaderSet_create" "headers_of HeaderSet_create name = []"
  by (simp_all add: HeaderSet_create_def hs_ok_def headers_of_def)

lemma HeaderSet_add_spec:
  assumes "hs_ok self"
  shows "hs_ok (HeaderSet_add self h)"
    and "headers_of (HeaderSet_add self h) name =
      headers_of self name @ (if strcaseeq name (h_name h) then [h] else [])"
proof -
  let ?k = "lowerstr (h_name h)"
  have e: "hse_ok (unat (hash ?k HSHT_BITS)) \<lparr>hse_key = ?k, hse_header = h\<rparr>"
    by (simp add: hse_ok_def)
  then show "hs_ok (HeaderSet_add self h)"
    unfolding HeaderSet_add_put [OF assms] Let_def
    by (intro hs_ok_put [OF assms]) (auto dest: hs_okD(2) [OF assms])
  show "headers_of (HeaderSet_add self h) name =
      headers_of self name @ (if strcaseeq name (h_name h) then [h] else [])"
    unfolding HeaderSet_add_put [OF assms] Let_def
    by (subst headers_of_put [OF assms, of _ ?k]) (auto simp: lowerstr_eq_iff [symmetric] headers_of_def)
qed

lemma HeaderSet_removeAll_spec:
  assumes "hs_ok self"
  shows "hs_ok (snd (HeaderSet_removeAll self n))"
    and "fst (HeaderSet_removeAll self n) = length (headers_of self n)"
    and "headers_of (snd (HeaderSet_removeAll self n)) name =
      (if strcaseeq name n then [] else headers_of self name)"
proof -
  let ?k = "lowerstr n" let ?i = "unat (hash (lowerstr n) HSHT_BITS)"
  have eq: "HeaderSet_removeAll self n = (length (headers_of self n),
      hs_put self ?i (filter (\<lambda>e. hse_key e \<noteq> ?k) (hs_buckets self ! ?i)))"
    using removeAll_loop_eq [of "hash ?k HSHT_BITS" self "[]"] hs_okD(1) [OF assms]
    by (simp add: HeaderSet_removeAll_def headers_of_def Let_def)
  show "hs_ok (snd (HeaderSet_removeAll self n))"
    unfolding eq snd_conv by (intro hs_ok_put [OF assms]) (auto dest: hs_okD(2) [OF assms])
  show "fst (HeaderSet_removeAll self n) = length (headers_of self n)" by (simp add: eq)
  show "headers_of (snd (HeaderSet_removeAll self n)) name =
      (if strcaseeq name n then [] else headers_of self name)"
    unfolding eq snd_conv
    by (subst headers_of_put [OF assms, of _ ?k]) (auto simp: lowerstr_eq_iff [symmetric] hs_matching_filter_not)
qed

lemma HeaderSet_set_spec:
  assumes "hs_ok self"
  shows "hs_ok (HeaderSet_set self h)"
    and "headers_of (HeaderSet_set self h) name =
      (if strcaseeq name (h_name h) then [h] else headers_of self name)"
  unfolding HeaderSet_set_def
  using HeaderSet_add_spec [OF HeaderSet_removeAll_spec(1) [OF assms, of "h_name h"], of h]
    HeaderSet_removeAll_spec(3) [OF assms, of "h_name h" name] by simp_all

lemma HeaderSet_remove_spec:
  assumes "hs_ok self"
  shows "hs_ok (snd (HeaderSet_remove self h))"
    and "fst (HeaderSet_remove self h) \<longleftrightarrow> h_value h \<in> h_value ` set (headers_of self (h_name h))"
    and "headers_of (snd (HeaderSet_remove self h)) name =
      (if strcaseeq name (h_name h) then remove_first (\<lambda>g. h_value h = h_value g) (headers_of self name)
       else headers_of self name)"
proof -
  let ?k = "lowerstr (h_name h)" let ?i = "unat (hash (lowerstr (h_name h)) HSHT_BITS)"
  let ?b = "hs_buckets self ! ?i"
  have eq: "HeaderSet_remove self h = (\<exists>e \<in> set ?b. hs_same ?k (h_value h) e,
      hs_put self ?i (remove_first (hs_same ?k (h_value h)) ?b))"
    using remove_loop_eq [of "hash ?k HSHT_BITS" self "[]"] hs_okD(1) [OF assms]
    by (simp add: HeaderSet_remove_def Let_def)
  show "hs_ok (snd (HeaderSet_remove self h))"
    unfolding eq snd_conv using set_remove_first [of _ ?b]
    by (intro hs_ok_put [OF assms]) (auto dest: hs_okD(2) [OF assms])
  show "fst (HeaderSet_remove self h) \<longleftrightarrow> h_value h \<in> h_value ` set (headers_of self (h_name h))"
    unfolding eq fst_conv by (simp add: headers_of_def hs_matching_def hs_same_def image_iff) metis
  have same: "hs_same ?k (h_value h) e = (h_value h = h_value (hse_header e))"
    if "e \<in> set (hs_matching ?k ?b)" for e
    using that by (auto simp: hs_matching_def hs_same_def)
  have "headers_of (snd (HeaderSet_remove self h)) name =
      (if lowerstr name = ?k then map hse_header (remove_first (hs_same ?k (h_value h)) (hs_matching ?k ?b))
       else headers_of self name)"
    unfolding eq snd_conv
    by (subst headers_of_put [OF assms, of _ ?k]) (auto simp: hs_matching_remove_first)
  also have "map hse_header (remove_first (hs_same ?k (h_value h)) (hs_matching ?k ?b)) =
      remove_first (\<lambda>g. h_value h = h_value g) (map hse_header (hs_matching ?k ?b))"
    by (rule map_remove_first) (rule same)
  finally show "headers_of (snd (HeaderSet_remove self h)) name =
      (if strcaseeq name (h_name h) then remove_first (\<lambda>g. h_value h = h_value g) (headers_of self name)
       else headers_of self name)"
    by (auto simp: lowerstr_eq_iff [symmetric] headers_of_def)
qed

lemma HeaderSet_first_spec:
  "HeaderSet_first self name = (case headers_of self name of [] \<Rightarrow> None | h # _ \<Rightarrow> Some h)"
proof -
  have "first_loop key es = (case hs_matching key es of [] \<Rightarrow> None | e # _ \<Rightarrow> Some (hse_header e))" for key es
    by (induction es) auto
  then show ?thesis by (auto simp: HeaderSet_first_def headers_of_def Let_def split: list.splits)
qed

lemma HeaderSet_single_spec:
  "HeaderSet_single self name = (case headers_of self name of [h] \<Rightarrow> Some h | _ \<Rightarrow> None)"
proof -
  have some: "single_loop key (Some h) es = (if hs_matching key es = [] then Some h else None)" for key h es
    by (induction es) auto
  have "single_loop key None es = (case hs_matching key es of [e] \<Rightarrow> Some (hse_header e) | _ \<Rightarrow> None)" for key es
    by (induction es) (auto simp: some split: list.splits)
  then show ?thesis by (auto simp: HeaderSet_single_def headers_of_def Let_def split: list.splits)
qed

section \<open>Iteration\<close>

text \<open>
  What a client sees that calls \<open>moveNext\<close> until it returns 0: the headers in order, or
  \<^term>\<open>None\<close> if a bucket outside the array is read or the number of calls is exceeded.
\<close>

fun hs_visit :: "nat \<Rightarrow> headerset \<Rightarrow> headeriterator \<Rightarrow> header list option" where
  "hs_visit 0 self it = None"
| "hs_visit (Suc n) self it =
     (case HeaderIterator_moveNext self it of
        None \<Rightarrow> None
      | Some (False, it') \<Rightarrow> Some []
      | Some (True, it') \<Rightarrow>
          (case HeaderIterator_current self it' of
             None \<Rightarrow> None
           | Some h \<Rightarrow> map_option ((#) h) (hs_visit n self it')))"

lemma next_match_None: "next_match (Some key) i es = None \<longleftrightarrow> hs_matching key es = []"
  by (induction es arbitrary: i) auto

lemma next_match_Some:
  "next_match (Some key) i es = Some j \<Longrightarrow>
    \<exists>pre e post. es = pre @ e # post \<and> j = i + length pre \<and> hse_key e = key \<and> hs_matching key pre = []"
proof (induction es arbitrary: i)
  case (Cons a es)
  show ?case
  proof (cases "hse_key a = key")
    case True
    with Cons.prems have "a # es = [] @ a # es \<and> j = i + length [] \<and> hse_key a = key
      \<and> hs_matching key [] = []" by simp
    then show ?thesis by blast
  next
    case False
    with Cons obtain pre e post where "es = pre @ e # post" "j = i + 1 + length pre" "hse_key e = key"
      "hs_matching key pre = []" by fastforce
    with False have "a # es = (a # pre) @ e # post \<and> j = i + length (a # pre) \<and> hse_key e = key
      \<and> hs_matching key (a # pre) = []" by simp
    then show ?thesis by blast
  qed
qed simp

lemma next_match_any: "next_match None i es = (if es = [] then None else Some i)"
  by (cases es) auto

lemma drop_at:
  "drop i chain = pre @ e # post \<Longrightarrow> chain ! (i + length pre) = e \<and> drop (i + length pre + 1) chain = post"
proof -
  assume a: "drop i chain = pre @ e # post"
  then have "i \<le> length chain" by (cases "i \<le> length chain") auto
  then have "chain = take i chain @ pre @ e # post" "length (take i chain) = i" using a by (metis append_take_drop_id, simp)
  then show ?thesis by (metis append.assoc append_Cons append_Nil append_eq_conv_conj length_append
      length_append_singleton nth_append_length Suc_eq_plus1)
qed

lemma visit_any_from:
  assumes "drop i (hs_buckets self ! unat hv) = es" "length es < fuel"
    "ent = None \<and> i = 0 \<or> (\<exists>k. ent = Some k \<and> i = k + 1)"
  shows "hs_visit fuel self \<lparr>it_key = Some key, it_entry = ent, it_hash = hv\<rparr> =
    Some (map hse_header (hs_matching key es))"
  using assms
proof (induction fuel arbitrary: i es ent)
  case (Suc fuel)
  let ?it = "\<lparr>it_key = Some key, it_entry = ent, it_hash = hv\<rparr>"
  have step: "HeaderIterator_moveNext self ?it = (case next_match (Some key) i es of
      Some j \<Rightarrow> Some (True, ?it\<lparr>it_entry := Some j\<rparr>) | None \<Rightarrow> Some (False, ?it\<lparr>it_entry := None\<rparr>))"
    using Suc.prems(1,3) by (auto simp: HeaderIterator_moveNext_def Let_def split: option.splits)
  show ?case
  proof (cases "next_match (Some key) i es")
    case None
    moreover from this have "hs_matching key es = []" using next_match_None by metis
    ultimately show ?thesis by (simp add: step)
  next
    case (Some j)
    then obtain pre e post where e: "es = pre @ e # post" "j = i + length pre" "hse_key e = key"
      "hs_matching key pre = []" using next_match_Some by blast
    with Suc.prems(1) have d: "hs_buckets self ! unat hv ! j = e" "drop (j + 1) (hs_buckets self ! unat hv) = post"
      using drop_at [of i _ pre e post] by auto
    have "hs_visit fuel self \<lparr>it_key = Some key, it_entry = Some j, it_hash = hv\<rparr> =
      Some (map hse_header (hs_matching key post))"
      using Suc.IH [OF d(2), of "Some j"] Suc.prems(2) e(1) by simp
    moreover have "HeaderIterator_moveNext self ?it = Some (True, ?it\<lparr>it_entry := Some j\<rparr>)"
      using step Some by simp
    ultimately show ?thesis using e(1,3,4) d(1) by (simp add: HeaderIterator_current_def)
  qed
qed simp

lemma visit_any:
  "length (hs_buckets self ! unat (hash (lowerstr name) HSHT_BITS)) < fuel \<Longrightarrow>
    hs_visit fuel self (HeaderSet_any name) = Some (headers_of self name)"
  using visit_any_from [of 0 self "hash (lowerstr name) HSHT_BITS" _ fuel None "lowerstr name"]
  by (simp add: HeaderSet_any_def headers_of_def)

text \<open>Iterating everything: the buckets in order, and outside the array if all are empty.\<close>

lemma next_bucket_eq:
  assumes "length (hs_buckets self) = HSHT_SIZE"
  shows "next_bucket (HSHT_SIZE - 1) self h =
      Some (if concat (drop (h + 1) (hs_buckets self)) = [] then None
            else Some (h + 1 + length (takeWhile (\<lambda>b. b = []) (drop (h + 1) (hs_buckets self)))))"
proof (induction "HSHT_SIZE - 1 - h" arbitrary: h)
  case 0
  then show ?case using assms by (simp add: next_bucket.simps [of _ self h])
next
  case (Suc n)
  then have h: "h + 1 < HSHT_SIZE" by linarith
  then have d: "drop (h + 1) (hs_buckets self) = hs_buckets self ! (h + 1) # drop (h + 2) (hs_buckets self)"
    using assms by (simp add: Cons_nth_drop_Suc)
  have "next_bucket (HSHT_SIZE - 1) self h =
      (if hs_buckets self ! (h + 1) \<noteq> [] then Some (Some (h + 1)) else next_bucket (HSHT_SIZE - 1) self (h + 1))"
    using h by (subst next_bucket.simps) auto
  moreover have "n = HSHT_SIZE - 1 - (h + 1)" using Suc.hyps(2) by linarith
  ultimately show ?case using Suc.hyps(1) [of "h + 1"] d by simp
qed

lemma next_bucket_outside:
  assumes "length (hs_buckets self) = HSHT_SIZE" "h < HSHT_SIZE"
  shows "next_bucket HSHT_SIZE self h =
      (if concat (drop (h + 1) (hs_buckets self)) = [] then None
       else Some (Some (h + 1 + length (takeWhile (\<lambda>b. b = []) (drop (h + 1) (hs_buckets self))))))"
  using assms(2)
proof (induction "HSHT_SIZE - h" arbitrary: h)
  case (Suc n)
  show ?case
  proof (cases "h + 1 < HSHT_SIZE")
    case True
    then have d: "drop (h + 1) (hs_buckets self) = hs_buckets self ! (h + 1) # drop (h + 2) (hs_buckets self)"
      using assms by (simp add: Cons_nth_drop_Suc)
    show ?thesis
      using Suc.hyps(1) [of "h + 1"] Suc.hyps(2) True assms d
      by (simp add: next_bucket.simps [of HSHT_SIZE self h])
  next
    case False
    then show ?thesis using assms Suc by (simp add: next_bucket.simps [of HSHT_SIZE self h])
  qed
qed simp

lemma concat_first_bucket:
  "concat bs \<noteq> [] \<Longrightarrow> length (takeWhile (\<lambda>b. b = []) bs) < length bs"
  "concat bs \<noteq> [] \<Longrightarrow> bs ! length (takeWhile (\<lambda>b. b = []) bs) \<noteq> []"
  "concat bs \<noteq> [] \<Longrightarrow> concat bs = bs ! length (takeWhile (\<lambda>b. b = []) bs)
     @ concat (drop (Suc (length (takeWhile (\<lambda>b. b = []) bs))) bs)"
  by (induction bs) auto

lemma first_bucket_from:
  assumes "concat (drop h bs) \<noteq> []"
  defines "k \<equiv> h + length (takeWhile (\<lambda>b. b = []) (drop h bs))"
  shows "k < length bs" "concat (drop h bs) = bs ! k ! 0 # drop 1 (bs ! k) @ concat (drop (k + 1) bs)"
proof -
  note f = concat_first_bucket [OF assms(1)]
  show k: "k < length bs" using f(1) by (simp add: k_def)
  then have b: "drop h bs ! length (takeWhile (\<lambda>b. b = []) (drop h bs)) = bs ! k" by (simp add: k_def)
  then have "bs ! k \<noteq> []" using f(2) by simp
  then show "concat (drop h bs) = bs ! k ! 0 # drop 1 (bs ! k) @ concat (drop (k + 1) bs)"
    using f(3) b by (cases "bs ! k") (simp_all add: k_def add.commute)
qed

definition all_at :: "nat \<Rightarrow> nat \<Rightarrow> headeriterator" where
  "all_at h i = \<lparr>it_key = None, it_entry = Some i, it_hash = of_nat h\<rparr>"

lemma unat_bucket [simp]: "h < HSHT_SIZE \<Longrightarrow> unat (of_nat h :: u8) = h"
  by (simp add: HSHT_SIZE_eq unat_of_nat)

lemma current_all_at:
  "h < HSHT_SIZE \<Longrightarrow> HeaderIterator_current self (all_at h i) = Some (hse_header (hs_buckets self ! h ! i))"
  by (simp add: HeaderIterator_current_def all_at_def)

lemma moveNext_all_at:
  assumes "length (hs_buckets self) = HSHT_SIZE" "h < HSHT_SIZE"
  shows "HeaderIterator_moveNext self (all_at h i) =
    (if i + 1 < length (hs_buckets self ! h) then Some (True, all_at h (i + 1))
     else if concat (drop (h + 1) (hs_buckets self)) = []
     then Some (False, HeaderSet_all)
     else Some (True, all_at (h + 1 + length (takeWhile (\<lambda>b. b = []) (drop (h + 1) (hs_buckets self)))) 0))"
  using assms next_bucket_eq [OF assms(1), of h]
  by (auto simp: HeaderIterator_moveNext_def all_at_def next_match_any Let_def HeaderSet_all_def)

lemma visit_all_from:
  assumes "length (hs_buckets self) = HSHT_SIZE" "h < HSHT_SIZE"
    "length (drop (i + 1) (hs_buckets self ! h) @ concat (drop (h + 1) (hs_buckets self))) < fuel"
  shows "hs_visit fuel self (all_at h i) =
    Some (map hse_header (drop (i + 1) (hs_buckets self ! h) @ concat (drop (h + 1) (hs_buckets self))))"
  using assms(2,3)
proof (induction fuel arbitrary: h i)
  case (Suc fuel)
  let ?bs = "hs_buckets self"
  note step = moveNext_all_at [OF assms(1) Suc.prems(1), of i]
  show ?case
  proof (cases "i + 1 < length (?bs ! h)")
    case True
    then have "drop (i + 1) (?bs ! h) = ?bs ! h ! (i + 1) # drop (i + 1 + 1) (?bs ! h)"
      using Cons_nth_drop_Suc by (metis Suc_eq_plus1)
    then show ?thesis
      using Suc.IH [OF Suc.prems(1), of "i + 1"] Suc.prems True
      by (simp add: step current_all_at)
  next
    case False
    then have d: "drop (i + 1) (?bs ! h) = []" by simp
    show ?thesis
    proof (cases "concat (drop (h + 1) ?bs) = []")
      case True
      then show ?thesis using False d by (simp add: step)
    next
      case ne: False
      define k where "k = h + 1 + length (takeWhile (\<lambda>b. b = []) (drop (h + 1) ?bs))"
      note f = first_bucket_from [OF ne, folded k_def]
      have k: "k < HSHT_SIZE" using f(1) assms(1) by simp
      have "HeaderIterator_moveNext self (all_at h i) = Some (True, all_at k 0)"
        using False ne step by (simp only: k_def if_False)
      moreover have "hs_visit fuel self (all_at k 0) =
        Some (map hse_header (drop 1 (?bs ! k) @ concat (drop (k + 1) ?bs)))"
        using Suc.IH [OF k, of 0] Suc.prems(2) d f(2) by simp
      ultimately show ?thesis using k d f(2) by (simp add: current_all_at)
    qed
  qed
qed simp

lemma visit_all:
  assumes "length (hs_buckets self) = HSHT_SIZE" "length (concat (hs_buckets self)) < fuel"
  shows "hs_visit fuel self HeaderSet_all =
    (if concat (hs_buckets self) = [] then None else Some (map hse_header (concat (hs_buckets self))))"
proof -
  let ?bs = "hs_buckets self"
  obtain fuel' where fuel: "fuel = Suc fuel'" using assms(2) by (cases fuel) auto
  have H: "0 < HSHT_SIZE" by (simp add: HSHT_SIZE_eq)
  then have bs: "?bs = ?bs ! 0 # drop 1 ?bs" using assms(1) by (cases ?bs) auto
  then have split: "concat ?bs = ?bs ! 0 @ concat (drop 1 ?bs)" by (metis concat.simps(2))
  define k where "k = length (takeWhile (\<lambda>b. b = []) ?bs)"
  have k: "k = (if ?bs ! 0 \<noteq> [] then 0 else 1 + length (takeWhile (\<lambda>b. b = []) (drop 1 ?bs)))"
    unfolding k_def by (subst bs) simp
  have step: "HeaderIterator_moveNext self HeaderSet_all =
    (if concat ?bs = [] then None else Some (True, all_at k 0))"
    using next_bucket_outside [OF assms(1) H] H split k
    by (auto simp: HeaderIterator_moveNext_def HeaderSet_all_def all_at_def Let_def)
  show ?thesis
  proof (cases "concat ?bs = []")
    case True
    then show ?thesis using step by (simp add: fuel)
  next
    case False
    note f = first_bucket_from [of 0 ?bs, folded k_def, simplified, OF False [simplified], folded k_def]
    then have c: "concat ?bs = ?bs ! k ! 0 # drop 1 (?bs ! k) @ concat (drop (k + 1) ?bs)" "k < HSHT_SIZE"
      using assms(1) by simp_all
    then have "hs_visit fuel' self (all_at k 0) =
        Some (map hse_header (drop 1 (?bs ! k) @ concat (drop (k + 1) ?bs)))"
      using visit_all_from [OF assms(1) c(2), of 0 fuel'] assms(2) fuel by simp
    then show ?thesis using False step c by (simp add: fuel current_all_at)
  qed
qed

section \<open>The interface\<close>

text \<open>
  What the users of a header set rely on: \<open>look s n\<close> are the headers named \<open>n\<close>, whatever its
  case, in the order they were added.
\<close>

locale multimap =
  fixes empty :: 's
    and add :: "'s \<Rightarrow> header \<Rightarrow> 's"
    and set1 :: "'s \<Rightarrow> header \<Rightarrow> 's"
    and drop_all :: "'s \<Rightarrow> string \<Rightarrow> 's"
    and look :: "'s \<Rightarrow> string \<Rightarrow> header list"
    and inv :: "'s \<Rightarrow> bool"
  assumes inv_empty: "inv empty"
    and inv_add: "inv s \<Longrightarrow> inv (add s h)"
    and inv_set1: "inv s \<Longrightarrow> inv (set1 s h)"
    and inv_drop_all: "inv s \<Longrightarrow> inv (drop_all s n)"
    and look_empty: "look empty n = []"
    and look_add: "inv s \<Longrightarrow> look (add s h) n = look s n @ (if strcaseeq n (h_name h) then [h] else [])"
    and look_set1: "inv s \<Longrightarrow> look (set1 s h) n = (if strcaseeq n (h_name h) then [h] else look s n)"
    and look_drop_all: "inv s \<Longrightarrow> look (drop_all s n') n = (if strcaseeq n n' then [] else look s n)"
begin

lemma inv_add_all: "inv s \<Longrightarrow> inv (foldl add s hs)"
  by (induction hs arbitrary: s) (auto simp: inv_add)

lemma look_add_all:
  "inv s \<Longrightarrow> look (foldl add s hs) n = look s n @ filter (\<lambda>h. strcaseeq n (h_name h)) hs"
  by (induction hs arbitrary: s) (auto simp: look_add inv_add)

lemma inv_build: "inv (foldl add empty hs)"
  by (rule inv_add_all [OF inv_empty])

lemma look_build: "look (foldl add empty hs) n = filter (\<lambda>h. strcaseeq n (h_name h)) hs"
  by (simp add: look_add_all [OF inv_empty] look_empty)

definition every :: "(header \<Rightarrow> bool) \<Rightarrow> 's \<Rightarrow> bool" where
  "every P s \<longleftrightarrow> (\<forall>n. list_all P (look s n))"

lemma every_empty: "every P empty"
  by (simp add: every_def look_empty)

lemma every_add: "inv s \<Longrightarrow> every P s \<Longrightarrow> P h \<Longrightarrow> every P (add s h)"
  by (simp add: every_def look_add)

lemma every_set1: "inv s \<Longrightarrow> every P s \<Longrightarrow> P h \<Longrightarrow> every P (set1 s h)"
  by (simp add: every_def look_set1)

lemma set1_idem: "inv s \<Longrightarrow> look (set1 (set1 s h) h) n = look (set1 s h) n"
  by (simp add: look_set1 inv_set1)

lemma set1_drops_add: "inv s \<Longrightarrow> strcaseeq (h_name h) (h_name g) \<Longrightarrow>
    look (set1 (add s g) h) n = look (set1 s h) n"
  by (auto simp: look_set1 look_add inv_add strcaseeq_def)

end

interpretation hs: multimap HeaderSet_create HeaderSet_add HeaderSet_set
  "\<lambda>s n. snd (HeaderSet_removeAll s n)" headers_of hs_ok
  by unfold_locales (simp_all add: HeaderSet_create_spec HeaderSet_add_spec HeaderSet_set_spec
      HeaderSet_removeAll_spec)

lemma headers_of_concat:
  assumes "hs_ok s"
  shows "filter (\<lambda>h. strcaseeq n (h_name h)) (map hse_header (concat (hs_buckets s))) = headers_of s n"
proof -
  let ?bs = "hs_buckets s" let ?i = "unat (hash (lowerstr n) HSHT_BITS)"
  let ?f = "\<lambda>es. filter (\<lambda>h. strcaseeq n (h_name h)) (map hse_header es)"
  have i: "?i < length ?bs" and len: "length ?bs = HSHT_SIZE" using assms by (simp_all add: hs_ok_def)
  have key: "strcaseeq n (h_name (hse_header e)) \<longleftrightarrow> hse_key e = lowerstr n"
    if "e \<in> set (?bs ! j)" "j < length ?bs" for e j
    using assms that by (auto simp: hs_ok_def hse_ok_def lowerstr_eq_iff [symmetric])
  have other: "?f (?bs ! j) = []" if "j < length ?bs" "j \<noteq> ?i" for j
    using assms that len key [OF _ that(1)] by (fastforce simp: filter_empty_conv hs_ok_def hse_ok_def)
  have many: "?f (concat cs) = []" if "\<forall>c \<in> set cs. ?f c = []" for cs
    using that by (induction cs) auto
  have "?f (concat (take ?i ?bs)) = []" "?f (concat (drop (?i + 1) ?bs)) = []"
    using other i by (auto intro!: many simp: in_set_conv_nth simp del: filter_map)
  moreover have "concat ?bs = concat (take ?i ?bs) @ ?bs ! ?i @ concat (drop (?i + 1) ?bs)"
    using i by (metis Suc_eq_plus1 concat.simps(2) concat_append id_take_nth_drop)
  ultimately have "?f (concat ?bs) = ?f (?bs ! ?i)" by (metis append.right_neutral append_Nil filter_append map_append)
  also have "\<dots> = headers_of s n"
    using key [OF _ i] by (auto simp: headers_of_def hs_matching_def filter_map intro!: arg_cong [where f = "map hse_header"] filter_cong)
  finally show ?thesis .
qed

lemma hs_every_concat:
  assumes "hs_ok s"
  shows "hs.every P s \<longleftrightarrow> list_all P (map hse_header (concat (hs_buckets s)))"
proof
  assume "hs.every P s"
  moreover have "h \<in> set (headers_of s (h_name h))" if "h \<in> set (map hse_header (concat (hs_buckets s)))" for h
    unfolding headers_of_concat [OF assms, symmetric] using that by (simp add: strcaseeq_def del: set_map)
  ultimately have "P h" if "h \<in> set (map hse_header (concat (hs_buckets s)))" for h
    using that by (fastforce simp: hs.every_def list.pred_set)
  then show "list_all P (map hse_header (concat (hs_buckets s)))" by (simp add: list.pred_set)
next
  assume "list_all P (map hse_header (concat (hs_buckets s)))"
  then show "hs.every P s"
    unfolding hs.every_def headers_of_concat [OF assms, symmetric] by (auto simp: list.pred_set)
qed

section \<open>Properties\<close>

text \<open>Sequences of operations, and what they mean for the headers of each name.\<close>

datatype hsop = Add header | Set header | Remove header | RemoveAll string

fun hs_exec :: "headerset \<Rightarrow> hsop \<Rightarrow> headerset" where
  "hs_exec s (Add h) = HeaderSet_add s h"
| "hs_exec s (Set h) = HeaderSet_set s h"
| "hs_exec s (Remove h) = snd (HeaderSet_remove s h)"
| "hs_exec s (RemoveAll n) = snd (HeaderSet_removeAll s n)"

fun hs_spec :: "string \<Rightarrow> header list \<Rightarrow> hsop \<Rightarrow> header list" where
  "hs_spec n hs (Add h) = (if strcaseeq n (h_name h) then hs @ [h] else hs)"
| "hs_spec n hs (Set h) = (if strcaseeq n (h_name h) then [h] else hs)"
| "hs_spec n hs (Remove h) =
     (if strcaseeq n (h_name h) then remove_first (\<lambda>g. h_value h = h_value g) hs else hs)"
| "hs_spec n hs (RemoveAll m) = (if strcaseeq n m then [] else hs)"

lemma hs_exec_spec:
  "hs_ok s \<Longrightarrow> hs_ok (hs_exec s op) \<and> headers_of (hs_exec s op) n = hs_spec n (headers_of s n) op"
  by (cases op) (auto simp: HeaderSet_add_spec HeaderSet_set_spec HeaderSet_remove_spec
      HeaderSet_removeAll_spec)

lemma hs_exec_all:
  "hs_ok s \<Longrightarrow> hs_ok (foldl hs_exec s ops)
    \<and> headers_of (foldl hs_exec s ops) n = foldl (hs_spec n) (headers_of s n) ops"
  by (induction ops arbitrary: s) (simp_all add: hs_exec_spec)


text \<open>
  Iterating all headers visits each of them once, the headers of one name in order, and ends;
  but on an empty set the iterator reads a bucket behind the end of the array.
\<close>

theorem header_set_iterate_all:
  fixes ops :: "hsop list"
  defines "s \<equiv> foldl hs_exec HeaderSet_create ops"
  defines "r \<equiv> hs_visit (length (concat (hs_buckets s)) + 1) s HeaderSet_all"
  shows "map_option (filter (\<lambda>h. strcaseeq n (h_name h))) r =
    (if \<forall>m. foldl (hs_spec m) [] ops = [] then None else Some (foldl (hs_spec n) [] ops))"
proof -
  have ok: "hs_ok s" and hs: "headers_of s m = foldl (hs_spec m) [] ops" for m
    using hs_exec_all [OF HeaderSet_create_spec(1), of ops] HeaderSet_create_spec(2)
    unfolding s_def by simp_all
  have all: "filter (\<lambda>h. strcaseeq m (h_name h)) (map hse_header (concat (hs_buckets s))) =
      foldl (hs_spec m) [] ops" for m
    using headers_of_concat [OF ok] hs by simp
  have "concat (hs_buckets s) = [] \<longleftrightarrow> (\<forall>m. foldl (hs_spec m) [] ops = [])"
  proof
    assume "\<forall>m. foldl (hs_spec m) [] ops = []"
    then have "\<forall>m. \<forall>h \<in> set (map hse_header (concat (hs_buckets s))). \<not> strcaseeq m (h_name h)"
      using all by (metis filter_empty_conv)
    then have "map hse_header (concat (hs_buckets s)) = []"
      by (metis all_not_in_conv set_empty strcaseeq_def)
    then show "concat (hs_buckets s) = []" by simp
  next
    assume "concat (hs_buckets s) = []"
    then show "\<forall>m. foldl (hs_spec m) [] ops = []" using all by (metis filter.simps(1) list.map(1))
  qed
  moreover have "r = (if concat (hs_buckets s) = [] then None
      else Some (map hse_header (concat (hs_buckets s))))"
    unfolding r_def using ok by (intro visit_all) (simp_all add: hs_ok_def)
  ultimately show ?thesis using all by (simp only: split: if_split) simp
qed

end
