(* ===== verification/Http_Types.thy ===== *)
theory Http_Types
  imports Str_Util
begin

text \<open>
  The small vocabularies of HTTP: \<open>httpmethod.h\<close>, \<open>httpstatus.[ch]\<close>, \<open>httpversion.h\<close>,
  \<open>mediatype.[ch]\<close> and the tables of strings in \<open>httpresponse.c\<close>. Methods are flags, so that a
  route can name several in a mask; statuses are an enumeration with their codes.
\<close>

section \<open>Methods\<close>

type_synonym httpmethod = u8

definition HTTP_INVALM :: httpmethod where "HTTP_INVALM = 0"
definition HTTP_OPTIONS :: httpmethod where "HTTP_OPTIONS = push_bit 0 1"
definition HTTP_GET :: httpmethod where "HTTP_GET = push_bit 1 1"
definition HTTP_HEAD :: httpmethod where "HTTP_HEAD = push_bit 2 1"
definition HTTP_POST :: httpmethod where "HTTP_POST = push_bit 3 1"
definition HTTP_PUT :: httpmethod where "HTTP_PUT = push_bit 4 1"
definition HTTP_DELETE :: httpmethod where "HTTP_DELETE = push_bit 5 1"
definition HTTP_TRACE :: httpmethod where "HTTP_TRACE = push_bit 6 1"
definition HTTP_CONNECT :: httpmethod where "HTTP_CONNECT = push_bit 7 1"
definition HTTP_ANYM :: httpmethod where "HTTP_ANYM = 255"

lemmas method_defs = HTTP_INVALM_def HTTP_OPTIONS_def HTTP_GET_def HTTP_HEAD_def HTTP_POST_def
  HTTP_PUT_def HTTP_DELETE_def HTTP_TRACE_def HTTP_CONNECT_def HTTP_ANYM_def

definition methodStr :: "httpmethod \<Rightarrow> string option" where
  "methodStr m =
     (if m = HTTP_OPTIONS then Some ''OPTIONS''
      else if m = HTTP_GET then Some ''GET''
      else if m = HTTP_HEAD then Some ''HEAD''
      else if m = HTTP_POST then Some ''POST''
      else if m = HTTP_PUT then Some ''PUT''
      else if m = HTTP_DELETE then Some ''DELETE''
      else if m = HTTP_TRACE then Some ''TRACE''
      else if m = HTTP_CONNECT then Some ''CONNECT''
      else None)"

text \<open>
  \<open>methodsStr\<close> collects the strings of the bits of the mask in an array that ends with a null
  pointer, and joins them; no bit is a null pointer.
\<close>

definition methodsStr :: "httpmethod \<Rightarrow> string option" where
  "methodsStr msk =
     (let methods = map (\<lambda>b. methodStr (push_bit b 1)) (filter (bit msk) [0..<8])
      in if methods = [] then None
         else joinstr '', '' (map the (takeWhile (\<lambda>m. m \<noteq> None) methods)))"

section \<open>Versions and statuses\<close>

datatype httpversion = HTTP_1_0 | HTTP_1_1

definition versionStr :: "httpversion \<Rightarrow> string" where
  "versionStr v = (case v of HTTP_1_0 \<Rightarrow> ''HTTP/1.0'' | HTTP_1_1 \<Rightarrow> ''HTTP/1.1'')"

datatype httpstatus = HTTP_OK | HTTP_CREATED | HTTP_FOUND | HTTP_SEEOTHER | HTTP_BADREQUEST
  | HTTP_UNAUTHORIZED | HTTP_FORBIDDEN | HTTP_NOTFOUND | HTTP_METHODNOTALLOWED | HTTP_LENGTHREQUIRED
  | HTTP_REQUESTENTITYTOOLARGE | HTTP_TOOMANYREQUESTS | HTTP_INTERNALSERVERERROR
  | HTTP_SERVICEUNAVAILABLE

fun status_code :: "httpstatus \<Rightarrow> nat" where
  "status_code HTTP_OK = 200"
| "status_code HTTP_CREATED = 201"
| "status_code HTTP_FOUND = 302"
| "status_code HTTP_SEEOTHER = 303"
| "status_code HTTP_BADREQUEST = 400"
| "status_code HTTP_UNAUTHORIZED = 401"
| "status_code HTTP_FORBIDDEN = 403"
| "status_code HTTP_NOTFOUND = 404"
| "status_code HTTP_METHODNOTALLOWED = 405"
| "status_code HTTP_LENGTHREQUIRED = 411"
| "status_code HTTP_REQUESTENTITYTOOLARGE = 413"
| "status_code HTTP_TOOMANYREQUESTS = 429"
| "status_code HTTP_INTERNALSERVERERROR = 500"
| "status_code HTTP_SERVICEUNAVAILABLE = 503"

instantiation httpstatus :: linorder
begin

definition less_eq_httpstatus :: "httpstatus \<Rightarrow> httpstatus \<Rightarrow> bool" where
  "a \<le> b \<longleftrightarrow> status_code a \<le> status_code b"

definition less_httpstatus :: "httpstatus \<Rightarrow> httpstatus \<Rightarrow> bool" where
  "a < b \<longleftrightarrow> status_code a < status_code b"

instance
proof
  fix a b :: httpstatus
  show "a \<le> b \<Longrightarrow> b \<le> a \<Longrightarrow> a = b"
    unfolding less_eq_httpstatus_def by (cases a; cases b) simp_all
qed (auto simp: less_eq_httpstatus_def less_httpstatus_def)

end

definition statusStr :: "httpstatus \<Rightarrow> string" where
  "statusStr s = (case s of
     HTTP_OK \<Rightarrow> ''200 OK''
   | HTTP_CREATED \<Rightarrow> ''201 Created''
   | HTTP_FOUND \<Rightarrow> ''302 Found''
   | HTTP_SEEOTHER \<Rightarrow> ''303 See Other''
   | HTTP_BADREQUEST \<Rightarrow> ''400 Bad Request''
   | HTTP_UNAUTHORIZED \<Rightarrow> ''401 Unauthorized''
   | HTTP_FORBIDDEN \<Rightarrow> ''403 Forbidden''
   | HTTP_NOTFOUND \<Rightarrow> ''404 Not Found''
   | HTTP_METHODNOTALLOWED \<Rightarrow> ''405 Method Not Allowed''
   | HTTP_LENGTHREQUIRED \<Rightarrow> ''411 Length Required''
   | HTTP_REQUESTENTITYTOOLARGE \<Rightarrow> ''413 Request Entity Too Large''
   | HTTP_TOOMANYREQUESTS \<Rightarrow> ''429 Too Many Requests''
   | HTTP_INTERNALSERVERERROR \<Rightarrow> ''500 Internal Server Error''
   | HTTP_SERVICEUNAVAILABLE \<Rightarrow> ''503 Service Unavailable'')"

definition statusMsg :: "httpstatus \<Rightarrow> string" where
  "statusMsg s = (case s of
     HTTP_BADREQUEST \<Rightarrow> ''Uhm, no.''
   | HTTP_FORBIDDEN \<Rightarrow> ''No, no!''
   | HTTP_NOTFOUND \<Rightarrow> ''Nothing here.''
   | HTTP_METHODNOTALLOWED \<Rightarrow> ''No, no.''
   | HTTP_LENGTHREQUIRED \<Rightarrow> ''No streams.''
   | HTTP_REQUESTENTITYTOOLARGE \<Rightarrow> ''Don'' @ CHR 0x27 # ''t exaggerate.''
   | HTTP_TOOMANYREQUESTS \<Rightarrow> ''Gimme a break.''
   | HTTP_SERVICEUNAVAILABLE \<Rightarrow> ''Sorry, too busy, try later.''
   | _ \<Rightarrow> ''Oops.'')"

definition HttpStatus_downgrade :: "httpstatus \<Rightarrow> httpversion \<Rightarrow> httpstatus" where
  "HttpStatus_downgrade status version =
     (case version of
        HTTP_1_1 \<Rightarrow> status
      | HTTP_1_0 \<Rightarrow> (case status of HTTP_SEEOTHER \<Rightarrow> HTTP_FOUND | _ \<Rightarrow> status))"

section \<open>Media types\<close>

datatype mediatype = MT_NONE | MT_TEXT | MT_HTML | MT_CSS | MT_PNG | MT_GIF

definition MediaType_str :: "mediatype \<Rightarrow> string" where
  "MediaType_str t = (case t of
     MT_TEXT \<Rightarrow> ''text/plain; charset=utf-8''
   | MT_HTML \<Rightarrow> ''text/html; charset=utf-8''
   | MT_CSS \<Rightarrow> ''text/css; charset=utf-8''
   | MT_PNG \<Rightarrow> ''image/png''
   | MT_GIF \<Rightarrow> ''image/gif''
   | MT_NONE \<Rightarrow> ''application/octet-stream'')"

section \<open>Lemmas\<close>

lemma length_statusStr_le: "length (statusStr s) \<le> 28"
  by (cases s) (simp_all add: statusStr_def)

lemma length_MediaType_str_le: "length (MediaType_str t) \<le> 26"
  by (cases t) (simp_all add: MediaType_str_def)

lemma length_versionStr [simp]: "length (versionStr v) = 8"
  by (cases v) (simp_all add: versionStr_def)

lemma methodStr_bit: "b < 8 \<Longrightarrow> methodStr (push_bit b 1) \<noteq> None"
  by (auto simp: methodStr_def method_defs less_Suc_eq numeral_eq_Suc)

lemma nulfree_statusStr [simp]: "nulfree (statusStr s)"
  by (cases s) (simp_all add: statusStr_def)

lemma method_neq [simp]:
  "HTTP_INVALM \<noteq> HTTP_OPTIONS" "HTTP_INVALM \<noteq> HTTP_GET"
  "HTTP_INVALM \<noteq> HTTP_HEAD" "HTTP_INVALM \<noteq> HTTP_POST"
  "HTTP_INVALM \<noteq> HTTP_PUT" "HTTP_INVALM \<noteq> HTTP_DELETE"
  "HTTP_INVALM \<noteq> HTTP_TRACE" "HTTP_INVALM \<noteq> HTTP_CONNECT"
  "HTTP_OPTIONS \<noteq> HTTP_INVALM" "HTTP_OPTIONS \<noteq> HTTP_GET"
  "HTTP_OPTIONS \<noteq> HTTP_HEAD" "HTTP_OPTIONS \<noteq> HTTP_POST"
  "HTTP_OPTIONS \<noteq> HTTP_PUT" "HTTP_OPTIONS \<noteq> HTTP_DELETE"
  "HTTP_OPTIONS \<noteq> HTTP_TRACE" "HTTP_OPTIONS \<noteq> HTTP_CONNECT"
  "HTTP_GET \<noteq> HTTP_INVALM" "HTTP_GET \<noteq> HTTP_OPTIONS" "HTTP_GET \<noteq> HTTP_HEAD"
  "HTTP_GET \<noteq> HTTP_POST" "HTTP_GET \<noteq> HTTP_PUT" "HTTP_GET \<noteq> HTTP_DELETE"
  "HTTP_GET \<noteq> HTTP_TRACE" "HTTP_GET \<noteq> HTTP_CONNECT"
  "HTTP_HEAD \<noteq> HTTP_INVALM" "HTTP_HEAD \<noteq> HTTP_OPTIONS"
  "HTTP_HEAD \<noteq> HTTP_GET" "HTTP_HEAD \<noteq> HTTP_POST" "HTTP_HEAD \<noteq> HTTP_PUT"
  "HTTP_HEAD \<noteq> HTTP_DELETE" "HTTP_HEAD \<noteq> HTTP_TRACE"
  "HTTP_HEAD \<noteq> HTTP_CONNECT"
  "HTTP_POST \<noteq> HTTP_INVALM" "HTTP_POST \<noteq> HTTP_OPTIONS"
  "HTTP_POST \<noteq> HTTP_GET" "HTTP_POST \<noteq> HTTP_HEAD" "HTTP_POST \<noteq> HTTP_PUT"
  "HTTP_POST \<noteq> HTTP_DELETE" "HTTP_POST \<noteq> HTTP_TRACE"
  "HTTP_POST \<noteq> HTTP_CONNECT"
  "HTTP_PUT \<noteq> HTTP_INVALM" "HTTP_PUT \<noteq> HTTP_OPTIONS" "HTTP_PUT \<noteq> HTTP_GET"
  "HTTP_PUT \<noteq> HTTP_HEAD" "HTTP_PUT \<noteq> HTTP_POST" "HTTP_PUT \<noteq> HTTP_DELETE"
  "HTTP_PUT \<noteq> HTTP_TRACE" "HTTP_PUT \<noteq> HTTP_CONNECT"
  "HTTP_DELETE \<noteq> HTTP_INVALM" "HTTP_DELETE \<noteq> HTTP_OPTIONS"
  "HTTP_DELETE \<noteq> HTTP_GET" "HTTP_DELETE \<noteq> HTTP_HEAD"
  "HTTP_DELETE \<noteq> HTTP_POST" "HTTP_DELETE \<noteq> HTTP_PUT"
  "HTTP_DELETE \<noteq> HTTP_TRACE" "HTTP_DELETE \<noteq> HTTP_CONNECT"
  "HTTP_TRACE \<noteq> HTTP_INVALM" "HTTP_TRACE \<noteq> HTTP_OPTIONS"
  "HTTP_TRACE \<noteq> HTTP_GET" "HTTP_TRACE \<noteq> HTTP_HEAD" "HTTP_TRACE \<noteq> HTTP_POST"
  "HTTP_TRACE \<noteq> HTTP_PUT" "HTTP_TRACE \<noteq> HTTP_DELETE"
  "HTTP_TRACE \<noteq> HTTP_CONNECT"
  "HTTP_CONNECT \<noteq> HTTP_INVALM" "HTTP_CONNECT \<noteq> HTTP_OPTIONS"
  "HTTP_CONNECT \<noteq> HTTP_GET" "HTTP_CONNECT \<noteq> HTTP_HEAD"
  "HTTP_CONNECT \<noteq> HTTP_POST" "HTTP_CONNECT \<noteq> HTTP_PUT"
  "HTTP_CONNECT \<noteq> HTTP_DELETE" "HTTP_CONNECT \<noteq> HTTP_TRACE"
  by (simp_all add: method_defs)

end
