(* ===== verification/Http_Request.thy ===== *)
theory Http_Request
  imports Header_Set Http_Types
begin

text \<open>
  \<open>http/httprequest.c\<close>: receiving a request. A request is a state machine fed by the events of its
  connection: lines until the empty line behind the headers, then chunks of the body. The
  connection is poser's; one event is the argument of \<open>dataReceived\<close>, the bytes received, whose
  text is the C string they hold. The result says what the request asks of its connection.
  A null pointer handed to \<open>HeaderSet_add\<close> would be the result \<^term>\<open>None\<close>; the invariant
  shows that it does not occur, and that every fixed buffer is large enough.
\<close>

section \<open>Data\<close>

definition MAXBODY :: nat where
  "MAXBODY = 1024 * 1024"

datatype req_recv_state = RRS_METHOD | RRS_HEADERS | RRS_BODY

text \<open>
  The arrays \<open>path\<close>, \<open>hdrval\<close>, \<open>hdrnm\<close> and \<open>meth\<close> are the C strings they hold. A byte of the body
  is \<^term>\<open>None\<close> while nothing has been stored there.
\<close>

record httprequest =
  rq_bodySize :: nat
  rq_bodypos :: nat
  rq_headers :: headerset
  rq_body :: "char option list"
  rq_method :: httpmethod
  rq_status :: httpstatus
  rq_version :: httpversion
  rq_recvState :: req_recv_state
  rq_hdrvalpos :: u16
  rq_deleteScheduled :: u8
  rq_path :: string
  rq_hdrval :: string
  rq_hdrnm :: string
  rq_meth :: string

definition PATH_SIZE :: nat where "PATH_SIZE = 8192"
definition HDRVAL_SIZE :: nat where "HDRVAL_SIZE = 8192"
definition HDRNM_SIZE :: nat where "HDRNM_SIZE = 256"
definition METH_SIZE :: nat where "METH_SIZE = 16"

lemmas buffer_sizes = PATH_SIZE_def HDRVAL_SIZE_def HDRNM_SIZE_def METH_SIZE_def

text \<open>
  What the request does with its connection: wait for more, switch it to binary mode, report that
  it is complete (and stop listening), or close it.
\<close>

datatype req_action = Wait | ReceiveBinary | Received | Close

definition HttpRequest_create :: httprequest where
  "HttpRequest_create =
     \<lparr>rq_bodySize = 0, rq_bodypos = 0, rq_headers = HeaderSet_create, rq_body = [],
      rq_method = HTTP_INVALM, rq_status = HTTP_OK, rq_version = HTTP_1_0, rq_recvState = RRS_METHOD,
      rq_hdrvalpos = 0, rq_deleteScheduled = 0, rq_path = [], rq_hdrval = [], rq_hdrnm = [],
      rq_meth = []\<rparr>"

section \<open>Scanning\<close>

definition skip :: "char set \<Rightarrow> string \<Rightarrow> string" where
  "skip cs s = dropWhile (\<lambda>c. c \<in> cs) s"

definition pathchar :: "char \<Rightarrow> bool" where
  "pathchar c \<longleftrightarrow> 0x20 < chval c \<and> chval c < 0x7f"

text \<open>The end of a value: the first carriage return, else the first line feed.\<close>

definition value_end :: "string \<Rightarrow> nat option" where
  "value_end line = (case strchr line CR of Some n \<Rightarrow> Some n | None \<Rightarrow> strchr line LF)"

section \<open>The states of reception\<close>

text \<open>The request line.\<close>

definition recv_method :: "httprequest \<Rightarrow> string \<Rightarrow> req_action \<times> httprequest" where
  "recv_method self line =
     (let meth = takeWhile (\<lambda>c. c \<noteq> CHR '' '') line;
          rest = drop (length meth) line
      in if \<not> list_all isupper meth then (Close, self)
         else if rest = [] \<or> meth = [] \<or> length meth > METH_SIZE - 1 then (Close, self)
         else
           (let self = self\<lparr>rq_meth := meth\<rparr>;
                line = skip {CHR '' ''} rest;
                path = takeWhile pathchar line;
                rest = drop (length path) line
            in if first_char rest \<noteq> CHR '' '' \<or> length path > PATH_SIZE - 1 then (Close, self)
               else
                 (let self = self\<lparr>rq_path := path\<rparr>;
                      line = skip {CHR '' ''} rest
                  in if take 7 line \<noteq> ''HTTP/1.'' then (Close, self)
                     else
                       (let line = drop 7 line
                        in if first_char line \<notin> {CHR ''1'', CHR ''0''} then (Close, self)
                           else
                             (let self = self\<lparr>rq_version :=
                                    if first_char line = CHR ''1'' then HTTP_1_1 else HTTP_1_0\<rparr>;
                                  line = skip {CHR '' ''} (tl line)
                              in if first_char line \<notin> {CR, LF} then (Close, self)
                                 else (Wait, self\<lparr>rq_recvState := RRS_HEADERS\<rparr>))))))"

text \<open>A line that continues the value of the header before it.\<close>

definition recv_continuation :: "httprequest \<Rightarrow> string \<Rightarrow> req_action \<times> httprequest" where
  "recv_continuation self line =
     (if rq_hdrnm self = [] then (Close, self)
      else
        (let line = skip {CHR '' '', TAB} line; pos = unat (rq_hdrvalpos self)
         in case value_end line of
              None \<Rightarrow> (Close, self)
            | Some n \<Rightarrow>
                if pos + (if pos > 0 then 1 else 0) + n > HDRVAL_SIZE - 1 then (Close, self)
                else
                  (let val = take pos (rq_hdrval self) @ (if pos > 0 then '' '' else []) @ take n line
                   in (Wait, self\<lparr>rq_hdrval := val, rq_hdrvalpos := of_nat (length val)\<rparr>))))"

text \<open>A line that begins a header.\<close>

definition recv_header :: "httprequest \<Rightarrow> string \<Rightarrow> req_action \<times> httprequest" where
  "recv_header self line =
     (case strchr line CHR '':'' of
        None \<Rightarrow> (Close, self)
      | Some n \<Rightarrow>
          if n = 0 \<or> n > HDRNM_SIZE - 1 then (Close, self)
          else
            (let self = self\<lparr>rq_hdrnm := take n line\<rparr>;
                 line = skip {CHR '' ''} (drop (n + 1) line)
             in case value_end line of
                  None \<Rightarrow> (Close, self)
                | Some m \<Rightarrow>
                    if m > HDRVAL_SIZE - 1 then (Close, self)
                    else (Wait, self\<lparr>rq_hdrval := take m line, rq_hdrvalpos := of_nat m\<rparr>)))"

text \<open>The label \<open>received\<close>.\<close>

definition method_of :: "string \<Rightarrow> httpmethod" where
  "method_of meth =
     (if meth = ''OPTIONS'' then HTTP_OPTIONS
      else if meth = ''GET'' then HTTP_GET
      else if meth = ''HEAD'' then HTTP_HEAD
      else if meth = ''POST'' then HTTP_POST
      else if meth = ''PUT'' then HTTP_PUT
      else if meth = ''DELETE'' then HTTP_DELETE
      else if meth = ''TRACE'' then HTTP_TRACE
      else if meth = ''CONNECT'' then HTTP_CONNECT
      else HTTP_INVALM)"

definition recv_status :: "httpstatus \<Rightarrow> httpmethod \<Rightarrow> nat \<Rightarrow> httpstatus" where
  "recv_status status meth bodySize =
     (if status = HTTP_OK
      then (if meth \<in> {HTTP_GET, HTTP_HEAD, HTTP_DELETE, HTTP_CONNECT}
            then (if bodySize \<noteq> 0 then HTTP_BADREQUEST else status)
            else if meth \<in> {HTTP_POST, HTTP_PUT}
            then (if bodySize = 0 then HTTP_BADREQUEST else status)
            else status)
      else status)"

definition recv_done :: "httprequest \<Rightarrow> req_action \<times> httprequest" where
  "recv_done self =
     (let m = method_of (rq_meth self);
          meth = (if m = HTTP_INVALM then rq_method self else m)
      in (Received,
          self\<lparr>rq_method := meth, rq_status := recv_status (rq_status self) meth (rq_bodySize self)\<rparr>))"

text \<open>The empty line: the headers are complete.\<close>

definition recv_empty_line :: "httprequest \<Rightarrow> req_action \<times> httprequest" where
  "recv_empty_line self =
     (case HeaderSet_first (rq_headers self) ''Content-Length'' of
        None \<Rightarrow>
          recv_done (if rq_meth self = ''POST'' \<or> rq_meth self = ''PUT''
                     then self\<lparr>rq_status := HTTP_LENGTHREQUIRED\<rparr> else self)
      | Some h \<Rightarrow>
          (let (len, endp) = strtoll (h_value h)
           in if endp \<noteq> [] \<or> len \<le> 0 \<or> len > int MAXBODY
              then recv_done (self\<lparr>rq_status :=
                     if len > int MAXBODY then HTTP_REQUESTENTITYTOOLARGE else HTTP_BADREQUEST\<rparr>)
              else (ReceiveBinary,
                    self\<lparr>rq_bodySize := nat len, rq_body := replicate (nat len) None,
                         rq_recvState := RRS_BODY\<rparr>)))"

text \<open>
  A line of the header section. A header that is complete is added to the set; \<^term>\<open>None\<close> if
  none could be created for it.
\<close>

definition flush_header :: "httprequest \<Rightarrow> httprequest option" where
  "flush_header self =
     (if rq_hdrnm self \<noteq> []
      then (case Header_create (rq_hdrnm self) (rq_hdrval self) of
              None \<Rightarrow> None
            | Some h \<Rightarrow> Some (self\<lparr>rq_headers := HeaderSet_add (rq_headers self) h,
                                  rq_hdrnm := [], rq_hdrvalpos := 0\<rparr>))
      else Some self)"

definition recv_headers :: "httprequest \<Rightarrow> string \<Rightarrow> (req_action \<times> httprequest) option" where
  "recv_headers self line =
     (if first_char line \<in> {CHR '' '', TAB} then Some (recv_continuation self line)
      else
        (case flush_header self of
           None \<Rightarrow> None
         | Some self \<Rightarrow>
             Some (if first_char line \<in> {CR, LF} then recv_empty_line self
                   else recv_header self line)))"

text \<open>A chunk of the body. \<open>memcpy\<close> always stores to the start of \<open>body\<close>.\<close>

definition recv_body :: "httprequest \<Rightarrow> string \<Rightarrow> req_action \<times> httprequest" where
  "recv_body self buf =
     (let n = min (length buf) (rq_bodySize self - rq_bodypos self);
          self = self\<lparr>rq_body := map Some (take n buf) @ drop n (rq_body self),
                      rq_bodypos := rq_bodypos self + n\<rparr>
      in if rq_bodypos self < rq_bodySize self then (Wait, self) else recv_done self)"

definition dataReceived :: "httprequest \<Rightarrow> string \<Rightarrow> (req_action \<times> httprequest) option" where
  "dataReceived self buf =
     (case rq_recvState self of
        RRS_METHOD \<Rightarrow> Some (recv_method self (cstr buf))
      | RRS_HEADERS \<Rightarrow> recv_headers self (cstr buf)
      | RRS_BODY \<Rightarrow> Some (recv_body self buf))"

text \<open>The lifetime of a request: destroying it is put off while it is scheduled.\<close>

definition HttpRequest_deleteLater :: "httprequest \<Rightarrow> httprequest \<times> bool" where
  "HttpRequest_deleteLater self =
     (if rq_deleteScheduled self = 0 then (self\<lparr>rq_deleteScheduled := 1\<rparr>, True) else (self, False))"

definition HttpRequest_destroys :: "httprequest \<Rightarrow> bool" where
  "HttpRequest_destroys self \<longleftrightarrow> rq_deleteScheduled self \<noteq> 1"

text \<open>
  A connection's events in order: \<open>dataReceived\<close> runs for each of them until the request no
  longer listens or the connection is closed. The first component is the action it ended with,
  \<open>Wait\<close> where it did not end.
\<close>

fun receive :: "httprequest \<Rightarrow> string list \<Rightarrow> (req_action \<times> httprequest) option" where
  "receive self [] = Some (Wait, self)"
| "receive self (e # es) =
     (case dataReceived self e of
        None \<Rightarrow> None
      | Some (act, self) \<Rightarrow> if act \<in> {Received, Close} then Some (act, self) else receive self es)"

section \<open>Invariant\<close>

text \<open>What holds in every state, also behind an error: the buffers are large enough.\<close>

definition req_bounds :: "httprequest \<Rightarrow> bool" where
  "req_bounds self \<longleftrightarrow>
     hs_ok (rq_headers self)
   \<and> length (rq_meth self) < METH_SIZE \<and> length (rq_path self) < PATH_SIZE
   \<and> length (rq_hdrnm self) < HDRNM_SIZE \<and> length (rq_hdrval self) < HDRVAL_SIZE
   \<and> length (rq_body self) = rq_bodySize self \<and> rq_bodySize self \<le> MAXBODY
   \<and> rq_bodypos self \<le> rq_bodySize self"

definition req_ok :: "httprequest \<Rightarrow> bool" where
  "req_ok self \<longleftrightarrow> req_bounds self
     \<and> (if rq_recvState self = RRS_BODY then 0 < rq_bodySize self
        else rq_bodySize self = 0 \<and> rq_bodypos self = 0)
     \<and> (rq_hdrnm self \<noteq> [] \<longrightarrow> unat (rq_hdrvalpos self) = length (rq_hdrval self))"

lemma req_ok_create [simp]: "req_ok HttpRequest_create"
  by (simp add: req_ok_def req_bounds_def HttpRequest_create_def buffer_sizes hs.inv_empty)

lemma unat_of_nat_small: "n < 65536 \<Longrightarrow> unat (of_nat n :: u16) = n"
  by (simp add: unat_of_nat)

lemma strchr_bound: "strchr s c = Some n \<Longrightarrow> n < length s"
  using strchr_Some by blast

lemma value_end_bound: "value_end line = Some n \<Longrightarrow> n < length line"
  by (auto simp: value_end_def split: option.splits dest: strchr_bound)

lemma req_bounds_done: "req_bounds self \<Longrightarrow> req_bounds (snd (recv_done self))"
  by (simp add: recv_done_def Let_def req_bounds_def)

lemma req_ok_done: "req_ok self \<Longrightarrow> req_ok (snd (recv_done self))"
  by (simp add: recv_done_def Let_def req_bounds_def req_ok_def)

lemma fst_done [simp]: "fst (recv_done self) = Received"
  by (simp add: recv_done_def Let_def)

lemma recv_method_ok:
  "req_ok self \<Longrightarrow> rq_recvState self = RRS_METHOD \<Longrightarrow> req_ok (snd (recv_method self line))"
  by (auto simp: recv_method_def Let_def req_ok_def req_bounds_def buffer_sizes)

lemma recv_continuation_ok:
  assumes "req_ok self"
  shows "req_ok (snd (recv_continuation self line))"
proof (cases "rq_hdrnm self = []")
  case True
  then show ?thesis using assms by (simp add: recv_continuation_def)
next
  case False
  let ?line = "skip {CHR '' '', TAB} line"
  show ?thesis
  proof (cases "value_end ?line")
    case None
    then show ?thesis using assms by (simp add: recv_continuation_def Let_def)
  next
    case (Some n)
    have pos: "unat (rq_hdrvalpos self) = length (rq_hdrval self)" using assms False by (simp add: req_ok_def)
    have n: "n < length ?line" using value_end_bound [OF Some] .
    let ?val = "rq_hdrval self @ (if rq_hdrval self \<noteq> [] then '' '' else []) @ take n ?line"
    have eq: "recv_continuation self line =
      (if length ?val > HDRVAL_SIZE - 1 then (Close, self)
       else (Wait, self\<lparr>rq_hdrval := ?val, rq_hdrvalpos := of_nat (length ?val)\<rparr>))"
      using False Some pos n by (auto simp: recv_continuation_def Let_def)
    have "unat (of_nat (length ?val) :: u16) = length ?val" if "\<not> length ?val > HDRVAL_SIZE - 1"
      using that by (intro unat_of_nat_small) (simp add: HDRVAL_SIZE_def)
    then show ?thesis
      unfolding eq using assms by (simp add: req_ok_def req_bounds_def HDRVAL_SIZE_def
          del: length_append of_nat_add split: if_split)
  qed
qed

lemma recv_header_ok:
  assumes "req_ok self" "rq_hdrnm self = []"
  shows "req_bounds (snd (recv_header self line))"
    and "fst (recv_header self line) \<noteq> Close \<Longrightarrow> req_ok (snd (recv_header self line))"
proof -
  have a: "req_bounds (snd (recv_header self line)) \<and>
      (fst (recv_header self line) \<noteq> Close \<longrightarrow> req_ok (snd (recv_header self line)))"
  proof (cases "strchr line CHR '':''")
    case None
    then show ?thesis using assms by (simp add: recv_header_def req_ok_def)
  next
    case (Some n)
    note n = strchr_bound [OF Some]
    show ?thesis
    proof (cases "value_end (skip {CHR '' ''} (drop (n + 1) line))")
      case None
      then show ?thesis
        using assms Some n by (auto simp: recv_header_def Let_def req_ok_def req_bounds_def HDRNM_SIZE_def)
    next
      case (Some m)
      note value_end_bound [OF Some]
      then show ?thesis
        using assms Some \<open>strchr line CHR '':'' = Some n\<close> n
        by (auto simp: recv_header_def Let_def req_ok_def req_bounds_def HDRNM_SIZE_def HDRVAL_SIZE_def
            unat_of_nat_small)
    qed
  qed
  then show "req_bounds (snd (recv_header self line))"
    "fst (recv_header self line) \<noteq> Close \<Longrightarrow> req_ok (snd (recv_header self line))" by blast+
qed

lemma flush_header_ok:
  assumes "req_ok self"
  obtains self' where "flush_header self = Some self'" "req_ok self'" "rq_hdrnm self' = []"
    "rq_recvState self' = rq_recvState self"
proof (cases "rq_hdrnm self = []")
  case True
  then show ?thesis using assms that by (simp add: flush_header_def)
next
  case False
  have "length (rq_hdrnm self) + length (rq_hdrval self) + 4 \<le> UINT16_MAX"
    using assms by (simp add: req_ok_def req_bounds_def buffer_sizes UINT16_MAX_def)
  then obtain h where "Header_create (rq_hdrnm self) (rq_hdrval self) = Some h"
    using Header_create_Some_iff by fastforce
  then show ?thesis
    using assms False that by (simp add: flush_header_def req_ok_def req_bounds_def hs.inv_add buffer_sizes)
qed

lemma recv_empty_line_ok: "req_ok self \<Longrightarrow> rq_recvState self = RRS_HEADERS \<Longrightarrow> req_ok (snd (recv_empty_line self))"
  by (auto simp: recv_empty_line_def Let_def split: option.splits prod.splits
      intro!: req_ok_done) (auto simp: req_ok_def req_bounds_def split: if_splits)

lemma recv_empty_line_act: "fst (recv_empty_line self) \<in> {Received, ReceiveBinary}"
  by (auto simp: recv_empty_line_def Let_def split: option.splits prod.splits)

lemma recv_body_ok: "req_ok self \<Longrightarrow> req_ok (snd (recv_body self buf))"
  by (auto simp: recv_body_def Let_def intro!: req_ok_done) (auto simp: req_ok_def req_bounds_def)

lemma dataReceived_ok [swad_inv]:
  assumes "req_ok self"
  obtains act self' where "dataReceived self buf = Some (act, self')" "req_bounds self'"
    "act \<noteq> Close \<Longrightarrow> req_ok self'"
proof (cases "rq_recvState self")
  case RRS_METHOD
  then show thesis
    using recv_method_ok [OF assms RRS_METHOD, of "cstr buf"] that
    by (cases "recv_method self (cstr buf)") (simp add: dataReceived_def req_ok_def)
next
  case RRS_BODY
  then show thesis
    using recv_body_ok [OF assms, of buf] that
    by (cases "recv_body self buf") (simp add: dataReceived_def req_ok_def)
next
  case RRS_HEADERS
  let ?line = "cstr buf"
  obtain self1 where f: "flush_header self = Some self1" "req_ok self1" "rq_hdrnm self1 = []"
    "rq_recvState self1 = RRS_HEADERS"
    using flush_header_ok [OF assms] RRS_HEADERS by metis
  let ?r = "if first_char ?line \<in> {CHR '' '', TAB} then recv_continuation self ?line
    else if first_char ?line \<in> {CR, LF} then recv_empty_line self1 else recv_header self1 ?line"
  have "dataReceived self buf = Some ?r"
    using f(1) RRS_HEADERS by (simp add: dataReceived_def recv_headers_def)
  moreover have "req_bounds (snd ?r)" "fst ?r \<noteq> Close \<Longrightarrow> req_ok (snd ?r)"
    using recv_continuation_ok [OF assms, of ?line] recv_empty_line_ok [OF f(2,4)]
      recv_header_ok [OF f(2,3), of ?line] by (auto simp: req_ok_def split: if_splits)
  ultimately show thesis using that [of "fst ?r" "snd ?r"] by simp
qed

lemma receive_ok:
  "req_ok self \<Longrightarrow> \<exists>act self'. receive self es = Some (act, self') \<and> req_bounds self' \<and> (act \<noteq> Close \<longrightarrow> req_ok self')"
proof (induction es arbitrary: self)
  case Nil
  then show ?case by (simp add: req_ok_def)
next
  case (Cons e es)
  obtain act self' where d: "dataReceived self e = Some (act, self')" "req_bounds self'"
    "act \<noteq> Close \<Longrightarrow> req_ok self'" using dataReceived_ok [OF Cons.prems] by metis
  then show ?case using Cons.IH [of self'] by (cases "act = Close") auto
qed

section \<open>Requests as they are written\<close>

text \<open>
  A header as a client writes it: its name, the first line of its value and the lines that
  continue it. The value the server sees joins them with single spaces.
\<close>

type_synonym raw_header = "string \<times> string \<times> string list"

definition crlf :: string where
  "crlf = [CR, LF]"

definition request_line :: "string \<Rightarrow> string \<Rightarrow> httpversion \<Rightarrow> string" where
  "request_line m p v = m @ '' '' @ p @ '' '' @ versionStr v @ crlf"

fun header_text :: "raw_header \<Rightarrow> string list" where
  "header_text (n, v, cs) = (n @ '': '' @ v @ crlf) # map (\<lambda>c. '' '' @ c @ crlf) cs"

definition folded :: "string \<Rightarrow> string list \<Rightarrow> string" where
  "folded v cs = foldl (\<lambda>a c. if a = [] then c else a @ '' '' @ c) v cs"

definition wf_value :: "string \<Rightarrow> bool" where
  "wf_value t \<longleftrightarrow> CR \<notin> set t \<and> LF \<notin> set t \<and> nulfree t \<and> first_char t \<notin> {CHR '' '', TAB}"

fun wf_raw :: "raw_header \<Rightarrow> bool" where
  "wf_raw (n, v, cs) \<longleftrightarrow>
     n \<noteq> [] \<and> CHR '':'' \<notin> set n \<and> nulfree n \<and> length n < HDRNM_SIZE
   \<and> first_char n \<notin> {CHR '' '', TAB, CR, LF}
   \<and> wf_value v \<and> list_all wf_value cs \<and> length (folded v cs) < HDRVAL_SIZE"

definition wf_target :: "string \<Rightarrow> string \<Rightarrow> bool" where
  "wf_target m p \<longleftrightarrow> m \<noteq> [] \<and> list_all isupper m \<and> length m < METH_SIZE
     \<and> list_all pathchar p \<and> length p < PATH_SIZE \<and> p \<noteq> []"

lemma value_end_crlf: "CR \<notin> set t \<Longrightarrow> value_end (t @ crlf) = Some (length t)"
  by (simp add: value_end_def crlf_def strchr_append)

lemma skip_first: "first_char t \<notin> cs \<Longrightarrow> first_char (t @ r) \<notin> cs \<Longrightarrow> skip cs (t @ r) = t @ r"
  by (cases "t @ r") (auto simp: skip_def first_char_def)

lemma skip_value:
  assumes "wf_value v"
  shows "skip {CHR '' ''} (v @ crlf) = v @ crlf" "skip {CHR '' '', TAB} (v @ crlf) = v @ crlf"
  using assms by (cases v; simp add: skip_def wf_value_def first_char_def crlf_def)+

lemma nulfree_crlf [simp]: "nulfree crlf"
  by (simp add: crlf_def)

lemma nulfree_value: "wf_value v \<Longrightarrow> nulfree v"
  by (simp add: wf_value_def)

lemma length_folded_le: "length v \<le> length (folded v cs)"
  unfolding folded_def
proof (induction cs arbitrary: v)
  case (Cons c cs)
  have "length v \<le> length (if v = [] then c else v @ '' '' @ c)" by simp
  also have "\<dots> \<le> length (foldl (\<lambda>a c. if a = [] then c else a @ '' '' @ c) v (c # cs))"
    using Cons.IH [of "if v = [] then c else v @ '' '' @ c"] by simp
  finally show ?case .
qed simp

text \<open>The state in which the header \<open>n\<close> with the value \<open>val\<close> waits for its completion.\<close>

definition pending :: "httprequest \<Rightarrow> string \<Rightarrow> string \<Rightarrow> httprequest" where
  "pending self n val = self\<lparr>rq_hdrnm := n, rq_hdrval := val, rq_hdrvalpos := of_nat (length val)\<rparr>"

lemma receive_continuation:
  assumes "rq_recvState self = RRS_HEADERS" "n \<noteq> []" "wf_value c"
    "length (folded val (c # cs)) < HDRVAL_SIZE"
  shows "receive (pending self n val) (('' '' @ c @ crlf) # rest) =
    receive (pending self n (folded val [c])) rest"
proof -
  let ?val = "if val = [] then c else val @ '' '' @ c"
  have len: "length ?val < HDRVAL_SIZE"
    using assms(4) length_folded_le [of ?val cs] by (simp add: folded_def)
  then have pos: "unat (of_nat (length val) :: u16) = length val"
    by (intro unat_of_nat_small) (auto simp: HDRVAL_SIZE_def split: if_splits)
  have "recv_continuation (pending self n val) ('' '' @ c @ crlf) = (Wait, pending self n ?val)"
    using assms(2,3) len value_end_crlf [of c] skip_value(2) [OF assms(3)]
    by (auto simp: recv_continuation_def pending_def pos skip_def wf_value_def Let_def HDRVAL_SIZE_def)
  then show ?thesis
    using assms(1) nulfree_value [OF assms(3)]
    by (simp add: dataReceived_def recv_headers_def pending_def first_char_def folded_def)
qed

lemma receive_continuations:
  assumes "rq_recvState self = RRS_HEADERS" "n \<noteq> []" "list_all wf_value cs"
    "length (folded val cs) < HDRVAL_SIZE"
  shows "receive (pending self n val) (map (\<lambda>c. '' '' @ c @ crlf) cs @ rest) =
    receive (pending self n (folded val cs)) rest"
  using assms(3,4)
proof (induction cs arbitrary: val)
  case Nil
  then show ?case by (simp add: folded_def)
next
  case (Cons c cs)
  have "folded (folded val [c]) cs = folded val (c # cs)" by (simp add: folded_def)
  then show ?case
    using Cons receive_continuation [OF assms(1,2), of c val cs] by simp
qed

lemma receive_header:
  assumes "rq_recvState self = RRS_HEADERS" "flush_header self = Some self1" "wf_raw (n, v, cs)"
  shows "receive self (header_text (n, v, cs) @ rest) = receive (pending self1 n (folded v cs)) rest"
proof -
  let ?line = "n @ '': '' @ v @ crlf"
  have st: "rq_recvState self1 = RRS_HEADERS"
    using assms(1,2) by (auto simp: flush_header_def split: if_splits option.splits)
  have n: "n \<noteq> []" "CHR '':'' \<notin> set n" "nulfree n" "length n < HDRNM_SIZE"
    "first_char n \<notin> {CHR '' '', TAB, CR, LF}" and v: "wf_value v" and cs: "list_all wf_value cs"
    and len: "length (folded v cs) < HDRVAL_SIZE"
    using assms(3) by auto
  have vlen: "length v < HDRVAL_SIZE" using len length_folded_le [of v cs] by linarith
  have "recv_header self1 ?line = (Wait, pending self1 n v)"
    using n v vlen strchr_append [of "CHR '':''" n] value_end_crlf [of v] skip_value(1) [OF v]
    by (simp add: recv_header_def pending_def skip_def wf_value_def HDRNM_SIZE_def HDRVAL_SIZE_def)
  then have "dataReceived self ?line = Some (Wait, pending self1 n v)"
    using assms(1,2) n(1,3,5) nulfree_value [OF v]
    by (simp add: dataReceived_def recv_headers_def)
  then show ?thesis
    using receive_continuations [OF st n(1) cs len] by simp
qed

definition raw_entry :: "raw_header \<Rightarrow> header" where
  "raw_entry r = (case r of (n, v, cs) \<Rightarrow>
     header_new n (folded v cs) (length n) (length (folded v cs)))"

lemma raw_entry_create:
  "wf_raw (n, v, cs) \<Longrightarrow> Header_create n (folded v cs) = Some (raw_entry (n, v, cs))"
  by (simp add: Header_create_def validate_def raw_entry_def buffer_sizes UINT16_MAX_def)

lemma receive_headers:
  assumes "rq_recvState self = RRS_HEADERS" "flush_header self = Some self1"
    "rq_hdrnm self1 = []" "rq_hdrvalpos self1 = 0" "list_all wf_raw rs"
  shows "\<exists>self' val. receive self (concat (map header_text rs) @ rest) = receive self' rest
    \<and> rq_recvState self' = RRS_HEADERS
    \<and> flush_header self' = Some (self1\<lparr>rq_headers := foldl HeaderSet_add (rq_headers self1) (map raw_entry rs),
                                   rq_hdrval := val\<rparr>)"
  using assms
proof (induction rs arbitrary: self self1)
  case Nil
  then have "flush_header self = Some (self1\<lparr>rq_headers := rq_headers self1, rq_hdrval := rq_hdrval self1\<rparr>)"
    by simp
  then show ?case using Nil by (metis append_Nil concat.simps(1) foldl_Nil list.simps(8))
next
  case (Cons r rs)
  obtain n v cs where r: "r = (n, v, cs)" by (cases r)
  let ?p = "pending self1 n (folded v cs)"
  let ?s = "self1\<lparr>rq_headers := HeaderSet_add (rq_headers self1) (raw_entry r), rq_hdrval := folded v cs\<rparr>"
  have wf: "wf_raw (n, v, cs)" using Cons.prems(5) r by simp
  have st: "rq_recvState ?p = RRS_HEADERS"
    using Cons.prems(1,2) by (auto simp: pending_def flush_header_def split: if_splits option.splits)
  have "flush_header ?p = Some ?s"
    using wf Cons.prems(3,4) raw_entry_create [OF wf] by (simp add: flush_header_def pending_def r)
  then obtain self' val where
    "receive ?p (concat (map header_text rs) @ rest) = receive self' rest"
    "rq_recvState self' = RRS_HEADERS"
    "flush_header self' = Some (?s\<lparr>rq_headers := foldl HeaderSet_add (rq_headers ?s) (map raw_entry rs),
        rq_hdrval := val\<rparr>)"
    using Cons.IH [OF st] Cons.prems(3,4,5) by auto
  then show ?case
    using receive_header [OF Cons.prems(1,2) wf, of "concat (map header_text rs) @ rest"] r by auto
qed

lemma upper_not_space: "list_all isupper m \<Longrightarrow> takeWhile (\<lambda>c. c \<noteq> CHR '' '') (m @ CHR '' '' # r) = m"
  by (induction m) (auto simp: isupper_def)

lemma pathchar_space: "list_all pathchar p \<Longrightarrow> takeWhile pathchar (p @ CHR '' '' # r) = p"
  by (induction p) (auto simp: pathchar_def)

lemma recv_method_line:
  assumes "wf_target m p"
  shows "recv_method self (request_line m p v) =
    (Wait, self\<lparr>rq_meth := m, rq_path := p, rq_version := v, rq_recvState := RRS_HEADERS\<rparr>)"
proof -
  have m: "m \<noteq> []" "list_all isupper m" "length m \<le> METH_SIZE - 1"
    and p: "list_all pathchar p" "length p \<le> PATH_SIZE - 1" "p \<noteq> []"
    using assms by (auto simp: wf_target_def buffer_sizes)
  define w where "w = versionStr v @ crlf"
  have s1: "skip {CHR '' ''} (CHR '' '' # p @ CHR '' '' # w) = p @ CHR '' '' # w"
    using p(1,3) by (cases p) (auto simp: skip_def pathchar_def)
  have s2: "skip {CHR '' ''} (CHR '' '' # w) = w"
    by (cases v) (simp_all add: w_def skip_def versionStr_def)
  have v: "take 7 w = ''HTTP/1.''" "first_char (drop 7 w) \<in> {CHR ''1'', CHR ''0''}"
    "(if first_char (drop 7 w) = CHR ''1'' then HTTP_1_1 else HTTP_1_0) = v"
    "skip {CHR '' ''} (tl (drop 7 w)) = crlf"
    by (cases v; simp add: w_def versionStr_def first_char_def skip_def crlf_def)+
  have f: "first_char (CHR '' '' # r) = CHR '' ''" "first_char crlf = CR" for r
    by (simp_all add: first_char_def crlf_def)
  have line: "request_line m p v = m @ CHR '' '' # p @ CHR '' '' # w"
    by (simp add: request_line_def w_def)
  have "recv_method self (m @ CHR '' '' # p @ CHR '' '' # w) =
    (Wait, self\<lparr>rq_meth := m, rq_path := p,
       rq_version := if first_char (drop 7 w) = CHR ''1'' then HTTP_1_1 else HTTP_1_0,
       rq_recvState := RRS_HEADERS\<rparr>)"
    using m p v(1,2,4) by (simp add: recv_method_def Let_def upper_not_space pathchar_space s1 s2 f)
  then show ?thesis unfolding line v(3) .
qed

section \<open>Complete requests\<close>

definition req_complete :: "httprequest \<Rightarrow> bool" where
  "req_complete rq \<longleftrightarrow> rq_bodypos rq = rq_bodySize rq
     \<and> (rq_method rq \<in> {HTTP_GET, HTTP_HEAD, HTTP_DELETE, HTTP_CONNECT} \<longrightarrow> rq_bodySize rq = 0)
     \<and> (rq_method rq \<in> {HTTP_POST, HTTP_PUT} \<longrightarrow> 0 < rq_bodySize rq)"

lemma recv_done_complete:
  "rq_bodypos self = rq_bodySize self \<Longrightarrow> rq_status (snd (recv_done self)) = HTTP_OK
    \<Longrightarrow> req_complete (snd (recv_done self))"
  by (auto simp: recv_done_def recv_status_def req_complete_def Let_def split: if_splits)

lemma recv_empty_line_complete:
  assumes "req_ok self" "rq_recvState self = RRS_HEADERS" "fst (recv_empty_line self) = Received"
    "rq_status (snd (recv_empty_line self)) = HTTP_OK"
  shows "req_complete (snd (recv_empty_line self))"
  using assms by (auto simp: recv_empty_line_def req_ok_def Let_def intro!: recv_done_complete
      split: option.splits prod.splits if_splits)

lemma recv_body_complete:
  assumes "req_ok self" "fst (recv_body self buf) = Received" "rq_status (snd (recv_body self buf)) = HTTP_OK"
  shows "req_complete (snd (recv_body self buf))"
  using assms by (auto simp: recv_body_def req_ok_def req_bounds_def Let_def intro!: recv_done_complete
      split: if_splits)

lemma dataReceived_complete:
  assumes "req_ok self" "dataReceived self buf = Some (Received, rq)" "rq_status rq = HTTP_OK"
  shows "req_complete rq"
proof (cases "rq_recvState self")
  case RRS_METHOD
  then show ?thesis
    using assms(2) by (simp add: dataReceived_def recv_method_def Let_def split: if_splits)
next
  case RRS_BODY
  then show ?thesis
    using recv_body_complete [OF assms(1), of buf] assms(2,3) by (simp add: dataReceived_def)
next
  case RRS_HEADERS
  let ?line = "cstr buf"
  obtain self1 where f: "flush_header self = Some self1" "req_ok self1" "rq_recvState self1 = RRS_HEADERS"
    using flush_header_ok [OF assms(1)] RRS_HEADERS by metis
  have "fst (recv_continuation self ?line) \<noteq> Received" "fst (recv_header self1 ?line) \<noteq> Received"
    by (auto simp: recv_continuation_def recv_header_def Let_def split: option.splits)
  then have "(Received, rq) = recv_empty_line self1"
    using assms(2) f(1) RRS_HEADERS
    by (auto simp: dataReceived_def recv_headers_def split: if_splits)
  then show ?thesis using recv_empty_line_complete [OF f(2,3)] assms(3) by (metis fst_conv snd_conv)
qed

lemma receive_complete:
  "req_ok self \<Longrightarrow> receive self es = Some (Received, rq) \<Longrightarrow> rq_status rq = HTTP_OK \<Longrightarrow> req_complete rq"
proof (induction es arbitrary: self)
  case (Cons e es)
  obtain act self' where d: "dataReceived self e = Some (act, self')" "act \<noteq> Close \<Longrightarrow> req_ok self'"
    using dataReceived_ok [OF Cons.prems(1)] by metis
  show ?case
  proof (cases "act \<in> {Received, Close}")
    case True
    then show ?thesis using d(1) Cons.prems dataReceived_complete [OF Cons.prems(1), of e rq] by auto
  next
    case False
    then show ?thesis using d Cons.IH [of self'] Cons.prems(2,3) by simp
  qed
qed simp

section \<open>Properties\<close>

text \<open>
  C1: reception is safe. Whatever a client sends, in whatever pieces, no step fails, no text
  outgrows its buffer, the body stays within its allocation and the allocation within 1 MB.
\<close>

theorem request_reception_safe:
  "\<exists>act rq. receive HttpRequest_create es = Some (act, rq)
     \<and> length (rq_meth rq) < METH_SIZE \<and> length (rq_path rq) < PATH_SIZE
     \<and> length (rq_hdrnm rq) < HDRNM_SIZE \<and> length (rq_hdrval rq) < HDRVAL_SIZE
     \<and> length (rq_body rq) = rq_bodySize rq \<and> rq_bodySize rq \<le> MAXBODY
     \<and> rq_bodypos rq \<le> rq_bodySize rq"
  using receive_ok [OF req_ok_create, of es] by (auto simp: req_bounds_def)

text \<open>
  C2: parsing a request. A request written by a client (a method of capitals, a target, headers
  whose values may be continued on further lines) is received with its method, target and
  version, and each name finds exactly its headers, in order, with their values unfolded. Without
  a \<open>Content-Length\<close> it is complete behind the empty line, and is refused if it should have a body.
\<close>

theorem request_roundtrip:
  assumes "wf_target m p" "list_all wf_raw rs"
  shows "\<exists>act rq. receive HttpRequest_create (request_line m p v # concat (map header_text rs) @ [crlf])
      = Some (act, rq)
    \<and> rq_meth rq = m \<and> rq_path rq = p \<and> rq_version rq = v
    \<and> (\<forall>name. map (\<lambda>h. (h_name h, h_value h)) (headers_of (rq_headers rq) name) =
         map (\<lambda>(n, t, cs). (n, folded t cs)) (filter (\<lambda>(n, t, cs). strcaseeq name n) rs))
    \<and> (filter (\<lambda>(n, t, cs). strcaseeq ''Content-Length'' n) rs = [] \<longrightarrow>
         act = Received \<and> rq_bodySize rq = 0 \<and> rq_method rq = method_of m
         \<and> rq_status rq = (if m = ''POST'' \<or> m = ''PUT'' then HTTP_LENGTHREQUIRED else HTTP_OK))"
proof -
  let ?s0 = "HttpRequest_create\<lparr>rq_meth := m, rq_path := p, rq_version := v, rq_recvState := RRS_HEADERS\<rparr>"
  have nul: "nulfree (request_line m p v)"
    using assms(1) by (auto simp: wf_target_def request_line_def nulfree_def list_all_iff isupper_def
        pathchar_def versionStr_def crlf_def split: httpversion.splits)
  have first: "receive HttpRequest_create (request_line m p v # es) = receive ?s0 es" for es
    using recv_method_line [OF assms(1), of HttpRequest_create v] nul
    by (simp add: dataReceived_def HttpRequest_create_def)
  have s0: "rq_recvState ?s0 = RRS_HEADERS" "flush_header ?s0 = Some ?s0" "rq_hdrnm ?s0 = []"
    "rq_hdrvalpos ?s0 = 0"
    by (simp_all add: HttpRequest_create_def flush_header_def)
  define hs where "hs = foldl HeaderSet_add HeaderSet_create (map raw_entry rs)"
  obtain self' val where r: "receive ?s0 (concat (map header_text rs) @ [crlf]) = receive self' [crlf]"
    "rq_recvState self' = RRS_HEADERS" and
    fl: "flush_header self' = Some (?s0\<lparr>rq_headers := hs, rq_hdrval := val\<rparr>)"
    using receive_headers [OF s0 assms(2), of "[crlf]"] by (auto simp: hs_def HttpRequest_create_def)
  let ?s1 = "?s0\<lparr>rq_headers := hs, rq_hdrval := val\<rparr>"
  have "dataReceived self' crlf = Some (recv_empty_line ?s1)"
    using r(2) fl by (simp add: dataReceived_def recv_headers_def) (simp add: first_char_def crlf_def)
  then have res: "receive HttpRequest_create (request_line m p v # concat (map header_text rs) @ [crlf])
      = Some (if fst (recv_empty_line ?s1) = Received then Received else Wait, snd (recv_empty_line ?s1))"
    unfolding first r(1) using recv_empty_line_act [of ?s1] by (cases "recv_empty_line ?s1") auto
  have look: "headers_of hs name = filter (\<lambda>h. strcaseeq name (h_name h)) (map raw_entry rs)" for name
    unfolding hs_def by (rule hs.look_build)
  have pairs: "map (\<lambda>h. (h_name h, h_value h)) (headers_of hs name) =
      map (\<lambda>(n, t, cs). (n, folded t cs)) (filter (\<lambda>(n, t, cs). strcaseeq name n) rs)" for name
    unfolding look by (induction rs) (auto simp: raw_entry_def header_new_def)
  have keep: "rq_meth (snd (recv_empty_line s)) = rq_meth s \<and> rq_path (snd (recv_empty_line s)) = rq_path s
      \<and> rq_version (snd (recv_empty_line s)) = rq_version s \<and> rq_headers (snd (recv_empty_line s)) = rq_headers s"
    for s by (auto simp: recv_empty_line_def recv_done_def Let_def split: option.splits prod.splits)
  have nolen: "recv_empty_line ?s1 = recv_done (if m = ''POST'' \<or> m = ''PUT''
      then ?s1\<lparr>rq_status := HTTP_LENGTHREQUIRED\<rparr> else ?s1)"
    if "filter (\<lambda>(n, t, cs). strcaseeq ''Content-Length'' n) rs = []"
    using pairs [of "''Content-Length''"] that
    by (simp add: recv_empty_line_def HeaderSet_first_spec)
  show ?thesis
    using res keep [of ?s1] pairs nolen
    by (intro exI [of _ "if fst (recv_empty_line ?s1) = Received then Received else Wait"] exI [of _ "snd (recv_empty_line ?s1)"])
      (auto simp: HttpRequest_create_def recv_done_def recv_status_def method_of_def method_defs Let_def)
qed

theorem request_roundtrip_witness:
  "\<exists>rq. receive HttpRequest_create
       (request_line ''GET'' ''/'' HTTP_1_1 # header_text (''Host'', ''a'', [''b'', ''c'']) @ [crlf])
     = Some (Received, rq) \<and> rq_status rq = HTTP_OK
     \<and> map h_value (headers_of (rq_headers rq) ''HOST'') = [''a b c'']"
proof -
  have wf: "wf_target ''GET'' ''/''" "list_all wf_raw [(''Host'', ''a'', [''b'', ''c''])]"
    by (simp_all add: wf_target_def isupper_def pathchar_def buffer_sizes wf_value_def first_char_def
        folded_def)
  have eq: "strcaseeq ''Content-Length'' ''Host'' = False" "strcaseeq ''HOST'' ''Host''"
    by code_simp+
  obtain act rq where r: "receive HttpRequest_create
       (request_line ''GET'' ''/'' HTTP_1_1 # header_text (''Host'', ''a'', [''b'', ''c'']) @ [crlf]) = Some (act, rq)"
    "\<forall>name. map (\<lambda>h. (h_name h, h_value h)) (headers_of (rq_headers rq) name) =
       map (\<lambda>(n, t, cs). (n, folded t cs))
         (filter (\<lambda>(n, t, cs). strcaseeq name n) [(''Host'', ''a'', [''b'', ''c''])])"
    "act = Received" "rq_status rq = HTTP_OK"
    using request_roundtrip [OF wf, of HTTP_1_1] eq by auto
  have "map h_value (headers_of (rq_headers rq) ''HOST'')
      = map snd (map (\<lambda>h. (h_name h, h_value h)) (headers_of (rq_headers rq) ''HOST''))" by simp
  also have "\<dots> = [''a b c'']" using r(2) eq by (simp add: folded_def)
  finally show ?thesis using r by simp
qed


definition ex_get :: "string list" where
  "ex_get = [''GET / HTTP/1.1'' @ crlf, crlf]"

lemma ex_get_receive:
  "\<exists>rq. receive HttpRequest_create ex_get = Some (Received, rq) \<and> rq_status rq = HTTP_OK"
proof -
  have "map_option (\<lambda>(act, rq). (act, rq_status rq)) (receive HttpRequest_create ex_get)
      = Some (Received, HTTP_OK)"
    by code_simp
  then show ?thesis by (auto simp: map_option_eq_Some)
qed


text \<open>
  A body that arrives in one piece is stored as it is. If it arrives in two, the second piece
  is stored over the first, and as many bytes at the end of the body are never written as the
  shorter piece has; the request is still reported as complete.
\<close>

theorem request_body_pieces:
  assumes "rq_recvState self = RRS_BODY" "rq_bodypos self = 0"
    "rq_bodySize self = length (c @ c')" "rq_body self = replicate (length (c @ c')) None" "c \<noteq> []" "c' \<noteq> []"
  shows "\<exists>rq rq'. receive self [c @ c'] = Some (Received, rq) \<and> rq_body rq = map Some (c @ c')
    \<and> receive self [c, c'] = Some (Received, rq')
    \<and> rq_body rq' = map Some c' @ drop (length c') (map Some c) @ replicate (min (length c) (length c')) None"
  using assms by (simp add: dataReceived_def recv_body_def recv_done_def Let_def min_def)

definition ex_body :: httprequest where
  "ex_body = HttpRequest_create\<lparr>rq_recvState := RRS_BODY, rq_bodySize := 5, rq_body := replicate 5 None\<rparr>"

theorem request_body_pieces_witness:
  "\<exists>rq rq'. receive ex_body [''hello''] = Some (Received, rq) \<and> rq_body rq = map Some ''hello''
    \<and> receive ex_body [''hel'', ''lo''] = Some (Received, rq')
    \<and> rq_body rq' = [Some CHR ''l'', Some CHR ''o'', Some CHR ''l'', None, None]"
  using request_body_pieces [of ex_body "''hel''" "''lo''"]
  by (auto simp: ex_body_def HttpRequest_create_def numeral_eq_Suc)

end
