(* ===== verification/Html_Escape.thy ===== *)
theory Html_Escape
  imports Str_Util
begin

text \<open>
  \<open>htmlescape.c\<close>: replacing the characters that are special in HTML text and attribute values
  by entities. \<open>htmlescapeto\<close> appends to an output buffer, \<open>htmlescape\<close> allocates one and
  returns it with its terminating NUL.
\<close>

definition HTML_OUTCHUNK :: nat where
  "HTML_OUTCHUNK = 512"

lemma HTML_OUTCHUNK_pos [simp]: "0 < HTML_OUTCHUNK"
  by (simp add: HTML_OUTCHUNK_def)

fun htmlescapeto :: "string \<Rightarrow> bool \<Rightarrow> obuf \<Rightarrow> obuf" where
  "htmlescapeto [] newline out = out"
| "htmlescapeto (c # val) newline out =
     htmlescapeto val newline
       (if c = CHR ''&'' then appendstrlit HTML_OUTCHUNK ''&amp;'' out
        else if c = CHR ''<'' then appendstrlit HTML_OUTCHUNK ''&lt;'' out
        else if c = CHR ''>'' then appendstrlit HTML_OUTCHUNK ''&gt;'' out
        else if c = CHR 0x22 then appendstrlit HTML_OUTCHUNK ''&quot;'' out
        else if c = CHR 0x27 then appendstrlit HTML_OUTCHUNK ''&#39;'' out
        else if c = LF \<and> newline then appendstrlit HTML_OUTCHUNK ''<br>'' out
        else appendchr HTML_OUTCHUNK c out)"

definition htmlescape :: "string \<Rightarrow> bool \<Rightarrow> string" where
  "htmlescape str newline =
     contents (appendchr 1 NUL (htmlescapeto str newline (obuf_alloc (length str + HTML_OUTCHUNK))))"

section \<open>What is written\<close>

definition html_entity :: "bool \<Rightarrow> char \<Rightarrow> string" where
  "html_entity newline c =
     (if c = CHR ''&'' then ''&amp;'' else if c = CHR ''<'' then ''&lt;''
      else if c = CHR ''>'' then ''&gt;'' else if c = CHR 0x22 then ''&quot;''
      else if c = CHR 0x27 then ''&#39;'' else if c = LF \<and> newline then ''<br>'' else [c])"

definition html_esc :: "string \<Rightarrow> bool \<Rightarrow> string" where
  "html_esc s newline = concat (map (html_entity newline) s)"

lemma htmlescapeto_spec [simp]:
  assumes "obuf_inv out"
  shows "obuf_inv (htmlescapeto s nl out)"
    and "contents (htmlescapeto s nl out) = contents out @ html_esc s nl"
proof -
  have "obuf_inv (htmlescapeto s nl out) \<and>
      contents (htmlescapeto s nl out) = contents out @ html_esc s nl"
    using assms
  proof (induction s nl out rule: htmlescapeto.induct)
    case (2 c val newline out)
    define out' where "out' = (if c = CHR ''&'' then appendstrlit HTML_OUTCHUNK ''&amp;'' out
        else if c = CHR ''<'' then appendstrlit HTML_OUTCHUNK ''&lt;'' out
        else if c = CHR ''>'' then appendstrlit HTML_OUTCHUNK ''&gt;'' out
        else if c = CHR 0x22 then appendstrlit HTML_OUTCHUNK ''&quot;'' out
        else if c = CHR 0x27 then appendstrlit HTML_OUTCHUNK ''&#39;'' out
        else if c = LF \<and> newline then appendstrlit HTML_OUTCHUNK ''<br>'' out
        else appendchr HTML_OUTCHUNK c out)"
    have "obuf_inv out'" "contents out' = contents out @ html_entity newline c"
      using "2.prems" by (simp_all add: out'_def html_entity_def)
    moreover have "htmlescapeto (c # val) newline out = htmlescapeto val newline out'"
      by (simp only: htmlescapeto.simps out'_def)
    ultimately show ?case
      using "2.IH" by (simp add: out'_def [symmetric] html_esc_def)
  qed (simp add: html_esc_def)
  then show "obuf_inv (htmlescapeto s nl out)"
    "contents (htmlescapeto s nl out) = contents out @ html_esc s nl" by blast+
qed

lemma htmlescape_eq: "htmlescape s nl = html_esc s nl @ [NUL]"
  by (simp add: htmlescape_def)

lemma html_esc_Cons: "html_esc (c # s) nl = html_entity nl c @ html_esc s nl"
  by (simp add: html_esc_def)

lemma nulfree_html_esc [simp]: "nulfree s \<Longrightarrow> nulfree (html_esc s nl)"
  by (induction s) (auto simp: html_esc_def html_entity_def)

lemma cstr_htmlescape: "nulfree s \<Longrightarrow> cstr (htmlescape s nl) = html_esc s nl"
  by (simp add: htmlescape_eq cstr_append_NUL)

section \<open>A reader of the escaped text\<close>

text \<open>
  What an HTML parser makes of text content: an ampersand starts an entity, everything else
  stands for itself. The five entities are those the escaper uses.
\<close>

definition html_entities :: "(string \<times> char) list" where
  "html_entities =
     [(''&amp;'', CHR ''&''), (''&lt;'', CHR ''<''), (''&gt;'', CHR ''>''),
      (''&quot;'', CHR 0x22), (''&#39;'', CHR 0x27)]"

definition html_entity_at :: "string \<Rightarrow> (string \<times> char) option" where
  "html_entity_at s = find (\<lambda>(e, c). take (length e) s = e) html_entities"

function html_unesc :: "string \<Rightarrow> string" where
  "html_unesc s =
     (case s of [] \<Rightarrow> []
      | c # r \<Rightarrow>
          (case html_entity_at s of
             Some (e, d) \<Rightarrow> d # html_unesc (drop (length e) s)
           | None \<Rightarrow> c # html_unesc r))"
  by pat_completeness auto
termination
proof (relation "measure length")
  fix s x r p e d
  assume "s = x # r" "html_entity_at s = Some p" "(e, d) = p"
  then have "(e, d) \<in> set html_entities"
    by (auto simp: html_entity_at_def find_Some_iff in_set_conv_nth)
  then show "(drop (length e) s, s) \<in> measure length"
    using \<open>s = x # r\<close> by (auto simp: html_entities_def)
qed auto

declare html_unesc.simps [simp del]

lemma html_unesc_Nil [simp]: "html_unesc [] = []"
  by (simp add: html_unesc.simps [of "[]"])

lemma html_unesc_entity: "(e, c) \<in> set html_entities \<Longrightarrow> html_unesc (e @ r) = c # html_unesc r"
  by (subst html_unesc.simps) (auto simp: html_entities_def html_entity_at_def)

lemma html_unesc_plain: "c \<noteq> CHR ''&'' \<Longrightarrow> html_unesc (c # r) = c # html_unesc r"
  by (subst html_unesc.simps) (auto simp: html_entities_def html_entity_at_def)

lemma html_unesc_esc: "html_unesc (html_esc s False @ r) = s @ html_unesc r"
proof (induction s)
  case Nil
  then show ?case by (simp add: html_esc_def)
next
  case (Cons c s)
  show ?case
  proof (cases "c \<in> set ''&<>'' \<or> c = CHR 0x22 \<or> c = CHR 0x27")
    case True
    then have "(html_entity False c, c) \<in> set html_entities"
      by (auto simp: html_entity_def html_entities_def)
    with Cons show ?thesis by (simp add: html_esc_Cons html_unesc_entity)
  next
    case False
    then have "html_entity False c = [c]" by (auto simp: html_entity_def)
    with Cons False show ?thesis by (simp add: html_esc_Cons html_unesc_plain)
  qed
qed

text \<open>The characters that could open a tag or end an attribute value.\<close>

definition html_special :: "char \<Rightarrow> bool" where
  "html_special c \<longleftrightarrow> c \<in> set ''<>'' \<or> c = CHR 0x22 \<or> c = CHR 0x27"

lemma html_esc_no_special: "c \<in> set (html_esc s False) \<Longrightarrow> \<not> html_special c"
  by (auto simp: html_esc_def html_entity_def html_special_def split: if_splits)

section \<open>Properties\<close>

text \<open>
  Escaping a C string (without turning line breaks into tags) is lossless and safe: reading
  the entities back gives the string, and the output holds no character that opens a tag or
  ends a quoted attribute value.
\<close>

theorem htmlescape_lossless_safe:
  assumes "nulfree s"
  shows "html_unesc (cstr (htmlescape s False)) = s \<and>
    (\<forall>c. c \<in> set (cstr (htmlescape s False)) \<longrightarrow> \<not> html_special c)"
  using assms html_unesc_esc [of s "[]"] html_esc_no_special [of _ s]
  by (auto simp: cstr_htmlescape)

text \<open>A concrete input with every special character.\<close>

theorem htmlescape_lossless_safe_witness:
  "nulfree ''a<b & c>'' \<and> html_unesc (cstr (htmlescape ''a<b & c>'' False)) = ''a<b & c>''"
proof -
  have n: "nulfree ''a<b & c>''" by simp
  show ?thesis using htmlescape_lossless_safe [OF n] n by blast
qed

end
