(* ===== verification/Http_Response.thy ===== *)
theory Http_Response
  imports Header_Set Http_Types Html_Escape
begin

text \<open>
  \<open>http/httpresponse.c\<close>: building a response and sending it. A response is sent in two steps, first
  the status line and the headers from one buffer, then the body in chunks of at most 65535 bytes,
  each when the connection reports that the one before is sent. \<open>sprintf\<close> and \<open>snprintf\<close> are
  written out for the formats used. \<^term>\<open>None\<close> as the result of an operation is a null pointer
  that is followed: a header that is too long, or no method to allow.
\<close>

section \<open>Formatting\<close>

fun sprintf :: "string \<Rightarrow> string list \<Rightarrow> string" where
  "sprintf (c # d # f) (a # as) =
     (if c = CHR ''%'' \<and> d = CHR ''s'' then a @ sprintf f as else c # sprintf (d # f) (a # as))"
| "sprintf f as = f"

text \<open>\<open>char sizeStr[64]; snprintf(sizeStr, 64, "%zu", n)\<close>\<close>

definition sizeStr :: "nat \<Rightarrow> string" where
  "sizeStr n = take 63 (dec n)"

definition ERROR_FORMAT :: string where
  "ERROR_FORMAT = ''<html><head><title>%s</title></head>'' @
     ''<body><h1>%s</h1><p>%s</p></body></html>''"

definition ERROR_SIZE :: nat where
  "ERROR_SIZE = length ERROR_FORMAT + 1 - 7"

definition REDIRECT_FORMAT :: string where
  "REDIRECT_FORMAT = ''<html><head><title>%s</title>'' @
     ''<meta http-equiv=\"refresh\" content=\"0; URL=%s\"></head>'' @
     ''<body><a href=\"%s\">%s</a></body></html>''"

definition REDIRECT_SIZE :: nat where
  "REDIRECT_SIZE = length REDIRECT_FORMAT + 1 - 9"

section \<open>Responses\<close>

record httpresponse =
  rs_bodySize :: nat
  rs_sendPos :: nat
  rs_headers :: headerset
  rs_body :: "string option"
  rs_status :: httpstatus
  rs_version :: httpversion
  rs_deleteScheduled :: u8

definition add_header :: "string \<Rightarrow> string \<Rightarrow> httpresponse \<Rightarrow> httpresponse option" where
  "add_header name val self =
     (case Header_create name val of None \<Rightarrow> None
      | Some h \<Rightarrow> Some (self\<lparr>rs_headers := HeaderSet_add (rs_headers self) h\<rparr>))"

definition set_header :: "string \<Rightarrow> string \<Rightarrow> httpresponse \<Rightarrow> httpresponse option" where
  "set_header name val self =
     (case Header_create name val of None \<Rightarrow> None
      | Some h \<Rightarrow> Some (self\<lparr>rs_headers := HeaderSet_set (rs_headers self) h\<rparr>))"

definition HttpResponse_create :: "httpstatus \<Rightarrow> mediatype \<Rightarrow> httpresponse option" where
  "HttpResponse_create status bodyType =
     add_header ''Content-Type'' (MediaType_str bodyType)
       \<lparr>rs_bodySize = 0, rs_sendPos = 0, rs_headers = HeaderSet_create, rs_body = None,
        rs_status = status, rs_version = HTTP_1_1, rs_deleteScheduled = 0\<rparr>"

definition HttpResponse_createError :: "httpstatus \<Rightarrow> string option \<Rightarrow> httpresponse option" where
  "HttpResponse_createError status message =
     (case HttpResponse_create status MT_HTML of
        None \<Rightarrow> None
      | Some self \<Rightarrow>
          (let message = (case message of None \<Rightarrow> statusMsg status | Some m \<Rightarrow> m);
               ststr = statusStr status;
               sz = ERROR_SIZE + 2 * length ststr + length message;
               html = sprintf ERROR_FORMAT [ststr, ststr, message]
           in set_header ''Content-Length'' (sizeStr sz)
                (self\<lparr>rs_body := Some html, rs_bodySize := sz\<rparr>)))"

definition HttpResponse_createRedirect :: "httpstatus \<Rightarrow> string \<Rightarrow> httpresponse option" where
  "HttpResponse_createRedirect status location =
     (case HttpResponse_create status MT_HTML of
        None \<Rightarrow> None
      | Some self \<Rightarrow>
          (let ststr = statusStr status;
               contentloc = cstr (htmlescape location False);
               contentSize = REDIRECT_SIZE + length ststr + 3 * length contentloc;
               rdrContent = sprintf REDIRECT_FORMAT [ststr, contentloc, contentloc, contentloc]
           in case set_header ''Content-Length'' (sizeStr contentSize)
                (self\<lparr>rs_body := Some rdrContent, rs_bodySize := contentSize\<rparr>) of
                None \<Rightarrow> None
              | Some self \<Rightarrow>
                  if status_code status \<le> 300 \<and> status_code status < 400
                  then set_header ''Location'' location self
                  else Some self))"

definition HttpResponse_setAllowHeader :: "httpresponse \<Rightarrow> httpmethod \<Rightarrow> httpresponse option" where
  "HttpResponse_setAllowHeader self msk =
     (case methodsStr msk of None \<Rightarrow> None | Some m \<Rightarrow> set_header ''Allow'' m self)"

definition HttpResponse_setVersion :: "httpresponse \<Rightarrow> httpversion \<Rightarrow> httpresponse" where
  "HttpResponse_setVersion self version =
     self\<lparr>rs_status := HttpStatus_downgrade (rs_status self) version\<rparr>"

text \<open>\<open>buf\<close> holds at least \<open>size\<close> bytes, as its callers ensure.\<close>

definition HttpResponse_passBody :: "httpresponse \<Rightarrow> string \<Rightarrow> nat \<Rightarrow> httpresponse option" where
  "HttpResponse_passBody self buf sz =
     set_header ''Content-Length'' (sizeStr sz) (self\<lparr>rs_body := Some buf, rs_bodySize := sz\<rparr>)"

definition HttpResponse_setBody :: "httpresponse \<Rightarrow> string \<Rightarrow> nat \<Rightarrow> httpresponse option" where
  "HttpResponse_setBody self buf sz = HttpResponse_passBody self (take sz buf) sz"

definition HttpResponse_setTextBody :: "httpresponse \<Rightarrow> string \<Rightarrow> httpresponse option" where
  "HttpResponse_setTextBody self body = HttpResponse_setBody self body (length body)"

definition HttpResponse_passTextBody :: "httpresponse \<Rightarrow> string \<Rightarrow> httpresponse option" where
  "HttpResponse_passTextBody self body = HttpResponse_passBody self body (length body)"

section \<open>Sending\<close>

text \<open>
  One call of \<open>sendBody\<close>: the bytes handed to the connection, or \<^term>\<open>None\<close> when the response
  stops listening and reports that it is sent.
\<close>

definition sendBody :: "httpresponse \<Rightarrow> string option \<times> httpresponse" where
  "sendBody self =
     (let remaining = rs_bodySize self - rs_sendPos self
      in if remaining = 0 then (None, self)
         else
           (let remaining = (if remaining > UINT16_MAX then UINT16_MAX else remaining)
            in (Some (take remaining (drop (rs_sendPos self) (case rs_body self of None \<Rightarrow> [] | Some b \<Rightarrow> b))),
                self\<lparr>rs_sendPos := rs_sendPos self + remaining\<rparr>)))"

definition abortSending :: "httpresponse \<Rightarrow> httpresponse" where
  "abortSending self = self\<lparr>rs_sendPos := 0\<rparr>"

text \<open>
  \<open>HttpResponse_send\<close>: the new state, the bytes written to \<open>headerBuf\<close>, and how many bytes were
  allocated for it, which is also how many the connection is asked to send. \<open>headersize\<close> has 16
  bits. Reading outside the buckets or through a null pointer is \<^term>\<open>None\<close>.
\<close>

definition send_status :: "httpresponse \<Rightarrow> httpresponse" where
  "send_status self =
     (if rs_version self = HTTP_1_0
      then (case rs_status self of
              HTTP_SEEOTHER \<Rightarrow> self\<lparr>rs_status := HTTP_FOUND\<rparr>
            | HTTP_REQUESTENTITYTOOLARGE \<Rightarrow> self\<lparr>rs_status := HTTP_BADREQUEST\<rparr>
            | _ \<Rightarrow> self)
      else self)"

definition HttpResponse_send :: "httpresponse \<Rightarrow> (httpresponse \<times> string \<times> nat) option" where
  "HttpResponse_send self =
     (let self = send_status self
      in case (if HeaderSet_first (rs_headers self) ''Cache-Control'' = None
               then add_header ''Cache-Control'' ''no-cache, no-store, must-revalidate'' self
               else Some self) of
           None \<Rightarrow> None
         | Some self \<Rightarrow>
             (let statuslen = length (statusStr (rs_status self));
                  headersize = unat (HeaderSet_size (rs_headers self));
                  fuel = length (concat (hs_buckets (rs_headers self))) + 1
              in case hs_visit fuel (rs_headers self) HeaderSet_all of
                   None \<Rightarrow> None
                 | Some hs \<Rightarrow>
                     Some (self\<lparr>rs_sendPos := 0\<rparr>,
                           versionStr (rs_version self) @ '' '' @ statusStr (rs_status self) @ [CR, LF]
                             @ concat (map (fst \<circ> Header_writeTo) hs) @ [CR, LF],
                           headersize + statuslen + 13)))"

text \<open>The lifetime of a response, like that of a request.\<close>

definition HttpResponse_deleteLater :: "httpresponse \<Rightarrow> httpresponse \<times> bool" where
  "HttpResponse_deleteLater self =
     (if rs_deleteScheduled self = 0 then (self\<lparr>rs_deleteScheduled := 1\<rparr>, True) else (self, False))"

definition HttpResponse_destroys :: "httpresponse \<Rightarrow> bool" where
  "HttpResponse_destroys self \<longleftrightarrow> rs_deleteScheduled self \<noteq> 1"

section \<open>Well-formed responses\<close>

definition body_bytes :: "httpresponse \<Rightarrow> string" where
  "body_bytes self = (case rs_body self of None \<Rightarrow> [] | Some b \<Rightarrow> b)"

definition resp_ok :: "httpresponse \<Rightarrow> bool" where
  "resp_ok self \<longleftrightarrow> hs_ok (rs_headers self) \<and> hs.every header_ok (rs_headers self)
     \<and> length (body_bytes self) = rs_bodySize self \<and> rs_sendPos self \<le> rs_bodySize self"

text \<open>The one header that announces the size of the body.\<close>

definition announces :: "httpresponse \<Rightarrow> nat \<Rightarrow> bool" where
  "announces self n \<longleftrightarrow> map h_value (headers_of (rs_headers self) ''Content-Length'') = [sizeStr n]"

lemma add_header_Some:
  assumes "resp_ok self" "length name + length val + 4 \<le> UINT16_MAX"
  obtains h where "add_header name val self = Some (self\<lparr>rs_headers := HeaderSet_add (rs_headers self) h\<rparr>)"
    "h_name h = name" "h_value h = val" "header_ok h"
    "resp_ok (self\<lparr>rs_headers := HeaderSet_add (rs_headers self) h\<rparr>)"
proof -
  obtain h where h: "Header_create name val = Some h" using assms(2) Header_create_Some_iff by blast
  then have "h_name h = name" "h_value h = val" "header_ok h"
    using Header_create_fields Header_create_ok by blast+
  then show thesis
    using that [of h] h assms(1)
    by (simp add: add_header_def resp_ok_def hs.inv_add hs.every_add body_bytes_def)
qed

lemma set_header_Some:
  assumes "resp_ok self" "length name + length val + 4 \<le> UINT16_MAX"
  obtains h where "set_header name val self = Some (self\<lparr>rs_headers := HeaderSet_set (rs_headers self) h\<rparr>)"
    "h_name h = name" "h_value h = val" "header_ok h"
    "resp_ok (self\<lparr>rs_headers := HeaderSet_set (rs_headers self) h\<rparr>)"
proof -
  obtain h where h: "Header_create name val = Some h" using assms(2) Header_create_Some_iff by blast
  then have "h_name h = name" "h_value h = val" "header_ok h"
    using Header_create_fields Header_create_ok by blast+
  then show thesis
    using that [of h] h assms(1)
    by (simp add: set_header_def resp_ok_def hs.inv_set1 hs.every_set1 body_bytes_def)
qed

lemma length_sizeStr_le: "length (sizeStr n) \<le> 63"
  by (simp add: sizeStr_def)

lemma sizeStr_eq: "n < 2 ^ 64 \<Longrightarrow> sizeStr n = dec n"
proof -
  assume "n < 2 ^ 64"
  then have "length (dec n) \<le> 20" by (intro length_dec) simp_all
  then show ?thesis by (simp add: sizeStr_def)
qed

lemma HttpResponse_create_ok:
  obtains self where "HttpResponse_create status t = Some self" "resp_ok self" "rs_status self = status"
    "rs_body self = None" "rs_bodySize self = 0" "rs_sendPos self = 0" "rs_version self = HTTP_1_1"
    "\<forall>n. map h_value (headers_of (rs_headers self) n) =
       (if strcaseeq n ''Content-Type'' then [MediaType_str t] else [])"
proof -
  let ?r = "\<lparr>rs_bodySize = 0, rs_sendPos = 0, rs_headers = HeaderSet_create, rs_body = None,
        rs_status = status, rs_version = HTTP_1_1, rs_deleteScheduled = 0\<rparr>"
  have ok: "resp_ok ?r"
    by (simp add: resp_ok_def body_bytes_def hs.inv_empty hs.every_empty)
  have len: "length ''Content-Type'' + length (MediaType_str t) + 4 \<le> UINT16_MAX"
    using length_MediaType_str_le [of t] by (simp add: UINT16_MAX_def)
  obtain h where h: "add_header ''Content-Type'' (MediaType_str t) ?r =
      Some (?r\<lparr>rs_headers := HeaderSet_add (rs_headers ?r) h\<rparr>)"
    "h_name h = ''Content-Type''" "h_value h = MediaType_str t" "header_ok h"
    "resp_ok (?r\<lparr>rs_headers := HeaderSet_add (rs_headers ?r) h\<rparr>)"
    by (rule add_header_Some [OF ok len])
  have "map h_value (headers_of (HeaderSet_add HeaderSet_create h) n) =
       (if strcaseeq n ''Content-Type'' then [MediaType_str t] else [])" for n
    using h(2,3) by (simp add: hs.look_add hs.inv_empty hs.look_empty)
  then show thesis
    using h(1,5) that [of "?r\<lparr>rs_headers := HeaderSet_add HeaderSet_create h\<rparr>"]
    by (simp add: HttpResponse_create_def)
qed

lemma with_body_ok: "resp_ok self \<Longrightarrow> rs_sendPos self = 0 \<Longrightarrow> length b = n \<Longrightarrow>
    resp_ok (self\<lparr>rs_body := Some b, rs_bodySize := n\<rparr>)"
  by (simp add: resp_ok_def body_bytes_def)

text \<open>Setting the body with its size, as every way to give a response a body does.\<close>

lemma passBody_ok:
  assumes "resp_ok self" "length buf = n" "rs_sendPos self = 0"
  obtains self' where "HttpResponse_passBody self buf n = Some self'" "resp_ok self'" "announces self' n"
    "rs_body self' = Some buf" "rs_bodySize self' = n" "rs_status self' = rs_status self"
    "rs_version self' = rs_version self" "rs_sendPos self' = 0"
    "\<And>m. \<not> strcaseeq m ''Content-Length'' \<Longrightarrow> headers_of (rs_headers self') m = headers_of (rs_headers self) m"
proof -
  let ?s = "self\<lparr>rs_body := Some buf, rs_bodySize := n\<rparr>"
  have ok: "resp_ok ?s" using with_body_ok [OF assms(1,3,2)] .
  have len: "length ''Content-Length'' + length (sizeStr n) + 4 \<le> UINT16_MAX"
    using length_sizeStr_le [of n] by (simp add: UINT16_MAX_def)
  obtain h where h: "set_header ''Content-Length'' (sizeStr n) ?s =
      Some (?s\<lparr>rs_headers := HeaderSet_set (rs_headers ?s) h\<rparr>)"
    "h_name h = ''Content-Length''" "h_value h = sizeStr n" "header_ok h"
    "resp_ok (?s\<lparr>rs_headers := HeaderSet_set (rs_headers ?s) h\<rparr>)"
    by (rule set_header_Some [OF ok len])
  have inv: "hs_ok (rs_headers self)" using assms(1) by (simp add: resp_ok_def)
  have "announces (?s\<lparr>rs_headers := HeaderSet_set (rs_headers ?s) h\<rparr>) n"
    using h(2,3) inv by (simp add: announces_def hs.look_set1 strcaseeq_def)
  moreover have "headers_of (HeaderSet_set (rs_headers self) h) m = headers_of (rs_headers self) m"
    if "\<not> strcaseeq m ''Content-Length''" for m
    using that h(2) inv by (simp add: hs.look_set1)
  ultimately show thesis
    using h(1,5) assms(3) that [of "?s\<lparr>rs_headers := HeaderSet_set (rs_headers ?s) h\<rparr>"]
    by (simp add: HttpResponse_passBody_def)
qed

section \<open>Error pages and redirects\<close>

lemma sprintf_error:
  "sprintf ERROR_FORMAT [a, b, c] = ''<html><head><title>'' @ a @ ''</title></head><body><h1>'' @ b @
     ''</h1><p>'' @ c @ ''</p></body></html>''"
  by (simp add: ERROR_FORMAT_def)

lemma sprintf_redirect:
  "sprintf REDIRECT_FORMAT [a, b, c, d] = ''<html><head><title>'' @ a @
     ''</title><meta http-equiv=\"refresh\" content=\"0; URL='' @ b @ ''\"></head><body><a href=\"'' @ c @
     ''\">'' @ d @ ''</a></body></html>''"
  by (simp add: REDIRECT_FORMAT_def)

lemma createError_passBody:
  "HttpResponse_createError status message =
    (case HttpResponse_create status MT_HTML of
       None \<Rightarrow> None
     | Some self \<Rightarrow>
         (let html = sprintf ERROR_FORMAT [statusStr status, statusStr status,
                       case message of None \<Rightarrow> statusMsg status | Some m \<Rightarrow> m]
          in HttpResponse_passBody self html (length html)))"
proof -
  have "ERROR_SIZE + 2 * length (statusStr status) + length m =
      length (sprintf ERROR_FORMAT [statusStr status, statusStr status, m])" for m
    by (simp add: sprintf_error ERROR_SIZE_def ERROR_FORMAT_def)
  then show ?thesis
    by (simp add: HttpResponse_createError_def HttpResponse_passBody_def Let_def
        cong: option.case_cong)
qed

lemma createError_ok:
  obtains self where "HttpResponse_createError status message = Some self" "resp_ok self"
    "rs_status self = status" "announces self (rs_bodySize self)"
    "rs_body self = Some (sprintf ERROR_FORMAT [statusStr status, statusStr status,
       case message of None \<Rightarrow> statusMsg status | Some m \<Rightarrow> m])"
    "rs_sendPos self = 0" "rs_version self = HTTP_1_1"
    "map h_value (headers_of (rs_headers self) ''Content-Type'') = [MediaType_str MT_HTML]"
proof -
  define html where "html = sprintf ERROR_FORMAT [statusStr status, statusStr status,
       case message of None \<Rightarrow> statusMsg status | Some m \<Rightarrow> m]"
  obtain self where c: "HttpResponse_create status MT_HTML = Some self" "resp_ok self"
    "rs_status self = status" "rs_body self = None" "rs_bodySize self = 0" "rs_sendPos self = 0"
    "rs_version self = HTTP_1_1"
    "\<forall>n. map h_value (headers_of (rs_headers self) n) =
       (if strcaseeq n ''Content-Type'' then [MediaType_str MT_HTML] else [])"
    by (rule HttpResponse_create_ok)
  obtain self' where p: "HttpResponse_passBody self html (length html) = Some self'" "resp_ok self'"
    "announces self' (length html)" "rs_body self' = Some html" "rs_bodySize self' = length html"
    "rs_status self' = rs_status self" "rs_version self' = rs_version self" "rs_sendPos self' = 0"
    "\<And>m. \<not> strcaseeq m ''Content-Length'' \<Longrightarrow> headers_of (rs_headers self') m = headers_of (rs_headers self) m"
    by (rule passBody_ok [OF c(2) refl c(6)]) (rule that)
  have "\<not> strcaseeq ''Content-Type'' ''Content-Length''" "strcaseeq ''Content-Type'' ''Content-Type''"
    by code_simp+
  then have "map h_value (headers_of (rs_headers self') ''Content-Type'') = [MediaType_str MT_HTML]"
    using p(9) c(8) by simp
  then show thesis
    using that [of self'] p c by (simp add: createError_passBody html_def [symmetric])
qed

lemma createRedirect_passBody:
  "HttpResponse_createRedirect status location =
    (case HttpResponse_create status MT_HTML of
       None \<Rightarrow> None
     | Some self \<Rightarrow>
         (let loc = cstr (htmlescape location False);
              html = sprintf REDIRECT_FORMAT [statusStr status, loc, loc, loc]
          in case HttpResponse_passBody self html (length html) of
               None \<Rightarrow> None
             | Some self \<Rightarrow>
                 if status_code status \<le> 300 then set_header ''Location'' location self else Some self))"
proof -
  have "REDIRECT_SIZE + length (statusStr status) + 3 * length l =
      length (sprintf REDIRECT_FORMAT [statusStr status, l, l, l])" for l
    by (simp add: sprintf_redirect REDIRECT_SIZE_def REDIRECT_FORMAT_def)
  moreover have "status_code status \<le> 300 \<and> status_code status < 400 \<longleftrightarrow> status_code status \<le> 300"
    by linarith
  ultimately show ?thesis
    by (simp only: HttpResponse_createRedirect_def HttpResponse_passBody_def Let_def cong: option.case_cong)
qed

lemma createRedirect_ok:
  assumes "300 < status_code status"
  obtains self where "HttpResponse_createRedirect status location = Some self" "resp_ok self"
    "rs_status self = status" "announces self (rs_bodySize self)"
    "rs_body self = Some (sprintf REDIRECT_FORMAT [statusStr status, cstr (htmlescape location False),
       cstr (htmlescape location False), cstr (htmlescape location False)])"
    "rs_sendPos self = 0" "rs_version self = HTTP_1_1"
    "map h_value (headers_of (rs_headers self) ''Content-Type'') = [MediaType_str MT_HTML]"
    "headers_of (rs_headers self) ''Location'' = []"
proof -
  define loc where "loc = cstr (htmlescape location False)"
  define html where "html = sprintf REDIRECT_FORMAT [statusStr status, loc, loc, loc]"
  obtain self where c: "HttpResponse_create status MT_HTML = Some self" "resp_ok self"
    "rs_status self = status" "rs_body self = None" "rs_bodySize self = 0" "rs_sendPos self = 0"
    "rs_version self = HTTP_1_1"
    "\<forall>n. map h_value (headers_of (rs_headers self) n) =
       (if strcaseeq n ''Content-Type'' then [MediaType_str MT_HTML] else [])"
    by (rule HttpResponse_create_ok)
  obtain self' where p: "HttpResponse_passBody self html (length html) = Some self'" "resp_ok self'"
    "announces self' (length html)" "rs_body self' = Some html" "rs_bodySize self' = length html"
    "rs_status self' = rs_status self" "rs_version self' = rs_version self" "rs_sendPos self' = 0"
    "\<And>m. \<not> strcaseeq m ''Content-Length'' \<Longrightarrow> headers_of (rs_headers self') m = headers_of (rs_headers self) m"
    by (rule passBody_ok [OF c(2) refl c(6)]) (rule that)
  have n: "\<not> strcaseeq ''Content-Type'' ''Content-Length''" "strcaseeq ''Content-Type'' ''Content-Type''"
    "\<not> strcaseeq ''Location'' ''Content-Length''" "\<not> strcaseeq ''Location'' ''Content-Type''"
    by code_simp+
  then have "map h_value (headers_of (rs_headers self') ''Content-Type'') = [MediaType_str MT_HTML]"
    using p(9) c(8) by simp
  moreover have "headers_of (rs_headers self') ''Location'' = []"
    using p(9) [OF n(3)] c(8) n(4) by (metis map_is_Nil_conv)
  ultimately show thesis
    using that [of self'] p c assms
    by (simp add: createRedirect_passBody html_def [symmetric] loc_def [symmetric] Let_def)
qed

section \<open>What is sent\<close>

definition header_line :: "header \<Rightarrow> string" where
  "header_line h = h_name h @ '': '' @ h_value h @ [CR, LF]"

definition header_bytes :: "header list \<Rightarrow> nat" where
  "header_bytes hs = sum_list (map (length \<circ> header_line) hs)"

definition response_head :: "httpversion \<Rightarrow> httpstatus \<Rightarrow> header list \<Rightarrow> string" where
  "response_head v st hs =
     versionStr v @ '' '' @ statusStr st @ [CR, LF] @ concat (map header_line hs) @ [CR, LF]"

lemma sum_Header_size:
  "list_all header_ok hs \<Longrightarrow> sum_list (map Header_size hs) = of_nat (header_bytes hs)"
proof (induction hs)
  case (Cons h hs)
  have "Header_size h = of_nat (length (header_line h))"
    using Cons.prems Header_size_ok [of h] by (simp add: header_line_def word_unat_eq_iff header_ok_def
        UINT16_MAX_def unat_of_nat Header_size_def unat_word_ariths)
  with Cons show ?case by (simp add: header_bytes_def)
qed (simp add: header_bytes_def)

lemma concat_writeTo: "list_all header_ok hs \<Longrightarrow> map (fst \<circ> Header_writeTo) hs = map header_line hs"
  by (induction hs) (simp_all add: Header_writeTo_ok header_line_def)

lemma length_response_head:
  "length (response_head v st hs) = header_bytes hs + length (statusStr st) + 13"
  by (simp add: response_head_def header_bytes_def length_concat comp_def)

text \<open>The bytes handed to the connection while it reports each of them sent.\<close>

function send_body_chunks :: "httpresponse \<Rightarrow> string list" where
  "send_body_chunks self =
     (case sendBody self of (None, self') \<Rightarrow> [] | (Some c, self') \<Rightarrow> c # send_body_chunks self')"
  by pat_completeness auto
termination
  by (relation "measure (\<lambda>self. rs_bodySize self - rs_sendPos self)")
    (auto simp: sendBody_def Let_def UINT16_MAX_def split: if_splits)

declare send_body_chunks.simps [simp del]

lemma send_body_chunks_spec:
  "length (body_bytes self) = rs_bodySize self \<Longrightarrow>
    concat (send_body_chunks self) = drop (rs_sendPos self) (body_bytes self)
    \<and> (\<forall>c \<in> set (send_body_chunks self). 0 < length c \<and> length c \<le> UINT16_MAX)"
proof (induction self rule: send_body_chunks.induct)
  case (1 self)
  let ?rem = "rs_bodySize self - rs_sendPos self"
  show ?case
  proof (cases "?rem = 0")
    case True
    then have "sendBody self = (None, self)" by (simp add: sendBody_def)
    then show ?thesis using 1(2) True by (simp add: send_body_chunks.simps [of self])
  next
    case False
    define n where "n = min ?rem UINT16_MAX"
    let ?self = "self\<lparr>rs_sendPos := rs_sendPos self + n\<rparr>"
    let ?c = "take n (drop (rs_sendPos self) (body_bytes self))"
    have s: "sendBody self = (Some ?c, ?self)"
      using False by (simp add: sendBody_def Let_def n_def body_bytes_def min_def)
    have IH: "concat (send_body_chunks ?self) = drop (rs_sendPos self + n) (body_bytes self)"
      "\<forall>c \<in> set (send_body_chunks ?self). 0 < length c \<and> length c \<le> UINT16_MAX"
      using 1(1) [OF s [symmetric] refl] 1(2) by (simp_all add: body_bytes_def)
    have "0 < length ?c" "length ?c \<le> UINT16_MAX"
      using False 1(2) by (simp_all add: n_def UINT16_MAX_def)
    moreover have "?c @ drop (rs_sendPos self + n) (body_bytes self) = drop (rs_sendPos self) (body_bytes self)"
      by (metis add.commute append_take_drop_id drop_drop)
    ultimately show ?thesis using s IH by (simp add: send_body_chunks.simps [of self])
  qed
qed

definition CACHE_CONTROL :: string where
  "CACHE_CONTROL = ''no-cache, no-store, must-revalidate''"

text \<open>The response as it is when its head is written.\<close>

lemma send_prepared:
  assumes "resp_ok self"
  obtains self1 where "resp_ok self1" "rs_status self1 = rs_status (send_status self)"
    "rs_version self1 = rs_version self" "body_bytes self1 = body_bytes self"
    "rs_bodySize self1 = rs_bodySize self" "concat (hs_buckets (rs_headers self1)) \<noteq> []"
    "\<And>n. map h_value (headers_of (rs_headers self1) n) =
       (if strcaseeq n ''Cache-Control'' \<and> headers_of (rs_headers self) n = [] then [CACHE_CONTROL]
        else map h_value (headers_of (rs_headers self) n))"
    "(if HeaderSet_first (rs_headers (send_status self)) ''Cache-Control'' = None
      then add_header ''Cache-Control'' ''no-cache, no-store, must-revalidate'' (send_status self)
      else Some (send_status self)) = Some self1"
proof -
  let ?s = "send_status self"
  have keep: "rs_headers ?s = rs_headers self" "rs_body ?s = rs_body self" "rs_bodySize ?s = rs_bodySize self"
    "rs_sendPos ?s = rs_sendPos self" "rs_version ?s = rs_version self"
    by (auto simp: send_status_def split: httpstatus.splits)
  then have ok: "resp_ok ?s" and inv: "hs_ok (rs_headers self)"
    using assms by (auto simp: resp_ok_def body_bytes_def)
  have cong: "headers_of (rs_headers self) n = headers_of (rs_headers self) ''Cache-Control''"
    if "strcaseeq n ''Cache-Control''" for n
    using that by (simp add: headers_of_def lowerstr_eq_iff [symmetric])
  have nonempty: "concat (hs_buckets hs) \<noteq> []" if "headers_of hs n \<noteq> []" "hs_ok hs" for hs n
    using that headers_of_concat [of hs n] by (metis filter.simps(1) list.map(1))
  show thesis
  proof (cases "headers_of (rs_headers self) ''Cache-Control'' = []")
    case True
    have len: "length ''Cache-Control'' + length ''no-cache, no-store, must-revalidate'' + 4 \<le> UINT16_MAX"
      by (simp add: UINT16_MAX_def)
    obtain h where h: "add_header ''Cache-Control'' ''no-cache, no-store, must-revalidate'' ?s =
        Some (?s\<lparr>rs_headers := HeaderSet_add (rs_headers ?s) h\<rparr>)"
      "h_name h = ''Cache-Control''" "h_value h = ''no-cache, no-store, must-revalidate''" "header_ok h"
      "resp_ok (?s\<lparr>rs_headers := HeaderSet_add (rs_headers ?s) h\<rparr>)"
      by (rule add_header_Some [OF ok len])
    let ?hs = "HeaderSet_add (rs_headers self) h"
    have look: "map h_value (headers_of ?hs n) =
       (if strcaseeq n ''Cache-Control'' \<and> headers_of (rs_headers self) n = [] then [CACHE_CONTROL]
        else map h_value (headers_of (rs_headers self) n))" for n
      using True cong [of n] h(2,3) inv by (auto simp: hs.look_add CACHE_CONTROL_def)
    have "headers_of ?hs ''Cache-Control'' \<noteq> []"
      using h(2) inv by (simp add: hs.look_add strcaseeq_def)
    then have "concat (hs_buckets ?hs) \<noteq> []" using nonempty hs.inv_add [OF inv] by blast
    moreover have "HeaderSet_first (rs_headers ?s) ''Cache-Control'' = None"
      using True by (simp add: keep HeaderSet_first_spec)
    ultimately show thesis
      using that [of "?s\<lparr>rs_headers := ?hs\<rparr>"] h(1,5) look
      by (simp add: keep body_bytes_def)
  next
    case False
    then have "HeaderSet_first (rs_headers ?s) ''Cache-Control'' \<noteq> None"
      by (simp add: keep HeaderSet_first_spec split: list.splits)
    then show thesis
      using that [of ?s] ok nonempty [OF False inv] cong False by (auto simp: keep body_bytes_def)
  qed
qed

section \<open>Properties\<close>

text \<open>
  C5: the head of a response on the wire. Sending a well-formed response writes the status line,
  the line of every header, those of one name in order, and the empty line; a response without
  \<open>Cache-Control\<close> gets one that forbids caching. The buffer allocated for it, whose size is
  computed with 16 bits, is exactly filled as long as the header lines take less than 65536
  bytes; beyond, it is 65536 bytes too small each time they wrap.
\<close>

theorem response_head_sent:
  assumes "resp_ok self"
  shows "\<exists>self' hs alloc.
      HttpResponse_send self = Some (self', response_head (rs_version self) (rs_status self') hs, alloc)
    \<and> rs_status self' = rs_status (send_status self)
    \<and> length (response_head (rs_version self) (rs_status self') hs) = alloc + 65536 * (header_bytes hs div 65536)
    \<and> (\<forall>n. filter (\<lambda>h. strcaseeq n (h_name h)) hs = headers_of (rs_headers self') n)
    \<and> (\<forall>n. map h_value (headers_of (rs_headers self') n) =
         (if strcaseeq n ''Cache-Control'' \<and> headers_of (rs_headers self) n = [] then [CACHE_CONTROL]
          else map h_value (headers_of (rs_headers self) n)))"
proof -
  obtain self1 where s1: "resp_ok self1" "rs_status self1 = rs_status (send_status self)"
    "rs_version self1 = rs_version self" "body_bytes self1 = body_bytes self"
    "rs_bodySize self1 = rs_bodySize self" "concat (hs_buckets (rs_headers self1)) \<noteq> []"
    and look: "\<And>n. map h_value (headers_of (rs_headers self1) n) =
       (if strcaseeq n ''Cache-Control'' \<and> headers_of (rs_headers self) n = [] then [CACHE_CONTROL]
        else map h_value (headers_of (rs_headers self) n))"
    and prep: "(if HeaderSet_first (rs_headers (send_status self)) ''Cache-Control'' = None
      then add_header ''Cache-Control'' ''no-cache, no-store, must-revalidate'' (send_status self)
      else Some (send_status self)) = Some self1"
    by (rule send_prepared [OF assms]) (rule that)
  let ?bs = "hs_buckets (rs_headers self1)"
  define hs where "hs = map hse_header (concat ?bs)"
  have inv: "hs_ok (rs_headers self1)" and every: "list_all header_ok hs"
    using s1(1) hs_every_concat by (auto simp: resp_ok_def hs_def)
  have visit: "hs_visit (length (concat ?bs) + 1) (rs_headers self1) HeaderSet_all = Some hs"
    using visit_all [of "rs_headers self1" "length (concat ?bs) + 1"] s1(6) inv by (simp add: hs_ok_def hs_def)
  have "hs_size (rs_headers self1) = sum_list (map Header_size hs)"
    using inv by (simp add: hs_ok_def hs_sum_def hs_def)
  then have size: "unat (HeaderSet_size (rs_headers self1)) = header_bytes hs mod 65536"
    using sum_Header_size [OF every] by (simp add: HeaderSet_size_def unat_of_nat)
  let ?head = "response_head (rs_version self) (rs_status self1) hs"
  let ?alloc = "header_bytes hs mod 65536 + length (statusStr (rs_status self1)) + 13"
  have "HttpResponse_send self = Some (self1\<lparr>rs_sendPos := 0\<rparr>, ?head, ?alloc)"
    using prep visit size concat_writeTo [OF every] s1(3)
    by (simp add: HttpResponse_send_def Let_def response_head_def del: hs_visit.simps map_eq_conv)
  moreover have "length ?head = ?alloc + 65536 * (header_bytes hs div 65536)"
    by (simp add: length_response_head)
  moreover have "filter (\<lambda>h. strcaseeq n (h_name h)) hs = headers_of (rs_headers self1) n" for n
    unfolding hs_def by (rule headers_of_concat [OF inv])
  ultimately show ?thesis
    using look s1(2) by (intro exI [of _ "self1\<lparr>rs_sendPos := 0\<rparr>"] exI [of _ hs] exI [of _ ?alloc]) simp
qed

text \<open>
  C6: the body on the wire. Once the head is out, the pieces \<open>sendBody\<close> hands to the connection
  are at most 65535 bytes each, none is empty, and together they are the body; then it ends.
\<close>

theorem response_body_sent:
  assumes "resp_ok self"
  shows "\<exists>self' head alloc. HttpResponse_send self = Some (self', head, alloc)
    \<and> concat (send_body_chunks self') = body_bytes self
    \<and> (\<forall>c. c \<in> set (send_body_chunks self') \<longrightarrow> 0 < length c \<and> length c \<le> UINT16_MAX)"
proof -
  obtain self1 where s1: "resp_ok self1" "body_bytes self1 = body_bytes self"
    "concat (hs_buckets (rs_headers self1)) \<noteq> []"
    and prep: "(if HeaderSet_first (rs_headers (send_status self)) ''Cache-Control'' = None
      then add_header ''Cache-Control'' ''no-cache, no-store, must-revalidate'' (send_status self)
      else Some (send_status self)) = Some self1"
    by (rule send_prepared [OF assms]) (rule that)
  let ?bs = "hs_buckets (rs_headers self1)"
  have "hs_visit (length (concat ?bs) + 1) (rs_headers self1) HeaderSet_all = Some (map hse_header (concat ?bs))"
    using visit_all [of "rs_headers self1" "length (concat ?bs) + 1"] s1(1,3) by (simp add: hs_ok_def resp_ok_def)
  then obtain head alloc where send: "HttpResponse_send self = Some (self1\<lparr>rs_sendPos := 0\<rparr>, head, alloc)"
    using prep by (simp add: HttpResponse_send_def Let_def del: hs_visit.simps)
  have "length (body_bytes (self1\<lparr>rs_sendPos := 0\<rparr>)) = rs_bodySize (self1\<lparr>rs_sendPos := 0\<rparr>)"
    using s1(1) by (simp add: resp_ok_def body_bytes_def)
  from send_body_chunks_spec [OF this] have
    "concat (send_body_chunks (self1\<lparr>rs_sendPos := 0\<rparr>)) = body_bytes self"
    "\<forall>c. c \<in> set (send_body_chunks (self1\<lparr>rs_sendPos := 0\<rparr>)) \<longrightarrow> 0 < length c \<and> length c \<le> UINT16_MAX"
    using s1(2) by (simp_all add: body_bytes_def)
  then show ?thesis using send by blast
qed

text \<open>
  Error pages and redirects. Both are well-formed responses whose page fits the buffer computed
  for it and whose single \<open>Content-Length\<close> is its length in decimal, which \<open>strtoll\<close> reads back; but
  a redirect has no \<open>Location\<close> header.
\<close>

theorem error_and_redirect_pages:
  assumes "300 < status_code status"
  shows "\<exists>e r page. HttpResponse_createError st msg = Some e \<and> resp_ok e \<and> rs_status e = st
    \<and> announces e (rs_bodySize e)
    \<and> rs_body e = Some (sprintf ERROR_FORMAT [statusStr st, statusStr st,
         case msg of None \<Rightarrow> statusMsg st | Some m \<Rightarrow> m])
    \<and> HttpResponse_createRedirect status loc = Some r \<and> resp_ok r \<and> rs_status r = status
    \<and> announces r (rs_bodySize r)
    \<and> page = cstr (htmlescape loc False)
    \<and> rs_body r = Some (sprintf REDIRECT_FORMAT [statusStr status, page, page, page])
    \<and> headers_of (rs_headers r) ''Location'' = []
    \<and> (rs_bodySize r < 2 ^ 63 \<longrightarrow> strtoll (sizeStr (rs_bodySize r)) = (int (rs_bodySize r), []))"
proof -
  obtain e where e: "HttpResponse_createError st msg = Some e" "resp_ok e"
    "rs_status e = st" "announces e (rs_bodySize e)"
    "rs_body e = Some (sprintf ERROR_FORMAT [statusStr st, statusStr st,
       case msg of None \<Rightarrow> statusMsg st | Some m \<Rightarrow> m])"
    by (rule createError_ok) (rule that)
  obtain r where r: "HttpResponse_createRedirect status loc = Some r" "resp_ok r"
    "rs_status r = status" "announces r (rs_bodySize r)"
    "rs_body r = Some (sprintf REDIRECT_FORMAT [statusStr status, cstr (htmlescape loc False),
       cstr (htmlescape loc False), cstr (htmlescape loc False)])"
    "headers_of (rs_headers r) ''Location'' = []"
    by (rule createRedirect_ok [OF assms]) (rule that)
  have "strtoll (sizeStr n) = (int n, [])" if "n < 2 ^ 63" for n
    using strtoll_dec [of n "[]"] sizeStr_eq [of n] that by (simp add: first_char_def)
  then show ?thesis using e r by blast
qed

text \<open>A concrete response to send, and a concrete redirect.\<close>

definition ex_response :: httpresponse where
  "ex_response = \<lparr>rs_bodySize = 5, rs_sendPos = 0, rs_headers = HeaderSet_create, rs_body = Some ''hello'',
     rs_status = HTTP_SEEOTHER, rs_version = HTTP_1_1, rs_deleteScheduled = 0\<rparr>"

lemma ex_response_ok: "resp_ok ex_response"
  by (simp add: ex_response_def resp_ok_def body_bytes_def hs.inv_empty hs.every_empty)

theorem response_head_sent_witness:
  "\<exists>self' hs alloc.
      HttpResponse_send ex_response = Some (self', response_head HTTP_1_1 HTTP_SEEOTHER hs, alloc)
    \<and> map h_value (headers_of (rs_headers self') ''cache-control'') = [CACHE_CONTROL]"
proof -
  have "strcaseeq ''cache-control'' ''Cache-Control''" by code_simp
  then show ?thesis
    using response_head_sent [OF ex_response_ok]
    by (auto simp: ex_response_def send_status_def hs.look_empty)
qed

theorem response_body_sent_witness:
  "\<exists>self' head alloc. HttpResponse_send ex_response = Some (self', head, alloc)
    \<and> concat (send_body_chunks self') = ''hello''"
  using response_body_sent [OF ex_response_ok] by (auto simp: ex_response_def body_bytes_def)

theorem error_and_redirect_pages_witness:
  "\<exists>r. HttpResponse_createRedirect HTTP_SEEOTHER ''/login?a=1&b=2'' = Some r \<and> resp_ok r
    \<and> headers_of (rs_headers r) ''Location'' = []"
  using error_and_redirect_pages [of HTTP_SEEOTHER HTTP_OK None "''/login?a=1&b=2''"] by auto

end
