(* ===== verification/Http_Context.thy ===== *)
theory Http_Context
  imports Chain_Table Http_Request Http_Response
begin

text \<open>
  \<open>http/httpcontext.c\<close>: what the handlers of one request share. A context holds the request, the
  response once there is one, properties by which middlewares attach their objects, and the
  position in the pipeline of middlewares. The objects are of type \<open>'o\<close>; a deleter (\<open>'d\<close>) is a name
  for the function, and calling it is recorded in the ghost field \<open>cx_deleted\<close>. The same goes for
  the responses a context destroys, \<open>cx_destroyed\<close>.

  A handler changes a world \<open>'w\<close> (the state of the modules) and the context. A middleware is a
  handler that may call \<open>HttpContext_callNext\<close>, so it gets that call as an argument. A result
  \<^term>\<open>None\<close> is a null pointer that is followed, or a call that does not return.
\<close>

section \<open>Data\<close>

definition CPHT_BITS :: nat where
  "CPHT_BITS = 6"

record ('o, 'd) ctxprop =
  cp_key :: string
  cp_obj :: "'o option"
  cp_deleter :: "'d option"

record ('o, 'd) httpcontext =
  cx_buckets :: "('o, 'd) ctxprop list list"
  cx_request :: httprequest
  cx_response :: "httpresponse option"
  cx_conn :: bool
  cx_remoteAddr :: string
  cx_remoteHost :: "string option"
  cx_pipelinePos :: nat
  cx_reuse :: bool
  cx_deleted :: "('d \<times> 'o option) list"
  cx_destroyed :: "httpresponse list"

type_synonym ('w, 'o, 'd) handler =
  "'w \<times> ('o, 'd) httpcontext \<Rightarrow> ('w \<times> ('o, 'd) httpcontext) option"

type_synonym ('w, 'o, 'd) middleware = "('w, 'o, 'd) handler \<Rightarrow> ('w, 'o, 'd) handler"

section \<open>Creation and the connection's events\<close>

text \<open>\<open>conn\<close> is the address and, if it is known already, the name of the remote end.\<close>

definition HttpContext_create ::
  "httprequest \<Rightarrow> (string \<times> string option) option \<Rightarrow> ('o, 'd) httpcontext" where
  "HttpContext_create request conn =
     \<lparr>cx_buckets = ct_empty CPHT_BITS, cx_request = request, cx_response = None,
      cx_conn = (conn \<noteq> None),
      cx_remoteAddr = (case conn of None \<Rightarrow> [] | Some (addr, host) \<Rightarrow> addr),
      cx_remoteHost = (case conn of None \<Rightarrow> None | Some (addr, host) \<Rightarrow> host),
      cx_pipelinePos = 0, cx_reuse = False, cx_deleted = [], cx_destroyed = []\<rparr>"

definition nameResolved :: "('o, 'd) httpcontext \<Rightarrow> string option \<Rightarrow> ('o, 'd) httpcontext" where
  "nameResolved self host = self\<lparr>cx_remoteHost := host\<rparr>"

definition connectionClosed :: "('o, 'd) httpcontext \<Rightarrow> ('o, 'd) httpcontext" where
  "connectionClosed self = self\<lparr>cx_conn := False\<rparr>"

section \<open>Properties of a context\<close>

definition ctx_findProp :: "('o, 'd) httpcontext \<Rightarrow> string \<Rightarrow> ('o, 'd) ctxprop option" where
  "ctx_findProp self key = ct_find CPHT_BITS cp_key (cx_buckets self) key"

definition HttpContext_get :: "('o, 'd) httpcontext \<Rightarrow> string \<Rightarrow> 'o option" where
  "HttpContext_get self key = (case ctx_findProp self key of None \<Rightarrow> None | Some prop \<Rightarrow> cp_obj prop)"

text \<open>Calling the deleter of an entry, if it has one.\<close>

definition ctx_delete :: "('o, 'd) ctxprop \<Rightarrow> ('d \<times> 'o option) list" where
  "ctx_delete prop = (case cp_deleter prop of None \<Rightarrow> [] | Some d \<Rightarrow> [(d, cp_obj prop)])"

definition HttpContext_set ::
  "('o, 'd) httpcontext \<Rightarrow> string \<Rightarrow> 'o option \<Rightarrow> 'd option \<Rightarrow> ('o, 'd) httpcontext" where
  "HttpContext_set self key obj deleter =
     (let old = (case ctx_findProp self key of None \<Rightarrow> [] | Some prop \<Rightarrow> ctx_delete prop)
      in self\<lparr>cx_buckets := ct_store CPHT_BITS cp_key (cx_buckets self)
                  \<lparr>cp_key = key, cp_obj = obj, cp_deleter = deleter\<rparr>,
              cx_deleted := cx_deleted self @ old\<rparr>)"

text \<open>What \<open>HttpContext_destroy\<close> calls, bucket after bucket; the context is gone afterwards.\<close>

definition HttpContext_destroy :: "('o, 'd) httpcontext \<Rightarrow> ('d \<times> 'o option) list" where
  "HttpContext_destroy self = cx_deleted self @ concat (map ctx_delete (concat (cx_buckets self)))"

section \<open>The response\<close>

definition HttpContext_setResponse ::
  "('o, 'd) httpcontext \<Rightarrow> httpresponse option \<Rightarrow> ('o, 'd) httpcontext option" where
  "HttpContext_setResponse self response =
     (case response of
        None \<Rightarrow> None
      | Some response \<Rightarrow>
          (let destroyed = cx_destroyed self @ (case cx_response self of None \<Rightarrow> [] | Some r \<Rightarrow> [r]);
               version = rq_version (cx_request self);
               response = HttpResponse_setVersion response version;
               connection = HeaderSet_first (rq_headers (cx_request self)) ''Connection'';
               reuse =
                 (if rs_bodySize response = 0 then False
                  else (case version of
                      HTTP_1_0 \<Rightarrow> (case connection of None \<Rightarrow> False | Some h \<Rightarrow> h_value h = ''keep-alive'')
                    | HTTP_1_1 \<Rightarrow> \<not> (case connection of None \<Rightarrow> False | Some h \<Rightarrow> h_value h = ''close'')))
           in Some (self\<lparr>cx_response := Some response, cx_destroyed := destroyed, cx_reuse := reuse\<rparr>)))"

section \<open>The pipeline\<close>

text \<open>
  \<open>HttpContext_callNext\<close> takes the middleware at the position, or the handler behind the last one,
  and moves the position on before it is called. The first argument bounds the depth of the calls.
\<close>

fun HttpContext_callNext ::
  "nat \<Rightarrow> (nat \<Rightarrow> ('w, 'o, 'd) middleware option) \<Rightarrow> ('w, 'o, 'd) handler option \<Rightarrow> ('w, 'o, 'd) handler"
where
  "HttpContext_callNext 0 locator hdl = (\<lambda>(w, self). None)"
| "HttpContext_callNext (Suc depth) locator hdl = (\<lambda>(w, self).
     (let pos = cx_pipelinePos self;
          self = self\<lparr>cx_pipelinePos := pos + 1\<rparr>
      in case locator pos of
           Some mw \<Rightarrow> mw (HttpContext_callNext depth locator hdl) (w, self)
         | None \<Rightarrow> (case hdl of None \<Rightarrow> None | Some h \<Rightarrow> h (w, self))))"

section \<open>Lemmas\<close>

definition ctx_ok :: "('o, 'd) httpcontext \<Rightarrow> bool" where
  "ctx_ok self \<longleftrightarrow> ct_ok CPHT_BITS cp_key (cx_buckets self)"

lemma ctx_ok_create [simp]: "ctx_ok (HttpContext_create req conn)"
  by (simp add: ctx_ok_def HttpContext_create_def ct_empty_ok)

lemma ctx_ok_set [simp]: "ctx_ok self \<Longrightarrow> ctx_ok (HttpContext_set self key obj d)"
  by (simp add: ctx_ok_def HttpContext_set_def Let_def ct_store_ok)

lemma ctx_get_create [simp]: "HttpContext_get (HttpContext_create req conn) k = None"
  by (simp add: HttpContext_get_def ctx_findProp_def HttpContext_create_def ct_empty_ok)

lemma ctx_get_set:
  "ctx_ok self \<Longrightarrow> HttpContext_get (HttpContext_set self key obj d) k =
    (if k = key then obj else HttpContext_get self k)"
  by (simp add: HttpContext_get_def ctx_findProp_def HttpContext_set_def Let_def ctx_ok_def ct_find_store)

lemma ctx_set_fields [simp]:
  "cx_request (HttpContext_set self key obj d) = cx_request self"
  "cx_response (HttpContext_set self key obj d) = cx_response self"
  "cx_conn (HttpContext_set self key obj d) = cx_conn self"
  "cx_remoteAddr (HttpContext_set self key obj d) = cx_remoteAddr self"
  "cx_remoteHost (HttpContext_set self key obj d) = cx_remoteHost self"
  "cx_pipelinePos (HttpContext_set self key obj d) = cx_pipelinePos self"
  "cx_reuse (HttpContext_set self key obj d) = cx_reuse self"
  "cx_destroyed (HttpContext_set self key obj d) = cx_destroyed self"
  by (simp_all add: HttpContext_set_def Let_def)

text \<open>A field that is no property leaves the properties alone.\<close>

lemma ctx_get_update [simp]:
  "HttpContext_get (self\<lparr>cx_pipelinePos := p\<rparr>) k = HttpContext_get self k"
  "HttpContext_get (self\<lparr>cx_response := r, cx_destroyed := ds, cx_reuse := b\<rparr>) k = HttpContext_get self k"
  "ctx_ok (self\<lparr>cx_pipelinePos := p\<rparr>) = ctx_ok self"
  "ctx_ok (self\<lparr>cx_response := r, cx_destroyed := ds, cx_reuse := b\<rparr>) = ctx_ok self"
  by (simp_all add: HttpContext_get_def ctx_findProp_def ctx_ok_def)

lemma setResponse_upd:
  "HttpContext_setResponse self r = Some self' \<Longrightarrow> self' =
    self\<lparr>cx_response := cx_response self', cx_destroyed := cx_destroyed self', cx_reuse := cx_reuse self'\<rparr>"
  by (cases r) (auto simp: HttpContext_setResponse_def Let_def)

lemma ctx_setResponse_keeps:
  assumes "HttpContext_setResponse self r = Some self'"
  shows "ctx_ok self' = ctx_ok self" "HttpContext_get self' k = HttpContext_get self k"
    "cx_request self' = cx_request self" "cx_pipelinePos self' = cx_pipelinePos self"
    "cx_conn self' = cx_conn self" "cx_remoteAddr self' = cx_remoteAddr self"
    "cx_remoteHost self' = cx_remoteHost self" "cx_deleted self' = cx_deleted self"
    "cx_buckets self' = cx_buckets self"
  by (subst setResponse_upd [OF assms], simp)+

definition ctx_owned :: "('o, 'd) ctxprop \<Rightarrow> ('d \<times> 'o option) multiset" where
  "ctx_owned prop = mset (ctx_delete prop)"

interpretation ctx: owning_table "ct_empty CPHT_BITS" "ct_find CPHT_BITS cp_key"
  "ct_store CPHT_BITS cp_key" cp_key concat "ct_ok CPHT_BITS cp_key" ctx_owned
  by unfold_locales (simp_all add: ct_empty_ok ct_store_ok ct_find_store mset_ct_store)

definition ctx_set_all :: "('o, 'd) httpcontext \<Rightarrow> (string \<times> 'o option \<times> 'd option) list \<Rightarrow> ('o, 'd) httpcontext" where
  "ctx_set_all self sets = foldl (\<lambda>cx (k, obj, d). HttpContext_set cx k obj d) self sets"

lemma ctx_set_all_run:
  "(cx_buckets (ctx_set_all self sets), mset (cx_deleted (ctx_set_all self sets))) =
    ctx.run (cx_buckets self) (mset (cx_deleted self))
      (map (\<lambda>(k, obj, d). \<lparr>cp_key = k, cp_obj = obj, cp_deleter = d\<rparr>) sets)"
proof (induction sets arbitrary: self)
  case Nil
  then show ?case by (simp add: ctx_set_all_def)
next
  case (Cons s sets)
  obtain k obj d where s: "s = (k, obj, d)" by (cases s)
  have del: "mset (cx_deleted (HttpContext_set self k obj d)) =
      mset (cx_deleted self) + ctx.released (cx_buckets self) k"
    by (auto simp: HttpContext_set_def Let_def ctx.released_def ctx_findProp_def ctx_owned_def split: option.splits)
  have buc: "cx_buckets (HttpContext_set self k obj d) =
      ct_store CPHT_BITS cp_key (cx_buckets self) \<lparr>cp_key = k, cp_obj = obj, cp_deleter = d\<rparr>"
    by (simp add: HttpContext_set_def Let_def)
  show ?case
    using Cons.IH [of "HttpContext_set self k obj d"] by (simp add: ctx_set_all_def s del buc)
qed

lemma holds_delete:
  fixes tab :: "('o, 'd) ctxprop list list"
  shows "ctx.holds tab = mset (concat (map ctx_delete (concat tab)))"
proof -
  have "\<Sum>\<^sub># (image_mset ctx_owned (mset es)) = mset (concat (map ctx_delete es))" for es :: "('o, 'd) ctxprop list"
    by (induction es) (simp_all add: ctx_owned_def)
  then show ?thesis by (simp add: ctx.holds_def)
qed

section \<open>Property\<close>

text \<open>
  C7: a context deletes what it is given. Whatever properties are set on a fresh context, under
  whatever keys and however often, \<open>get\<close> finds the object set last under its key, and when the
  context is destroyed the deleter of every object that was set with one has been called for it
  exactly once, no matter whether it was replaced or still there.
\<close>

theorem context_deletes_once:
  fixes sets :: "(string \<times> 'o option \<times> 'd option) list" and req :: httprequest
    and conn :: "(string \<times> string option) option"
  defines "cx \<equiv> ctx_set_all (HttpContext_create req conn) sets"
  shows "mset (HttpContext_destroy cx) = mset (concat (map (\<lambda>(k, obj, d). case d of None \<Rightarrow> [] | Some d \<Rightarrow> [(d, obj)]) sets))
    \<and> HttpContext_get cx key =
        (case filter (\<lambda>(k, obj, d). k = key) sets of [] \<Rightarrow> None | xs \<Rightarrow> fst (snd (last xs)))"
proof -
  let ?es = "map (\<lambda>(k, obj, d). \<lparr>cp_key = k, cp_obj = obj, cp_deleter = d\<rparr>) sets"
  have run: "(cx_buckets cx, mset (cx_deleted cx)) = ctx.run (ct_empty CPHT_BITS) {#} ?es"
    using ctx_set_all_run [of "HttpContext_create req conn" sets]
    by (simp add: cx_def HttpContext_create_def)
  have "mset (cx_deleted cx) + ctx.holds (cx_buckets cx) = \<Sum>\<^sub># (image_mset ctx_owned (mset ?es))"
    using ctx.run_conserves [OF ctx.inv_empty, of "{#}" ?es] by (simp flip: run)
  moreover have "\<Sum>\<^sub># (image_mset ctx_owned (mset ?es)) =
      mset (concat (map (\<lambda>(k, obj, d). case d of None \<Rightarrow> [] | Some d \<Rightarrow> [(d, obj)]) sets))"
    by (induction sets) (auto simp: ctx_owned_def ctx_delete_def split: option.splits)
  ultimately have "mset (HttpContext_destroy cx) =
      mset (concat (map (\<lambda>(k, obj, d). case d of None \<Rightarrow> [] | Some d \<Rightarrow> [(d, obj)]) sets))"
    by (simp add: HttpContext_destroy_def holds_delete)
  moreover have "HttpContext_get cx key =
        (case filter (\<lambda>(k, obj, d). k = key) sets of [] \<Rightarrow> None | xs \<Rightarrow> fst (snd (last xs)))"
  proof -
    have f: "filter (\<lambda>e. cp_key e = key) ?es =
        map (\<lambda>(k, obj, d). \<lparr>cp_key = k, cp_obj = obj, cp_deleter = d\<rparr>) (filter (\<lambda>(k, obj, d). k = key) sets)"
      by (induction sets) auto
    have "ct_find CPHT_BITS cp_key (cx_buckets cx) key =
        (case filter (\<lambda>e. cp_key e = key) ?es of [] \<Rightarrow> None | xs \<Rightarrow> Some (last xs))"
      using ctx.run_get [OF ctx.inv_empty, of "{#}" ?es key]
      by (simp add: ct_empty_ok flip: run split: list.split)
    moreover have "(case map F xs of [] \<Rightarrow> None | ys \<Rightarrow> Some (last ys)) = (if xs = [] then None else Some (F (last xs)))"
      for F :: "string \<times> 'o option \<times> 'd option \<Rightarrow> ('o, 'd) ctxprop" and xs
      by (cases xs) (simp_all add: last_map)
    ultimately have "ct_find CPHT_BITS cp_key (cx_buckets cx) key =
        (if filter (\<lambda>(k, obj, d). k = key) sets = [] then None
         else Some (case last (filter (\<lambda>(k, obj, d). k = key) sets) of
           (k, obj, d) \<Rightarrow> \<lparr>cp_key = k, cp_obj = obj, cp_deleter = d\<rparr>))"
      unfolding f by simp
    then show ?thesis
      by (auto simp: HttpContext_get_def ctx_findProp_def split: list.split prod.split)
  qed
  ultimately show ?thesis ..
qed

end
