(* ===== verification/Cookies.thy ===== *)
theory Cookies
  imports Psc_Hash Http_Response
begin

text \<open>
  \<open>middleware/cookies.c\<close>, the data: the cookies a request came with and those its response sets, two
  tables of the poser library (a parameter). Here are the parser of the \<open>Cookie\<close> header, the
  access functions and the \<open>Set-Cookie\<close> headers; the middleware that calls them is in
  \<open>Middleware\<close>.
\<close>

section \<open>Data and operations\<close>

record 't cookies =
  ck_in :: "'t option"
  ck_out :: "'t option"

definition Cookies_new :: "'t cookies" where
  "Cookies_new = \<lparr>ck_in = None, ck_out = None\<rparr>"

definition COOKIE_NAME_SIZE :: nat where
  "COOKIE_NAME_SIZE = 2048"

definition Cookies_getCookie :: "('t, string) psc_hash \<Rightarrow> 't cookies \<Rightarrow> string \<Rightarrow> string option" where
  "Cookies_getCookie ops self name =
     (case ck_in self of None \<Rightarrow> None | Some tab \<Rightarrow> ph_get ops tab name)"

definition Cookies_setCookie :: "('t, string) psc_hash \<Rightarrow> 't cookies \<Rightarrow> string \<Rightarrow> string \<Rightarrow> 't cookies" where
  "Cookies_setCookie ops self name val =
     (let out = (case ck_out self of None \<Rightarrow> ph_create ops 5 | Some tab \<Rightarrow> tab)
      in self\<lparr>ck_out := Some (ph_set ops out name val)\<rparr>)"

text \<open>One field of the header, and the loop over them; \<open>cl\<close> is the rest of the header's value.\<close>

definition cookie_field :: "('t, string) psc_hash \<Rightarrow> 't cookies \<Rightarrow> string \<Rightarrow> nat \<Rightarrow> 't cookies" where
  "cookie_field ops self cl dpos =
     (let eqpos = strcspn cl ''=''
      in if eqpos \<noteq> 0 \<and> eqpos < COOKIE_NAME_SIZE \<and> eqpos < dpos
         then
           (let name = take eqpos cl;
                val = take (dpos - eqpos - 1) (drop (eqpos + 1) cl);
                tab = (case ck_in self of None \<Rightarrow> ph_create ops 5 | Some tab \<Rightarrow> tab)
            in self\<lparr>ck_in := Some (ph_set ops tab name val)\<rparr>)
         else self)"

function cookie_loop :: "('t, string) psc_hash \<Rightarrow> 't cookies \<Rightarrow> string \<Rightarrow> 't cookies" where
  "cookie_loop ops self cl =
     (if cl = [] then self
      else
        (let dpos = strcspn cl '';''
         in if dpos = 0 then self
            else
              (let self = cookie_field ops self cl dpos;
                   cl = drop dpos cl
               in cookie_loop ops self
                    (case cl of [] \<Rightarrow> [] | _ # r \<Rightarrow> dropWhile (\<lambda>c. c = CHR '' '') r))))"
  by pat_completeness auto
termination
proof (relation "measure (\<lambda>(ops, self, cl). length cl)")
  fix ops :: "('t, string) psc_hash" and self self' :: "'t cookies" and cl cl' :: string and dpos
  assume "cl \<noteq> []" "dpos = strcspn cl '';''" "dpos \<noteq> 0" "cl' = drop dpos cl"
  then have "length cl' < length cl" by simp
  then have "length (case cl' of [] \<Rightarrow> [] | _ # r \<Rightarrow> dropWhile (\<lambda>c. c = CHR '' '') r) < length cl"
    using length_dropWhile_le [of "\<lambda>c. c = CHR '' ''"]
    by (cases cl') (auto intro: le_less_trans Suc_lessD)
  then show "((ops, self', case cl' of [] \<Rightarrow> [] | _ # r \<Rightarrow> dropWhile (\<lambda>c. c = CHR '' '') r), ops, self, cl)
      \<in> measure (\<lambda>(ops, self, cl). length cl)" by simp
qed simp

declare cookie_loop.simps [simp del]

text \<open>What \<open>MW_Cookies\<close> makes of the request's headers.\<close>

definition cookies_of :: "('t, string) psc_hash \<Rightarrow> headerset \<Rightarrow> 't cookies" where
  "cookies_of ops headers =
     (case HeaderSet_first headers ''Cookie'' of
        None \<Rightarrow> Cookies_new
      | Some cookie \<Rightarrow> cookie_loop ops Cookies_new (dropWhile (\<lambda>c. c = CHR '' '') (h_value cookie)))"

text \<open>
  The loop over the cookies to set. \<open>snprintf\<close> stores at most 1023 characters of the text and
  returns its full length, which is compared with 4096.
\<close>

definition cookie_text :: "string \<Rightarrow> string \<Rightarrow> string" where
  "cookie_text name val = name @ ''='' @ val @ ''; Path=/; HttpOnly''"

fun set_cookies :: "(string \<times> string) list \<Rightarrow> httpresponse \<Rightarrow> httpresponse option" where
  "set_cookies [] response = Some response"
| "set_cookies ((name, val) # items) response =
     (let text = cookie_text name val
      in if length text < 4096
         then (case add_header ''Set-Cookie'' (take 1023 text) response of
                 None \<Rightarrow> None
               | Some response \<Rightarrow> set_cookies items response)
         else set_cookies items response)"

definition cookies_emit :: "('t, string) psc_hash \<Rightarrow> 't cookies \<Rightarrow> httpresponse \<Rightarrow> httpresponse option" where
  "cookies_emit ops self response =
     (case ck_out self of None \<Rightarrow> Some response | Some tab \<Rightarrow> set_cookies (ph_items ops tab) response)"

section \<open>Lemmas\<close>

definition wf_cookie :: "string \<times> string \<Rightarrow> bool" where
  "wf_cookie = (\<lambda>(n, v). n \<noteq> [] \<and> set n \<inter> {CHR ''='', CHR '';''} = {} \<and> hd n \<noteq> CHR '' ''
     \<and> length n < COOKIE_NAME_SIZE \<and> CHR '';'' \<notin> set v)"

fun cookie_header :: "(string \<times> string) list \<Rightarrow> string" where
  "cookie_header [] = []"
| "cookie_header [(n, v)] = n @ ''='' @ v"
| "cookie_header ((n, v) # c # cs) = n @ ''='' @ v @ ''; '' @ cookie_header (c # cs)"

lemma strcspn_append:
  "set a \<inter> set r = {} \<Longrightarrow> strcspn (a @ b) r = (case b of [] \<Rightarrow> length a | c # b' \<Rightarrow>
     if c \<in> set r then length a else length a + strcspn b r)"
  by (induction a) (auto simp: strcspn_def split: list.splits)

definition cookie_in :: "('t, string) psc_hash \<Rightarrow> 't cookies \<Rightarrow> string \<Rightarrow> string \<Rightarrow> 't cookies" where
  "cookie_in ops self n v =
     self\<lparr>ck_in := Some (ph_set ops (case ck_in self of None \<Rightarrow> ph_create ops 5 | Some tab \<Rightarrow> tab) n v)\<rparr>"

lemma cookie_field_wf:
  assumes "wf_cookie (n, v)"
  shows "cookie_field ops self (n @ ''='' @ v @ r) (length (n @ ''='' @ v)) = cookie_in ops self n v"
proof -
  have "strcspn (n @ ''='' @ v @ r) ''='' = length n"
    using assms by (subst strcspn_append) (auto simp: wf_cookie_def)
  then show ?thesis
    using assms by (simp add: cookie_field_def cookie_in_def wf_cookie_def Let_def)
qed

lemma strcspn_field:
  assumes "wf_cookie (n, v)"
  shows "strcspn (n @ ''='' @ v) '';'' = length (n @ ''='' @ v)"
    "strcspn (n @ ''='' @ v @ CHR '';'' # r) '';'' = length (n @ ''='' @ v)"
proof -
  have s: "set (n @ ''='' @ v) \<inter> set '';'' = {}" using assms by (auto simp: wf_cookie_def)
  show "strcspn (n @ ''='' @ v) '';'' = length (n @ ''='' @ v)"
    using strcspn_append [OF s, of "[]"] by simp
  show "strcspn (n @ ''='' @ v @ CHR '';'' # r) '';'' = length (n @ ''='' @ v)"
    using strcspn_append [OF s, of "CHR '';'' # r"] by simp
qed

lemma cookie_loop_header:
  "list_all wf_cookie cs \<Longrightarrow>
    cookie_loop ops self (cookie_header cs) = foldl (\<lambda>s (n, v). cookie_in ops s n v) self cs"
proof (induction cs arbitrary: self rule: cookie_header.induct)
  case 1
  then show ?case by (simp add: cookie_loop.simps)
next
  case (2 n v)
  then have wf: "wf_cookie (n, v)" by simp
  show ?case
    using cookie_field_wf [OF wf, of ops self "[]"] strcspn_field(1) [OF wf]
    by (simp add: cookie_loop.simps [of ops self "n @ _"] cookie_loop.simps [of _ _ "[]"] Let_def)
next
  case (3 n v c cs)
  then have wf: "wf_cookie (n, v)" "wf_cookie c" by simp_all
  obtain m w where c: "c = (m, w)" by fastforce
  let ?h = "cookie_header (c # cs)"
  have "?h \<noteq> [] \<and> hd ?h \<noteq> CHR '' ''"
    using wf(2) by (cases cs; cases m) (auto simp: c wf_cookie_def)
  then have d: "dropWhile (\<lambda>c. c = CHR '' '') (CHR '' '' # ?h) = ?h" by (cases ?h) auto
  have "cookie_loop ops self (n @ ''='' @ v @ CHR '';'' # CHR '' '' # ?h) =
      cookie_loop ops (cookie_in ops self n v) ?h"
    using cookie_field_wf [OF wf(1), of ops self "CHR '';'' # CHR '' '' # ?h"]
      strcspn_field(2) [OF wf(1), of "CHR '' '' # ?h"] d
    by (simp add: cookie_loop.simps [of ops self "n @ _"] Let_def)
  then show ?case using 3 by simp
qed

lemma cookie_in_get:
  assumes "psc_hash_laws ops"
  shows "Cookies_getCookie ops (cookie_in ops s n v) k = (if k = n then Some v else Cookies_getCookie ops s k)"
  using psc_hash_lawsD [OF assms] by (auto simp: cookie_in_def Cookies_getCookie_def split: option.splits)

lemma cookies_in_get:
  assumes "psc_hash_laws ops"
  shows "Cookies_getCookie ops (foldl (\<lambda>s (n, v). cookie_in ops s n v) s cs) k =
    (case map_of (rev cs) k of Some v \<Rightarrow> Some v | None \<Rightarrow> Cookies_getCookie ops s k)"
  by (induction cs arbitrary: s) (auto simp: cookie_in_get [OF assms] map_add_def split: option.splits)

text \<open>The \<open>Set-Cookie\<close> headers.\<close>

definition cookie_values :: "(string \<times> string) list \<Rightarrow> string list" where
  "cookie_values items = map (\<lambda>(n, v). take 1023 (cookie_text n v))
     (filter (\<lambda>(n, v). length (cookie_text n v) < 4096) items)"

lemma set_cookies_ok:
  "resp_ok response \<Longrightarrow> \<exists>r. set_cookies items response = Some r \<and> resp_ok r
    \<and> (\<forall>n. map h_value (headers_of (rs_headers r) n) = map h_value (headers_of (rs_headers response) n)
        @ (if strcaseeq n ''Set-Cookie'' then cookie_values items else []))
    \<and> rs_status r = rs_status response \<and> body_bytes r = body_bytes response
    \<and> rs_bodySize r = rs_bodySize response"
proof (induction items arbitrary: response)
  case Nil
  then show ?case by (simp add: cookie_values_def)
next
  case (Cons item items)
  obtain n v where item: "item = (n, v)" by fastforce
  let ?t = "cookie_text n v"
  show ?case
  proof (cases "length ?t < 4096")
    case True
    have len: "length ''Set-Cookie'' + length (take 1023 ?t) + 4 \<le> UINT16_MAX" by (simp add: UINT16_MAX_def)
    obtain h where h: "add_header ''Set-Cookie'' (take 1023 ?t) response =
        Some (response\<lparr>rs_headers := HeaderSet_add (rs_headers response) h\<rparr>)"
      "h_name h = ''Set-Cookie''" "h_value h = take 1023 ?t" "header_ok h"
      "resp_ok (response\<lparr>rs_headers := HeaderSet_add (rs_headers response) h\<rparr>)"
      by (rule add_header_Some [OF Cons.prems len])
    have inv: "hs_ok (rs_headers response)" using Cons.prems by (simp add: resp_ok_def)
    have vals: "cookie_values (item # items) = take 1023 ?t # cookie_values items"
      using True by (simp add: cookie_values_def item)
    have step: "set_cookies (item # items) response =
        set_cookies items (response\<lparr>rs_headers := HeaderSet_add (rs_headers response) h\<rparr>)"
      using h(1) True by (simp add: item Let_def)
    have look: "map h_value (headers_of (HeaderSet_add (rs_headers response) h) m)
        @ (if strcaseeq m ''Set-Cookie'' then cookie_values items else [])
      = map h_value (headers_of (rs_headers response) m)
        @ (if strcaseeq m ''Set-Cookie'' then cookie_values (item # items) else [])" for m
      using h(2,3) by (simp add: vals hs.look_add [OF inv])
    show ?thesis
      using Cons.IH [OF h(5)] unfolding step by (simp add: look body_bytes_def)
  next
    case False
    then have "set_cookies (item # items) response = set_cookies items response"
      "cookie_values (item # items) = cookie_values items"
      by (simp_all add: item Let_def cookie_values_def)
    then show ?thesis using Cons.IH [OF Cons.prems] by (simp only:)
  qed
qed

section \<open>Properties\<close>

text \<open>
  Parsing the \<open>Cookie\<close> header. Cookies sent in one header, separated as browsers do, are all
  found under their names with their values; of two with the same name it is the last.
\<close>

theorem cookies_roundtrip:
  assumes "psc_hash_laws ops" "list_all wf_cookie cs" "HeaderSet_first headers ''Cookie'' = Some h"
    "h_value h = cookie_header cs"
  shows "Cookies_getCookie ops (cookies_of ops headers) k = map_of (rev cs) k"
proof -
  have "dropWhile (\<lambda>c. c = CHR '' '') (cookie_header cs) = cookie_header cs"
    using assms(2) by (cases cs rule: cookie_header.cases)
      (auto simp: wf_cookie_def dropWhile_eq_self_iff hd_append)
  then show ?thesis
    using cookie_loop_header [OF assms(2), of ops Cookies_new] cookies_in_get [OF assms(1), of Cookies_new cs k]
    by (auto simp: cookies_of_def assms(3,4) Cookies_getCookie_def Cookies_new_def split: option.splits)
qed

definition ex_cookie_headers :: headerset where
  "ex_cookie_headers = HeaderSet_add HeaderSet_create (header_new ''Cookie'' ''a=1; PSW_SID=x=y; a=2'' 6 20)"

theorem cookies_roundtrip_witness:
  "Cookies_getCookie alist_hash (cookies_of alist_hash ex_cookie_headers) ''PSW_SID'' = Some ''x=y''
   \<and> Cookies_getCookie alist_hash (cookies_of alist_hash ex_cookie_headers) ''a'' = Some ''2''"
proof -
  let ?cs = "[(''a'', ''1''), (''PSW_SID'', ''x=y''), (''a'', ''2'')]"
  let ?h = "header_new ''Cookie'' ''a=1; PSW_SID=x=y; a=2'' 6 20"
  have wf: "list_all wf_cookie ?cs" by (simp add: wf_cookie_def COOKIE_NAME_SIZE_def)
  have first: "HeaderSet_first ex_cookie_headers ''Cookie'' = Some ?h"
    by (simp add: HeaderSet_first_spec ex_cookie_headers_def hs.look_add hs.inv_empty hs.look_empty
        strcaseeq_def header_new_def)
  have val: "h_value ?h = cookie_header ?cs" by (simp add: header_new_def)
  show ?thesis
    using cookies_roundtrip [OF alist_hash_laws wf first val, of "''PSW_SID''"]
      cookies_roundtrip [OF alist_hash_laws wf first val, of "''a''"] by simp
qed

text \<open>
  Setting cookies. Every cookie that was set becomes one \<open>Set-Cookie\<close> header in the response, but
  its text is cut off behind 1023 characters, and it is left out from 4096 characters on; the rest of
  the response is as it was.
\<close>

theorem cookies_emitted:
  assumes "resp_ok response" "ck_out self = Some tab"
  shows "\<exists>response'. cookies_emit ops self response = Some response' \<and> resp_ok response'
    \<and> rs_status response' = rs_status response \<and> body_bytes response' = body_bytes response
    \<and> (\<forall>n. map h_value (headers_of (rs_headers response') n) = map h_value (headers_of (rs_headers response) n)
        @ (if strcaseeq n ''Set-Cookie'' then cookie_values (ph_items ops tab) else []))"
  using set_cookies_ok [OF assms(1), of "ph_items ops tab"] assms(2) by (auto simp: cookies_emit_def)

theorem cookies_emitted_witness:
  "\<exists>r. cookies_emit alist_hash (Cookies_setCookie alist_hash Cookies_new ''PSW_SID'' ''abc'')
      \<lparr>rs_bodySize = 0, rs_sendPos = 0, rs_headers = HeaderSet_create, rs_body = None, rs_status = HTTP_OK,
       rs_version = HTTP_1_1, rs_deleteScheduled = 0\<rparr> = Some r
    \<and> map h_value (headers_of (rs_headers r) ''Set-Cookie'') = [''PSW_SID=abc; Path=/; HttpOnly'']"
proof -
  let ?r = "\<lparr>rs_bodySize = 0, rs_sendPos = 0, rs_headers = HeaderSet_create, rs_body = None,
    rs_status = HTTP_OK, rs_version = HTTP_1_1, rs_deleteScheduled = 0\<rparr>"
  let ?c = "Cookies_setCookie alist_hash Cookies_new ''PSW_SID'' ''abc''"
  have "resp_ok ?r" by (simp add: resp_ok_def body_bytes_def hs.inv_empty hs.every_empty)
  moreover have "ck_out ?c = Some [(''PSW_SID'', ''abc'')]"
    by (simp add: Cookies_setCookie_def Cookies_new_def alist_hash_def)
  ultimately show ?thesis
    using cookies_emitted [of ?r ?c "[(''PSW_SID'', ''abc'')]" alist_hash]
    by (auto simp: alist_hash_def cookie_text_def cookie_values_def hs.look_empty strcaseeq_def)
qed

end
