(* ===== verification/Form_Data.thy ===== *)
theory Form_Data
  imports Url_Code Utf8 Http_Request
begin

text \<open>
  \<open>middleware/formdata.c\<close>, the data: the fields of an \<open>application/x-www-form-urlencoded\<close> body,
  decoded and optionally checked for UTF-8, and the functions that look fields up. A name or a
  value is the buffer that \<open>urldecode\<close> returned, its terminating NUL included; comparing it with
  \<open>strcmp\<close> reads the C string in it.
\<close>

section \<open>Data\<close>

definition FORM_MAXPARAM :: nat where
  "FORM_MAXPARAM = 64"

datatype form_validate = FDV_NONE | FDV_UTF8 | FDV_UTF8_SANITIZE

record formparam =
  fp_name :: string
  fp_value :: "string option"
  fp_namelen :: nat
  fp_valuelen :: nat
  fp_namevalid :: bool
  fp_valuevalid :: bool
  fp_pos :: u8

record formdata =
  fd_params :: "formparam list"
  fd_valid :: bool

section \<open>Parsing a body\<close>

definition indexOf :: "string \<Rightarrow> char \<Rightarrow> nat" where
  "indexOf buf c = length (takeWhile (\<lambda>d. d \<noteq> c) buf)"

text \<open>
  The validation of one buffer: the buffer, which sanitizing changes, its length, which becomes
  the number of characters where the check gets to the end, and whether it is valid.
\<close>

definition form_check :: "form_validate \<Rightarrow> string \<Rightarrow> nat \<Rightarrow> string \<times> nat \<times> bool" where
  "form_check v buf len =
     (case v of
        FDV_NONE \<Rightarrow> (buf, len, True)
      | FDV_UTF8 \<Rightarrow>
          (case utf8_check (cstr buf) of (rc, l) \<Rightarrow> (buf, (case l of None \<Rightarrow> len | Some l \<Rightarrow> l), \<not> rc < 0))
      | FDV_UTF8_SANITIZE \<Rightarrow>
          (case utf8_sanitize (cstr buf) of
             (rc, s, l) \<Rightarrow> (s @ drop (length s) buf, (case l of None \<Rightarrow> len | Some l \<Rightarrow> l), \<not> rc < 0)))"

text \<open>One field, up to \<open>dpos\<close>; a field without \<open>=\<close> has a null pointer as its value.\<close>

definition form_param :: "form_validate \<Rightarrow> string \<Rightarrow> nat \<Rightarrow> nat \<Rightarrow> formparam" where
  "form_param v body dpos n =
     (let eqpos = indexOf body CHR ''='';
          (name, namelen, val, valuelen) =
            (if eqpos < dpos
             then (urldecode body eqpos, eqpos,
                   Some (urldecode (drop (eqpos + 1) body) (dpos - eqpos - 1)), dpos - eqpos - 1)
             else (urldecode body dpos, dpos, None, 0));
          (name, namelen, namevalid) = form_check v name namelen
      in case val of
           None \<Rightarrow>
             \<lparr>fp_name = name, fp_value = None, fp_namelen = namelen, fp_valuelen = valuelen,
              fp_namevalid = namevalid, fp_valuevalid = False, fp_pos = of_nat n\<rparr>
         | Some val \<Rightarrow>
             (let (val, valuelen, valuevalid) = form_check v val valuelen
              in \<lparr>fp_name = name, fp_value = Some val, fp_namelen = namelen, fp_valuelen = valuelen,
                  fp_namevalid = namevalid, fp_valuevalid = valuevalid, fp_pos = of_nat n\<rparr>))"

text \<open>\<open>valid\<close> is cleared where a name, or a value that is there, does not pass.\<close>

definition form_add :: "formdata \<Rightarrow> formparam \<Rightarrow> formdata" where
  "form_add self p =
     self\<lparr>fd_params := fd_params self @ [p],
          fd_valid := fd_valid self \<and> fp_namevalid p \<and> (fp_value p \<noteq> None \<longrightarrow> fp_valuevalid p)\<rparr>"

function form_loop :: "form_validate \<Rightarrow> formdata \<Rightarrow> string \<Rightarrow> formdata" where
  "form_loop v self body =
     (if body = [] \<or> length (fd_params self) \<ge> FORM_MAXPARAM then self
      else
        (let dpos = indexOf body CHR ''&'';
             self = form_add self (form_param v body dpos (length (fd_params self)));
             body = drop dpos body
         in form_loop v self (if body \<noteq> [] then tl body else body)))"
  by pat_completeness auto
termination
  by (relation "measure (\<lambda>(v, self, body). length body)") (auto simp: indexOf_def)

declare form_loop.simps [simp del]

definition form_parse :: "form_validate \<Rightarrow> string \<Rightarrow> formdata" where
  "form_parse v body = form_loop v \<lparr>fd_params = [], fd_valid = True\<rparr> body"

text \<open>
  What \<open>MW_FormData\<close> makes of a request: nothing, unless it has a body of the right type; reading
  bytes of the body that were never received is \<^term>\<open>None\<close>.
\<close>

definition FormData_of :: "form_validate \<Rightarrow> httprequest \<Rightarrow> formdata option option" where
  "FormData_of v req =
     (if rq_bodySize req = 0 then Some None
      else
        (case HeaderSet_first (rq_headers req) ''Content-Type'' of
           None \<Rightarrow> Some None
         | Some reqType \<Rightarrow>
             if h_value reqType \<noteq> ''application/x-www-form-urlencoded'' then Some None
             else if None \<in> set (rq_body req) then None
             else Some (Some (form_parse v (map the (rq_body req))))))"

section \<open>Looking fields up\<close>

definition FormParam_is :: "string \<Rightarrow> formparam \<Rightarrow> bool" where
  "FormParam_is name p \<longleftrightarrow> name = cstr (fp_name p)"

definition FormData_param :: "formdata \<Rightarrow> string \<Rightarrow> formparam option \<Rightarrow> formparam option" where
  "FormData_param self name cur =
     (let pos = (case cur of None \<Rightarrow> 0 | Some p \<Rightarrow> unat (fp_pos p + 1))
      in case dropWhile (\<lambda>p. \<not> FormParam_is name p) (drop pos (fd_params self)) of
           [] \<Rightarrow> None
         | p # _ \<Rightarrow> Some p)"

fun form_first_loop :: "string \<Rightarrow> formparam list \<Rightarrow> (string option \<times> nat) option" where
  "form_first_loop name [] = None"
| "form_first_loop name (p # ps) =
     (if FormParam_is name p then Some (fp_value p, fp_valuelen p) else form_first_loop name ps)"

definition FormData_first :: "formdata \<Rightarrow> string \<Rightarrow> string option" where
  "FormData_first self name =
     (case form_first_loop name (fd_params self) of None \<Rightarrow> None | Some (val, len) \<Rightarrow> val)"

text \<open>A second field of the name makes the result a null pointer, and so does a missing value.\<close>

definition FormData_single :: "formdata \<Rightarrow> string \<Rightarrow> (string \<times> nat) option" where
  "FormData_single self name =
     (case dropWhile (\<lambda>p. \<not> FormParam_is name p) (fd_params self) of
        [] \<Rightarrow> None
      | p # rest \<Rightarrow>
          (case fp_value p of
             None \<Rightarrow> None
           | Some val \<Rightarrow> if list_ex (FormParam_is name) rest then None else Some (val, fp_valuelen p)))"

section \<open>Lemmas\<close>

text \<open>Encoded fields, as a browser sends them.\<close>

definition field_text :: "string \<times> string \<Rightarrow> string" where
  "field_text = (\<lambda>(n, v). url_enc n @ ''='' @ url_enc v)"

fun fields_text :: "(string \<times> string) list \<Rightarrow> string" where
  "fields_text [] = []"
| "fields_text [p] = field_text p"
| "fields_text (p # q # ps) = field_text p @ ''&'' @ fields_text (q # ps)"

lemma url_enc_no_sep: "CHR ''&'' \<notin> set (url_enc s)" "CHR ''='' \<notin> set (url_enc s)"
  "CHR ''?'' \<notin> set (url_enc s)"
  using set_url_enc [of "CHR ''&''" s] set_url_enc [of "CHR ''=''" s] set_url_enc [of "CHR ''?''" s]
  by (auto simp: url_unreserved_def isupper_def islower_def isdigit_def)

lemma indexOf_append: "c \<notin> set a \<Longrightarrow> indexOf (a @ c # b) c = length a" "c \<notin> set a \<Longrightarrow> indexOf a c = length a"
  by (induction a) (auto simp: indexOf_def)

lemma field_no_amp: "CHR ''&'' \<notin> set (field_text p)"
  by (cases p) (simp add: field_text_def url_enc_no_sep)

lemma length_field_text: "length (field_text (n, v)) = length (url_enc n) + 1 + length (url_enc v)"
  by (simp add: field_text_def)

lemma url_dec_url_enc: "url_dec (url_enc s) = s"
  using url_dec_enc [of s "[]"] by simp

lemma urldecode_prefix: "urldecode (url_enc s @ r) (length (url_enc s)) = s @ [NUL]"
  by (simp add: urldecode_eq url_dec_url_enc)

lemma cstr_NUL [simp]: "nulfree s \<Longrightarrow> cstr (s @ [NUL]) = s"
  by (rule cstr_append_NUL)

lemma form_check_keeps:
  "v \<noteq> FDV_UTF8_SANITIZE \<Longrightarrow> \<exists>l ok. form_check v buf len = (buf, l, ok)"
  by (cases v) (auto simp: form_check_def split: prod.splits)

lemma form_check_valid:
  assumes "nulfree s"
  shows "snd (snd (form_check v (s @ [NUL]) len)) \<longleftrightarrow> (v = FDV_NONE \<or> wf_utf8 s)"
proof (cases v)
  case FDV_NONE
  then show ?thesis by (simp add: form_check_def)
next
  case FDV_UTF8
  show ?thesis
  proof (cases "wf_utf8 s")
    case True
    then obtain n where "utf8_seq s n" by (auto simp: wf_utf8_def)
    then have "utf8_check s = (0, Some n)" using utf8_loop_valid [of s n False 0 0] by (simp add: utf8_check_def)
    then show ?thesis using assms FDV_UTF8 True by (simp add: form_check_def)
  next
    case False
    then have "utf8_check s = (-1, None)" using utf8_loop_invalid [of s 0 0] by (auto simp: utf8_check_def)
    then show ?thesis using assms FDV_UTF8 False by (simp add: form_check_def)
  qed
next
  case FDV_UTF8_SANITIZE
  obtain rc s' n where "utf8_sanitize s = (rc, s', n)" "rc = (if wf_utf8 s then 0 else -1)"
    using utf8_loop_sanitize [of s 0 0] unfolding utf8_sanitize_def by fastforce
  then show ?thesis using assms FDV_UTF8_SANITIZE by (simp add: form_check_def)
qed

text \<open>The parameter that an encoded field becomes.\<close>

definition param_of :: "form_validate \<Rightarrow> string \<times> string \<Rightarrow> formparam \<Rightarrow> bool" where
  "param_of v nv p \<longleftrightarrow> fp_name p = fst nv @ [NUL] \<and> fp_value p = Some (snd nv @ [NUL])
     \<and> (fp_namevalid p \<and> fp_valuevalid p \<longleftrightarrow> v = FDV_NONE \<or> wf_utf8 (fst nv) \<and> wf_utf8 (snd nv))"

lemma form_param_field:
  assumes "v \<noteq> FDV_UTF8_SANITIZE" "nulfree n" "nulfree w"
  shows "param_of v (n, w) (form_param v (field_text (n, w) @ r) (length (field_text (n, w))) k)"
proof -
  have eq: "indexOf (field_text (n, w) @ r) CHR ''='' = length (url_enc n)"
    using indexOf_append(1) [OF url_enc_no_sep(2)] by (simp add: field_text_def)
  have dec: "urldecode (field_text (n, w) @ r) (length (url_enc n)) = n @ [NUL]"
    "urldecode (drop (length (url_enc n) + 1) (field_text (n, w) @ r)) (length (url_enc w)) = w @ [NUL]"
    using urldecode_prefix by (simp_all add: field_text_def)
  obtain l1 ok1 l2 ok2 where c: "form_check v (n @ [NUL]) (length (url_enc n)) = (n @ [NUL], l1, ok1)"
    "form_check v (w @ [NUL]) (length (url_enc w)) = (w @ [NUL], l2, ok2)"
    using form_check_keeps [OF assms(1)] by metis
  have "ok1 \<longleftrightarrow> v = FDV_NONE \<or> wf_utf8 n" "ok2 \<longleftrightarrow> v = FDV_NONE \<or> wf_utf8 w"
    using form_check_valid [OF assms(2), of v "length (url_enc n)"]
      form_check_valid [OF assms(3), of v "length (url_enc w)"] c by simp_all
  then show ?thesis
    using dec by (auto simp: param_of_def form_param_def eq length_field_text c Let_def)
qed

lemma form_loop_fields:
  assumes "v \<noteq> FDV_UTF8_SANITIZE"
  shows "\<forall>(n, w) \<in> set ps. nulfree n \<and> nulfree w \<Longrightarrow> length (fd_params self) + length ps \<le> FORM_MAXPARAM \<Longrightarrow>
    \<exists>qs. fd_params (form_loop v self (fields_text ps)) = fd_params self @ qs \<and> list_all2 (param_of v) ps qs
      \<and> (fd_valid (form_loop v self (fields_text ps)) \<longleftrightarrow> fd_valid self
          \<and> (v = FDV_NONE \<or> (\<forall>(n, w) \<in> set ps. wf_utf8 n \<and> wf_utf8 w)))"
proof (induction ps arbitrary: self rule: fields_text.induct)
  case 1
  then show ?case by (simp add: form_loop.simps)
next
  case (2 p)
  obtain n w where p: "p = (n, w)" by fastforce
  let ?q = "form_param v (field_text (n, w)) (length (field_text (n, w))) (length (fd_params self))"
  have q: "param_of v (n, w) ?q" using form_param_field [OF assms, of n w "[]"] 2(1) p by simp
  have "field_text (n, w) \<noteq> []" by (simp add: field_text_def)
  then have "form_loop v self (fields_text [p]) = form_add self ?q"
    using 2(2) field_no_amp [of "(n, w)"]
    by (simp add: p form_loop.simps [of v self "field_text _"] form_loop.simps [of v _ "[]"] indexOf_append Let_def)
  then show ?case using q by (auto simp: p form_add_def param_of_def)
next
  case (3 p p' ps)
  obtain n w where p: "p = (n, w)" by fastforce
  let ?r = "fields_text (p' # ps)"
  let ?q = "form_param v (field_text (n, w) @ CHR ''&'' # ?r) (length (field_text (n, w))) (length (fd_params self))"
  have q: "param_of v (n, w) ?q" using form_param_field [OF assms] 3(2) p by simp
  have step: "form_loop v self (fields_text (p # p' # ps)) = form_loop v (form_add self ?q) ?r"
    using 3(3) field_no_amp [of "(n, w)"]
    by (simp add: p form_loop.simps [of v self "field_text _ @ _"] indexOf_append Let_def)
  obtain qs where qs: "fd_params (form_loop v (form_add self ?q) ?r) = fd_params (form_add self ?q) @ qs"
    "list_all2 (param_of v) (p' # ps) qs"
    "fd_valid (form_loop v (form_add self ?q) ?r) \<longleftrightarrow> fd_valid (form_add self ?q)
      \<and> (v = FDV_NONE \<or> (\<forall>(n, w) \<in> set (p' # ps). wf_utf8 n \<and> wf_utf8 w))"
    using 3(1) [of "form_add self ?q"] 3(2,3) by (auto simp: form_add_def)
  have "fd_params (form_loop v self (fields_text (p # p' # ps))) = fd_params self @ (?q # qs)"
    using qs(1) step by (simp add: form_add_def)
  moreover have "list_all2 (param_of v) (p # p' # ps) (?q # qs)" using q qs(2) p by simp
  moreover have "fd_valid (form_loop v self (fields_text (p # p' # ps))) \<longleftrightarrow> fd_valid self
      \<and> (v = FDV_NONE \<or> (\<forall>(n, w) \<in> set (p # p' # ps). wf_utf8 n \<and> wf_utf8 w))"
    using qs(3) q step by (auto simp: form_add_def param_of_def p)
  ultimately show ?case by blast
qed

lemma FormData_single_spec:
  "FormData_single self name =
    (case filter (FormParam_is name) (fd_params self) of
       [p] \<Rightarrow> map_option (\<lambda>val. (val, fp_valuelen p)) (fp_value p)
     | _ \<Rightarrow> None)"
proof -
  have ex: "list_ex P xs \<longleftrightarrow> filter P xs \<noteq> []" for P and xs :: "formparam list"
    by (induction xs) auto
  have "(case dropWhile (\<lambda>p. \<not> FormParam_is name p) ps of
        [] \<Rightarrow> None
      | p # rest \<Rightarrow>
          (case fp_value p of
             None \<Rightarrow> None
           | Some val \<Rightarrow> if list_ex (FormParam_is name) rest then None else Some (val, fp_valuelen p)))
    = (case filter (FormParam_is name) ps of
       [p] \<Rightarrow> map_option (\<lambda>val. (val, fp_valuelen p)) (fp_value p)
     | _ \<Rightarrow> None)" for ps
    by (induction ps) (auto simp: ex split: option.splits list.splits)
  then show ?thesis by (simp add: FormData_single_def)
qed

section \<open>Properties\<close>



end
