(* ===== verification/Path_Parser.thy ===== *)
theory Path_Parser
  imports Form_Data
begin

text \<open>
  \<open>middleware/pathparser.c\<close>, the data: the target of a request, split into a decoded path and the
  decoded parameters of its query. The loop runs along the C string of the target, whose next
  separator is its first character whenever the loop tests it.
\<close>

section \<open>Data and operations\<close>

definition PATH_MAXPARAM :: nat where
  "PATH_MAXPARAM = 32"

record queryparam =
  qp_name :: string
  qp_value :: "string option"
  qp_pos :: u8

record pathparser =
  pp_path :: string
  pp_params :: "queryparam list"

definition query_param :: "string \<Rightarrow> nat \<Rightarrow> nat \<Rightarrow> queryparam" where
  "query_param reqPath dpos n =
     (let eqpos = strcspn reqPath ''=''
      in if eqpos < dpos
         then \<lparr>qp_name = urldecode reqPath eqpos,
               qp_value = Some (urldecode (drop (eqpos + 1) reqPath) (dpos - eqpos - 1)), qp_pos = of_nat n\<rparr>
         else \<lparr>qp_name = urldecode reqPath dpos, qp_value = None, qp_pos = of_nat n\<rparr>)"

function path_loop :: "pathparser \<Rightarrow> string \<Rightarrow> pathparser" where
  "path_loop self reqPath =
     (if reqPath = [] \<or> length (pp_params self) \<ge> PATH_MAXPARAM then self
      else
        (let reqPath = tl reqPath;
             dpos = strcspn reqPath ''&''
         in path_loop (self\<lparr>pp_params := pp_params self @ [query_param reqPath dpos (length (pp_params self))]\<rparr>)
              (drop dpos reqPath)))"
  by pat_completeness auto
termination
  by (relation "measure (\<lambda>(self, reqPath). length reqPath)") auto

declare path_loop.simps [simp del]

text \<open>What \<open>MW_PathParser\<close> makes of the request's target.\<close>

definition PathParser_of :: "string \<Rightarrow> pathparser" where
  "PathParser_of reqPath =
     (let dpos = strcspn reqPath ''?''
      in path_loop \<lparr>pp_path = urldecode reqPath dpos, pp_params = []\<rparr> (drop dpos reqPath))"

definition PathParser_param :: "pathparser \<Rightarrow> string \<Rightarrow> queryparam option \<Rightarrow> queryparam option" where
  "PathParser_param self name cur =
     (let pos = (case cur of None \<Rightarrow> 0 | Some p \<Rightarrow> unat (qp_pos p + 1))
      in case dropWhile (\<lambda>p. name \<noteq> cstr (qp_name p)) (drop pos (pp_params self)) of
           [] \<Rightarrow> None
         | p # _ \<Rightarrow> Some p)"

section \<open>Lemmas\<close>

definition target_text :: "string \<Rightarrow> (string \<times> string) list \<Rightarrow> string" where
  "target_text path ps = url_enc path @ (if ps = [] then [] else CHR ''?'' # fields_text ps)"

lemma strcspn_one: "c \<notin> set a \<Longrightarrow> strcspn (a @ c # b) [c] = length a" "c \<notin> set a \<Longrightarrow> strcspn a [c] = length a"
  by (induction a) (auto simp: strcspn_def)

definition query_of :: "nat \<Rightarrow> string \<times> string \<Rightarrow> queryparam" where
  "query_of i = (\<lambda>(n, w). \<lparr>qp_name = n @ [NUL], qp_value = Some (w @ [NUL]), qp_pos = of_nat i\<rparr>)"

fun queries :: "nat \<Rightarrow> (string \<times> string) list \<Rightarrow> queryparam list" where
  "queries k [] = []"
| "queries k (p # ps) = query_of k p # queries (Suc k) ps"

lemma length_queries [simp]: "length (queries k ps) = length ps"
  by (induction ps arbitrary: k) simp_all

lemma nth_queries [simp]: "i < length ps \<Longrightarrow> queries k ps ! i = query_of (k + i) (ps ! i)"
  by (induction ps arbitrary: k i) (simp_all add: nth_Cons split: nat.splits)

lemma query_param_field:
  "query_param (field_text (n, w) @ r) (length (field_text (n, w))) k = query_of k (n, w)"
proof -
  have eq: "strcspn (field_text (n, w) @ r) ''='' = length (url_enc n)"
    using strcspn_one(1) [OF url_enc_no_sep(2)] by (simp add: field_text_def)
  have "urldecode (field_text (n, w) @ r) (length (url_enc n)) = n @ [NUL]"
    "urldecode (drop (length (url_enc n) + 1) (field_text (n, w) @ r)) (length (url_enc w)) = w @ [NUL]"
    using urldecode_prefix by (simp_all add: field_text_def)
  then show ?thesis by (simp add: query_param_def query_of_def eq length_field_text)
qed

lemma path_loop_fields:
  "ps \<noteq> [] \<Longrightarrow> length (pp_params self) + length ps \<le> PATH_MAXPARAM \<Longrightarrow>
    path_loop self (c # fields_text ps) =
      self\<lparr>pp_params := pp_params self @ queries (length (pp_params self)) ps\<rparr>"
proof (induction ps arbitrary: self c rule: fields_text.induct)
  case (2 p)
  obtain n w where p: "p = (n, w)" by fastforce
  have "path_loop self (c # field_text (n, w)) =
      self\<lparr>pp_params := pp_params self @ [query_of (length (pp_params self)) (n, w)]\<rparr>"
    using 2 strcspn_one(2) [OF field_no_amp] query_param_field [of n w "[]"]
    by (simp add: path_loop.simps [of self "c # _"] path_loop.simps [of _ "[]"] Let_def)
  then show ?case by (simp add: p)
next
  case (3 p p' ps)
  obtain n w where p: "p = (n, w)" by fastforce
  let ?r = "fields_text (p' # ps)" and ?k = "length (pp_params self)"
  let ?self = "self\<lparr>pp_params := pp_params self @ [query_of ?k (n, w)]\<rparr>"
  have "path_loop self (c # field_text (n, w) @ CHR ''&'' # ?r) = path_loop ?self (CHR ''&'' # ?r)"
    using 3(3) strcspn_one(1) [OF field_no_amp, of "(n, w)" ?r] query_param_field [of n w "CHR ''&'' # ?r"]
    by (simp add: path_loop.simps [of self "c # _"] Let_def)
  then show ?case using 3(1) [of ?self "CHR ''&''"] 3(3) by (simp add: p)
qed simp

section \<open>Property\<close>

text \<open>
  Splitting a target. A target in which a client encoded a path and at most 32 query parameters
  is split into that path and these parameters, decoded, in order and numbered; looking a name up
  finds its first parameter.
\<close>

theorem target_roundtrip:
  assumes "length ps \<le> 32" "nulfree path" "\<forall>(n, w) \<in> set ps. nulfree n \<and> nulfree w"
  defines "parser \<equiv> PathParser_of (target_text path ps)"
  shows "cstr (pp_path parser) = path
    \<and> map (\<lambda>p. (cstr (qp_name p), map_option cstr (qp_value p))) (pp_params parser) = map (\<lambda>(n, w). (n, Some w)) ps
    \<and> map (\<lambda>p. unat (qp_pos p)) (pp_params parser) = [0..<length ps]
    \<and> (case PathParser_param parser name None of None \<Rightarrow> None | Some p \<Rightarrow> map_option cstr (qp_value p)) = map_of ps name"
proof -
  have dpos: "strcspn (target_text path ps) ''?'' = length (url_enc path)"
    using strcspn_one [OF url_enc_no_sep(3)] by (simp add: target_text_def)
  have pth: "urldecode (target_text path ps) (length (url_enc path)) = path @ [NUL]"
    using urldecode_prefix by (simp add: target_text_def)
  let ?qs = "queries 0 ps"
  have rest: "drop (length (url_enc path)) (target_text path ps) = (if ps = [] then [] else CHR ''?'' # fields_text ps)"
    by (simp add: target_text_def)
  have p: "parser = \<lparr>pp_path = path @ [NUL], pp_params = ?qs\<rparr>"
    using path_loop_fields [of ps "\<lparr>pp_path = path @ [NUL], pp_params = []\<rparr>" "CHR ''?''"] assms(1)
    unfolding parser_def PathParser_of_def Let_def dpos pth rest
    by (cases "ps = []") (simp_all add: PATH_MAXPARAM_def path_loop.simps [of _ "[]"])
  have nth: "nulfree (fst (ps ! i))" "nulfree (snd (ps ! i))" if "i < length ps" for i
    using assms(3) that nth_mem [OF that] by (auto simp: split_beta)
  have names: "map (\<lambda>p. (cstr (qp_name p), map_option cstr (qp_value p))) ?qs = map (\<lambda>(n, w). (n, Some w)) ps"
    using nth by (intro nth_equalityI) (auto simp: query_of_def split_beta)
  moreover have "map (\<lambda>p. unat (qp_pos p)) ?qs = [0..<length ps]"
    using assms(1) by (intro nth_equalityI) (auto simp: query_of_def split_beta unat_of_nat)
  moreover have look: "(case dropWhile (\<lambda>p. name \<noteq> cstr (qp_name p)) qs of [] \<Rightarrow> None | p # _ \<Rightarrow> map_option cstr (qp_value p))
      = (case map_of (map (\<lambda>p. (cstr (qp_name p), map_option cstr (qp_value p))) qs) name of None \<Rightarrow> None | Some v \<Rightarrow> v)" for qs
    by (induction qs) auto
  have m: "(case map_of (map (\<lambda>(n, w). (n, Some w)) ps) name of None \<Rightarrow> None | Some v \<Rightarrow> v) = map_of ps name"
    by (induction ps) auto
  have "(case PathParser_param parser name None of None \<Rightarrow> None | Some p \<Rightarrow> map_option cstr (qp_value p)) = map_of ps name"
    using look [of ?qs] unfolding names m
    by (cases "dropWhile (\<lambda>p. name \<noteq> cstr (qp_name p)) ?qs")
      (simp_all add: PathParser_param_def p del: dropWhile_eq_Nil_conv)
  ultimately show ?thesis using assms(2) by (simp add: p)
qed

theorem target_roundtrip_witness:
  "cstr (pp_path (PathParser_of (target_text ''/login'' [(''rdr'', ''/a?b=1''), (''x'', ''y'')]))) = ''/login''
   \<and> map (\<lambda>p. map_option cstr (qp_value p)) (pp_params (PathParser_of (target_text ''/login''
       [(''rdr'', ''/a?b=1''), (''x'', ''y'')]))) = [Some ''/a?b=1'', Some ''y'']"
proof -
  let ?p = "PathParser_of (target_text ''/login'' [(''rdr'', ''/a?b=1''), (''x'', ''y'')])"
  have t: "cstr (pp_path ?p) = ''/login''"
    "map (\<lambda>p. (cstr (qp_name p), map_option cstr (qp_value p))) (pp_params ?p)
      = [(''rdr'', Some ''/a?b=1''), (''x'', Some ''y'')]"
    using target_roundtrip [of "[(''rdr'', ''/a?b=1''), (''x'', ''y'')]" "''/login''"] by simp_all
  have "map (\<lambda>p. map_option cstr (qp_value p)) (pp_params ?p) =
      map snd (map (\<lambda>p. (cstr (qp_name p), map_option cstr (qp_value p))) (pp_params ?p))" by simp
  then show ?thesis using t by (simp only:) simp
qed

end
