(* ===== verification/Session.thy ===== *)
theory Session
  imports Rnd Rate_Limit Chain_Table
begin

text \<open>
  \<open>middleware/session.c\<close>, the data: the table of sessions, its ageing, and the properties a session
  owns. The functions here are the ones between two locks of a bucket; the middleware that calls
  them is in \<open>Middleware\<close>.

  A pointer to a session is its \<open>ss_ref\<close>, the number of its allocation, which is never used again:
  an access through a pointer looks for it in all chains and is \<^term>\<open>None\<close> when the session was
  deleted. What the deleters are called with is recorded in the ghost field \<open>sx_deleted\<close>. Times are
  seconds (\<open>time_t\<close>) and come as arguments.
\<close>

section \<open>Data\<close>

definition MAXAGE :: int where
  "MAXAGE = 12 * 3600"

definition MAXIDLE :: int where
  "MAXIDLE = 3600"

definition CLEANINTERVAL :: int where
  "CLEANINTERVAL = 900"

definition SPHT_BITS :: nat where
  "SPHT_BITS = 4"

definition SHT_BITS :: nat where
  "SHT_BITS = 8"

record ('o, 'd) sessprop =
  sp_name :: string
  sp_value :: "'o option"
  sp_deleter :: "'d option"

record ('o, 'd) session =
  ss_ref :: nat
  ss_buckets :: "('o, 'd) sessprop list list"
  ss_id :: string
  ss_referrer :: "string option"
  ss_ctime :: int
  ss_atime :: int

record ('o, 'd) sessions =
  sx_buckets :: "('o, 'd) session list list"
  sx_cleantime :: int
  sx_next :: nat
  sx_deleted :: "('d \<times> 'o option) list"

definition sessions_static :: "('o, 'd) sessions" where
  "sessions_static = \<lparr>sx_buckets = ct_empty SHT_BITS, sx_cleantime = 0, sx_next = 0, sx_deleted = []\<rparr>"

definition sessionExpired :: "('o, 'd) session \<Rightarrow> int \<Rightarrow> bool" where
  "sessionExpired s n \<longleftrightarrow> n - ss_atime s > MAXIDLE \<or> n - ss_ctime s > MAXAGE"

section \<open>Properties of a session\<close>

definition sess_prop_delete :: "('o, 'd) sessprop \<Rightarrow> ('d \<times> 'o option) list" where
  "sess_prop_delete prop = (case sp_deleter prop of None \<Rightarrow> [] | Some d \<Rightarrow> [(d, sp_value prop)])"

definition sess_findProp :: "('o, 'd) session \<Rightarrow> string \<Rightarrow> ('o, 'd) sessprop option" where
  "sess_findProp self key = ct_find SPHT_BITS sp_name (ss_buckets self) key"

definition session_get :: "('o, 'd) session \<Rightarrow> string \<Rightarrow> 'o option" where
  "session_get self name = (case sess_findProp self name of None \<Rightarrow> None | Some prop \<Rightarrow> sp_value prop)"

text \<open>\<open>insertOrUpdate\<close> deletes what the property had, then \<open>Session_setProp\<close> fills it.\<close>

definition session_set ::
  "('o, 'd) session \<Rightarrow> string \<Rightarrow> 'o option \<Rightarrow> 'd option \<Rightarrow> ('o, 'd) session \<times> ('d \<times> 'o option) list" where
  "session_set self name obj deleter =
     (self\<lparr>ss_buckets := ct_store SPHT_BITS sp_name (ss_buckets self)
             \<lparr>sp_name = name, sp_value = obj, sp_deleter = deleter\<rparr>\<rparr>,
      (case sess_findProp self name of None \<Rightarrow> [] | Some prop \<Rightarrow> sess_prop_delete prop))"

text \<open>What \<open>deleteSession\<close> calls.\<close>

definition deleteSession :: "('o, 'd) session \<Rightarrow> ('d \<times> 'o option) list" where
  "deleteSession self = concat (map sess_prop_delete (concat (ss_buckets self)))"

section \<open>The table\<close>

text \<open>
  The loop of \<open>findSession\<close> over a chain: the session, the chain behind the loop, and what was
  deleted. An expired session is unlinked.
\<close>

fun find_loop ::
  "string \<Rightarrow> int \<Rightarrow> ('o, 'd) session list \<Rightarrow> ('o, 'd) session option \<times> ('o, 'd) session list \<times> ('d \<times> 'o option) list"
where
  "find_loop sid now [] = (None, [], [])"
| "find_loop sid now (session # nxt) =
     (if ss_id session = sid
      then (if sessionExpired session now then (None, nxt, deleteSession session)
            else (Some session, session # nxt, []))
      else (let (r, nxt, del) = find_loop sid now nxt in (r, session # nxt, del)))"

definition findSession ::
  "string \<Rightarrow> int \<Rightarrow> ('o, 'd) sessions \<Rightarrow> ('o, 'd) session option \<times> ('o, 'd) sessions" where
  "findSession sid now self =
     (let h = unat (hash sid SHT_BITS);
          (session, chain, del) = find_loop sid now (sx_buckets self ! h)
      in (session, self\<lparr>sx_buckets := (sx_buckets self)[h := chain], sx_deleted := sx_deleted self @ del\<rparr>))"

text \<open>
  Drawing random ids until one is not in use. The answers of \<open>getrandom\<close> come in one list for each
  call of \<open>createRndStr\<close>; when they run out, the loop has not returned.
\<close>

record rnd_source =
  rn_answers :: "getrandom_answer list list"
  rn_prng :: prng_state

definition next_token :: "int \<Rightarrow> rnd_source \<Rightarrow> (string \<times> rnd_source) option" where
  "next_token now rnd =
     (case rn_answers rnd of
        [] \<Rightarrow> None
      | a # r \<Rightarrow>
          (case createRndStr 2 (of_int now) a (rn_prng rnd) 32 of
             None \<Rightarrow> None
           | Some (str, st) \<Rightarrow> Some (cstr str, \<lparr>rn_answers = r, rn_prng = st\<rparr>)))"

function create_loop ::
  "int \<Rightarrow> rnd_source \<Rightarrow> ('o, 'd) sessions \<Rightarrow> (string \<times> rnd_source \<times> ('o, 'd) sessions) option" where
  "create_loop now rnd self =
     (case next_token now rnd of
        None \<Rightarrow> None
      | Some (sid, rnd) \<Rightarrow>
          (case findSession sid now self of
             (Some session, self) \<Rightarrow> create_loop now rnd self
           | (None, self) \<Rightarrow> Some (sid, rnd, self)))"
  by pat_completeness auto
termination
  by (relation "measure (\<lambda>(now, rnd, self). length (rn_answers rnd))")
    (auto simp: next_token_def split: list.splits option.splits)

declare create_loop.simps [simp del]

definition session_new :: "string \<Rightarrow> int \<Rightarrow> nat \<Rightarrow> ('o, 'd) session" where
  "session_new sid now n =
     \<lparr>ss_ref = n, ss_buckets = ct_empty SPHT_BITS, ss_id = sid, ss_referrer = None, ss_ctime = now, ss_atime = now\<rparr>"

definition createSession ::
  "int \<Rightarrow> rnd_source \<Rightarrow> ('o, 'd) sessions \<Rightarrow> (('o, 'd) session \<times> rnd_source \<times> ('o, 'd) sessions) option" where
  "createSession now rnd self =
     (case create_loop now rnd self of
        None \<Rightarrow> None
      | Some (sid, rnd, self) \<Rightarrow>
          (let h = unat (hash sid SHT_BITS);
               session = session_new sid now (sx_next self)
           in Some (session, rnd,
                self\<lparr>sx_buckets := (sx_buckets self)[h := sx_buckets self ! h @ [session]],
                     sx_next := sx_next self + 1\<rparr>)))"

text \<open>Cleaning one chain, and \<open>clean\<close>, which does it for every bucket every 15 minutes.\<close>

fun clean_loop :: "int \<Rightarrow> ('o, 'd) session list \<Rightarrow> ('o, 'd) session list \<times> ('d \<times> 'o option) list" where
  "clean_loop now [] = ([], [])"
| "clean_loop now (session # nxt) =
     (if sessionExpired session now
      then (let (chain, del) = clean_loop now nxt in (chain, deleteSession session @ del))
      else (let (chain, del) = clean_loop now nxt in (session # chain, del)))"

definition clean :: "int \<Rightarrow> ('o, 'd) sessions \<Rightarrow> ('o, 'd) sessions" where
  "clean now self =
     (if now - sx_cleantime self < CLEANINTERVAL then self
      else
        self\<lparr>sx_cleantime := now,
             sx_buckets := map (\<lambda>chain. fst (clean_loop now chain)) (sx_buckets self),
             sx_deleted := sx_deleted self @ concat (map (\<lambda>chain. snd (clean_loop now chain)) (sx_buckets self))\<rparr>)"

section \<open>Access through a pointer\<close>

definition session_at :: "('o, 'd) sessions \<Rightarrow> nat \<Rightarrow> ('o, 'd) session option" where
  "session_at self ref = List.find (\<lambda>s. ss_ref s = ref) (concat (sx_buckets self))"

definition session_write :: "('o, 'd) sessions \<Rightarrow> nat \<Rightarrow> ('o, 'd) session \<Rightarrow> ('o, 'd) sessions" where
  "session_write self ref s' =
     self\<lparr>sx_buckets := map (map (\<lambda>s. if ss_ref s = ref then s' else s)) (sx_buckets self)\<rparr>"

definition Session_getProp :: "('o, 'd) sessions \<Rightarrow> nat \<Rightarrow> string \<Rightarrow> 'o option option" where
  "Session_getProp self ref name = map_option (\<lambda>s. session_get s name) (session_at self ref)"

definition Session_setProp ::
  "('o, 'd) sessions \<Rightarrow> nat \<Rightarrow> string \<Rightarrow> 'o option \<Rightarrow> 'd option \<Rightarrow> ('o, 'd) sessions option" where
  "Session_setProp self ref name obj deleter =
     (case session_at self ref of
        None \<Rightarrow> None
      | Some s \<Rightarrow>
          (let (s, del) = session_set s name obj deleter
           in Some ((session_write self ref s)\<lparr>sx_deleted := sx_deleted self @ del\<rparr>)))"

definition Session_id :: "('o, 'd) sessions \<Rightarrow> nat \<Rightarrow> string option" where
  "Session_id self ref = map_option ss_id (session_at self ref)"

definition Session_referrer :: "('o, 'd) sessions \<Rightarrow> nat \<Rightarrow> string option option" where
  "Session_referrer self ref = map_option ss_referrer (session_at self ref)"

text \<open>The assignments of \<open>MW_Session\<close> to a session.\<close>

definition session_touch :: "('o, 'd) sessions \<Rightarrow> nat \<Rightarrow> int \<Rightarrow> ('o, 'd) sessions option" where
  "session_touch self ref now =
     map_option (\<lambda>s. session_write self ref (s\<lparr>ss_atime := now\<rparr>)) (session_at self ref)"

definition session_refer :: "('o, 'd) sessions \<Rightarrow> nat \<Rightarrow> string \<Rightarrow> ('o, 'd) sessions option" where
  "session_refer self ref path =
     map_option (\<lambda>s. session_write self ref (s\<lparr>ss_referrer := Some path\<rparr>)) (session_at self ref)"

section \<open>Starting and stopping\<close>

definition MW_SessionOpts_addLimit ::
  "'t limit list option \<Rightarrow> u16 \<Rightarrow> u16 \<Rightarrow> 't limit list option" where
  "MW_SessionOpts_addLimit createLimitOpts seconds lim =
     RateLimitOpts_addLimit (case createLimitOpts of None \<Rightarrow> [] | Some opts \<Rightarrow> opts) seconds lim"

definition MW_Session_init ::
  "'t limit list option \<Rightarrow> int \<Rightarrow> ('o, 'd) sessions \<Rightarrow> ('t limit list \<times> ('o, 'd) sessions) option" where
  "MW_Session_init createLimitOpts now self =
     (let self = self\<lparr>sx_cleantime := now\<rparr>
      in case createLimitOpts of
           Some opts \<Rightarrow> Some (RateLimit_create opts, self)
         | None \<Rightarrow>
             Option.bind (RateLimitOpts_addLimit [] 5 3) (\<lambda>opts.
             Option.bind (RateLimitOpts_addLimit opts 60 5) (\<lambda>opts.
             Option.bind (RateLimitOpts_addLimit opts 3600 25) (\<lambda>opts.
               Some (RateLimit_create opts, self)))))"

definition MW_Session_done :: "('o, 'd) sessions \<Rightarrow> ('o, 'd) sessions" where
  "MW_Session_done self =
     self\<lparr>sx_buckets := map (\<lambda>chain. []) (sx_buckets self),
          sx_deleted := sx_deleted self @ concat (map deleteSession (concat (sx_buckets self)))\<rparr>"

section \<open>The invariant\<close>

abbreviation all_sessions :: "('o, 'd) sessions \<Rightarrow> ('o, 'd) session list" where
  "all_sessions self \<equiv> concat (sx_buckets self)"

abbreviation bucket_of :: "('o, 'd) session \<Rightarrow> nat" where
  "bucket_of s \<equiv> unat (hash (ss_id s) SHT_BITS)"

definition sess_ok :: "('o, 'd) sessions \<Rightarrow> bool" where
  "sess_ok self \<longleftrightarrow> length (sx_buckets self) = HT_SIZE SHT_BITS
     \<and> (\<forall>h < HT_SIZE SHT_BITS. (\<forall>s \<in> set (sx_buckets self ! h). bucket_of s = h)
          \<and> distinct (map ss_id (sx_buckets self ! h)))
     \<and> inj_on ss_ref (set (all_sessions self))
     \<and> (\<forall>s \<in> set (all_sessions self). ss_ref s < sx_next self \<and> ct_ok SPHT_BITS sp_name (ss_buckets s))"

interpretation sp: owning_table "ct_empty SPHT_BITS" "ct_find SPHT_BITS sp_name"
  "ct_store SPHT_BITS sp_name" sp_name concat "ct_ok SPHT_BITS sp_name" "\<lambda>p. mset (sess_prop_delete p)"
  by unfold_locales (simp_all add: ct_empty_ok ct_store_ok ct_find_store mset_ct_store)

lemma sess_bucket [simp]: "unat (hash sid SHT_BITS) < HT_SIZE SHT_BITS"
  by (simp add: SHT_BITS_def)

lemma set_bucket:
  assumes "sess_ok self" "h < HT_SIZE SHT_BITS"
  shows "set (sx_buckets self ! h) = {s \<in> set (all_sessions self). bucket_of s = h}"
  using assms by (fastforce simp: sess_ok_def in_set_conv_nth [of _ "sx_buckets self"])

lemma inj_ids: "sess_ok self \<Longrightarrow> inj_on ss_id (set (all_sessions self))"
proof (rule inj_onI)
  fix s t assume ok: "sess_ok self" and st: "s \<in> set (all_sessions self)" "t \<in> set (all_sessions self)" "ss_id s = ss_id t"
  let ?c = "sx_buckets self ! bucket_of s"
  have "s \<in> set ?c" "t \<in> set ?c" using st set_bucket [OF ok sess_bucket] by auto
  moreover have "distinct (map ss_id ?c)" using ok by (simp add: sess_ok_def)
  ultimately show "s = t" using st(3) by (simp add: distinct_map inj_on_def)
qed

lemma set_update_bucket:
  assumes "sess_ok self" "h < HT_SIZE SHT_BITS"
  shows "set (concat ((sx_buckets self)[h := c])) = {s \<in> set (all_sessions self). bucket_of s \<noteq> h} \<union> set c"
proof -
  have b: "s \<in> set (sx_buckets self ! j) \<Longrightarrow> j < length (sx_buckets self) \<Longrightarrow> bucket_of s = j" for s j
    using assms(1) by (auto simp: sess_ok_def)
  have l: "h < length (sx_buckets self)" using assms by (simp add: sess_ok_def)
  have A: "s \<in> set (concat ((sx_buckets self)[h := c])) \<longleftrightarrow>
      (\<exists>j < length (sx_buckets self). s \<in> set ((sx_buckets self)[h := c] ! j))" for s
    by (simp add: in_set_conv_nth [of _ "(sx_buckets self)[h := c]"] Bex_def) (metis length_list_update)
  have B: "s \<in> set (all_sessions self) \<longleftrightarrow> (\<exists>j < length (sx_buckets self). s \<in> set (sx_buckets self ! j))" for s
    by (auto dest: nth_mem) (metis in_set_conv_nth)
  show ?thesis
    by (rule set_eqI, unfold Un_iff mem_Collect_eq A B)
      (use b l in \<open>auto simp: nth_list_update split: if_splits, metis\<close>)
qed

lemma update_bucket_ok:
  assumes "sess_ok self" "h < HT_SIZE SHT_BITS" "\<forall>s \<in> set c. bucket_of s = h" "distinct (map ss_id c)"
    "inj_on ss_ref (set (concat ((sx_buckets self)[h := c])))" "sx_next self \<le> n"
    "\<forall>s \<in> set c. ss_ref s < n \<and> ct_ok SPHT_BITS sp_name (ss_buckets s)"
  shows "sess_ok (self\<lparr>sx_buckets := (sx_buckets self)[h := c], sx_next := n\<rparr>)"
proof -
  have "\<forall>s \<in> set (concat ((sx_buckets self)[h := c])). ss_ref s < n \<and> ct_ok SPHT_BITS sp_name (ss_buckets s)"
    using assms(1,6,7) unfolding set_update_bucket [OF assms(1,2)]
    by (auto simp: sess_ok_def simp del: set_concat dest!: bspec)
  then show ?thesis
    using assms(1-5) by (simp add: sess_ok_def nth_list_update del: set_concat)
qed

lemma sess_ok_deleted [simp]:
  "sess_ok (self\<lparr>sx_deleted := d\<rparr>) = sess_ok self" "sess_ok (self\<lparr>sx_cleantime := t\<rparr>) = sess_ok self"
  by (simp_all add: sess_ok_def)

lemma sess_ok_static [simp]: "sess_ok sessions_static"
  by (simp add: sess_ok_def sessions_static_def ct_empty_ok) (simp add: ct_empty_def)

section \<open>Looking up and cleaning\<close>

lemma find_loop_spec:
  "distinct (map ss_id chain) \<Longrightarrow> find_loop sid now chain = (r, chain', del) \<Longrightarrow>
    set chain' = set chain - {s. ss_id s = sid \<and> sessionExpired s now}
    \<and> (\<forall>s. r = Some s \<longleftrightarrow> s \<in> set chain \<and> ss_id s = sid \<and> \<not> sessionExpired s now)
    \<and> distinct (map ss_id chain')
    \<and> concat (map deleteSession chain') \<in> {xs. mset xs + mset del = mset (concat (map deleteSession chain))}"
proof (induction chain arbitrary: r chain' del)
  case (Cons s chain)
  obtain r1 c1 d1 where rec: "find_loop sid now chain = (r1, c1, d1)" by (cases "find_loop sid now chain")
  note IH = Cons.IH [OF _ rec]
  show ?case
  proof (cases "ss_id s = sid")
    case True
    then have "\<forall>t \<in> set chain. ss_id t \<noteq> sid" using Cons.prems(1) by (simp add: image_iff) metis
    then show ?thesis using True Cons.prems by (auto split: if_splits)
  next
    case False
    then show ?thesis using IH Cons.prems rec by (auto simp: union_ac)
  qed
qed auto

definition live :: "int \<Rightarrow> ('o, 'd) session option \<Rightarrow> ('o, 'd) session option" where
  "live now so = (case so of None \<Rightarrow> None | Some s \<Rightarrow> if sessionExpired s now then None else Some s)"

lemma live_Some: "live now so = Some s \<longleftrightarrow> so = Some s \<and> \<not> sessionExpired s now"
  by (auto simp: live_def split: option.splits)

lemma live_idem [simp]: "live now (live now so) = live now so"
  by (auto simp: live_def split: option.splits)

lemma expired_mono: "sessionExpired s now \<Longrightarrow> now \<le> now' \<Longrightarrow> sessionExpired s now'"
  by (auto simp: sessionExpired_def)

definition sess_map :: "('o, 'd) sessions \<Rightarrow> string \<Rightarrow> ('o, 'd) session option" where
  "sess_map self sid = List.find (\<lambda>s. ss_id s = sid) (all_sessions self)"

lemma find_inj:
  "inj_on f (set xs) \<Longrightarrow> List.find (\<lambda>x. f x = k) xs = Some x \<longleftrightarrow> x \<in> set xs \<and> f x = k"
  by (induction xs) (auto simp: inj_on_def)

text \<open>What was deleted so far and what is still owned.\<close>

definition owned_by :: "('o, 'd) session list \<Rightarrow> ('d \<times> 'o option) multiset" where
  "owned_by chain = mset (concat (map deleteSession chain))"

definition sess_total :: "('o, 'd) sessions \<Rightarrow> ('d \<times> 'o option) multiset" where
  "sess_total self = mset (sx_deleted self) + owned_by (all_sessions self)"

lemma owned_by_simps [simp]:
  "owned_by [] = {#}" "owned_by (s # c) = mset (deleteSession s) + owned_by c"
  "owned_by (c @ d) = owned_by c + owned_by d"
  by (simp_all add: owned_by_def)

lemma owned_by_mset: "owned_by chain = \<Sum>\<^sub># (image_mset (\<lambda>s. mset (deleteSession s)) (mset chain))"
  by (induction chain) simp_all

lemma owned_update_bucket:
  assumes "h < length bs" "owned_by c + d = owned_by (bs ! h)"
  shows "owned_by (concat (bs[h := c])) + d = owned_by (concat bs)"
proof -
  have "owned_by (concat (bs[h := c])) + owned_by (bs ! h) = owned_by (concat bs) + owned_by c"
    using arg_cong [OF mset_concat_update [OF assms(1), of c], of "\<lambda>m. \<Sum>\<^sub># (image_mset (\<lambda>s. mset (deleteSession s)) m)"]
    by (simp add: owned_by_mset)
  then have "(owned_by (concat (bs[h := c])) + d) + owned_by c = owned_by (concat bs) + owned_by c"
    unfolding assms(2) [symmetric] by (simp add: union_ac)
  then show ?thesis by simp
qed

lemma findSession_spec:
  assumes "sess_ok self" "findSession sid now self = (r, self')"
  shows "sess_ok self'
    \<and> set (all_sessions self') = set (all_sessions self) - {s. ss_id s = sid \<and> sessionExpired s now}
    \<and> (\<forall>s. r = Some s \<longleftrightarrow> s \<in> set (all_sessions self) \<and> ss_id s = sid \<and> \<not> sessionExpired s now)
    \<and> sx_next self' = sx_next self \<and> sx_cleantime self' = sx_cleantime self \<and> sess_total self' = sess_total self"
proof -
  let ?h = "unat (hash sid SHT_BITS)"
  let ?b = "sx_buckets self ! ?h"
  obtain r0 c del where run: "find_loop sid now ?b = (r0, c, del)" by (cases "find_loop sid now ?b")
  have self': "r = r0" "self' = self\<lparr>sx_buckets := (sx_buckets self)[?h := c], sx_deleted := sx_deleted self @ del\<rparr>"
    using assms(2) run by (simp_all add: findSession_def)
  have h: "?h < HT_SIZE SHT_BITS" "?h < length (sx_buckets self)" using assms(1) by (simp_all add: sess_ok_def)
  have dist: "distinct (map ss_id ?b)" using assms(1) by (simp add: sess_ok_def)
  note spec = find_loop_spec [OF dist run]
  note b = set_bucket [OF assms(1) h(1)]
  have c: "s \<in> set c \<Longrightarrow> s \<in> set (all_sessions self) \<and> bucket_of s = ?h" for s
    using spec b by blast
  have ref: "s \<in> set (all_sessions self) \<Longrightarrow> ss_ref s < sx_next self \<and> ct_ok SPHT_BITS sp_name (ss_buckets s)" for s
    using assms(1) by (simp add: sess_ok_def del: set_concat)
  have inj: "inj_on ss_ref (set (all_sessions self))"
    using assms(1) by (simp add: sess_ok_def del: set_concat)
  have all: "set (concat ((sx_buckets self)[?h := c])) =
      set (all_sessions self) - {s. ss_id s = sid \<and> sessionExpired s now}"
    unfolding set_update_bucket [OF assms(1) h(1)] using spec b by auto
  have "sess_ok (self\<lparr>sx_buckets := (sx_buckets self)[?h := c], sx_next := sx_next self\<rparr>)"
  proof (rule update_bucket_ok [OF assms(1) h(1)])
    show "inj_on ss_ref (set (concat ((sx_buckets self)[?h := c])))"
      unfolding all by (rule inj_on_subset [OF inj]) (rule Diff_subset)
    show "distinct (map ss_id c)" using spec by (simp del: set_concat)
    show "\<forall>s \<in> set c. bucket_of s = ?h" using c by simp
    show "\<forall>s \<in> set c. ss_ref s < sx_next self \<and> ct_ok SPHT_BITS sp_name (ss_buckets s)"
      using c ref by simp
  qed simp
  moreover have "self\<lparr>sx_buckets := (sx_buckets self)[?h := c], sx_next := sx_next self\<rparr> =
      self\<lparr>sx_buckets := (sx_buckets self)[?h := c]\<rparr>" by simp
  ultimately have "sess_ok self'"
    using self' by simp
  moreover have "owned_by (concat ((sx_buckets self)[?h := c])) + mset del = owned_by (all_sessions self)"
    using spec by (intro owned_update_bucket h(2)) (simp add: owned_by_def)
  then have "sess_total self' = sess_total self"
    using self' by (simp add: sess_total_def union_ac)
  ultimately show ?thesis using spec b all self' by (auto simp del: set_concat)
qed

lemma clean_loop_spec:
  "fst (clean_loop now chain) = filter (\<lambda>s. \<not> sessionExpired s now) chain"
  "owned_by (fst (clean_loop now chain)) + mset (snd (clean_loop now chain)) = owned_by chain"
  by (induction chain) (auto simp: union_ac split: prod.splits)

lemma clean_spec:
  assumes "sess_ok self"
  shows "sess_ok (clean now self)"
    "set (all_sessions (clean now self)) =
      {s \<in> set (all_sessions self). now - sx_cleantime self < CLEANINTERVAL \<or> \<not> sessionExpired s now}"
    "sx_next (clean now self) = sx_next self" "sess_total (clean now self) = sess_total self"
proof -
  let ?b = "map (\<lambda>chain. fst (clean_loop now chain)) (sx_buckets self)"
  have all: "concat ?b = filter (\<lambda>s. \<not> sessionExpired s now) (all_sessions self)"
    by (simp add: clean_loop_spec filter_concat)
  show "set (all_sessions (clean now self)) =
      {s \<in> set (all_sessions self). now - sx_cleantime self < CLEANINTERVAL \<or> \<not> sessionExpired s now}"
    using all by (auto simp: clean_def simp del: set_concat)
  have "inj_on ss_ref (set (concat ?b))"
    unfolding all using assms by (auto simp: sess_ok_def inj_on_def simp del: set_concat)
  then show "sess_ok (clean now self)"
    using assms all by (auto simp: clean_def sess_ok_def clean_loop_spec distinct_map_filter simp del: set_concat)
  have "owned_by (concat (map (\<lambda>chain. fst (clean_loop now chain)) bs))
      + mset (concat (map (\<lambda>chain. snd (clean_loop now chain)) bs)) = owned_by (concat bs)" for bs :: "('a, 'b) session list list"
  proof (induction bs)
    case (Cons c bs)
    show ?case using clean_loop_spec(2) [of now c] Cons by (simp add: union_ac)
  qed simp
  from this [of "sx_buckets self"] show "sess_total (clean now self) = sess_total self"
    by (auto simp: clean_def sess_total_def union_ac)
qed (simp add: clean_def)

section \<open>Creating and changing\<close>

lemma all_in_ok: "sess_ok self \<Longrightarrow> s \<in> set (all_sessions self) \<Longrightarrow>
    ss_ref s < sx_next self \<and> ct_ok SPHT_BITS sp_name (ss_buckets s)"
  by (simp add: sess_ok_def del: set_concat)

lemma inj_refs: "sess_ok self \<Longrightarrow> inj_on ss_ref (set (all_sessions self))"
  by (simp add: sess_ok_def del: set_concat)

lemma sess_map_Some: "sess_ok self \<Longrightarrow> sess_map self sid = Some s \<longleftrightarrow> s \<in> set (all_sessions self) \<and> ss_id s = sid"
  unfolding sess_map_def by (rule find_inj [OF inj_ids])

lemma session_at_Some: "sess_ok self \<Longrightarrow> session_at self ref = Some s \<longleftrightarrow> s \<in> set (all_sessions self) \<and> ss_ref s = ref"
  unfolding session_at_def by (rule find_inj [OF inj_refs])

lemma create_loop_spec:
  "sess_ok self \<Longrightarrow> create_loop now rnd self = Some (sid, rnd', self') \<Longrightarrow>
    sess_ok self' \<and> sx_next self' = sx_next self \<and> sx_cleantime self' = sx_cleantime self \<and> sess_total self' = sess_total self
    \<and> set (all_sessions self') \<subseteq> set (all_sessions self) \<and> (\<forall>s \<in> set (all_sessions self'). ss_id s \<noteq> sid)
    \<and> (\<forall>s \<in> set (all_sessions self). s \<in> set (all_sessions self') \<or> sessionExpired s now)"
proof (induction now rnd self rule: create_loop.induct)
  case (1 now rnd self)
  obtain tok rnd1 where tok: "next_token now rnd = Some (tok, rnd1)"
    using 1(3) by (auto simp: create_loop.simps [of now rnd] split: option.splits)
  obtain r self1 where find: "findSession tok now self = (r, self1)" by (cases "findSession tok now self")
  note spec = findSession_spec [OF 1(2) find]
  have step: "create_loop now rnd self =
      (case r of Some _ \<Rightarrow> create_loop now rnd1 self1 | None \<Rightarrow> Some (tok, rnd1, self1))"
    by (simp add: create_loop.simps [of now rnd] tok find)
  show ?case
  proof (cases r)
    case None
    then have out: "tok = sid" "self1 = self'" using step 1(3) by simp_all
    show ?thesis using spec None unfolding out by (auto simp del: set_concat)
  next
    case (Some s)
    then have run: "create_loop now rnd1 self1 = Some (sid, rnd', self')" using step 1(3) by simp
    have "sess_ok self1" using spec by blast
    from 1(1) [OF tok refl find [symmetric] Some this run] show ?thesis
      using spec by (simp del: set_concat) blast
  qed
qed

lemma createSession_spec:
  assumes "sess_ok self" "createSession now rnd self = Some (s, rnd', self')"
  shows "sess_ok self'
    \<and> (\<exists>sid. s = session_new sid now (sx_next self) \<and> (\<forall>t \<in> set (all_sessions self). ss_id t = sid \<longrightarrow> sessionExpired t now))
    \<and> sx_next self' = sx_next self + 1 \<and> sess_total self' = sess_total self
    \<and> s \<in> set (all_sessions self') \<and> set (all_sessions self') \<subseteq> insert s (set (all_sessions self))
    \<and> (\<forall>t \<in> set (all_sessions self). t \<in> set (all_sessions self') \<or> sessionExpired t now)"
proof -
  obtain sid self1 where run: "create_loop now rnd self = Some (sid, rnd', self1)"
    and s: "s = session_new sid now (sx_next self1)"
    and self': "self' = self1\<lparr>sx_buckets := (sx_buckets self1)[unat (hash sid SHT_BITS) :=
        sx_buckets self1 ! unat (hash sid SHT_BITS) @ [s]], sx_next := sx_next self1 + 1\<rparr>"
    using assms(2) by (auto simp: createSession_def Let_def split: option.splits)
  note spec = create_loop_spec [OF assms(1) run]
  then have ok: "sess_ok self1" by blast
  let ?h = "unat (hash sid SHT_BITS)"
  let ?b = "sx_buckets self1 ! ?h"
  have h: "?h < HT_SIZE SHT_BITS" "?h < length (sx_buckets self1)" using ok by (simp_all add: sess_ok_def)
  have b: "set ?b = {s \<in> set (all_sessions self1). bucket_of s = ?h}" by (rule set_bucket [OF ok h(1)])
  have all: "set (concat ((sx_buckets self1)[?h := ?b @ [s]])) = insert s (set (all_sessions self1))"
    unfolding set_update_bucket [OF ok h(1)] using b by (auto simp del: set_concat)
  have ok': "sess_ok self'" unfolding self'
  proof (rule update_bucket_ok [OF ok h(1)])
    have "distinct (map ss_id ?b)" using ok by (simp add: sess_ok_def)
    moreover have "ss_id s \<notin> ss_id ` set ?b" unfolding b using spec s by (auto simp: session_new_def simp del: set_concat)
    ultimately show "distinct (map ss_id (?b @ [s]))" by (auto simp: image_iff)
    have "ss_ref s \<notin> ss_ref ` set (all_sessions self1)"
      using all_in_ok [OF ok] s by (force simp: session_new_def simp del: set_concat)
    then show "inj_on ss_ref (set (concat ((sx_buckets self1)[?h := ?b @ [s]])))"
      unfolding all inj_on_insert using inj_refs [OF ok] by (simp del: set_concat) blast
    show "\<forall>t \<in> set (?b @ [s]). bucket_of t = ?h" using b s by (auto simp: session_new_def)
    show "\<forall>t \<in> set (?b @ [s]). ss_ref t < sx_next self1 + 1 \<and> ct_ok SPHT_BITS sp_name (ss_buckets t)"
      using b all_in_ok [OF ok] s by (fastforce simp: session_new_def ct_empty_ok simp del: set_concat)
  qed simp
  have "owned_by (concat ((sx_buckets self1)[?h := ?b @ [s]])) + {#} = owned_by (all_sessions self1)"
    using s by (intro owned_update_bucket h(2)) (simp add: deleteSession_def session_new_def ct_empty_ok)
  then have "sess_total self' = sess_total self"
    using spec self' by (simp add: sess_total_def)
  moreover have "\<exists>sid. s = session_new sid now (sx_next self)
      \<and> (\<forall>t \<in> set (all_sessions self). ss_id t = sid \<longrightarrow> sessionExpired t now)"
  proof (intro exI conjI ballI impI)
    show "s = session_new sid now (sx_next self)" using s spec by simp
    fix t assume "t \<in> set (all_sessions self)" "ss_id t = sid"
    then show "sessionExpired t now" using spec by blast
  qed
  moreover have "set (all_sessions self') = insert s (set (all_sessions self1))"
    using all self' by (simp del: set_concat)
  ultimately show ?thesis using ok' spec self' by (auto simp del: set_concat)
qed

lemma distinct_concat_buckets:
  "(\<forall>h < length bs. distinct (bs ! h) \<and> (\<forall>x \<in> set (bs ! h). f x = h)) \<Longrightarrow> distinct (concat bs)"
proof (induction bs rule: rev_induct)
  case (snoc c bs)
  have b: "\<forall>h < length bs. distinct (bs ! h) \<and> (\<forall>x \<in> set (bs ! h). f x = h)"
  proof (intro allI impI)
    fix h assume "h < length bs"
    then show "distinct (bs ! h) \<and> (\<forall>x \<in> set (bs ! h). f x = h)"
      using snoc.prems [rule_format, of h] by (simp add: nth_append)
  qed
  then have "distinct (concat bs)" by (rule snoc.IH)
  moreover have c: "distinct c" "\<forall>x \<in> set c. f x = length bs"
    using snoc.prems [rule_format, of "length bs"] by simp_all
  moreover have "f x < length bs" if "x \<in> set (concat bs)" for x
    using that b by (auto simp: in_set_conv_nth [of _ bs])
  ultimately show ?case by (force simp del: set_concat)
qed simp

lemma distinct_all: "sess_ok self \<Longrightarrow> distinct (all_sessions self)"
  by (rule distinct_concat_buckets [where f = bucket_of]) (auto simp: sess_ok_def distinct_map)

lemma owned_replace:
  "distinct xs \<Longrightarrow> s \<in> set xs \<Longrightarrow> (\<And>t. t \<in> set xs \<Longrightarrow> P t \<longleftrightarrow> t = s) \<Longrightarrow>
    owned_by (map (\<lambda>t. if P t then s' else t) xs) + mset (deleteSession s) = owned_by xs + mset (deleteSession s')"
proof (induction xs)
  case (Cons x xs)
  show ?case
  proof (cases "x = s")
    case True
    then have "map (\<lambda>t. if P t then s' else t) xs = xs" using Cons.prems by (intro map_idI) auto
    then show ?thesis using True Cons.prems by (simp add: union_ac)
  next
    case False
    then show ?thesis using Cons by (simp add: union_ac) 
  qed
qed simp

lemma session_write_spec:
  assumes "sess_ok self" "s \<in> set (all_sessions self)" "ss_ref s' = ss_ref s" "ss_id s' = ss_id s"
    "ct_ok SPHT_BITS sp_name (ss_buckets s')"
  defines "self' \<equiv> session_write self (ss_ref s) s'"
  shows "sess_ok self'"
    and "sess_map self' k = (if k = ss_id s then Some s' else sess_map self k)"
    and "session_at self' r = (if r = ss_ref s then Some s' else session_at self r)"
    and "owned_by (all_sessions self') + mset (deleteSession s) = owned_by (all_sessions self) + mset (deleteSession s')"
    and "sx_next self' = sx_next self" "sx_cleantime self' = sx_cleantime self" "sx_deleted self' = sx_deleted self"
proof -
  let ?g = "\<lambda>t. if ss_ref t = ss_ref s then s' else t"
  have g: "ss_ref t = ss_ref s \<longleftrightarrow> t = s" if "t \<in> set (all_sessions self)" for t
    using inj_refs [OF assms(1)] assms(2) that by (auto simp: inj_on_def simp del: set_concat)
  have all: "all_sessions self' = map ?g (all_sessions self)"
    by (simp add: self'_def session_write_def map_concat)
  have set: "set (all_sessions self') = insert s' (set (all_sessions self) - {s})"
    unfolding all using g assms(2) by (auto simp del: set_concat)
  have ids: "ss_id (?g t) = ss_id t" if "t \<in> set (all_sessions self)" for t
    using that assms(4) g by simp
  have b: "sx_buckets self' ! h = map ?g (sx_buckets self ! h)"
    "set (sx_buckets self ! h) \<subseteq> set (all_sessions self)" "map ss_id (sx_buckets self' ! h) = map ss_id (sx_buckets self ! h)"
    if "h < HT_SIZE SHT_BITS" for h
  proof -
    have l: "h < length (sx_buckets self)" using that assms(1) by (simp add: sess_ok_def)
    then show 1: "sx_buckets self' ! h = map ?g (sx_buckets self ! h)"
      by (simp add: self'_def session_write_def)
    show 2: "set (sx_buckets self ! h) \<subseteq> set (all_sessions self)" using nth_mem [OF l] by auto
    show "map ss_id (sx_buckets self' ! h) = map ss_id (sx_buckets self ! h)"
      unfolding 1 map_map comp_def using 2 ids by (intro map_cong refl) (rule ids, rule subsetD)
  qed
  have "inj_on ss_ref (set (all_sessions self'))"
    unfolding set inj_on_insert using inj_refs [OF assms(1)] g assms(3)
    by (auto intro: inj_on_subset simp del: set_concat) metis
  moreover have "\<forall>t \<in> set (all_sessions self'). ss_ref t < sx_next self \<and> ct_ok SPHT_BITS sp_name (ss_buckets t)"
    unfolding set using all_in_ok [OF assms(1)] assms(2,3,5) by (auto simp del: set_concat)
  moreover have "bucket_of t = h" if h: "h < HT_SIZE SHT_BITS" and t: "t \<in> set (sx_buckets self' ! h)" for h t
  proof -
    obtain u where u: "u \<in> set (sx_buckets self ! h)" "t = ?g u" using t b(1) [OF h] by auto
    then have "ss_id t = ss_id u" using ids b(2) [OF h] by blast
    then show ?thesis using u(1) assms(1) h by (simp add: sess_ok_def)
  qed
  moreover have "length (sx_buckets self') = HT_SIZE SHT_BITS" "sx_next self' = sx_next self"
    using assms(1) by (simp_all add: sess_ok_def self'_def session_write_def)
  moreover have "distinct (map ss_id (sx_buckets self' ! h))" if "h < HT_SIZE SHT_BITS" for h
    using assms(1) that unfolding b(3) [OF that] by (simp add: sess_ok_def)
  ultimately show ok: "sess_ok self'" by (simp only: sess_ok_def) blast
  show "sess_map self' k = (if k = ss_id s then Some s' else sess_map self k)"
  proof -
    have "sess_map self' k = Some t \<longleftrightarrow> (if k = ss_id s then Some s' else sess_map self k) = Some t" for t
      using sess_map_Some [OF ok] sess_map_Some [OF assms(1)] inj_ids [OF assms(1)] assms(2,4)
      unfolding set by (auto simp: inj_on_def simp del: set_concat)
    then show ?thesis by (metis option.exhaust)
  qed
  show "session_at self' r = (if r = ss_ref s then Some s' else session_at self r)"
  proof -
    have "session_at self' r = Some t \<longleftrightarrow> (if r = ss_ref s then Some s' else session_at self r) = Some t" for t
      using session_at_Some [OF ok] session_at_Some [OF assms(1)] g assms(2,3)
      unfolding set by (auto simp del: set_concat)
    then show ?thesis by (metis option.exhaust)
  qed
  show "owned_by (all_sessions self') + mset (deleteSession s) = owned_by (all_sessions self) + mset (deleteSession s')"
    unfolding all using owned_replace [OF distinct_all [OF assms(1)] assms(2) g] .
qed (simp_all add: self'_def session_write_def)

lemma session_set_spec:
  assumes "ct_ok SPHT_BITS sp_name (ss_buckets s)" "session_set s name obj d = (s', del)"
  shows "ct_ok SPHT_BITS sp_name (ss_buckets s')" "ss_ref s' = ss_ref s" "ss_id s' = ss_id s"
    "ss_ctime s' = ss_ctime s" "ss_atime s' = ss_atime s" "ss_referrer s' = ss_referrer s"
    "session_get s' k = (if k = name then obj else session_get s k)"
    "mset (deleteSession s') + mset del =
      mset (deleteSession s) + (case d of None \<Rightarrow> {#} | Some d \<Rightarrow> {#(d, obj)#})"
proof -
  have holds: "sp.holds bs = mset (concat (map sess_prop_delete (concat bs)))" for bs :: "('a, 'b) sessprop list list"
  proof -
    have "\<Sum>\<^sub># (image_mset (\<lambda>p. mset (sess_prop_delete p)) (mset ps)) = mset (concat (map sess_prop_delete ps))"
      for ps :: "('a, 'b) sessprop list"
      by (induction ps) simp_all
    then show ?thesis by (simp add: sp.holds_def)
  qed
  have s': "s' = s\<lparr>ss_buckets := ct_store SPHT_BITS sp_name (ss_buckets s)
        \<lparr>sp_name = name, sp_value = obj, sp_deleter = d\<rparr>\<rparr>"
    and del: "mset del = sp.released (ss_buckets s) name"
    using assms(2) by (auto simp: session_set_def sp.released_def sess_findProp_def split: option.splits)
  show "ct_ok SPHT_BITS sp_name (ss_buckets s')" using assms(1) by (simp add: s' ct_store_ok)
  show "session_get s' k = (if k = name then obj else session_get s k)"
    using assms(1) by (simp add: s' session_get_def sess_findProp_def ct_find_store)
  show "mset (deleteSession s') + mset del =
      mset (deleteSession s) + (case d of None \<Rightarrow> {#} | Some d \<Rightarrow> {#(d, obj)#})"
    using sp.holds_put [OF assms(1), of "\<lparr>sp_name = name, sp_value = obj, sp_deleter = d\<rparr>"]
    unfolding holds del by (simp add: s' deleteSession_def sess_prop_delete_def split: option.split)
qed (use assms(2) in \<open>auto simp: session_set_def\<close>)

section \<open>The table and what it stands for\<close>

text \<open>
  The operations as \<open>MW_Session\<close> and the handlers use them: looking a session up, using it, creating
  one, cleaning up, and setting a property through the pointer a lookup gave.
\<close>

datatype ('o, 'd) sess_op =
  SFind string
| STouch string
| SCreate
| SClean
| SSet string string "'o option" "'d option"

fun sess_step :: "int \<Rightarrow> ('o, 'd) sess_op \<Rightarrow> rnd_source \<Rightarrow> ('o, 'd) sessions \<Rightarrow>
    (('o, 'd) session option \<times> rnd_source \<times> ('o, 'd) sessions) option" where
  "sess_step now (SFind sid) rnd self =
     (case findSession sid now self of (r, self) \<Rightarrow> Some (r, rnd, self))"
| "sess_step now (STouch sid) rnd self =
     (case findSession sid now self of
        (None, self) \<Rightarrow> Some (None, rnd, self)
      | (Some s, self) \<Rightarrow> map_option (\<lambda>self. (Some s, rnd, self)) (session_touch self (ss_ref s) now))"
| "sess_step now SCreate rnd self =
     (case createSession now rnd self of
        None \<Rightarrow> None
      | Some (s, rnd, self) \<Rightarrow> Some (Some s, rnd, self))"
| "sess_step now SClean rnd self = Some (None, rnd, clean now self)"
| "sess_step now (SSet sid name obj d) rnd self =
     (case findSession sid now self of
        (None, self) \<Rightarrow> Some (None, rnd, self)
      | (Some s, self) \<Rightarrow> map_option (\<lambda>self. (Some s, rnd, self)) (Session_setProp self (ss_ref s) name obj d))"

fun sess_run :: "(int \<times> ('o, 'd) sess_op) list \<Rightarrow> rnd_source \<Rightarrow> ('o, 'd) sessions \<Rightarrow>
    (('o, 'd) session option list \<times> rnd_source \<times> ('o, 'd) sessions) option" where
  "sess_run [] rnd self = Some ([], rnd, self)"
| "sess_run ((now, op) # ops) rnd self =
     (case sess_step now op rnd self of
        None \<Rightarrow> None
      | Some (r, rnd, self) \<Rightarrow> map_option (\<lambda>(rs, rnd, self). (r # rs, rnd, self)) (sess_run ops rnd self))"

text \<open>
  The specification: a map from ids to sessions in which nothing is ever deleted; a session that
  expired is just not seen any more. \<open>n\<close> counts the sessions created.
\<close>

type_synonym ('o, 'd) sess_spec = "(string \<Rightarrow> ('o, 'd) session option) \<times> nat"

function spec_token :: "int \<Rightarrow> rnd_source \<Rightarrow> (string \<Rightarrow> ('o, 'd) session option) \<Rightarrow> (string \<times> rnd_source) option" where
  "spec_token now rnd m =
     (case next_token now rnd of
        None \<Rightarrow> None
      | Some (sid, rnd) \<Rightarrow> if live now (m sid) \<noteq> None then spec_token now rnd m else Some (sid, rnd))"
  by pat_completeness auto
termination
  by (relation "measure (\<lambda>(now, rnd, m). length (rn_answers rnd))")
    (auto simp: next_token_def split: list.splits option.splits)

declare spec_token.simps [simp del]

fun spec_step :: "int \<Rightarrow> ('o, 'd) sess_op \<Rightarrow> rnd_source \<Rightarrow> ('o, 'd) sess_spec \<Rightarrow>
    (('o, 'd) session option \<times> rnd_source \<times> ('o, 'd) sess_spec) option" where
  "spec_step now (SFind sid) rnd (m, n) = Some (live now (m sid), rnd, m, n)"
| "spec_step now (STouch sid) rnd (m, n) =
     Some (live now (m sid), rnd,
       (case live now (m sid) of None \<Rightarrow> m | Some s \<Rightarrow> m(sid \<mapsto> s\<lparr>ss_atime := now\<rparr>)), n)"
| "spec_step now SCreate rnd (m, n) =
     (case spec_token now rnd m of
        None \<Rightarrow> None
      | Some (sid, rnd) \<Rightarrow> Some (Some (session_new sid now n), rnd, m(sid \<mapsto> session_new sid now n), n + 1))"
| "spec_step now SClean rnd (m, n) = Some (None, rnd, m, n)"
| "spec_step now (SSet sid name obj d) rnd (m, n) =
     Some (live now (m sid), rnd,
       (case live now (m sid) of None \<Rightarrow> m | Some s \<Rightarrow> m(sid \<mapsto> fst (session_set s name obj d))), n)"

fun spec_run :: "(int \<times> ('o, 'd) sess_op) list \<Rightarrow> rnd_source \<Rightarrow> ('o, 'd) sess_spec \<Rightarrow>
    (('o, 'd) session option list \<times> rnd_source) option" where
  "spec_run [] rnd st = Some ([], rnd)"
| "spec_run ((now, op) # ops) rnd st =
     (case spec_step now op rnd st of
        None \<Rightarrow> None
      | Some (r, rnd, st) \<Rightarrow> map_option (\<lambda>(rs, rnd). (r # rs, rnd)) (spec_run ops rnd st))"

definition sess_rel :: "int \<Rightarrow> ('o, 'd) sessions \<Rightarrow> ('o, 'd) sess_spec \<Rightarrow> bool" where
  "sess_rel t self = (\<lambda>(m, n). sess_ok self \<and> sx_next self = n
     \<and> (\<forall>sid t'. t \<le> t' \<longrightarrow> live t' (sess_map self sid) = live t' (m sid)))"

lemma sess_relD: "sess_rel t self (m, n) \<Longrightarrow> t \<le> t' \<Longrightarrow> live t' (sess_map self sid) = live t' (m sid)"
  by (simp add: sess_rel_def)

lemma sess_rel_later: "sess_rel t self st \<Longrightarrow> t \<le> t' \<Longrightarrow> sess_rel t' self st"
  by (auto simp: sess_rel_def)

lemma option_eqI: "(\<And>x. a = Some x \<longleftrightarrow> b = Some x) \<Longrightarrow> a = b"
  by (metis option.exhaust)

lemma findSession_map:
  assumes "sess_ok self" "findSession sid now self = (r, self')"
  shows "sess_map self' k = (if k = sid then live now (sess_map self k) else sess_map self k)"
    "r = live now (sess_map self sid)"
proof -
  note spec = findSession_spec [OF assms]
  show "r = live now (sess_map self sid)"
    by (rule option_eqI) (use spec in \<open>simp add: live_Some sess_map_Some [OF assms(1)] del: set_concat\<close>)
  show "sess_map self' k = (if k = sid then live now (sess_map self k) else sess_map self k)"
    by (rule option_eqI)
      (use spec in \<open>auto simp: live_Some sess_map_Some [OF assms(1)] sess_map_Some simp del: set_concat\<close>)
qed

lemma findSession_rel:
  assumes "sess_rel now self (m, n)" "findSession sid now self = (r, self')"
  shows "r = live now (m sid)" "sess_rel now self' (m, n)"
proof -
  have ok: "sess_ok self" using assms(1) by (simp add: sess_rel_def)
  show "r = live now (m sid)"
    using findSession_map(2) [OF ok assms(2)] sess_relD [OF assms(1) order_refl] by simp
  have "live t' (live now so) = live t' so" if "now \<le> t'" for t' and so :: "('a, 'b) session option"
    using that expired_mono by (auto simp: live_def split: option.splits)
  then show "sess_rel now self' (m, n)"
    using assms(1) findSession_spec [OF ok assms(2)] findSession_map(1) [OF ok assms(2)]
    by (simp add: sess_rel_def)
qed

lemma create_loop_refines:
  "sess_rel now self (m, n) \<Longrightarrow>
    (case spec_token now rnd m of
       None \<Rightarrow> create_loop now rnd self = None
     | Some (sid, rnd') \<Rightarrow> \<exists>self'. create_loop now rnd self = Some (sid, rnd', self') \<and> sess_rel now self' (m, n))"
proof (induction now rnd self rule: create_loop.induct)
  case (1 now rnd self)
  show ?case
  proof (cases "next_token now rnd")
    case None
    then show ?thesis by (simp add: create_loop.simps [of now rnd] spec_token.simps [of now rnd])
  next
    case (Some tr)
    obtain tok rnd1 where tok: "next_token now rnd = Some (tok, rnd1)" using Some by (cases tr) simp
    obtain r self1 where find: "findSession tok now self = (r, self1)" by (cases "findSession tok now self")
    note rel = findSession_rel [OF 1(2) find]
    show ?thesis
    proof (cases r)
      case None
      then show ?thesis using rel tok find
        by (simp add: create_loop.simps [of now rnd] spec_token.simps [of now rnd])
    next
      case (Some s)
      have "create_loop now rnd self = create_loop now rnd1 self1" "spec_token now rnd m = spec_token now rnd1 m"
        using tok find [unfolded Some] rel(1) [unfolded Some, symmetric]
        by (simp_all add: create_loop.simps [of now rnd] spec_token.simps [of now rnd])
      then show ?thesis using 1(1) [OF tok refl find [symmetric] Some rel(2)] by (simp only:)
    qed
  qed
qed

lemma create_rel:
  assumes rel: "sess_rel now self (m, n)" and run: "createSession now rnd self = Some (s, rnd', self')"
  shows "sess_rel now self' (m(ss_id s \<mapsto> s), n + 1)"
proof -
  have ok: "sess_ok self" and n: "sx_next self = n" using rel by (simp_all add: sess_rel_def)
  note spec = createSession_spec [OF ok run]
  then have ok': "sess_ok self'" by blast
  obtain sid where s: "s = session_new sid now (sx_next self)" using spec by blast
  have "live t' (sess_map self' k) = live t' ((m(ss_id s \<mapsto> s)) k)" if t: "now \<le> t'" for t' k
  proof (cases "k = ss_id s")
    case True
    then have "sess_map self' k = Some s" using spec sess_map_Some [OF ok'] by blast
    then show ?thesis using True by simp
  next
    case False
    have "live t' (sess_map self' k) = Some u \<longleftrightarrow> live t' (sess_map self k) = Some u" for u
    proof -
      have "\<not> sessionExpired u t' \<Longrightarrow> \<not> sessionExpired u now" using expired_mono t by blast
      then have "\<not> sessionExpired u t' \<Longrightarrow> ss_id u = k \<Longrightarrow>
          u \<in> set (all_sessions self') \<longleftrightarrow> u \<in> set (all_sessions self)"
        using spec False by blast
      then show ?thesis by (auto simp: live_Some sess_map_Some [OF ok] sess_map_Some [OF ok'] simp del: set_concat)
    qed
    then have "live t' (sess_map self' k) = live t' (sess_map self k)" by (rule option_eqI)
    then show ?thesis using sess_relD [OF rel t] False by simp
  qed
  then show ?thesis using spec ok' n by (simp add: sess_rel_def)
qed

lemma clean_rel: "sess_rel now self (m, n) \<Longrightarrow> sess_rel now (clean now self) (m, n)"
proof -
  assume rel: "sess_rel now self (m, n)"
  then have ok: "sess_ok self" by (simp add: sess_rel_def)
  note spec = clean_spec [OF ok, of now]
  have "live t' (sess_map (clean now self) k) = live t' (sess_map self k)" if "now \<le> t'" for t' k
  proof (rule option_eqI)
    fix u
    show "live t' (sess_map (clean now self) k) = Some u \<longleftrightarrow> live t' (sess_map self k) = Some u"
      using expired_mono [of u now t'] that unfolding live_Some sess_map_Some [OF ok] sess_map_Some [OF spec(1)] spec(2)
      by blast
  qed
  then show "sess_rel now (clean now self) (m, n)" using rel spec by (simp add: sess_rel_def)
qed

lemma write_rel:
  assumes rel: "sess_rel now self (m, n)" and s: "s \<in> set (all_sessions self)"
    and s': "ss_ref s' = ss_ref s" "ss_id s' = ss_id s" "ct_ok SPHT_BITS sp_name (ss_buckets s')"
  shows "sess_rel now (session_write self (ss_ref s) s') (m(ss_id s \<mapsto> s'), n)"
proof -
  have ok: "sess_ok self" using rel by (simp add: sess_rel_def)
  note spec = session_write_spec [OF ok s s']
  show ?thesis using rel spec by (simp add: sess_rel_def)
qed

lemma sess_rel_deleted [simp]: "sess_rel t (self\<lparr>sx_deleted := d\<rparr>) st = sess_rel t self st"
  by (simp add: sess_rel_def sess_map_def split: prod.split)

lemma session_new_id [simp]: "ss_id (session_new sid now k) = sid"
  by (simp add: session_new_def)

lemma live_in:
  assumes "sess_ok self" "findSession sid now self = (Some s, self')"
  shows "s \<in> set (all_sessions self')" "session_at self' (ss_ref s) = Some s" "ss_id s = sid"
    "ct_ok SPHT_BITS sp_name (ss_buckets s)" "sess_ok self'" "\<not> sessionExpired s now"
proof -
  note spec = findSession_spec [OF assms]
  show in': "s \<in> set (all_sessions self')" and "ss_id s = sid" and ok: "sess_ok self'"
    and "\<not> sessionExpired s now"
    using spec by blast+
  show "session_at self' (ss_ref s) = Some s" using in' by (simp add: session_at_Some [OF ok] del: set_concat)
  show "ct_ok SPHT_BITS sp_name (ss_buckets s)" using all_in_ok [OF ok in'] ..
qed

lemma sess_step_refines:
  assumes rel: "sess_rel now self (m, n)"
  shows "case spec_step now op rnd (m, n) of
      None \<Rightarrow> sess_step now op rnd self = None
    | Some (r, rnd', st) \<Rightarrow> \<exists>self'. sess_step now op rnd self = Some (r, rnd', self') \<and> sess_rel now self' st"
proof (cases op)
  case (SFind sid)
  obtain r self' where find: "findSession sid now self = (r, self')" by (cases "findSession sid now self")
  show ?thesis using findSession_rel [OF rel find] find SFind by simp
next
  case (STouch sid)
  obtain r self' where find: "findSession sid now self = (r, self')" by (cases "findSession sid now self")
  note f = findSession_rel [OF rel find]
  show ?thesis
  proof (cases r)
    case None
    then show ?thesis using f find STouch by simp
  next
    case (Some s)
    have "sess_ok self" using rel by (simp add: sess_rel_def)
    note l = live_in [OF this find [unfolded Some]]
    have ls: "live now (m sid) = Some s" using f(1) Some by simp
    show ?thesis
      using ls find STouch Some l write_rel [OF f(2) l(1), of "s\<lparr>ss_atime := now\<rparr>"]
      by (simp add: session_touch_def)
  qed
next
  case SCreate
  show ?thesis
  proof (cases "spec_token now rnd m")
    case None
    then show ?thesis using create_loop_refines [OF rel, of rnd] SCreate by (simp add: createSession_def)
  next
    case (Some tr)
    obtain tok rnd1 where tok: "spec_token now rnd m = Some (tok, rnd1)" using Some by (cases tr) simp
    then obtain self1 where run: "create_loop now rnd self = Some (tok, rnd1, self1)" and "sess_rel now self1 (m, n)"
      using create_loop_refines [OF rel, of rnd] by auto
    then have "sx_next self1 = n" by (simp add: sess_rel_def)
    then obtain self' where c: "createSession now rnd self = Some (session_new tok now n, rnd1, self')"
      using run by (simp add: createSession_def Let_def)
    show ?thesis using create_rel [OF rel c] c tok SCreate by simp
  qed
next
  case SClean
  then show ?thesis using clean_rel [OF rel] by simp
next
  case (SSet sid name obj d)
  obtain r self' where find: "findSession sid now self = (r, self')" by (cases "findSession sid now self")
  note f = findSession_rel [OF rel find]
  show ?thesis
  proof (cases r)
    case None
    then show ?thesis using f find SSet by simp
  next
    case (Some s)
    have "sess_ok self" using rel by (simp add: sess_rel_def)
    note l = live_in [OF this find [unfolded Some]]
    have ls: "live now (m sid) = Some s" using f(1) Some by simp
    obtain s' del where set: "session_set s name obj d = (s', del)" by (cases "session_set s name obj d")
    note p = session_set_spec [OF l(4) set]
    show ?thesis
      using ls find SSet Some l set write_rel [OF f(2) l(1) p(2,3,1)]
      by (simp add: Session_setProp_def)
  qed
qed

lemma sess_run_refines:
  "sess_rel t self st \<Longrightarrow> sorted (t # map fst ops) \<Longrightarrow>
    map_option (\<lambda>(rs, rnd, self). (rs, rnd)) (sess_run ops rnd self) = spec_run ops rnd st"
proof (induction ops arbitrary: t rnd self st)
  case (Cons o' ops)
  obtain now op where o': "o' = (now, op)" by (cases o')
  obtain m n where st: "st = (m, n)" by (cases st)
  have rel: "sess_rel now self (m, n)" using Cons.prems sess_rel_later o' st by auto
  have sorted: "sorted (now # map fst ops)" using Cons.prems o' by auto
  note step = sess_step_refines [OF rel, of op rnd]
  show ?case
  proof (cases "spec_step now op rnd (m, n)")
    case None
    then show ?thesis using step o' st by simp
  next
    case (Some x)
    obtain r rnd1 st1 where x: "x = (r, rnd1, st1)" by (cases x)
    obtain self1 where s1: "sess_step now op rnd self = Some (r, rnd1, self1)" "sess_rel now self1 st1"
      using step Some x by auto
    have "spec_run ops rnd1 st1 = map_option (\<lambda>(rs, rnd, self). (rs, rnd)) (sess_run ops rnd1 self1)"
      using Cons.IH [OF s1(2) sorted] by simp
    then show ?thesis using o' st Some x s1(1)
      by (cases "sess_run ops rnd1 self1") auto
  qed
qed simp

text \<open>What a run sets with a deleter, and the conservation of what sessions own.\<close>

fun set_objs :: "('o, 'd) sess_op list \<Rightarrow> ('o, 'd) session option list \<Rightarrow> ('d \<times> 'o option) list" where
  "set_objs (SSet sid name obj (Some d) # ops) (Some s # rs) = (d, obj) # set_objs ops rs"
| "set_objs (op # ops) (r # rs) = set_objs ops rs"
| "set_objs _ _ = []"

lemma sess_step_total:
  assumes ok: "sess_ok self" and step: "sess_step now op rnd self = Some (r, rnd', self')"
  shows "sess_ok self' \<and> sess_total self' = sess_total self + mset (set_objs [op] [r])"
proof (cases op)
  case (SFind sid)
  then show ?thesis using findSession_spec [OF ok] step by (auto split: prod.splits simp del: set_concat)
next
  case SCreate
  then show ?thesis using createSession_spec [OF ok] step by (auto split: option.splits simp del: set_concat)
next
  case SClean
  then show ?thesis using clean_spec [OF ok, of now] step by auto
next
  case (STouch sid)
  obtain r0 self1 where find: "findSession sid now self = (r0, self1)" by (cases "findSession sid now self")
  note f = findSession_spec [OF ok find]
  show ?thesis
  proof (cases r0)
    case None
    then show ?thesis using f find STouch step by (simp del: set_concat)
  next
    case (Some s)
    note l = live_in [OF ok find [unfolded Some]]
    have "mset (deleteSession (s\<lparr>ss_atime := now\<rparr>)) = mset (deleteSession s)" by (simp add: deleteSession_def)
    then show ?thesis
      using f find STouch Some step l session_write_spec [OF l(5,1), of "s\<lparr>ss_atime := now\<rparr>"]
      by (simp add: session_touch_def sess_total_def del: set_concat)
  qed
next
  case (SSet sid name obj d)
  obtain r0 self1 where find: "findSession sid now self = (r0, self1)" by (cases "findSession sid now self")
  note f = findSession_spec [OF ok find]
  show ?thesis
  proof (cases r0)
    case None
    then show ?thesis using f find SSet step by (cases d) (simp_all del: set_concat)
  next
    case (Some s)
    note l = live_in [OF ok find [unfolded Some]]
    obtain s' del where set: "session_set s name obj d = (s', del)" by (cases "session_set s name obj d")
    note p = session_set_spec [OF l(4) set]
    let ?self2 = "session_write self1 (ss_ref s) s'"
    note w = session_write_spec [OF l(5,1) p(2,3,1)]
    have out: "r = Some s" "self' = ?self2\<lparr>sx_deleted := sx_deleted ?self2 @ del\<rparr>"
      using find SSet Some step l(2) set w(7) by (simp_all add: Session_setProp_def)
    have "owned_by (all_sessions ?self2) + mset del + mset (deleteSession s) =
        owned_by (all_sessions self1) + (mset (deleteSession s') + mset del)"
      using w(4) by (simp add: union_ac)
    also have "\<dots> = owned_by (all_sessions self1) + (case d of None \<Rightarrow> {#} | Some d \<Rightarrow> {#(d, obj)#}) + mset (deleteSession s)"
      unfolding p(8) by (simp only: union_ac)
    finally have "owned_by (all_sessions ?self2) + mset del =
        owned_by (all_sessions self1) + (case d of None \<Rightarrow> {#} | Some d \<Rightarrow> {#(d, obj)#})" by simp
    then have "sess_total self' = sess_total self1 + (case d of None \<Rightarrow> {#} | Some d \<Rightarrow> {#(d, obj)#})"
      using w(7) by (simp add: out(2) sess_total_def union_ac)
    then show ?thesis using out(1) w(1) f SSet by (cases d) (simp_all add: out(2) del: set_concat)
  qed
qed

lemma set_objs_Cons: "mset (set_objs (op # ops) (r # rs)) = mset (set_objs [op] [r]) + mset (set_objs ops rs)"
  by (cases "(op # ops, r # rs)" rule: set_objs.cases) auto

lemma sess_run_total:
  "sess_ok self \<Longrightarrow> sess_run ops rnd self = Some (rs, rnd', self') \<Longrightarrow>
    sess_ok self' \<and> sess_total self' = sess_total self + mset (set_objs (map snd ops) rs)"
proof (induction ops arbitrary: rnd self rs)
  case (Cons o' ops)
  obtain now op where o': "o' = (now, op)" by (cases o')
  obtain r rnd1 self1 rs1 where step: "sess_step now op rnd self = Some (r, rnd1, self1)"
    and run: "sess_run ops rnd1 self1 = Some (rs1, rnd', self')" and rs: "rs = r # rs1"
    using Cons.prems(2) o' by (auto split: option.splits)
  have t: "sess_ok self1" "sess_total self1 = sess_total self + mset (set_objs [op] [r])"
    using sess_step_total [OF Cons.prems(1) step] by blast+
  have "sess_ok self'" "sess_total self' = sess_total self1 + mset (set_objs (map snd ops) rs1)"
    using Cons.IH [OF t(1) run] by blast+
  then show ?case unfolding o' rs list.map snd_conv set_objs_Cons [of op "map snd ops" r rs1] t(2) by (metis union_assoc)
qed simp

lemma run_result:
  "map_option (\<lambda>(rs, rnd, self). (rs, rnd)) r = Some (rs, rnd) \<Longrightarrow> \<exists>self. r = Some (rs, rnd, self)"
  by (cases r) auto

lemma sess_ok_started: "sess_ok (sessions_static\<lparr>sx_cleantime := t0\<rparr>)"
  by simp

section \<open>Properties\<close>

text \<open>
  C20: the session table is invisible. Whatever lookups, uses, creations, cleanups and property
  changes happen at times that do not go back, they give the results of a plain map from ids to
  sessions in which nothing is deleted and a session is seen until it was idle for more than 3600
  or alive for more than 43200 seconds; chains, unlinking and cleaning have no visible effect.
\<close>

theorem session_table_refines:
  fixes ops :: "(int \<times> ('o, 'd) sess_op) list"
  assumes "sorted (map fst ops)"
  shows "map_option (\<lambda>(rs, rnd, self). (rs, rnd)) (sess_run ops rnd (sessions_static\<lparr>sx_cleantime := t0\<rparr>))
    = spec_run ops rnd (Map.empty, 0)"
proof (rule sess_run_refines)
  let ?t = "case ops of [] \<Rightarrow> 0 | (now, op) # _ \<Rightarrow> now"
  let ?s = "sessions_static\<lparr>sx_cleantime := t0\<rparr> :: ('o, 'd) sessions"
  have "sess_map ?s sid = None" "sx_next ?s = 0" for sid
    by (simp_all add: sess_map_def sessions_static_def ct_empty_ok)
  then show "sess_rel ?t ?s (Map.empty, 0)" by (simp add: sess_rel_def live_def)
  show "sorted (?t # map fst ops)" using assms by (cases ops) auto
qed

theorem session_table_refines_witness:
  "\<forall>rnd. \<exists>self. sess_run [(5, SFind ''x''), (1000, SClean), (1000, STouch ''y'')] rnd (sessions_static\<lparr>sx_cleantime := 0\<rparr>)
     = Some ([None, None, None] :: (string, unit) session option list, rnd, self)"
proof (intro allI, rule run_result)
  fix rnd
  let ?ops = "[(5, SFind ''x''), (1000, SClean), (1000, STouch ''y'')] :: (int \<times> (string, unit) sess_op) list"
  have "spec_run ?ops rnd (Map.empty, 0) = Some ([None, None, None], rnd)" by (simp add: live_def)
  then show "map_option (\<lambda>(rs, rnd, self). (rs, rnd)) (sess_run ?ops rnd (sessions_static\<lparr>sx_cleantime := 0\<rparr>))
      = Some ([None, None, None], rnd)"
    using session_table_refines [of ?ops rnd 0] by simp
qed

text \<open>
  Sessions delete what they are given. After any run from the empty table and the final
  \<open>MW_Session_done\<close>, every object that was set as a property with a deleter was passed to its
  deleter exactly once, whether it was replaced, its session expired, or it was still there.
\<close>

theorem sessions_delete_once:
  "case sess_run ops rnd (sessions_static\<lparr>sx_cleantime := t0\<rparr>) of
     None \<Rightarrow> True
   | Some (rs, rnd', self) \<Rightarrow>
       mset (sx_deleted (MW_Session_done self)) = mset (set_objs (map snd ops) rs)
       \<and> all_sessions (MW_Session_done self) = []"
proof (cases "sess_run ops rnd (sessions_static\<lparr>sx_cleantime := t0\<rparr>)")
  case (Some x)
  obtain rs rnd' self where x: "x = (rs, rnd', self)" by (cases x)
  have "sess_total self = sess_total (sessions_static\<lparr>sx_cleantime := t0\<rparr>) + mset (set_objs (map snd ops) rs)"
    using sess_run_total [OF sess_ok_started Some [unfolded x]] by blast
  moreover have "sess_total (sessions_static\<lparr>sx_cleantime := t0\<rparr>) = ({#} :: ('b \<times> 'a option) multiset)"
    by (simp add: sess_total_def sessions_static_def ct_empty_ok)
  moreover have "mset (sx_deleted (MW_Session_done self)) = sess_total self"
    by (simp add: MW_Session_done_def sess_total_def owned_by_def)
  moreover have "all_sessions (MW_Session_done self) = []" by (simp add: MW_Session_done_def)
  ultimately show ?thesis using Some x by simp
qed simp


definition ex_sessions :: "(string, unit) sessions" where
  "ex_sessions = sessions_static\<lparr>sx_buckets := (sx_buckets sessions_static)[unat (hash ''x'' SHT_BITS) :=
     [(session_new ''x'' 0 0)\<lparr>ss_atime := 43000\<rparr>]], sx_next := 1\<rparr>"


end
