(* ===== verification/Proxy_List.thy ===== *)
theory Proxy_List
  imports Header_Set
begin

text \<open>
  \<open>proxylist.c\<close>: the addresses a request came through, from the \<open>X-Forwarded-For\<close> or the
  \<open>Forwarded\<close> (RFC 7239) headers that proxies add. The functions that keep the list in the context
  are in \<open>Middleware\<close>; here is what they compute. A poser list is the list of its elements. Writing
  behind the buffer of 512 bytes on the stack, or reading an uninitialised one, is \<^term>\<open>None\<close>.
\<close>

section \<open>Data\<close>

type_synonym proxyheader = "8 word"

definition PH_XFWD :: proxyheader where
  "PH_XFWD = push_bit 0 1"

definition PH_RFC :: proxyheader where
  "PH_RFC = push_bit 1 1"

definition PH_PREFRFC :: proxyheader where
  "PH_PREFRFC = push_bit 2 1"

record trustconfig =
  tc_ntrusted :: nat
  tc_header :: proxyheader

record remoteentry =
  re_addr :: string
  re_host :: "string option"

definition ENTRY_BUFSZ :: nat where
  "ENTRY_BUFSZ = 512"

definition HDR_BUFSZ :: nat where
  "HDR_BUFSZ = 8192"

definition MAXADDR :: nat where
  "MAXADDR = 16"

section \<open>One entry of a header\<close>

text \<open>
  \<open>stripRfc7239\<close> looks for the \<open>for=\<close> of an entry; the result is the part behind it. The entry lies
  in a buffer with a NUL behind it, so that comparing four characters does not match beyond it.
\<close>

function strip_loop :: "nat \<Rightarrow> bool \<Rightarrow> bool \<Rightarrow> nat \<Rightarrow> string \<Rightarrow> string" where
  "strip_loop i quote esc cpos entry =
     (if i < length entry
      then
        (if esc then strip_loop (i + 1) quote False cpos entry
         else if entry ! i = CHR 0x22 then strip_loop (i + 1) (\<not> quote) False cpos entry
         else if entry ! i = CHR 0x5C then strip_loop (i + 1) quote True cpos entry
         else if entry ! i = CHR '';''
         then
           (if \<not> quote
            then
              (let entry = entry[i := NUL]
               in if strncaseeq (drop cpos entry) ''for='' 4
                  then take (i - (cpos + 4)) (drop (cpos + 4) entry)
                  else strip_loop (i + 2) quote False (i + 1) entry)
            else strip_loop (i + 2) quote False (i + 1) entry)
         else strip_loop (i + 1) quote False cpos entry)
      else if cpos < length entry \<and> strncaseeq (drop cpos entry) ''for='' 4 then drop (cpos + 4) entry
      else [])"
  by pat_completeness auto
termination
  by (relation "measure (\<lambda>(i, quote, esc, cpos, entry). length entry - i)") auto

declare strip_loop.simps [simp del]

definition stripRfc7239 :: "string \<Rightarrow> string" where
  "stripRfc7239 entry = (if entry = [] then entry else strip_loop 0 False False 0 entry)"

text \<open>
  The loop of \<open>parseEntry\<close> over the characters: what it collects in \<open>buf\<close>, how many colons it has
  seen and where the last one would go. \<open>bracket\<close> is -1 once a character was taken outside brackets.
\<close>

fun entry_loop :: "string \<Rightarrow> bool \<Rightarrow> int \<Rightarrow> string \<Rightarrow> nat \<Rightarrow> nat \<Rightarrow> (string \<times> nat \<times> nat) option" where
  "entry_loop [] esc bracket buf ncolons lastcolon = Some (buf, ncolons, lastcolon)"
| "entry_loop (c # entry) esc bracket buf ncolons lastcolon =
     (let takechar = (\<lambda>bracket ncolons lastcolon.
            if length buf < ENTRY_BUFSZ then entry_loop entry False bracket (buf @ [c]) ncolons lastcolon else None)
      in if esc then takechar (if bracket = 0 then -1 else bracket) ncolons lastcolon
         else if c = CHR 0x5C then entry_loop entry True bracket buf ncolons lastcolon
         else if c = CHR 0x22 then entry_loop entry False bracket buf ncolons lastcolon
         else if c = CHR ''['' then
           (if bracket \<ge> 0 then entry_loop entry False (bracket + 1) buf ncolons lastcolon
            else takechar bracket ncolons lastcolon)
         else if c = CHR '']'' then
           (if bracket > 0
            then (if bracket - 1 = 0 then Some (buf, ncolons, lastcolon)
                  else entry_loop entry False (bracket - 1) buf ncolons lastcolon)
            else takechar bracket ncolons lastcolon)
         else if c = CHR '':'' then
           takechar (if bracket = 0 then -1 else bracket) (ncolons + 1) (length buf)
         else takechar (if bracket = 0 then -1 else bracket) ncolons lastcolon)"

definition parseEntry :: "string \<Rightarrow> bool \<Rightarrow> string option option" where
  "parseEntry entry rfc7239 =
     (let entry = (if rfc7239 then stripRfc7239 entry else entry)
      in if entry = [] then Some None
         else
           (case entry_loop entry False 0 [] 0 0 of
              None \<Rightarrow> None
            | Some (buf, ncolons, lastcolon) \<Rightarrow>
                (let buf = (if ncolons = 1 then take lastcolon buf else buf)
                 in if length buf \<ge> ENTRY_BUFSZ then None
                    else Some (if buf \<noteq> [] then Some buf else None))))"

section \<open>One header\<close>

fun escaped_scan :: "string \<Rightarrow> nat \<Rightarrow> nat \<Rightarrow> nat" where
  "escaped_scan buf 0 bscount = bscount"
| "escaped_scan buf (Suc i) bscount =
     (if buf ! i \<noteq> CHR 0x5C then bscount else escaped_scan buf i (bscount + 1))"

definition escaped :: "string \<Rightarrow> nat \<Rightarrow> bool" where
  "escaped buf i \<longleftrightarrow> escaped_scan buf i 0 mod 2 \<noteq> 0"

text \<open>
  \<open>hdrEntry\<close> takes the last entry off the buffer: the entry and what is left before its comma, or
  \<^term>\<open>None\<close> when a quote is not closed. The second argument is where the scan stands.
\<close>

fun hdr_scan :: "string \<Rightarrow> nat \<Rightarrow> bool \<Rightarrow> bool \<Rightarrow> (string \<times> string) option" where
  "hdr_scan buf 0 quote rfc7239 = (if \<not> quote then Some (buf, []) else None)"
| "hdr_scan buf (Suc i) quote rfc7239 =
     (if buf ! i = CHR 0x22
      then hdr_scan buf i (if rfc7239 \<and> \<not> escaped buf i then \<not> quote else quote) rfc7239
      else if buf ! i = CHR '','' \<and> \<not> quote
      then Some (dropWhile (\<lambda>c. c = CHR '' '') (drop (i + 1) buf), take i buf)
      else hdr_scan buf i quote rfc7239)"

definition hdrEntry :: "string \<Rightarrow> bool \<Rightarrow> (string \<times> string) option" where
  "hdrEntry buf rfc7239 = hdr_scan buf (length buf) False rfc7239"

lemma hdr_scan_shorter: "hdr_scan buf i quote rfc = Some (e, rest) \<Longrightarrow> i \<le> length buf \<Longrightarrow> buf \<noteq> [] \<Longrightarrow> length rest < length buf"
  by (induction buf i quote rfc rule: hdr_scan.induct) (auto split: if_splits)

text \<open>The loop of \<open>parseHdrVal\<close>: the addresses from the last one on, and whether an entry was bad.\<close>

function hdr_loop :: "nat \<Rightarrow> string \<Rightarrow> bool \<Rightarrow> string list \<Rightarrow> (string list \<times> bool) option" where
  "hdr_loop n buf rfc7239 addr =
     (if buf \<noteq> [] \<and> length addr < n
      then (case hdrEntry buf rfc7239 of
              None \<Rightarrow> Some (addr, False)
            | Some (entry, rest) \<Rightarrow>
                (case parseEntry entry rfc7239 of
                   None \<Rightarrow> None
                 | Some None \<Rightarrow> Some (addr, False)
                 | Some (Some entryAddr) \<Rightarrow> hdr_loop n rest rfc7239 (addr @ [entryAddr])))
      else Some (addr, True))"
  by pat_completeness auto
termination
  by (relation "measure (\<lambda>(n, buf, rfc, addr). length buf)") (auto simp: hdrEntry_def dest: hdr_scan_shorter)

declare hdr_loop.simps [simp del]

definition parseHdrVal :: "nat \<Rightarrow> string \<Rightarrow> bool \<Rightarrow> (string list \<times> bool) option" where
  "parseHdrVal n val rfc7239 =
     (let hdrlen = length val;
          val = (if hdrlen \<ge> HDR_BUFSZ then drop (hdrlen - HDR_BUFSZ + 1) val else val)
      in hdr_loop n val rfc7239 [])"

section \<open>All headers\<close>

text \<open>
  \<open>proxyAddr\<close> keeps the last 16 values in a ring and parses them from the last one back, until an
  entry is bad, 16 addresses were found or all values were seen.
\<close>

fun ring_fill :: "nat \<Rightarrow> nat \<Rightarrow> string option list \<Rightarrow> string list \<Rightarrow> nat \<times> nat \<times> string option list" where
  "ring_fill hdrValCount lastHdrVal hdrVal [] = (hdrValCount, lastHdrVal, hdrVal)"
| "ring_fill hdrValCount lastHdrVal hdrVal (v # vs) =
     ring_fill (hdrValCount + 1) (hdrValCount mod MAXADDR) (hdrVal[hdrValCount mod MAXADDR := Some v]) vs"

fun ring_parse :: "nat \<Rightarrow> nat \<Rightarrow> string option list \<Rightarrow> bool \<Rightarrow> string list \<Rightarrow> string list option" where
  "ring_parse 0 lastHdrVal hdrVal rfc7239 addr = Some addr"
| "ring_parse (Suc hdrValCount) lastHdrVal hdrVal rfc7239 addr =
     (case hdrVal ! lastHdrVal of
        None \<Rightarrow> None
      | Some val \<Rightarrow>
          (case parseHdrVal (MAXADDR - length addr) val rfc7239 of
             None \<Rightarrow> None
           | Some (parsed, ok) \<Rightarrow>
               (let addr = addr @ parsed
                in if \<not> ok \<or> parsed = [] \<or> length addr = MAXADDR then Some addr
                   else ring_parse hdrValCount (if lastHdrVal \<noteq> 0 then lastHdrVal - 1 else MAXADDR - 1)
                          hdrVal rfc7239 addr)))"

definition proxyAddr :: "string list \<Rightarrow> bool \<Rightarrow> remoteentry list option option" where
  "proxyAddr vals rfc7239 =
     (let (hdrValCount, lastHdrVal, hdrVal) = ring_fill 0 0 (replicate MAXADDR None) vals;
          hdrValCount = (if hdrValCount > MAXADDR then MAXADDR else hdrValCount)
      in case ring_parse hdrValCount lastHdrVal hdrVal rfc7239 [] of
           None \<Rightarrow> None
         | Some addr \<Rightarrow>
             Some (if addr \<noteq> [] then Some (map (\<lambda>a. \<lparr>re_addr = a, re_host = None\<rparr>) (rev addr)) else None))"

text \<open>The values of a header, in the order its iterator visits them.\<close>

definition header_values :: "headerset \<Rightarrow> string \<Rightarrow> string list option" where
  "header_values hdrs name =
     map_option (map h_value) (hs_visit (length (concat (hs_buckets hdrs)) + 1) hdrs (HeaderSet_any name))"

definition proxy_headernm :: "bool \<Rightarrow> string" where
  "proxy_headernm rfc7239 = (if rfc7239 then ''Forwarded'' else ''X-Forwarded-For'')"

definition proxies_of :: "headerset \<Rightarrow> bool \<Rightarrow> remoteentry list option option" where
  "proxies_of hdrs rfc7239 =
     Option.bind (header_values hdrs (proxy_headernm rfc7239)) (\<lambda>vals. proxyAddr vals rfc7239)"

definition ph_trusted :: "proxyheader \<Rightarrow> bool \<Rightarrow> bool" where
  "ph_trusted trustedHeader rfc7239 \<longleftrightarrow>
     \<not> rfc7239 \<and> trustedHeader AND PH_XFWD \<noteq> 0 \<or> rfc7239 \<and> trustedHeader AND PH_RFC \<noteq> 0"

text \<open>What \<open>ProxyList_get\<close> computes when the context has no list yet.\<close>

definition proxy_list :: "trustconfig option \<Rightarrow> headerset \<Rightarrow> string \<Rightarrow> string option \<Rightarrow> remoteentry list option" where
  "proxy_list trusted hdrs remoteAddr remoteHost =
     (let trustedHeader = (case trusted of None \<Rightarrow> PH_XFWD OR PH_RFC | Some cfg \<Rightarrow> tc_header cfg);
          rfc7239 = (trustedHeader AND PH_PREFRFC \<noteq> 0)
      in Option.bind (if ph_trusted trustedHeader rfc7239 then proxies_of hdrs rfc7239 else Some None) (\<lambda>proxyList.
         Option.bind
           (case proxyList of
              Some _ \<Rightarrow> Some proxyList
            | None \<Rightarrow> if ph_trusted trustedHeader (\<not> rfc7239) then proxies_of hdrs (\<not> rfc7239) else Some None) (\<lambda>proxyList.
         Some ((case proxyList of None \<Rightarrow> [] | Some l \<Rightarrow> l) @ [\<lparr>re_addr = remoteAddr, re_host = remoteHost\<rparr>]))))"

definition proxy_firstTrusted :: "trustconfig option \<Rightarrow> remoteentry list \<Rightarrow> nat" where
  "proxy_firstTrusted cfg proxies =
     (let ntrusted = (case cfg of None \<Rightarrow> 0 | Some cfg \<Rightarrow> tc_ntrusted cfg);
          nremotes = length proxies
      in if nremotes > ntrusted + 1 then nremotes - ntrusted - 1 else 0)"

section \<open>Lemmas\<close>

subsection \<open>Entries\<close>

definition addr_char :: "char \<Rightarrow> bool" where
  "addr_char c \<longleftrightarrow> c \<notin> set ''[],; '' \<and> c \<noteq> CHR 0x22 \<and> c \<noteq> CHR 0x5C"

text \<open>An address as a proxy writes it, and how it writes it.\<close>

definition addr_ok :: "string \<Rightarrow> bool" where
  "addr_ok a \<longleftrightarrow> a \<noteq> [] \<and> length a < 500 \<and> list_all addr_char a \<and> count_list a CHR '':'' \<noteq> 1"

definition hop_text :: "bool \<Rightarrow> string \<Rightarrow> string" where
  "hop_text rfc a =
     (if \<not> rfc then a
      else if CHR '':'' \<in> set a then ''for='' @ [CHR 0x22] @ ''['' @ a @ '']'' @ [CHR 0x22]
      else ''for='' @ a)"

definition append_hop :: "bool \<Rightarrow> string \<Rightarrow> string \<Rightarrow> string" where
  "append_hop rfc t a = (if t = [] then hop_text rfc a else t @ '', '' @ hop_text rfc a)"

lemma entry_loop_addr_char:
  "addr_char c \<Longrightarrow> entry_loop (c # e) False b buf nc lc =
    (if length buf < ENTRY_BUFSZ
     then entry_loop e False (if b = 0 then -1 else b) (buf @ [c])
       (if c = CHR '':'' then nc + 1 else nc) (if c = CHR '':'' then length buf else lc)
     else None)"
  by (auto simp: addr_char_def Let_def)

declare entry_loop.simps(2) [simp del]

lemma entry_loop_run:
  "list_all addr_char e \<Longrightarrow> b \<noteq> 0 \<Longrightarrow> length buf + length e \<le> ENTRY_BUFSZ \<Longrightarrow>
    \<exists>lc'. entry_loop (e @ r) False b buf nc lc = entry_loop r False b (buf @ e) (nc + count_list e CHR '':'') lc'"
proof (induction e arbitrary: buf nc lc)
  case (Cons c e)
  let ?nc = "if c = CHR '':'' then nc + 1 else nc" and ?lc = "if c = CHR '':'' then length buf else lc"
  have c: "addr_char c" "list_all addr_char e" "length buf < ENTRY_BUFSZ" "length (buf @ [c]) + length e \<le> ENTRY_BUFSZ"
    using Cons.prems by simp_all
  have "entry_loop ((c # e) @ r) False b buf nc lc = entry_loop (e @ r) False b (buf @ [c]) ?nc ?lc"
    using c Cons.prems(2) by (simp add: entry_loop_addr_char)
  moreover obtain lc' where "entry_loop (e @ r) False b (buf @ [c]) ?nc ?lc =
      entry_loop r False b ((buf @ [c]) @ e) (?nc + count_list e CHR '':'') lc'"
    using Cons.IH [OF c(2) Cons.prems(2) c(4), of ?nc ?lc] by blast
  ultimately have "entry_loop ((c # e) @ r) False b buf nc lc =
      entry_loop r False b (buf @ c # e) (nc + count_list (c # e) CHR '':'') lc'" by (simp split: if_splits)
  then show ?case by blast
qed auto

lemma entry_loop_addr:
  assumes "addr_ok a"
  shows "\<exists>lc. entry_loop a False 0 [] 0 0 = Some (a, count_list a CHR '':'', lc)"
proof -
  obtain c e where a: "a = c # e" and c: "addr_char c" "list_all addr_char e"
    using assms by (cases a) (auto simp: addr_ok_def)
  have "length a < 500" using assms by (simp add: addr_ok_def)
  then have "length [c] + length e \<le> ENTRY_BUFSZ" using a by (simp add: ENTRY_BUFSZ_def)
  note run = entry_loop_run [OF c(2) _ this, of "-1" "[]"]
  show ?thesis
    using run [of "if c = CHR '':'' then 1 else 0" 0] c(1) unfolding a
    by (auto simp: entry_loop_addr_char ENTRY_BUFSZ_def)
qed

lemma entry_loop_brackets:
  assumes "addr_ok a"
  shows "\<exists>lc. entry_loop ([CHR 0x22] @ ''['' @ a @ '']'' @ [CHR 0x22]) False 0 [] 0 0
    = Some (a, count_list a CHR '':'', lc)"
proof -
  have "length [] + length a \<le> ENTRY_BUFSZ" "list_all addr_char a"
    using assms by (simp_all add: addr_ok_def ENTRY_BUFSZ_def)
  then obtain lc where "entry_loop (a @ '']'' @ [CHR 0x22]) False 1 [] 0 0 =
      entry_loop ('']'' @ [CHR 0x22]) False 1 ([] @ a) (0 + count_list a CHR '':'') lc"
    using entry_loop_run [of a 1 "[]" "'']'' @ [CHR 0x22]" 0 0] by auto
  then show ?thesis by (simp add: entry_loop.simps(2))
qed

lemma strip_loop_run:
  "\<forall>k < length e. e ! k \<notin> {CHR 0x22, CHR 0x5C, CHR '';''} \<Longrightarrow> entry = u @ e @ w \<Longrightarrow>
    strip_loop (length u) q False cpos entry = strip_loop (length u + length e) q False cpos entry"
proof (induction e arbitrary: u)
  case (Cons c e)
  have "c \<notin> {CHR 0x22, CHR 0x5C, CHR '';''}" using Cons.prems(1) by (metis length_greater_0_conv list.discI nth_Cons_0)
  moreover have "entry ! length u = c" "length u < length entry" using Cons.prems(2) by simp_all
  ultimately have "strip_loop (length u) q False cpos entry = strip_loop (length u + 1) q False cpos entry"
    by (simp add: strip_loop.simps [of "length u"])
  moreover have "\<forall>k < length e. e ! k \<notin> {CHR 0x22, CHR 0x5C, CHR '';''}"
    using Cons.prems(1) by (metis Suc_less_eq length_Cons nth_Cons_Suc)
  ultimately show ?case using Cons.IH [of "u @ [c]"] Cons.prems(2) by simp
qed simp

lemma strip_quote:
  "entry = u @ CHR 0x22 # w \<Longrightarrow>
    strip_loop (length u) q False cpos entry = strip_loop (length u + 1) (\<not> q) False cpos entry"
  by (simp add: strip_loop.simps [of "length u"])

lemma strip_end:
  "strip_loop (length entry) q False 0 entry =
    (if entry \<noteq> [] \<and> strncaseeq entry ''for='' 4 then drop 4 entry else [])"
  by (simp add: strip_loop.simps [of "length entry"])

lemma addr_no_special: "list_all addr_char a \<Longrightarrow> \<forall>k < length a. a ! k \<notin> {CHR 0x22, CHR 0x5C, CHR '';''}"
  by (auto simp: list_all_length addr_char_def)

lemma strip_for: "strncaseeq (''for='' @ e) ''for='' 4"
  by (simp add: strncaseeq_def)

lemma strip_hop:
  assumes "addr_ok a"
  shows "stripRfc7239 (hop_text True a) = drop 4 (hop_text True a)"
proof -
  have a: "list_all addr_char a" using assms by (simp add: addr_ok_def)
  show ?thesis
  proof (cases "CHR '':'' \<in> set a")
    case False
    have "\<forall>k < length (''for='' @ a). (''for='' @ a) ! k \<notin> {CHR 0x22, CHR 0x5C, CHR '';''}"
      using a by (intro addr_no_special) (simp add: addr_char_def)
    then show ?thesis
      using strip_loop_run [of "''for='' @ a" "''for='' @ a" "[]" "[]" False 0] strip_end [of "''for='' @ a" False] False
        strip_for [of a]
      by (simp add: stripRfc7239_def hop_text_def)
  next
    case True
    let ?b = "''['' @ a @ '']''" and ?q = "CHR 0x22"
    let ?e = "''for='' @ [?q] @ ?b @ [?q]"
    have b: "\<forall>k < length ?b. ?b ! k \<notin> {CHR 0x22, CHR 0x5C, CHR '';''}"
      using a by (auto simp: addr_char_def list_all_length nth_Cons nth_append split: nat.splits)
    have 1: "strip_loop 0 False False 0 ?e = strip_loop 4 False False 0 ?e"
      using strip_loop_run [of "''for=''" ?e "[]" "[?q] @ ?b @ [?q]" False 0]
      by (simp add: numeral_eq_Suc less_Suc_eq)
    have 2: "strip_loop 4 False False 0 ?e = strip_loop 5 True False 0 ?e"
      using strip_quote [of ?e "''for=''" "?b @ [?q]" False 0] by (simp add: numeral_eq_Suc)
    have 3: "strip_loop 5 True False 0 ?e = strip_loop (5 + length ?b) True False 0 ?e"
      using strip_loop_run [OF b, of ?e "''for='' @ [?q]" "[?q]" True 0] by (simp add: numeral_eq_Suc)
    have 4: "strip_loop (5 + length ?b) True False 0 ?e = strip_loop (length ?e) False False 0 ?e"
      using strip_quote [of ?e "''for='' @ [?q] @ ?b" "[]" True 0] by (simp add: numeral_eq_Suc)
    have "strip_loop 0 False False 0 ?e = drop 4 ?e"
      unfolding 1 2 3 4 strip_end using strip_for [of "[?q] @ ?b @ [?q]"] by simp
    then show ?thesis using True by (simp add: stripRfc7239_def hop_text_def)
  qed
qed

lemma parse_hop:
  assumes "addr_ok a"
  shows "parseEntry (hop_text rfc a) rfc = Some (Some a)"
proof -
  have a: "a \<noteq> []" "count_list a CHR '':'' \<noteq> 1" "length a < ENTRY_BUFSZ"
    using assms by (simp_all add: addr_ok_def ENTRY_BUFSZ_def)
  let ?e = "if rfc then stripRfc7239 (hop_text rfc a) else hop_text rfc a"
  have "\<exists>lc. entry_loop ?e False 0 [] 0 0 = Some (a, count_list a CHR '':'', lc)"
    using entry_loop_addr [OF assms] entry_loop_brackets [OF assms] strip_hop [OF assms]
    by (auto simp: hop_text_def)
  moreover have "?e \<noteq> []" using strip_hop [OF assms] a(1) by (auto simp: hop_text_def)
  ultimately show ?thesis using a by (auto simp: parseEntry_def)
qed

subsection \<open>Headers, from the end\<close>

lemma scan_plain:
  "list_all (\<lambda>c. c \<noteq> CHR '','' \<and> c \<noteq> CHR 0x22) e \<Longrightarrow>
    hdr_scan (u @ e @ w) (length u + length e) q rfc = hdr_scan (u @ e @ w) (length u) q rfc"
proof (induction e arbitrary: w rule: rev_induct)
  case (snoc c e)
  have "(u @ (e @ [c]) @ w) ! (length u + length e) = c" by (simp add: nth_append)
  then have "hdr_scan (u @ (e @ [c]) @ w) (length u + length (e @ [c])) q rfc =
      hdr_scan (u @ (e @ [c]) @ w) (length u + length e) q rfc"
    using snoc.prems by simp
  then show ?case using snoc.IH [of "c # w"] snoc.prems by simp
qed simp

lemma scan_quote:
  "b \<noteq> CHR 0x5C \<Longrightarrow> hdr_scan (u @ b # CHR 0x22 # w) (length u + 2) q True =
    hdr_scan (u @ b # CHR 0x22 # w) (length u + 1) (\<not> q) True"
  by (simp add: escaped_def nth_append)

lemma scan_hop:
  assumes "addr_ok a"
  shows "hdr_scan (u @ hop_text rfc a) (length (u @ hop_text rfc a)) False rfc =
    hdr_scan (u @ hop_text rfc a) (length u) False rfc"
proof -
  let ?plain = "list_all (\<lambda>c. c \<noteq> CHR '','' \<and> c \<noteq> CHR 0x22)"
  have a: "?plain a" using assms by (auto simp: addr_ok_def addr_char_def list_all_iff)
  show ?thesis
  proof (cases "rfc \<and> CHR '':'' \<in> set a")
    case False
    then have "?plain (hop_text rfc a)" using a by (auto simp: hop_text_def)
    then show ?thesis using scan_plain [of "hop_text rfc a" u "[]"] by simp
  next
    case True
    let ?q = "CHR 0x22"
    let ?e = "u @ ''for='' @ [?q] @ ''['' @ a @ '']'' @ [?q]"
    have 1: "hdr_scan ?e (length ?e) False True = hdr_scan ?e (length ?e - 1) True True"
      using scan_quote [of "CHR '']''" "u @ ''for='' @ [?q] @ ''['' @ a" "[]" False] by simp
    have 2: "hdr_scan ?e (length ?e - 1) True True = hdr_scan ?e (length (u @ ''for='' @ [?q])) True True"
      using scan_plain [of "''['' @ a @ '']''" "u @ ''for='' @ [?q]" "[?q]" True True] a by simp
    have 3: "hdr_scan ?e (length (u @ ''for='' @ [?q])) True True = hdr_scan ?e (length (u @ ''for='')) False True"
      using scan_quote [of "CHR ''=''" "u @ ''for''" "''['' @ a @ '']'' @ [?q]" True] by simp
    have 4: "hdr_scan ?e (length (u @ ''for='')) False True = hdr_scan ?e (length u) False True"
      using scan_plain [of "''for=''" u "[?q] @ ''['' @ a @ '']'' @ [?q]" False True] by simp
    show ?thesis using 1 2 3 4 True by (simp add: hop_text_def)
  qed
qed

lemma hop_not_Nil: "addr_ok a \<Longrightarrow> hop_text rfc a \<noteq> [] \<and> hd (hop_text rfc a) \<noteq> CHR '' ''"
  by (cases a) (auto simp: hop_text_def addr_ok_def addr_char_def)

lemma hdrEntry_hop:
  assumes "addr_ok a"
  shows "hdrEntry (append_hop rfc t a) rfc = Some (hop_text rfc a, t)"
proof -
  have d: "dropWhile (\<lambda>c. c = CHR '' '') (hop_text rfc a) = hop_text rfc a"
    using hop_not_Nil [OF assms, of rfc] by (cases "hop_text rfc a") auto
  show ?thesis
  proof (cases "t = []")
    case True
    then show ?thesis using scan_hop [OF assms, of "[]" rfc] by (simp add: hdrEntry_def append_hop_def)
  next
    case False
    let ?b = "(t @ '', '') @ hop_text rfc a"
    have "hdr_scan ?b (length ?b) False rfc = hdr_scan ?b (Suc (Suc (length t))) False rfc"
      using scan_hop [OF assms, of "t @ '', ''" rfc] by simp
    also have "\<dots> = Some (dropWhile (\<lambda>c. c = CHR '' '') (drop (length t + 1) ?b), t)"
      by (simp add: nth_append)
    finally show ?thesis using False d by (simp add: hdrEntry_def append_hop_def)
  qed
qed

lemma hdr_loop_hop:
  assumes "addr_ok a" "length addr < n"
  shows "hdr_loop n (append_hop rfc t a) rfc addr = hdr_loop n t rfc (addr @ [a])"
proof -
  have "append_hop rfc t a \<noteq> []" using hop_not_Nil [OF assms(1)] by (simp add: append_hop_def)
  then show ?thesis
    using assms hdrEntry_hop [OF assms(1)] parse_hop [OF assms(1)]
    by (simp add: hdr_loop.simps [of n "append_hop rfc t a"])
qed

lemma hdr_loop_hops:
  "list_all addr_ok hops \<Longrightarrow> length addr + length hops \<le> n \<Longrightarrow>
    hdr_loop n (foldl (append_hop rfc) t hops) rfc addr = hdr_loop n t rfc (addr @ rev hops)"
  by (induction hops arbitrary: addr rule: rev_induct) (simp_all add: hdr_loop_hop)

lemma hdr_loop_extends:
  "hdr_loop n buf rfc addr = Some (parsed, ok) \<Longrightarrow> \<exists>more. parsed = addr @ more \<and> (length addr \<le> n \<longrightarrow> length parsed \<le> n)"
proof (induction n buf rfc addr rule: hdr_loop.induct)
  case (1 n buf rfc addr)
  show ?case
  proof (cases "buf \<noteq> [] \<and> length addr < n")
    case True
    show ?thesis
    proof (cases "hdrEntry buf rfc")
      case None
      then show ?thesis using True 1(2) by (simp add: hdr_loop.simps [of n buf])
    next
      case (Some er)
      obtain e rest where er: "er = (e, rest)" by (cases er)
      show ?thesis
      proof (cases "parseEntry e rfc")
        case None
        then show ?thesis using True 1(2) Some er by (simp add: hdr_loop.simps [of n buf])
      next
        case (Some o')
        then show ?thesis using 1(1) [OF True \<open>hdrEntry buf rfc = Some er\<close> er [symmetric]] True 1(2) \<open>hdrEntry buf rfc = Some er\<close> er
          by (cases o') (auto simp: hdr_loop.simps [of n buf])
      qed
    qed
  next
    case False
    then show ?thesis using 1(2) by (auto simp: hdr_loop.simps [of n buf])
  qed
qed

subsection \<open>The ring of header values\<close>

text \<open>What the ring stands for: the last 16 values, from the last one back.\<close>

fun parse_back :: "bool \<Rightarrow> string list \<Rightarrow> string list \<Rightarrow> string list option" where
  "parse_back rfc [] addr = Some addr"
| "parse_back rfc (v # vs) addr =
     (case parseHdrVal (MAXADDR - length addr) v rfc of
        None \<Rightarrow> None
      | Some (parsed, ok) \<Rightarrow>
          if \<not> ok \<or> parsed = [] \<or> length (addr @ parsed) = MAXADDR then Some (addr @ parsed)
          else parse_back rfc vs (addr @ parsed))"

lemma ring_fill_snoc:
  "ring_fill c l r (vs @ [v]) =
    (case ring_fill c l r vs of (c, l, r) \<Rightarrow> (c + 1, c mod MAXADDR, r[c mod MAXADDR := Some v]))"
  by (induction vs arbitrary: c l r) (simp_all add: Let_def)

lemma ring_fill_inv:
  "ring_fill 0 0 (replicate MAXADDR None) vs = (c, l, r) \<Longrightarrow>
    c = length vs \<and> (vs \<noteq> [] \<longrightarrow> l = (length vs - 1) mod MAXADDR) \<and> length r = MAXADDR
    \<and> (\<forall>k < length vs. length vs \<le> k + MAXADDR \<longrightarrow> r ! (k mod MAXADDR) = Some (vs ! k))"
proof (induction vs arbitrary: c l r rule: rev_induct)
  case (snoc v vs)
  obtain c0 l0 r0 where run: "ring_fill 0 0 (replicate MAXADDR None) vs = (c0, l0, r0)"
    by (cases "ring_fill 0 0 (replicate MAXADDR None) vs")
  note IH = snoc.IH [OF run]
  have out: "c = c0 + 1" "l = c0 mod MAXADDR" "r = r0[c0 mod MAXADDR := Some v]"
    using snoc.prems run by (auto simp: ring_fill_snoc)
  have "r ! (k mod MAXADDR) = Some ((vs @ [v]) ! k)" if k: "k < length (vs @ [v])" "length (vs @ [v]) \<le> k + MAXADDR" for k
  proof (cases "k = length vs")
    case True
    then show ?thesis using out IH by (simp add: MAXADDR_def)
  next
    case False
    then have "k < length vs" "length vs - k < MAXADDR" using k by simp_all
    moreover from this have "k mod MAXADDR \<noteq> length vs mod MAXADDR"
      by (metis mod_eq_dvd_iff_nat nat_dvd_not_less order_less_imp_le zero_less_diff)
    ultimately show ?thesis using out IH k by (simp add: nth_append)
  qed
  then show ?case using out IH by auto
qed simp

lemma ring_parse_eq:
  assumes "\<forall>k < length vs. length vs \<le> k + MAXADDR \<longrightarrow> r ! (k mod MAXADDR) = Some (vs ! k)"
  shows "k \<le> Suc j \<Longrightarrow> j < length vs \<Longrightarrow> length vs + k \<le> Suc j + MAXADDR \<Longrightarrow>
    ring_parse k (j mod MAXADDR) r rfc addr = parse_back rfc (take k (rev (take (Suc j) vs))) addr"
proof (induction k arbitrary: j addr)
  case (Suc k)
  have r: "r ! (j mod MAXADDR) = Some (vs ! j)" using assms Suc.prems by simp
  have t: "take (Suc k) (rev (take (Suc j) vs)) = vs ! j # take k (rev (take j vs))"
    using Suc.prems(2) by (simp add: take_Suc_conv_app_nth)
  have rest: "ring_parse k (if j mod MAXADDR \<noteq> 0 then j mod MAXADDR - 1 else MAXADDR - 1) r rfc a =
      parse_back rfc (take k (rev (take j vs))) a" for a
  proof (cases j)
    case 0
    then show ?thesis using Suc.prems(1) by simp
  next
    case (Suc i)
    have "(if j mod MAXADDR \<noteq> 0 then j mod MAXADDR - 1 else MAXADDR - 1) = i mod MAXADDR"
      by (simp add: Suc mod_Suc MAXADDR_def)
    then show ?thesis using Suc.IH [of i a] Suc.prems Suc by simp
  qed
  show ?case unfolding t by (simp only: ring_parse.simps parse_back.simps r option.case Let_def rest)
qed simp

lemma proxyAddr_eq:
  "proxyAddr vals rfc =
    (case parse_back rfc (take MAXADDR (rev vals)) [] of
       None \<Rightarrow> None
     | Some addr \<Rightarrow> Some (if addr \<noteq> [] then Some (map (\<lambda>a. \<lparr>re_addr = a, re_host = None\<rparr>) (rev addr)) else None))"
proof -
  obtain c l r where run: "ring_fill 0 0 (replicate MAXADDR None) vals = (c, l, r)"
    by (cases "ring_fill 0 0 (replicate MAXADDR None) vals")
  note inv = ring_fill_inv [OF run]
  have "ring_parse (if c > MAXADDR then MAXADDR else c) l r rfc [] = parse_back rfc (take MAXADDR (rev vals)) []"
  proof (cases "vals = []")
    case True
    then show ?thesis using inv by simp
  next
    case False
    then have "length vals = Suc (length vals - 1)" by (cases vals) auto
    then show ?thesis
      using ring_parse_eq [of vals r "if c > MAXADDR then MAXADDR else c" "length vals - 1" rfc "[]"] inv False
      by (auto simp: MAXADDR_def)
  qed
  then show ?thesis by (simp add: proxyAddr_def run)
qed

lemma parse_back_extends: "parse_back rfc vs addr = Some res \<Longrightarrow> \<exists>more. res = addr @ more"
  by (induction rfc vs addr arbitrary: res rule: parse_back.induct) (fastforce split: option.splits if_splits)+

subsection \<open>Hops\<close>

lemma drop_hops:
  "k < length t \<Longrightarrow> drop k (foldl (append_hop rfc) t hops) = foldl (append_hop rfc) (drop k t) hops
    \<and> length (foldl (append_hop rfc) t hops) = length t + (length (foldl (append_hop rfc) ''x'' hops) - 1)
    \<and> 0 < length (foldl (append_hop rfc) ''x'' hops)"
proof (induction hops rule: rev_induct)
  case (snoc a hops)
  let ?f = "foldl (append_hop rfc)"
  have "?f t hops \<noteq> []" "?f ''x'' hops \<noteq> []" "?f (drop k t) hops \<noteq> []"
    using snoc by (auto simp: drop_eq_Nil)
  then show ?case using snoc by (auto simp: append_hop_def)
qed simp

lemma hops_shorter:
  "length (foldl (append_hop rfc) [] hops) \<le> length (foldl (append_hop rfc) ''x'' hops)
    \<and> foldl (append_hop rfc) ''x'' hops \<noteq> []"
  by (induction hops rule: rev_induct) (auto simp: append_hop_def)

lemma parseHdrVal_hops:
  assumes "list_all addr_ok hops" "length hops \<le> n" "length (foldl (append_hop rfc) ''x'' hops) < HDR_BUFSZ"
  shows "\<exists>t'. (t = [] \<longrightarrow> t' = []) \<and> parseHdrVal n (foldl (append_hop rfc) t hops) rfc = hdr_loop n t' rfc (rev hops)"
proof -
  let ?v = "foldl (append_hop rfc) t hops"
  have loop: "hdr_loop n (foldl (append_hop rfc) t' hops) rfc [] = hdr_loop n t' rfc (rev hops)" for t'
    using hdr_loop_hops [OF assms(1), of "[]" n rfc t'] assms(2) by simp
  show ?thesis
  proof (cases "length ?v < HDR_BUFSZ")
    case True
    then show ?thesis using loop [of t] by (auto simp: parseHdrVal_def)
  next
    case False
    show ?thesis
    proof (cases "t = []")
      case True
      then show ?thesis using hops_shorter [of rfc hops] False assms(3) by simp
    next
      case t: False
      let ?k = "length ?v - HDR_BUFSZ + 1"
      have len: "length ?v = length t + (length (foldl (append_hop rfc) ''x'' hops) - 1)"
        "0 < length (foldl (append_hop rfc) ''x'' hops)"
        using drop_hops [of 0 t rfc hops] t by simp_all
      then have "?k < length t" using False assms(3) by linarith
      then have "drop ?k ?v = foldl (append_hop rfc) (drop ?k t) hops" using drop_hops by blast
      then show ?thesis using loop [of "drop ?k t"] False t by (auto simp: parseHdrVal_def)
    qed
  qed
qed

lemma proxyAddr_hops:
  assumes "list_all addr_ok hops" "hops \<noteq> []" "length hops \<le> MAXADDR"
    "length (foldl (append_hop rfc) ''x'' hops) < HDR_BUFSZ"
  shows "proxyAddr (vs @ [foldl (append_hop rfc) t hops]) rfc = Some l \<Longrightarrow>
      \<exists>more. l = Some (map (\<lambda>a. \<lparr>re_addr = a, re_host = None\<rparr>) (more @ hops))"
    and "proxyAddr [foldl (append_hop rfc) [] hops] rfc = Some (Some (map (\<lambda>a. \<lparr>re_addr = a, re_host = None\<rparr>) hops))"
proof -
  obtain t' where t': "parseHdrVal MAXADDR (foldl (append_hop rfc) t hops) rfc = hdr_loop MAXADDR t' rfc (rev hops)"
    using parseHdrVal_hops [OF assms(1,3,4)] by blast
  have rev: "take MAXADDR (rev (vs @ [v])) = v # take (MAXADDR - 1) (rev vs)" for v vs
    by (simp add: MAXADDR_def)
  assume "proxyAddr (vs @ [foldl (append_hop rfc) t hops]) rfc = Some l"
  then obtain res where res: "parse_back rfc (foldl (append_hop rfc) t hops # take (MAXADDR - 1) (rev vs)) [] = Some res"
    and l: "l = (if res \<noteq> [] then Some (map (\<lambda>a. \<lparr>re_addr = a, re_host = None\<rparr>) (rev res)) else None)"
    unfolding proxyAddr_eq rev by (auto split: option.splits)
  obtain parsed ok where p: "hdr_loop MAXADDR t' rfc (rev hops) = Some (parsed, ok)"
    and "res = parsed \<or> parse_back rfc (take (MAXADDR - 1) (rev vs)) parsed = Some res"
    using res t' by (auto split: option.splits if_splits)
  then obtain more where "res = parsed @ more" using parse_back_extends by fastforce
  moreover obtain more2 where "parsed = rev hops @ more2" using hdr_loop_extends [OF p] by blast
  ultimately have "rev res = (rev more @ rev more2) @ hops" "res \<noteq> []" using assms(2) by auto
  then show "\<exists>more. l = Some (map (\<lambda>a. \<lparr>re_addr = a, re_host = None\<rparr>) (more @ hops))" using l by metis
next
  have v: "parseHdrVal MAXADDR (foldl (append_hop rfc) [] hops) rfc = Some (rev hops, True)"
    using parseHdrVal_hops [OF assms(1,3,4), of "[]"] by (auto simp: hdr_loop.simps [of _ "[]"])
  have "parse_back rfc [foldl (append_hop rfc) [] hops] [] = Some (rev hops)" using v assms(2) by simp
  then show "proxyAddr [foldl (append_hop rfc) [] hops] rfc = Some (Some (map (\<lambda>a. \<lparr>re_addr = a, re_host = None\<rparr>) hops))"
    using assms(2) by (simp add: proxyAddr_eq MAXADDR_def)
qed

lemma header_values_eq: "hs_ok hdrs \<Longrightarrow> header_values hdrs name = Some (map h_value (headers_of hdrs name))"
proof -
  assume ok: "hs_ok hdrs"
  let ?b = "hs_buckets hdrs ! unat (hash (lowerstr name) HSHT_BITS)"
  have "?b \<in> set (hs_buckets hdrs)" using ok by (simp add: hs_ok_def)
  then have "length ?b < length (concat (hs_buckets hdrs)) + 1"
    by (simp add: length_concat less_Suc_eq_le member_le_sum_list)
  from visit_any [OF this] show ?thesis unfolding header_values_def by (simp only: option.map)
qed

lemma proxies_of_eq: "hs_ok hdrs \<Longrightarrow> proxies_of hdrs rfc = proxyAddr (map h_value (headers_of hdrs (proxy_headernm rfc))) rfc"
  by (simp add: proxies_of_def header_values_eq)

subsection \<open>Bounds\<close>

definition fits :: "nat \<Rightarrow> (string \<times> nat \<times> nat) option \<Rightarrow> bool" where
  "fits n r \<longleftrightarrow> (case r of None \<Rightarrow> False | Some (buf, nc, lc) \<Rightarrow> length buf \<le> n)"

lemma fits_Some [simp]: "fits n (Some (buf, nc, lc)) \<longleftrightarrow> length buf \<le> n"
  by (simp add: fits_def)

lemma fits_mono: "fits m r \<Longrightarrow> m \<le> n \<Longrightarrow> fits n r"
  by (auto simp: fits_def split: option.splits)

lemma entry_loop_bound:
  "length buf + length e \<le> ENTRY_BUFSZ \<Longrightarrow> fits (length buf + length e) (entry_loop e esc b buf nc lc)"
proof (induction e arbitrary: esc b buf nc lc)
  case (Cons c e)
  have room: "length buf < ENTRY_BUFSZ" "length (buf @ [d]) + length e \<le> ENTRY_BUFSZ" "length buf + length e \<le> ENTRY_BUFSZ" for d
    using Cons.prems by simp_all
  have "fits (Suc (length buf + length e)) (entry_loop e esc' b' (buf @ [d]) n' l')"
    "fits (Suc (length buf + length e)) (entry_loop e esc' b' buf n' l')" for esc' b' n' l' d
    using Cons.IH [OF room(2) [of d], of esc' b' n' l'] fits_mono [OF Cons.IH [OF room(3), of esc' b' n' l']] by simp_all
  then show ?case using room(1) by (simp add: entry_loop.simps(2) Let_def)
qed simp

lemma strip_loop_shorter: "length (strip_loop i quote esc cpos entry) \<le> length entry"
proof (induction i quote esc cpos entry rule: strip_loop.induct)
  case (1 i quote esc cpos entry)
  then show ?case
    by (subst strip_loop.simps) (simp add: Let_def min_def split: if_split, auto)
qed

lemma parse_short: "length entry < ENTRY_BUFSZ \<Longrightarrow> parseEntry entry rfc \<noteq> None"
proof -
  assume short: "length entry < ENTRY_BUFSZ"
  let ?e = "if rfc then stripRfc7239 entry else entry"
  have "length ?e < ENTRY_BUFSZ"
    using short strip_loop_shorter [of 0 False False 0 entry] by (auto simp: stripRfc7239_def)
  then obtain buf nc lc where "entry_loop ?e False 0 [] 0 0 = Some (buf, nc, lc)" "length buf < ENTRY_BUFSZ"
    using entry_loop_bound [of "[]" ?e False 0 0 0] by (fastforce simp: fits_def split: option.splits)
  then show ?thesis by (auto simp: parseEntry_def Let_def)
qed

lemma entry_loop_overflow:
  "list_all addr_char e \<Longrightarrow> CHR '':'' \<notin> set e \<Longrightarrow> ENTRY_BUFSZ \<le> length buf + length e \<Longrightarrow> length buf \<le> ENTRY_BUFSZ \<Longrightarrow>
    entry_loop e False b buf 0 lc = None \<or> (\<exists>buf'. entry_loop e False b buf 0 lc = Some (buf', 0, lc) \<and> length buf' = ENTRY_BUFSZ)"
proof (induction e arbitrary: b buf)
  case (Cons c e)
  then show ?case using Cons.IH [of "buf @ [c]" "if b = 0 then -1 else b"] by (auto simp: entry_loop_addr_char)
qed simp

section \<open>Properties\<close>


definition ex_proxy_headers :: "bool \<Rightarrow> string \<Rightarrow> headerset" where
  "ex_proxy_headers rfc val = HeaderSet_add HeaderSet_create (header_new (proxy_headernm rfc) val 0 0)"

lemma ex_proxy_headers_ok:
  "hs_ok (ex_proxy_headers rfc val)"
  "map h_value (headers_of (ex_proxy_headers rfc val) (proxy_headernm rfc)) = [val]"
  using HeaderSet_create_spec
  by (simp_all add: ex_proxy_headers_def HeaderSet_add_spec header_new_def strcaseeq_def)

definition ex_hops :: "string list" where
  "ex_hops = [''203.0.113.9'', ''2001:db8::1'']"

lemma ex_hops_ok: "list_all addr_ok ex_hops" "ex_hops \<noteq> []" "length ex_hops = 2"
  "length (foldl (append_hop rfc) ''x'' ex_hops) < 8192"
  by (simp_all add: ex_hops_def addr_ok_def addr_char_def append_hop_def hop_text_def)

lemma ex_text: "foldl (append_hop False) ''8.8.8.8'' ex_hops = ''8.8.8.8, 203.0.113.9, 2001:db8::1''"
  "foldl (append_hop True) [] ex_hops = ''for=203.0.113.9, for='' @ [CHR 0x22] @ ''[2001:db8::1]'' @ [CHR 0x22]"
  by (simp_all add: ex_hops_def append_hop_def hop_text_def)


text \<open>
  C22: proxies are listed completely. Up to 16 addresses that proxies appended to an otherwise empty
  preferred header, IPv6 ones quoted and in brackets where it is \<open>Forwarded\<close>, are all found, in order,
  followed by the address of the connection.
\<close>

theorem proxy_list_complete:
  assumes "hs_ok hdrs" "list_all addr_ok hops" "hops \<noteq> []" "length hops \<le> 16"
    "length (foldl (append_hop rfc) ''x'' hops) < 8192"
    "rfc \<longleftrightarrow> tc_header cfg AND PH_PREFRFC \<noteq> 0" "ph_trusted (tc_header cfg) rfc"
    "map h_value (headers_of hdrs (proxy_headernm rfc)) = [foldl (append_hop rfc) [] hops]"
  shows "map_option (map re_addr) (proxy_list (Some cfg) hdrs raddr rhost) = Some (hops @ [raddr])"
  using assms proxyAddr_hops(2) [OF assms(2,3)]
  by (simp add: proxy_list_def Let_def proxies_of_eq [OF assms(1)] comp_def MAXADDR_def HDR_BUFSZ_def)

theorem proxy_list_complete_witness:
  "map_option (map re_addr) (proxy_list (Some \<lparr>tc_ntrusted = 1, tc_header = PH_RFC OR PH_PREFRFC\<rparr>)
      (ex_proxy_headers True (''for=203.0.113.9, for='' @ [CHR 0x22] @ ''[2001:db8::1]'' @ [CHR 0x22])) ''10.0.0.1'' None)
    = Some [''203.0.113.9'', ''2001:db8::1'', ''10.0.0.1'']"
proof -
  let ?cfg = "\<lparr>tc_ntrusted = 1, tc_header = PH_RFC OR PH_PREFRFC\<rparr>"
  have flags: "True \<longleftrightarrow> tc_header ?cfg AND PH_PREFRFC \<noteq> 0" "ph_trusted (tc_header ?cfg) True"
    by (simp_all add: PH_RFC_def PH_PREFRFC_def ph_trusted_def)
  show ?thesis
    using proxy_list_complete [OF ex_proxy_headers_ok(1) ex_hops_ok(1,2) _ ex_hops_ok(4) flags ex_proxy_headers_ok(2), of "''10.0.0.1''" None]
      ex_hops_ok(3) unfolding ex_text by (simp add: ex_hops_def)
qed

text \<open>
  The buffer for one address. An entry shorter than 512 characters is parsed within the buffer
  of 512 bytes, however it is formed; 512 or more characters without a colon, as any client can
  send them in \<open>X-Forwarded-For\<close>, are written beyond its end.
\<close>

theorem proxy_entry_overflow:
  "(length entry < 512 \<longrightarrow> parseEntry entry rfc \<noteq> None)
   \<and> (512 \<le> length entry \<and> list_all addr_char entry \<and> CHR '':'' \<notin> set entry \<longrightarrow> parseEntry entry False = None)"
proof (intro conjI impI)
  assume "length entry < 512"
  then show "parseEntry entry rfc \<noteq> None" by (intro parse_short) (simp add: ENTRY_BUFSZ_def)
next
  assume long: "512 \<le> length entry \<and> list_all addr_char entry \<and> CHR '':'' \<notin> set entry"
  then have "ENTRY_BUFSZ \<le> length [] + length entry" "entry \<noteq> []" by (auto simp: ENTRY_BUFSZ_def)
  then show "parseEntry entry False = None"
    using entry_loop_overflow [of entry "[]" 0 0] long by (auto simp: parseEntry_def)
qed

theorem proxy_entry_overflow_witness:
  "parseEntry (replicate 600 CHR ''a'') False = None"
  using proxy_entry_overflow [of "replicate 600 CHR ''a''"] by (simp add: addr_char_def list_all_iff)

end
