(* ===== verification/Template.thy ===== *)
theory Template
  imports Html_Escape Url_Code Chain_Table
begin

text \<open>
  \<open>template.c\<close>: pages with variables. A template is a text in which \<open>%%name%%\<close> stands for a variable,
  and a hash table of variables, each with a filter that its value goes through on output. The
  strings that a template owns and frees are recorded in the ghost field \<open>tp_freed\<close>.
\<close>

section \<open>Data\<close>

definition TMPL_OUTCHUNK :: nat where
  "TMPL_OUTCHUNK = 8192"

definition TVHT_BITS :: nat where
  "TVHT_BITS = 6"

datatype tmplfilter = TF_NONE | TF_HTML | TF_HTMLNL | TF_URL

record tmplvar =
  tv_name :: string
  tv_val :: string
  tv_filter :: tmplfilter
  tv_owned :: bool

record template =
  tp_tmpl :: string
  tp_buckets :: "tmplvar list list"
  tp_owned :: bool
  tp_freed :: "string list"

definition Template_create :: "string \<Rightarrow> template" where
  "Template_create tmpl = \<lparr>tp_tmpl = tmpl, tp_buckets = ct_empty TVHT_BITS, tp_owned = True, tp_freed = []\<rparr>"

definition Template_createStatic :: "string \<Rightarrow> template" where
  "Template_createStatic tmpl = \<lparr>tp_tmpl = tmpl, tp_buckets = ct_empty TVHT_BITS, tp_owned = False, tp_freed = []\<rparr>"

section \<open>Variables\<close>

definition findVar :: "template \<Rightarrow> string \<Rightarrow> tmplvar option" where
  "findVar self name = ct_find TVHT_BITS tv_name (tp_buckets self) name"

definition tmplvar_free :: "tmplvar \<Rightarrow> string list" where
  "tmplvar_free v = (if tv_owned v then [tv_val v] else [])"

text \<open>\<open>insertOrUpdate\<close>, which frees an owned value, and the assignments after it.\<close>

definition tmpl_store :: "template \<Rightarrow> tmplvar \<Rightarrow> template" where
  "tmpl_store self v =
     self\<lparr>tp_buckets := ct_store TVHT_BITS tv_name (tp_buckets self) v,
          tp_freed := tp_freed self @ (case findVar self (tv_name v) of None \<Rightarrow> [] | Some old \<Rightarrow> tmplvar_free old)\<rparr>"

definition Template_setVar :: "template \<Rightarrow> string \<Rightarrow> string \<Rightarrow> tmplfilter \<Rightarrow> template" where
  "Template_setVar self name val filt =
     tmpl_store self \<lparr>tv_name = name, tv_val = val, tv_filter = filt, tv_owned = True\<rparr>"

definition Template_passVar :: "template \<Rightarrow> string \<Rightarrow> string \<Rightarrow> tmplfilter \<Rightarrow> template" where
  "Template_passVar self name val filt =
     tmpl_store self \<lparr>tv_name = name, tv_val = val, tv_filter = filt, tv_owned = True\<rparr>"

definition Template_setStaticVar :: "template \<Rightarrow> string \<Rightarrow> string \<Rightarrow> tmplfilter \<Rightarrow> template" where
  "Template_setStaticVar self name val filt =
     tmpl_store self \<lparr>tv_name = name, tv_val = val, tv_filter = filt, tv_owned = False\<rparr>"

text \<open>What \<open>Template_destroy\<close> frees of the variables, and what was freed before.\<close>

definition Template_destroy :: "template \<Rightarrow> string list" where
  "Template_destroy self = tp_freed self @ concat (map tmplvar_free (concat (tp_buckets self)))"

section \<open>Output\<close>

text \<open>The growth of the buffer, by chunks until the value fits, and the \<open>memcpy\<close>.\<close>

function grow_to :: "nat \<Rightarrow> obuf \<Rightarrow> obuf" where
  "grow_to n out =
     (if length (cells out) - opos out < n
      then grow_to n (out\<lparr>cells := cells out @ replicate TMPL_OUTCHUNK None\<rparr>)
      else out)"
  by pat_completeness auto
termination
  by (relation "measure (\<lambda>(n, out). n + opos out - length (cells out))") (auto simp: TMPL_OUTCHUNK_def)

declare grow_to.simps [simp del]

definition append_val :: "string \<Rightarrow> obuf \<Rightarrow> obuf" where
  "append_val varval out =
     (let vallen = length varval;
          out = grow_to vallen out
      in out\<lparr>cells := take (opos out) (cells out) @ map Some varval @ drop (opos out + vallen) (cells out),
             opos := opos out + vallen\<rparr>)"

definition processVar :: "tmplvar \<Rightarrow> obuf \<Rightarrow> obuf" where
  "processVar var out =
     (case tv_filter var of
        TF_NONE \<Rightarrow> append_val (tv_val var) out
      | TF_HTML \<Rightarrow> htmlescapeto (tv_val var) False out
      | TF_HTMLNL \<Rightarrow> htmlescapeto (tv_val var) True out
      | TF_URL \<Rightarrow> urlencodeto (tv_val var) out)"

text \<open>The loop for the end of a name, which takes at most 62 characters.\<close>

function var_end :: "string \<Rightarrow> nat \<Rightarrow> nat \<Rightarrow> nat option" where
  "var_end tmpl pos endpos =
     (if endpos < length tmpl \<and> endpos - pos < 63
      then
        (if tmpl ! endpos = CHR ''%'' \<and> endpos + 1 < length tmpl \<and> tmpl ! (endpos + 1) = CHR ''%''
         then Some endpos
         else var_end tmpl pos (endpos + 1))
      else None)"
  by pat_completeness auto
termination
  by (relation "measure (\<lambda>(tmpl, pos, endpos). length tmpl - endpos)") auto

declare var_end.simps [simp del]

lemma var_end_le: "var_end tmpl pos endpos = Some e \<Longrightarrow> endpos \<le> e \<and> e < length tmpl"
  by (induction tmpl pos endpos rule: var_end.induct)
    (subst (asm) var_end.simps, auto split: if_splits)

function process_loop :: "template \<Rightarrow> nat \<Rightarrow> obuf \<Rightarrow> obuf" where
  "process_loop self pos out =
     (if pos < length (tp_tmpl self)
      then
        (let tmpl = tp_tmpl self
         in if tmpl ! pos = CHR ''%'' \<and> pos + 2 < length tmpl \<and> tmpl ! (pos + 1) = CHR ''%'' \<and> tmpl ! (pos + 2) \<noteq> CHR ''%''
            then
              (case var_end tmpl (pos + 2) (pos + 2) of
                 Some endpos \<Rightarrow>
                   process_loop self (endpos + 2)
                     (case findVar self (cstr (take (endpos - (pos + 2)) (drop (pos + 2) tmpl))) of
                        None \<Rightarrow> out
                      | Some var \<Rightarrow> processVar var out)
               | None \<Rightarrow>
                   process_loop self (pos + 2)
                     (appendchr TMPL_OUTCHUNK CHR ''%'' (appendchr TMPL_OUTCHUNK CHR ''%'' out)))
            else process_loop self (pos + 1) (appendchr TMPL_OUTCHUNK (tmpl ! pos) out))
      else out)"
  by pat_completeness auto
termination
  by (relation "measure (\<lambda>(self, pos, out). length (tp_tmpl self) - pos)")
    (auto dest: var_end_le)

declare process_loop.simps [simp del]

definition Template_process :: "template \<Rightarrow> string" where
  "Template_process self = contents (appendchr 1 NUL (process_loop self 0 (obuf_alloc 0)))"

section \<open>Lemmas\<close>

definition tmpl_ok :: "template \<Rightarrow> bool" where
  "tmpl_ok self \<longleftrightarrow> ct_ok TVHT_BITS tv_name (tp_buckets self)"

interpretation tv: owning_table "ct_empty TVHT_BITS" "ct_find TVHT_BITS tv_name"
  "ct_store TVHT_BITS tv_name" tv_name concat "ct_ok TVHT_BITS tv_name" "\<lambda>v. mset (tmplvar_free v)"
  by unfold_locales (simp_all add: ct_empty_ok ct_store_ok ct_find_store mset_ct_store)

lemma TMPL_OUTCHUNK_pos [simp]: "0 < TMPL_OUTCHUNK"
  by (simp add: TMPL_OUTCHUNK_def)

lemma grow_to_spec:
  "obuf_inv out \<Longrightarrow> obuf_inv (grow_to n out) \<and> contents (grow_to n out) = contents out
    \<and> opos (grow_to n out) = opos out \<and> opos out + n \<le> length (cells (grow_to n out))"
proof (induction n out rule: grow_to.induct)
  case (1 n out)
  show ?case
  proof (cases "length (cells out) - opos out < n")
    case True
    let ?out = "out\<lparr>cells := cells out @ replicate TMPL_OUTCHUNK None\<rparr>"
    have "grow_to n out = grow_to n ?out" using True by (simp add: grow_to.simps [of n out])
    moreover have "obuf_inv ?out" "contents ?out = contents out" "opos ?out = opos out"
      using 1(2) by (simp_all add: obuf_inv_def contents_def)
    ultimately show ?thesis using 1(1) [OF True] by simp
  next
    case False
    then show ?thesis using 1(2) by (auto simp: grow_to.simps [of n out] obuf_inv_def)
  qed
qed

lemma append_val_spec:
  assumes "obuf_inv out"
  shows "obuf_inv (append_val v out)" "contents (append_val v out) = contents out @ v"
proof -
  note g = grow_to_spec [OF assms, of "length v"]
  let ?g = "grow_to (length v) out"
  have o: "opos ?g = opos out" "opos out \<le> length (cells ?g)" using g by auto
  have t: "take (opos out + length v) (take (opos out) (cells ?g) @ map Some v @ r) = take (opos out) (cells ?g) @ map Some v" for r
    using o by (simp add: min_absorb2)
  show "obuf_inv (append_val v out)"
    using g o t by (auto simp: append_val_def Let_def obuf_inv_def)
  show "contents (append_val v out) = contents out @ v"
    using g o t by (simp add: append_val_def Let_def contents_def comp_def)
qed

text \<open>What a variable's value becomes.\<close>

definition var_text :: "tmplvar \<Rightarrow> string" where
  "var_text var =
     (case tv_filter var of
        TF_NONE \<Rightarrow> tv_val var
      | TF_HTML \<Rightarrow> html_esc (tv_val var) False
      | TF_HTMLNL \<Rightarrow> html_esc (tv_val var) True
      | TF_URL \<Rightarrow> url_enc (tv_val var))"

lemma processVar_spec:
  "obuf_inv out \<Longrightarrow> obuf_inv (processVar var out) \<and> contents (processVar var out) = contents out @ var_text var"
  by (cases "tv_filter var") (simp_all add: processVar_def var_text_def append_val_spec)

text \<open>Templates as sequences of characters and variables.\<close>

datatype tseg = Lit char | Var string

fun seg_text :: "tseg \<Rightarrow> string" where
  "seg_text (Lit c) = [c]"
| "seg_text (Var n) = ''%%'' @ n @ ''%%''"

fun seg_ok :: "tseg \<Rightarrow> bool" where
  "seg_ok (Lit c) \<longleftrightarrow> c \<noteq> CHR ''%''"
| "seg_ok (Var n) \<longleftrightarrow> n \<noteq> [] \<and> length n \<le> 62 \<and> CHR ''%'' \<notin> set n \<and> nulfree n"

fun seg_out :: "template \<Rightarrow> tseg \<Rightarrow> string" where
  "seg_out self (Lit c) = [c]"
| "seg_out self (Var n) = (case findVar self n of None \<Rightarrow> [] | Some var \<Rightarrow> var_text var)"

lemma var_end_found:
  "CHR ''%'' \<notin> set n \<Longrightarrow> length m + length n \<le> 62 \<Longrightarrow> tmpl = pre @ m @ n @ ''%%'' @ post \<Longrightarrow>
    var_end tmpl (length pre) (length pre + length m) = Some (length pre + length m + length n)"
proof (induction n arbitrary: m)
  case Nil
  have "tmpl ! (length pre + length m) = CHR ''%''" "tmpl ! (length pre + length m + 1) = CHR ''%''"
    "length pre + length m + 1 < length tmpl"
    using Nil.prems by (simp_all add: nth_append)
  then show ?case using Nil.prems(2) by (subst var_end.simps) simp
next
  case (Cons c n)
  have "tmpl ! (length pre + length m) = c" "c \<noteq> CHR ''%''" "length pre + length m < length tmpl"
    using Cons.prems by (auto simp: nth_append)
  then have "var_end tmpl (length pre) (length pre + length m) = var_end tmpl (length pre) (length pre + length (m @ [c]))"
    using Cons.prems(2) by (subst var_end.simps) simp
  then show ?case using Cons.IH [of "m @ [c]"] Cons.prems by simp
qed

lemma process_seg:
  assumes "seg_ok s" "tp_tmpl self = pre @ seg_text s @ post" "obuf_inv out"
  shows "\<exists>out'. process_loop self (length pre) out = process_loop self (length (pre @ seg_text s)) out'
    \<and> obuf_inv out' \<and> contents out' = contents out @ seg_out self s"
proof (cases s)
  case (Lit c)
  then have "process_loop self (length pre) out = process_loop self (length pre + 1) (appendchr TMPL_OUTCHUNK c out)"
    using assms(1,2) by (subst process_loop.simps) (simp add: nth_append)
  then show ?thesis using Lit assms(3) by auto
next
  case (Var n)
  let ?t = "tp_tmpl self" and ?p = "length pre"
  obtain c r where n: "n = c # r" "c \<noteq> CHR ''%''" using assms(1) Var by (cases n) auto
  have t: "?t = (pre @ ''%%'') @ [] @ n @ ''%%'' @ post" using assms(2) Var by simp
  have e: "var_end ?t (?p + 2) (?p + 2) = Some (?p + 2 + length n)"
    using var_end_found [OF _ _ t] assms(1) Var by simp
  have nm: "cstr (take (length n) (drop (?p + 2) ?t)) = n" using t assms(1) Var by simp
  have at: "?t ! ?p = CHR ''%''" "?t ! (?p + 1) = CHR ''%''" "?t ! (?p + 2) = c" "?p + 2 < length ?t"
    using t n by (simp_all add: nth_append)
  let ?out = "case findVar self n of None \<Rightarrow> out | Some var \<Rightarrow> processVar var out"
  have "process_loop self ?p out = process_loop self (?p + 2 + length n + 2) ?out"
    using at e nm n(2) by (subst process_loop.simps) (simp add: Let_def)
  moreover have "obuf_inv ?out \<and> contents ?out = contents out @ seg_out self s"
    using assms(3) processVar_spec Var by (simp split: option.split)
  ultimately show ?thesis using Var by (intro exI [of _ ?out]) (simp add: add.commute)
qed

lemma process_segs:
  "list_all seg_ok segs \<Longrightarrow> tp_tmpl self = pre @ concat (map seg_text segs) \<Longrightarrow> obuf_inv out \<Longrightarrow>
    obuf_inv (process_loop self (length pre) out)
    \<and> contents (process_loop self (length pre) out) = contents out @ concat (map (seg_out self) segs)"
proof (induction segs arbitrary: pre out)
  case Nil
  then show ?case by (simp add: process_loop.simps)
next
  case (Cons s segs)
  have "seg_ok s" "tp_tmpl self = pre @ seg_text s @ concat (map seg_text segs)" using Cons.prems by simp_all
  then obtain out' where out': "process_loop self (length pre) out = process_loop self (length (pre @ seg_text s)) out'"
    "obuf_inv out'" "contents out' = contents out @ seg_out self s"
    using process_seg Cons.prems(3) by blast
  then show ?case using Cons.IH [of "pre @ seg_text s" out'] Cons.prems by simp
qed

lemma process_eq:
  "list_all seg_ok segs \<Longrightarrow> tp_tmpl self = concat (map seg_text segs) \<Longrightarrow>
    Template_process self = concat (map (seg_out self) segs) @ [NUL]"
  using process_segs [of segs self "[]" "obuf_alloc 0"] by (simp add: Template_process_def)

lemma tmpl_store_run:
  "(tp_buckets (foldl tmpl_store self vars), mset (tp_freed (foldl tmpl_store self vars))) =
    tv.run (tp_buckets self) (mset (tp_freed self)) vars
   \<and> tp_tmpl (foldl tmpl_store self vars) = tp_tmpl self"
proof (induction vars arbitrary: self)
  case (Cons v vars)
  have "mset (tp_freed (tmpl_store self v)) = mset (tp_freed self) + tv.released (tp_buckets self) (tv_name v)"
    by (simp add: tmpl_store_def tv.released_def findVar_def split: option.split)
  then show ?case using Cons.IH [of "tmpl_store self v"] by (simp add: tmpl_store_def)
qed simp

lemma tv_holds: "tv.holds tab = mset (concat (map tmplvar_free (concat tab)))"
proof -
  have "\<Sum>\<^sub># (image_mset (\<lambda>v. mset (tmplvar_free v)) (mset vs)) = mset (concat (map tmplvar_free vs))" for vs
    by (induction vs) simp_all
  then show ?thesis by (simp add: tv.holds_def)
qed

text \<open>The variable that the last of a sequence of assignments to its name leaves.\<close>

definition last_var :: "tmplvar list \<Rightarrow> string \<Rightarrow> tmplvar option" where
  "last_var vars n = (case filter (\<lambda>v. tv_name v = n) vars of [] \<Rightarrow> None | xs \<Rightarrow> Some (last xs))"

fun seg_value :: "tmplvar list \<Rightarrow> tseg \<Rightarrow> string" where
  "seg_value vars (Lit c) = [c]"
| "seg_value vars (Var n) = (case last_var vars n of None \<Rightarrow> [] | Some var \<Rightarrow> var_text var)"

lemma findVar_stored: "findVar (foldl tmpl_store (Template_createStatic tmpl) vars) n = last_var vars n"
proof -
  let ?t = "foldl tmpl_store (Template_createStatic tmpl) vars"
  have "tp_buckets ?t = fst (tv.run (ct_empty TVHT_BITS) {#} vars)"
    using tmpl_store_run [of "Template_createStatic tmpl" vars]
    by (simp add: Template_createStatic_def) (metis fst_conv)
  then show ?thesis
    using tv.run_get [OF tv.inv_empty, of "{#}" vars n]
    by (simp add: findVar_def last_var_def ct_empty_ok split: list.split)
qed

lemma process_stored:
  assumes "list_all seg_ok segs"
  shows "Template_process (foldl tmpl_store (Template_createStatic (concat (map seg_text segs))) vars)
    = concat (map (seg_value vars) segs) @ [NUL]"
proof -
  let ?t = "foldl tmpl_store (Template_createStatic (concat (map seg_text segs))) vars"
  have "tp_tmpl ?t = concat (map seg_text segs)"
    using tmpl_store_run by (simp add: Template_createStatic_def)
  moreover have "seg_out ?t = seg_value vars"
  proof
    fix s show "seg_out ?t s = seg_value vars s" by (cases s) (simp_all add: findVar_stored)
  qed
  ultimately show ?thesis using process_eq [OF assms, of ?t] by simp
qed

lemma url_enc_no_special: "c \<in> set (url_enc s) \<Longrightarrow> \<not> html_special c"
  using set_url_enc [of c s]
  by (auto simp: html_special_def url_unreserved_def isupper_def islower_def isdigit_def)

section \<open>Properties\<close>


definition ex_segs :: "tseg list" where
  "ex_segs = map Lit ''Hello <b>'' @ [Var ''USER''] @ map Lit ''</b>''"

definition ex_vars :: "tmplvar list" where
  "ex_vars = [\<lparr>tv_name = ''USER'', tv_val = ''<i>'', tv_filter = TF_HTML, tv_owned = False\<rparr>]"

lemma ex_segs_ok: "list_all seg_ok ex_segs"
  by (simp add: ex_segs_def list_all_iff)

lemma ex_template: "concat (map seg_text ex_segs) = ''Hello <b>%%USER%%</b>''"
  "foldl tmpl_store t ex_vars = Template_setStaticVar t ''USER'' ''<i>'' TF_HTML"
  by (simp_all add: ex_segs_def ex_vars_def Template_setStaticVar_def)




end
