(* ===== verification/Ip_Addr.thy ===== *)
theory Ip_Addr
  imports Swad_Prelude
begin

text \<open>
  \<open>ipaddr.c\<close>: addresses and prefixes of both versions of IP, their text and how an address matches
  a prefix. An IPv4 address lies in the last four of 16 bytes. \<open>long\<close> has 64 bits.
\<close>

section \<open>Data\<close>

datatype psc_proto = PSC_P_ANY | PSC_P_IPv4 | PSC_P_IPv6

record ipaddr =
  ip_data :: "u8 list"
  ip_prefixlen :: nat
  ip_proto :: psc_proto
  ip_str :: string

section \<open>Parsing\<close>

text \<open>
  The four numbers of an IPv4 address; the first argument is how many are left. A number out of the
  range of \<open>long\<close> is clamped and so out of the range 0 to 255 as well.
\<close>

fun v4_loop :: "nat \<Rightarrow> u8 list \<Rightarrow> string \<Rightarrow> u8 list option" where
  "v4_loop 0 v4dat bufp = Some v4dat"
| "v4_loop (Suc n) v4dat bufp =
     (let (byte, endp) = strtoll bufp
      in if endp = bufp \<or> (if n = 0 then endp \<noteq> [] else first_char endp \<noteq> CHR ''.'') \<or> byte < 0 \<or> byte > 255
         then None
         else v4_loop n (v4dat @ [of_int byte]) (if n > 0 then tl endp else endp))"

definition parsev4 :: "u8 list \<Rightarrow> string \<Rightarrow> u8 list option" where
  "parsev4 data buf =
     (case v4_loop 4 [] buf of
        None \<Rightarrow> None
      | Some v4dat \<Rightarrow> Some (take 12 data @ v4dat))"

text \<open>\<open>strtol(s, &endp, 16)\<close>: white space, a sign, an optional \<open>0x\<close>, digits.\<close>

definition isxdigit :: "char \<Rightarrow> bool" where
  "isxdigit c \<longleftrightarrow> isdigit c \<or> 65 \<le> chval c \<and> chval c \<le> 70 \<or> 97 \<le> chval c \<and> chval c \<le> 102"

definition xdigit_val :: "char \<Rightarrow> nat" where
  "xdigit_val c = (if isdigit c then chval c - 48 else if chval c \<le> 70 then chval c - 55 else chval c - 87)"

definition hex_value :: "string \<Rightarrow> nat" where
  "hex_value ds = foldl (\<lambda>v c. 16 * v + xdigit_val c) 0 ds"

definition strtol16_start :: "string \<Rightarrow> bool \<times> string" where
  "strtol16_start s =
     (let t = dropWhile isspace s;
          u = (if first_char t \<in> {CHR ''-'', CHR ''+''} then tl t else t)
      in (first_char t = CHR ''-'',
          if first_char u = CHR ''0'' \<and> first_char (drop 1 u) \<in> {CHR ''x'', CHR ''X''} \<and> isxdigit (first_char (drop 2 u))
          then drop 2 u else u))"

definition strtol16 :: "string \<Rightarrow> int \<times> string" where
  "strtol16 s =
     (let (neg, u) = strtol16_start s;
          ds = takeWhile isxdigit u;
          v = int (hex_value ds)
      in if ds = [] then (0, s)
         else (if neg then max (- v) (- (2 ^ 63)) else min v (2 ^ 63 - 1), dropWhile isxdigit u))"

lemma strtol16_start_shorter: "strtol16_start s = (neg, u) \<Longrightarrow> length u \<le> length s"
  using length_dropWhile_le [of isspace s] by (auto simp: strtol16_start_def Let_def split: if_splits)

lemma strtol16_shorter: "strtol16 s = (v, endp) \<Longrightarrow> endp \<noteq> s \<Longrightarrow> length endp < length s"
proof -
  assume r: "strtol16 s = (v, endp)" "endp \<noteq> s"
  obtain neg u where u: "strtol16_start s = (neg, u)" by (cases "strtol16_start s")
  have e: "takeWhile isxdigit u \<noteq> []" "endp = dropWhile isxdigit u"
    using r by (auto simp: strtol16_def Let_def u split: if_splits)
  have "length (takeWhile isxdigit u) + length endp = length u"
    using e(2) by (metis length_append takeWhile_dropWhile_id)
  moreover have "0 < length (takeWhile isxdigit u)" using e(1) by simp
  ultimately show ?thesis using strtol16_start_shorter [OF u] by linarith
qed

text \<open>
  The loop of \<open>parsev6\<close>: the bytes before a \<open>::\<close> go to \<open>data\<close>, those behind it to \<open>taildat\<close>;
  \<open>taillen\<close> is -1 until it was seen, which is \<^term>\<open>None\<close> here.
\<close>

function v6_loop ::
  "u8 list \<Rightarrow> nat \<Rightarrow> u8 list \<Rightarrow> nat option \<Rightarrow> string \<Rightarrow> (u8 list \<times> u8 list \<times> nat option) option" where
  "v6_loop data len taildat taillen buf =
     (if buf = [] then Some (data, taildat, taillen)
      else if taillen = None \<and> first_char buf = CHR '':'' \<and> first_char (tl buf) = CHR '':''
      then v6_loop data len taildat (Some 0) (drop 2 buf)
      else
        (let (w, endp) = strtol16 buf
         in if endp = buf \<or> (endp \<noteq> [] \<and> first_char endp \<noteq> CHR '':'') \<or> w < 0 \<or> w > 0xffff \<or> len \<ge> 16 then None
            else
              (let hi = of_int (w div 256); lo = of_int (w mod 256);
                   buf = (if first_char endp = CHR '':'' \<and> first_char (tl endp) \<noteq> CHR '':'' then tl endp else endp)
               in case taillen of
                    None \<Rightarrow> v6_loop (data[len := hi, len + 1 := lo]) (len + 2) taildat None buf
                  | Some n \<Rightarrow> v6_loop data (len + 2) (taildat[n := hi, n + 1 := lo]) (Some (n + 2)) buf)))"
  by pat_completeness auto
termination
proof (relation "measure (\<lambda>(data, len, taildat, taillen, buf). length buf)", goal_cases)
  case 1
  show ?case by simp
next
  case (2 data len taildat taillen buf)
  then show ?case by (cases buf) auto
next
  case (3 data len taildat taillen buf x w endp)
  then have "length endp < length buf" using strtol16_shorter [of buf w endp] by auto
  then show ?case using 3 by (auto simp: Let_def)
next
  case (4 data len taildat taillen buf x w endp)
  then have "length endp < length buf" using strtol16_shorter [of buf w endp] by auto
  then show ?case using 4 by (auto simp: Let_def)
qed

declare v6_loop.simps [simp del]

definition parsev6 :: "u8 list \<Rightarrow> string \<Rightarrow> u8 list option" where
  "parsev6 data buf =
     (case v6_loop data 0 (replicate 16 0) None buf of
        None \<Rightarrow> None
      | Some (data, taildat, taillen) \<Rightarrow>
          (case taillen of
             None \<Rightarrow> Some data
           | Some n \<Rightarrow> Some (if n > 0 then take (16 - n) data @ take n taildat else data)))"

text \<open>The prefix length: \<^term>\<open>None\<close> for a bad one, \<^term>\<open>Some None\<close> where there is none.\<close>

definition parse_prefix :: "string \<Rightarrow> nat option option" where
  "parse_prefix str =
     (case strchr str CHR ''/'' of
        None \<Rightarrow> Some None
      | Some i \<Rightarrow>
          (let prstr = drop (i + 1) str; (prefixval, endp) = strtoll prstr
           in if endp = prstr \<or> endp \<noteq> [] \<or> prefixval < 0 \<or> prefixval > 128 then None
              else Some (Some (nat prefixval))))"

definition IpAddr_create :: "string \<Rightarrow> ipaddr option" where
  "IpAddr_create str =
     (let data = replicate 16 0; inlen = length str
      in if inlen < 2 \<or> inlen > 43 then None
         else
           (case parse_prefix str of
              None \<Rightarrow> None
            | Some prefixlen \<Rightarrow>
                (let buf = takeWhile (\<lambda>c. c \<noteq> CHR ''/'') str
                 in case parsev4 data buf of
                      Some data \<Rightarrow>
                        (case prefixlen of
                           None \<Rightarrow> Some \<lparr>ip_data = data, ip_prefixlen = 32, ip_proto = PSC_P_IPv4, ip_str = []\<rparr>
                         | Some n \<Rightarrow>
                             if n > 32 then None
                             else Some \<lparr>ip_data = data, ip_prefixlen = n, ip_proto = PSC_P_IPv4, ip_str = []\<rparr>)
                    | None \<Rightarrow>
                        (case parsev6 data buf of
                           Some data \<Rightarrow>
                             Some \<lparr>ip_data = data, ip_prefixlen = (case prefixlen of None \<Rightarrow> 128 | Some n \<Rightarrow> n),
                                   ip_proto = PSC_P_IPv6, ip_str = []\<rparr>
                         | None \<Rightarrow> None))))"

section \<open>Printing\<close>

definition xdigit :: "nat \<Rightarrow> char" where
  "xdigit n = (if n < 10 then chr (48 + n) else chr (87 + n))"

fun hexstr :: "nat \<Rightarrow> string" where
  "hexstr n = (if n < 16 then [xdigit n] else hexstr (n div 16) @ [xdigit (n mod 16)])"

declare hexstr.simps [simp del]

definition ip_word :: "u8 list \<Rightarrow> nat \<Rightarrow> nat" where
  "ip_word data i = push_bit 8 (unat (data ! (2 * i))) OR unat (data ! (2 * i + 1))"

text \<open>The loop for the gap: the run of zero words that will be written as \<open>::\<close>.\<close>

fun gap_loop :: "u8 list \<Rightarrow> nat \<Rightarrow> nat \<Rightarrow> nat \<Rightarrow> nat \<Rightarrow> nat \<times> nat" where
  "gap_loop data 0 i gap gaplen = (gap, gaplen)"
| "gap_loop data (Suc n) i gap gaplen =
     (if ip_word data i = 0
      then (if i > gap + gaplen then gap_loop data n (i + 1) i 1 else gap_loop data n (i + 1) gap (gaplen + 1))
      else gap_loop data n (i + 1) gap gaplen)"

function v6_print :: "u8 list \<Rightarrow> nat \<Rightarrow> nat \<Rightarrow> nat \<Rightarrow> bool \<Rightarrow> string" where
  "v6_print data gap gaplen i needcolon =
     (if i < 8
      then
        (if i = gap \<and> gaplen > 0 then '':'' @ '':'' @ v6_print data gap gaplen (i + gaplen) False
         else (if needcolon then '':'' else []) @ hexstr (ip_word data i) @ v6_print data gap gaplen (i + 1) True)
      else [])"
  by pat_completeness auto
termination
  by (relation "measure (\<lambda>(data, gap, gaplen, i, needcolon). 8 - i)") auto

declare v6_print.simps [simp del]

definition ip_toString :: "ipaddr \<Rightarrow> string" where
  "ip_toString self =
     (let byte = (\<lambda>i. dec (unat (ip_data self ! i)))
      in if ip_proto self = PSC_P_IPv4
         then byte 12 @ ''.'' @ byte 13 @ ''.'' @ byte 14 @ ''.'' @ byte 15
           @ (if ip_prefixlen self < 32 then ''/'' @ dec (ip_prefixlen self) else [])
         else
           (let (gap, gaplen) = gap_loop (ip_data self) 8 0 0 0
            in v6_print (ip_data self) gap gaplen 0 False
              @ (if ip_prefixlen self < 128 then ''/'' @ dec (ip_prefixlen self) else [])))"

definition IpAddr_string :: "ipaddr \<Rightarrow> string \<times> ipaddr" where
  "IpAddr_string self =
     (let self = (if ip_str self = [] then self\<lparr>ip_str := ip_toString self\<rparr> else self)
      in (ip_str self, self))"

section \<open>Comparing\<close>

definition IpAddr_equals :: "ipaddr \<Rightarrow> ipaddr \<Rightarrow> bool" where
  "IpAddr_equals self other \<longleftrightarrow>
     ip_proto self = ip_proto other \<and> ip_prefixlen self = ip_prefixlen other \<and> ip_data self = ip_data other"

definition IpAddr_matches :: "ipaddr \<Rightarrow> ipaddr \<Rightarrow> bool" where
  "IpAddr_matches self prefix =
     (if ip_proto self \<noteq> ip_proto prefix then False
      else if ip_prefixlen self < ip_prefixlen prefix then False
      else
        (let bytes = ip_prefixlen prefix div 8
         in if take bytes (ip_data self) \<noteq> take bytes (ip_data prefix) then False
            else
              (let bits = ip_prefixlen prefix mod 8
               in if bits = 0 then True
                  else
                    (let mask = push_bit (8 - bits) 0xff
                     in (ip_data self ! bytes) AND mask = (ip_data prefix ! bytes) AND mask))))"

definition IpAddr_nat64 :: "ipaddr \<Rightarrow> ipaddr list \<Rightarrow> ipaddr option" where
  "IpAddr_nat64 self prefixes =
     (if ip_prefixlen self \<noteq> 128 then None
      else if list_ex (\<lambda>prefix. ip_prefixlen prefix = 96 \<and> IpAddr_matches self prefix) prefixes
      then Some \<lparr>ip_data = replicate 12 0 @ take 4 (drop 12 (ip_data self)), ip_prefixlen = 32,
                 ip_proto = PSC_P_IPv4, ip_str = []\<rparr>
      else None)"

section \<open>Lemmas\<close>

subsection \<open>Numbers\<close>

lemma xdigit_spec: "n < 16 \<Longrightarrow> isxdigit (xdigit n) \<and> xdigit_val (xdigit n) = n \<and> chval (xdigit n) \<ge> 48
    \<and> (xdigit n = CHR ''0'' \<longrightarrow> n = 0)"
proof -
  assume "n < 16"
  then have v: "chval (xdigit n) = (if n < 10 then 48 + n else 87 + n)"
    by (simp add: xdigit_def chval_chr)
  have "xdigit n = CHR ''0'' \<Longrightarrow> n = 0"
    using arg_cong [of "xdigit n" "CHR ''0''" chval] v by (simp split: if_splits)
  then show ?thesis using v \<open>n < 16\<close>
    by (simp add: isxdigit_def isdigit_def xdigit_val_def split: if_splits)
qed

lemma hexstr_spec: "list_all isxdigit (hexstr n) \<and> hexstr n \<noteq> [] \<and> hex_value (hexstr n) = n"
proof (induction n rule: hexstr.induct)
  case (1 n)
  have d: "isxdigit (xdigit (n mod 16))" "xdigit_val (xdigit (n mod 16)) = n mod 16"
    using xdigit_spec [of "n mod 16"] by simp_all
  show ?case
  proof (cases "n < 16")
    case True
    then show ?thesis using xdigit_spec [of n] by (simp add: hexstr.simps [of n] hex_value_def)
  next
    case False
    have "hex_value (hexstr (n div 16) @ [xdigit (n mod 16)]) = 16 * (n div 16) + n mod 16"
      using 1 False d by (simp add: hex_value_def)
    then show ?thesis using 1 False d by (simp add: hexstr.simps [of n])
  qed
qed

lemma length_hexstr: "n < 16 ^ k \<Longrightarrow> 0 < k \<Longrightarrow> length (hexstr n) \<le> k"
proof (induction n arbitrary: k rule: hexstr.induct)
  case (1 n)
  show ?case
  proof (cases "n < 16")
    case True
    then show ?thesis using 1(3) by (simp add: hexstr.simps [of n])
  next
    case False
    obtain k' where k: "k = Suc k'" using 1(3) by (cases k) auto
    with False 1(2) have "0 < k'" by (cases k') auto
    moreover have "n div 16 < 16 ^ k'" using 1(2) k by (simp add: div_less_iff_less_mult mult.commute)
    ultimately show ?thesis using 1(1) [of k'] False k by (simp add: hexstr.simps [of n])
  qed
qed

lemma isxdigit_char: "isxdigit c \<Longrightarrow> \<not> isspace c \<and> c \<notin> set ''-+:./xX'' \<and> c \<noteq> NUL"
  by (auto simp: isxdigit_def isdigit_def isspace_def)

lemma xdigits_scan:
  "list_all isxdigit ds \<Longrightarrow> \<not> isxdigit (first_char r) \<Longrightarrow>
    takeWhile isxdigit (ds @ r) = ds \<and> dropWhile isxdigit (ds @ r) = r"
  by (induction ds) (auto simp: first_char_def split: list.splits)

lemma strtol16_hexstr:
  assumes "n < 65536" "r = [] \<or> first_char r \<in> set '':/''"
  shows "strtol16 (hexstr n @ r) = (int n, r)"
proof -
  note h = hexstr_spec [of n]
  obtain c ds where d: "hexstr n = c # ds" using h by (cases "hexstr n") auto
  have c: "isxdigit c" "list_all isxdigit ds" using h d by simp_all
  have r: "\<not> isxdigit (first_char r)" "first_char r \<notin> set ''xX''"
    using assms(2) isxdigit_char [of NUL] isxdigit_char [of "first_char r"] by (auto simp: first_char_def)
  have "first_char (ds @ r) \<notin> {CHR ''x'', CHR ''X''}"
    using r c(2) isxdigit_char by (cases ds) (auto simp: first_char_def)
  then have start: "strtol16_start (hexstr n @ r) = (False, hexstr n @ r)"
    using isxdigit_char [OF c(1)] by (auto simp: strtol16_start_def Let_def d first_char_def)
  have "min (int n) (2 ^ 63 - 1) = int n" using assms(1) by (simp add: min_def)
  then show ?thesis
    using start xdigits_scan [of "hexstr n" r] h r(1) by (simp add: strtol16_def)
qed

subsection \<open>The words of an IPv6 address\<close>

definition word_bytes :: "nat list \<Rightarrow> u8 list" where
  "word_bytes ws = concat (map (\<lambda>w. [of_nat (w div 256), of_nat (w mod 256)]) ws)"

definition ip_words :: "u8 list \<Rightarrow> nat list" where
  "ip_words data = map (ip_word data) [0..<8]"

lemma word_bytes_simps [simp]:
  "word_bytes [] = []" "word_bytes (w # ws) = of_nat (w div 256) # of_nat (w mod 256) # word_bytes ws"
  "word_bytes (ws @ vs) = word_bytes ws @ word_bytes vs" "length (word_bytes ws) = 2 * length ws"
  by (simp_all add: word_bytes_def length_concat comp_def sum_list_triv)

lemma word_bytes_zero: "word_bytes (replicate n 0) = replicate (2 * n) 0"
  by (induction n) (simp_all add: word_bytes_def)

lemma ip_word_eq: "ip_word data i = 256 * unat (data ! (2 * i)) + unat (data ! (2 * i + 1))"
proof -
  have "push_bit 8 (unat (data ! (2 * i))) OR unat (data ! (2 * i + 1)) =
      push_bit 8 (unat (data ! (2 * i))) + unat (data ! (2 * i + 1))"
  proof (rule disjunctive_add [symmetric])
    fix n
    have "\<not> bit (unat (data ! (2 * i + 1))) n" if "8 \<le> n"
    proof -
      have "(2 :: nat) ^ 8 \<le> 2 ^ n" using that by (rule power_increasing) simp
      then have "256 \<le> (2 :: nat) ^ n" by simp
      with unat_u8_less have "unat (data ! (2 * i + 1)) < 2 ^ n" by (rule order_less_le_trans)
      then show ?thesis by (simp add: bit_iff_odd)
    qed
    then show "\<not> bit (push_bit 8 (unat (data ! (2 * i)))) n \<or> \<not> bit (unat (data ! (2 * i + 1))) n"
      by (auto simp: bit_push_bit_iff_nat)
  qed
  then show ?thesis by (simp add: ip_word_def push_bit_eq_mult)
qed

lemma ip_word_less: "ip_word data i < 65536"
  using unat_u8_less [of "data ! (2 * i)"] unat_u8_less [of "data ! (2 * i + 1)"]
  unfolding ip_word_eq by linarith

lemma ip_word_bytes:
  "of_nat (ip_word data i div 256) = data ! (2 * i)" "of_nat (ip_word data i mod 256) = data ! (2 * i + 1)"
proof -
  have "ip_word data i div 256 = unat (data ! (2 * i))" "ip_word data i mod 256 = unat (data ! (2 * i + 1))"
    using unat_u8_less [of "data ! (2 * i + 1)"] unfolding ip_word_eq by simp_all
  then show "of_nat (ip_word data i div 256) = data ! (2 * i)" "of_nat (ip_word data i mod 256) = data ! (2 * i + 1)"
    by simp_all
qed

lemma word_bytes_range:
  "i \<le> j \<Longrightarrow> 2 * j \<le> length data \<Longrightarrow> word_bytes (map (ip_word data) [i..<j]) = take (2 * (j - i)) (drop (2 * i) data)"
proof (induction "j - i" arbitrary: i)
  case (Suc n)
  then have i: "i < j" "n = j - Suc i" by simp_all
  have "drop (2 * i) data = data ! (2 * i) # data ! (2 * i + 1) # drop (2 * Suc i) data"
    using i Suc.prems by (simp add: Cons_nth_drop_Suc)
  moreover have "[i..<j] = i # [Suc i..<j]" using i by (simp add: upt_conv_Cons)
  moreover have "2 * (j - i) = Suc (Suc (2 * (j - Suc i)))" using i by simp
  ultimately show ?case using Suc.hyps(1) [OF i(2)] i Suc.prems ip_word_bytes [of data i] by simp
qed simp

text \<open>Writing words into the array, as both halves of the parser do.\<close>

fun put_words :: "u8 list \<Rightarrow> nat \<Rightarrow> nat list \<Rightarrow> u8 list" where
  "put_words data n [] = data"
| "put_words data n (w # ws) = put_words (data[n := of_nat (w div 256), n + 1 := of_nat (w mod 256)]) (n + 2) ws"

lemma put_words_eq:
  "n + 2 * length ws \<le> length data \<Longrightarrow>
    put_words data n ws = take n data @ word_bytes ws @ drop (n + 2 * length ws) data"
proof (induction ws arbitrary: data n)
  case (Cons w ws)
  let ?d = "data[n := of_nat (w div 256), n + 1 := of_nat (w mod 256)]"
  have "take (n + 2) ?d = take n data @ [of_nat (w div 256), of_nat (w mod 256)]"
    using Cons.prems by (intro nth_equalityI) (auto simp: nth_list_update nth_append less_Suc_eq)
  moreover have "drop (n + 2 + 2 * length ws) ?d = drop (n + 2 * length (w # ws)) data" by simp
  ultimately show ?case using Cons.IH [of "n + 2" ?d] Cons.prems by simp
qed simp

subsection \<open>Printing and parsing IPv6\<close>

fun wtext :: "bool \<Rightarrow> nat list \<Rightarrow> string" where
  "wtext needcolon [] = []"
| "wtext needcolon (w # ws) = (if needcolon then '':'' else []) @ hexstr w @ wtext True ws"

lemma v6_print_tail:
  "gap < i \<or> gaplen = 0 \<Longrightarrow> i \<le> 8 \<Longrightarrow> v6_print data gap gaplen i nc = wtext nc (map (ip_word data) [i..<8])"
proof (induction "8 - i" arbitrary: i nc)
  case 0
  then show ?case by (subst v6_print.simps) simp
next
  case (Suc n)
  then have i: "i < 8" "n = 8 - Suc i" by simp_all
  have "[i..<8] = i # [Suc i..<8]" using i by (simp add: upt_conv_Cons)
  then show ?case using Suc.hyps(1) [OF i(2), of True] Suc.prems i by (subst v6_print.simps) auto
qed

lemma v6_print_gap:
  "i \<le> gap \<Longrightarrow> 0 < gaplen \<Longrightarrow> gap + gaplen \<le> 8 \<Longrightarrow> v6_print data gap gaplen i nc =
    wtext nc (map (ip_word data) [i..<gap]) @ ''::'' @ wtext False (map (ip_word data) [gap + gaplen..<8])"
proof (induction "gap - i" arbitrary: i nc)
  case 0
  then have "i = gap" by simp
  then show ?case using v6_print_tail [of gap "gap + gaplen" gaplen data False] 0
    by (subst v6_print.simps) simp
next
  case (Suc n)
  then have i: "i < gap" "n = gap - Suc i" by simp_all
  have "[i..<gap] = i # [Suc i..<gap]" using i by (simp add: upt_conv_Cons)
  then show ?case using Suc.hyps(1) [OF i(2), of True] Suc.prems i by (subst v6_print.simps) auto
qed

lemma gap_loop_spec:
  "i + n = 8 \<Longrightarrow> gap + gaplen \<le> i \<Longrightarrow> (\<forall>k. gap \<le> k \<and> k < gap + gaplen \<longrightarrow> ip_word data k = 0) \<Longrightarrow>
    gap_loop data n i gap gaplen = (g, l) \<Longrightarrow>
    g + l \<le> 8 \<and> (\<forall>k. g \<le> k \<and> k < g + l \<longrightarrow> ip_word data k = 0)"
proof (induction n arbitrary: i gap gaplen)
  case (Suc n)
  show ?case
  proof (cases "ip_word data i = 0")
    case True
    show ?thesis
    proof (cases "i > gap + gaplen")
      case gt: True
      have "\<forall>k. i \<le> k \<and> k < i + 1 \<longrightarrow> ip_word data k = 0" using True by (metis Suc_eq_plus1 le_antisym less_Suc_eq_le)
      then show ?thesis using Suc.IH [of "i + 1" i 1] Suc.prems True gt by simp
    next
      case False
      then have i: "i = gap + gaplen" using Suc.prems(2) by simp
      have "\<forall>k. gap \<le> k \<and> k < gap + (gaplen + 1) \<longrightarrow> ip_word data k = 0"
        using True Suc.prems(3) i by (auto simp: less_Suc_eq)
      then show ?thesis using Suc.IH [of "i + 1" gap "gaplen + 1"] Suc.prems True i by simp
    qed
  next
    case False
    then show ?thesis using Suc.IH [of "i + 1" gap gaplen] Suc.prems by simp
  qed
qed simp

lemma wtext_first: "ws \<noteq> [] \<Longrightarrow> first_char (wtext False ws @ r) \<noteq> CHR '':'' \<and> wtext False ws \<noteq> []"
proof -
  assume "ws \<noteq> []"
  then obtain w vs where ws: "ws = w # vs" by (cases ws) auto
  obtain c ds where h: "hexstr w = c # ds" using hexstr_spec [of w] by (cases "hexstr w") auto
  then have "isxdigit c" using hexstr_spec [of w] by simp
  then have "c \<noteq> CHR '':''" using isxdigit_char by auto
  then show ?thesis by (simp add: ws h first_char_def)
qed

lemma wtext_True: "ws \<noteq> [] \<Longrightarrow> wtext True ws = '':'' @ wtext False ws"
  by (cases ws) auto

lemma v6_step:
  assumes "w < 65536" "len < 16" "rest = [] \<or> (\<exists>r. rest = ''::'' @ r)"
  shows "v6_loop data len td tlen (wtext False (w # ws) @ rest) =
    (case tlen of
       None \<Rightarrow> v6_loop (data[len := of_nat (w div 256), len + 1 := of_nat (w mod 256)]) (len + 2) td None (wtext False ws @ rest)
     | Some n \<Rightarrow> v6_loop data (len + 2) (td[n := of_nat (w div 256), n + 1 := of_nat (w mod 256)]) (Some (n + 2)) (wtext False ws @ rest))"
proof -
  define r0 where "r0 = wtext True ws @ rest"
  define buf where "buf = wtext False (w # ws) @ rest"
  have r: "r0 = [] \<or> first_char r0 = CHR '':''"
    using assms(3) unfolding r0_def by (cases ws) (auto simp: first_char_def)
  have r': "(r0 \<noteq> [] \<and> first_char r0 \<noteq> CHR '':'') = False" using r by auto
  have "buf = hexstr w @ r0" by (simp add: buf_def r0_def)
  then have strtol: "strtol16 buf = (int w, r0)"
    using strtol16_hexstr [OF assms(1), of r0] r by auto
  have buf: "buf \<noteq> []" "first_char buf \<noteq> CHR '':''" "r0 \<noteq> buf"
    using wtext_first [of "w # ws" rest] hexstr_spec [of w] by (auto simp: buf_def r0_def)
  have next': "(if first_char r0 = CHR '':'' \<and> first_char (tl r0) \<noteq> CHR '':'' then tl r0 else r0) = wtext False ws @ rest"
  proof (cases "ws = []")
    case True
    then show ?thesis using assms(3) by (auto simp: first_char_def r0_def)
  next
    case False
    then show ?thesis using wtext_first [OF False, of rest] wtext_True [OF False] by (simp add: first_char_def r0_def)
  qed
  have "int w div 256 = int (w div 256)" "int w mod 256 = int (w mod 256)"
    by (simp_all add: zdiv_int zmod_int)
  then have w: "\<not> int w < 0" "\<not> int w > 65535" "of_int (int w div 256) = (of_nat (w div 256) :: u8)"
    "of_int (int w mod 256) = (of_nat (w mod 256) :: u8)"
    using assms(1) by (simp_all only: of_int_of_nat_eq)
  show ?thesis
    unfolding buf_def [symmetric]
    using buf assms(2) w
    by (simp only: v6_loop.simps [of data len td tlen buf] strtol next' Let_def prod.case r') (simp split: option.split)
qed

lemma v6_head:
  "list_all (\<lambda>w. w < 65536) ws \<Longrightarrow> len + 2 * length ws \<le> 16 \<Longrightarrow> rest = [] \<or> (\<exists>r. rest = ''::'' @ r) \<Longrightarrow>
    v6_loop data len td None (wtext False ws @ rest) = v6_loop (put_words data len ws) (len + 2 * length ws) td None rest"
proof (induction ws arbitrary: data len)
  case (Cons w ws)
  then show ?case using v6_step [of w len rest data td None ws] by (simp del: wtext.simps)
qed simp

lemma v6_tail:
  "list_all (\<lambda>w. w < 65536) ws \<Longrightarrow> len + 2 * length ws \<le> 16 \<Longrightarrow>
    v6_loop data len td (Some n) (wtext False ws) =
      v6_loop data (len + 2 * length ws) (put_words td n ws) (Some (n + 2 * length ws)) []"
proof (induction ws arbitrary: td len n)
  case (Cons w ws)
  then show ?case using v6_step [of w len "[]" data td "Some n" ws] by (simp del: wtext.simps)
qed simp

lemma words_less: "list_all (\<lambda>w. w < 65536) (map (ip_word data) xs)"
  using ip_word_less by (simp add: list_all_iff)

text \<open>Both shapes of the text are read back as the bytes they were printed from.\<close>

lemma parsev6_plain:
  assumes "length data = 16"
  shows "parsev6 (replicate 16 0) (wtext False (ip_words data)) = Some data"
proof -
  have "v6_loop (replicate 16 0) 0 (replicate 16 0) None (wtext False (ip_words data)) =
      Some (put_words (replicate 16 0) 0 (ip_words data), replicate 16 0, None)"
    using v6_head [of "ip_words data" 0 "[]" "replicate 16 0" "replicate 16 0"] words_less [of data "[0..<8]"]
    by (simp add: ip_words_def v6_loop.simps [of _ _ _ _ "[]"])
  moreover have "put_words (replicate 16 0) 0 (ip_words data) = data"
    using put_words_eq [of 0 "ip_words data" "replicate 16 0"] word_bytes_range [of 0 8 data] assms
    by (simp add: ip_words_def)
  ultimately show ?thesis by (simp add: parsev6_def)
qed

lemma parsev6_gap:
  assumes "length data = 16" "g + l \<le> 8" "\<forall>k. g \<le> k \<and> k < g + l \<longrightarrow> ip_word data k = 0"
  shows "parsev6 (replicate 16 0)
      (wtext False (map (ip_word data) [0..<g]) @ ''::'' @ wtext False (map (ip_word data) [g + l..<8])) = Some data"
proof -
  let ?hs = "map (ip_word data) [0..<g]" and ?ts = "map (ip_word data) [g + l..<8]"
  let ?z = "replicate 16 (0 :: u8)" and ?n = "2 * (8 - (g + l))"
  have "v6_loop ?z 0 ?z None (wtext False ?hs @ ''::'' @ wtext False ?ts) =
      v6_loop (put_words ?z 0 ?hs) (2 * g) ?z None (''::'' @ wtext False ?ts)"
    using v6_head [OF words_less [of data "[0..<g]"], of 0 "''::'' @ wtext False ?ts" ?z ?z] assms(2) by simp
  also have "\<dots> = v6_loop (put_words ?z 0 ?hs) (2 * g) ?z (Some 0) (wtext False ?ts)"
    by (simp add: v6_loop.simps [of _ _ _ _ "CHR '':'' # _"] first_char_def)
  also have "\<dots> = Some (put_words ?z 0 ?hs, put_words ?z 0 ?ts, Some ?n)"
    using v6_tail [OF words_less [of data "[g + l..<8]"], of "2 * g" "put_words ?z 0 ?hs" ?z 0] assms(2)
    by (simp add: v6_loop.simps [of _ _ _ _ "[]"])
  finally have run: "v6_loop ?z 0 ?z None (wtext False ?hs @ ''::'' @ wtext False ?ts) =
      Some (put_words ?z 0 ?hs, put_words ?z 0 ?ts, Some ?n)" .
  have b: "put_words ?z 0 ?hs = take (2 * g) data @ replicate (16 - 2 * g) 0"
    "put_words ?z 0 ?ts = drop (2 * (g + l)) data @ replicate (16 - ?n) 0"
    using put_words_eq [of 0 ?hs ?z] put_words_eq [of 0 ?ts ?z] word_bytes_range [of 0 g data]
      word_bytes_range [of "g + l" 8 data] assms(1,2) by simp_all
  have "map (ip_word data) [g..<g + l] = replicate l 0"
    using assms(3) by (intro nth_equalityI) simp_all
  then have mid: "take (2 * l) (drop (2 * g) data) = replicate (2 * l) 0"
    using word_bytes_range [of g "g + l" data] word_bytes_zero [of l] assms(1,2) by simp
  have "data = take (2 * g) data @ take (2 * l) (drop (2 * g) data) @ drop (2 * (g + l)) data"
    by (metis append_assoc append_take_drop_id drop_drop mult_2_right add.commute distrib_left)
  then have d: "data = take (2 * g) data @ replicate (2 * l) 0 @ drop (2 * (g + l)) data" by (simp only: mid)
  have sz: "16 - ?n = 2 * g + 2 * l" "length (take (2 * g) data) = 2 * g" "length (drop (2 * (g + l)) data) = ?n"
    using assms(1,2) by auto
  show ?thesis
  proof (cases "?n = 0")
    case True
    then have "16 - 2 * g = 2 * l" "drop (2 * (g + l)) data = []" using assms(1,2) by auto
    then show ?thesis using run b d True by (simp add: parsev6_def)
  next
    case False
    have "2 * l \<le> 16 - 2 * g" using assms(2) by linarith
    then have tk: "take (16 - ?n) (take (2 * g) data @ replicate (16 - 2 * g) 0) = take (2 * g) data @ replicate (2 * l) 0"
      unfolding sz(1) using sz(2) assms(2) by (simp add: min_def)
    have dr: "take ?n (drop (2 * (g + l)) data @ replicate (16 - ?n) 0) = drop (2 * (g + l)) data"
      using sz(3) by simp
    show ?thesis
      unfolding parsev6_def run option.case prod.case b tk dr using d [symmetric] False by simp
  qed
qed

lemma set_wtext: "c \<in> set (wtext nc ws) \<Longrightarrow> isxdigit c \<or> c = CHR '':''"
proof (induction nc ws rule: wtext.induct)
  case (2 nc w ws)
  then show ?case using hexstr_spec [of w] by (auto simp: list_all_iff split: if_splits)
qed simp

lemma length_wtext: "list_all (\<lambda>w. w < 65536) ws \<Longrightarrow> ws \<noteq> [] \<Longrightarrow> length (wtext False ws) + 1 \<le> 5 * length ws"
proof (induction ws)
  case (Cons w ws)
  have "length (hexstr w) \<le> 4" using length_hexstr [of w 4] Cons.prems by simp
  then show ?case using Cons wtext_True [of ws] by (cases "ws = []") auto
qed simp

lemma strtoll_rest: "set (snd (strtoll s)) \<subseteq> set s"
proof -
  have 1: "set (dropWhile isspace s) \<subseteq> set s" using set_dropWhileD by fast
  have 2: "set (dropWhile isdigit u) \<subseteq> set u" for u :: string using set_dropWhileD by fast
  have 3: "set (tl u) \<subseteq> set u" for u :: string by (cases u) auto
  show ?thesis unfolding strtoll_def Let_def using 1 2 3 by (auto split: if_splits) blast+
qed

lemma v4_needs_dot: "CHR ''.'' \<notin> set s \<Longrightarrow> parsev4 data s = None"
proof -
  assume dot: "CHR ''.'' \<notin> set s"
  obtain byte endp where r: "strtoll s = (byte, endp)" by (cases "strtoll s")
  then have "set endp \<subseteq> set s" using strtoll_rest [of s] by simp
  then have "first_char endp \<noteq> CHR ''.''" using dot by (cases endp) (auto simp: first_char_def)
  then have "v4_loop 4 [] s = None" using r by (simp add: numeral_eq_Suc)
  then show ?thesis by (simp add: parsev4_def)
qed

lemma takeWhile_append_sep: "c \<notin> set a \<Longrightarrow> takeWhile (\<lambda>d. d \<noteq> c) (a @ c # b) = a" "c \<notin> set a \<Longrightarrow> takeWhile (\<lambda>d. d \<noteq> c) a = a"
  by (induction a) auto

lemma parse_prefix_text:
  "CHR ''/'' \<notin> set a \<Longrightarrow> n \<le> 128 \<Longrightarrow> parse_prefix (a @ ''/'' @ dec n) = Some (Some n)"
  "CHR ''/'' \<notin> set a \<Longrightarrow> parse_prefix a = Some None"
proof -
  assume a: "CHR ''/'' \<notin> set a"
  show "parse_prefix a = Some None" using a strchr_None [of a "CHR ''/''"] by (simp add: parse_prefix_def)
  assume n: "n \<le> 128"
  have "strtoll (dec n) = (int n, [])" using strtoll_dec [of n "[]"] n by (simp add: first_char_def)
  then show "parse_prefix (a @ ''/'' @ dec n) = Some (Some n)"
    using strchr_append [OF a, of "dec n"] n dec_not_Nil [of n, symmetric] by (simp add: parse_prefix_def)
qed

definition ip_ok :: "ipaddr \<Rightarrow> bool" where
  "ip_ok self \<longleftrightarrow> length (ip_data self) = 16 \<and> ip_str self = []
     \<and> (case ip_proto self of
          PSC_P_IPv4 \<Rightarrow> ip_prefixlen self \<le> 32 \<and> take 12 (ip_data self) = replicate 12 0
        | PSC_P_IPv6 \<Rightarrow> ip_prefixlen self \<le> 128
        | PSC_P_ANY \<Rightarrow> False)"

text \<open>The body of an IPv6 address, and of an IPv4 one.\<close>

definition v6_text :: "u8 list \<Rightarrow> string" where
  "v6_text data = (case gap_loop data 8 0 0 0 of (gap, gaplen) \<Rightarrow> v6_print data gap gaplen 0 False)"

lemma v6_text_spec:
  assumes "length data = 16"
  shows "parsev6 (replicate 16 0) (v6_text data) = Some data" "set (v6_text data) \<subseteq> {c. isxdigit c \<or> c = CHR '':''}"
    "2 \<le> length (v6_text data)" "length (v6_text data) \<le> 39"
proof -
  obtain g l where gap: "gap_loop data 8 0 0 0 = (g, l)" by (cases "gap_loop data 8 0 0 0")
  note z = gap_loop_spec [OF _ _ _ gap, simplified]
  have "parsev6 (replicate 16 0) (v6_text data) = Some data \<and> set (v6_text data) \<subseteq> {c. isxdigit c \<or> c = CHR '':''}
    \<and> 2 \<le> length (v6_text data) \<and> length (v6_text data) \<le> 39"
  proof (cases "l = 0")
    case True
    then have t: "v6_text data = wtext False (ip_words data)"
      by (simp add: v6_text_def gap v6_print_tail ip_words_def)
    have "length (wtext False (ip_words data)) + 1 \<le> 5 * length (ip_words data)"
      unfolding ip_words_def by (rule length_wtext [OF words_less]) simp
    moreover have "length (wtext False (ip_words data)) \<ge> 2"
    proof -
      have "ip_words data = ip_word data 0 # ip_word data 1 # map (ip_word data) [2..<8]"
        by (simp add: ip_words_def upt_rec numeral_eq_Suc)
      then show ?thesis using hexstr_spec [of "ip_word data 0"] by (cases "hexstr (ip_word data 0)") auto
    qed
    ultimately show ?thesis unfolding t using parsev6_plain [OF assms] set_wtext by (auto simp: ip_words_def)
  next
    case False
    let ?hs = "map (ip_word data) [0..<g]" and ?ts = "map (ip_word data) [g + l..<8]"
    have t: "v6_text data = wtext False ?hs @ ''::'' @ wtext False ?ts"
      using v6_print_gap [of 0 g l data False] z False by (simp add: v6_text_def gap)
    have "length (wtext False ws) \<le> 5 * length ws" if "list_all (\<lambda>w. w < 65536) ws" for ws
      using length_wtext [OF that] by (cases "ws = []") auto
    from this [OF words_less] have "length (wtext False ?hs) \<le> 5 * g" "length (wtext False ?ts) \<le> 5 * (8 - (g + l))"
      by (metis length_map length_upt minus_nat.diff_0) (metis length_map length_upt words_less \<open>\<And>ws. list_all (\<lambda>w. w < 65536) ws \<Longrightarrow> length (wtext False ws) \<le> 5 * length ws\<close>)
    then have "length (v6_text data) \<le> 5 * g + 2 + 5 * (8 - (g + l))" unfolding t by simp
    also have "\<dots> \<le> 39" using z False by linarith
    finally show ?thesis using parsev6_gap [OF assms, of g l] z set_wtext unfolding t by auto
  qed
  then show "parsev6 (replicate 16 0) (v6_text data) = Some data" "set (v6_text data) \<subseteq> {c. isxdigit c \<or> c = CHR '':''}"
    "2 \<le> length (v6_text data)" "length (v6_text data) \<le> 39" by blast+
qed

text \<open>The four numbers of an IPv4 address.\<close>

definition v4_text :: "u8 list \<Rightarrow> string" where
  "v4_text data = dec (unat (data ! 12)) @ ''.'' @ dec (unat (data ! 13)) @ ''.'' @ dec (unat (data ! 14)) @ ''.'' @ dec (unat (data ! 15))"

lemma v4_step_nat:
  assumes "(r = [] \<and> n = 0) \<or> (\<exists>q. r = ''.'' @ q \<and> n > 0)" "b < 256"
  shows "v4_loop (Suc n) v4dat (dec b @ r) = v4_loop n (v4dat @ [of_nat b]) (if n > 0 then tl r else r)"
proof -
  have "\<not> isdigit (first_char r)" using assms(1) by (auto simp: first_char_def isdigit_def)
  then have "strtoll (dec b @ r) = (int b, r)" using assms(2) by (intro strtoll_dec) simp_all
  moreover have "r \<noteq> dec b @ r" by simp
  ultimately show ?thesis using assms by (auto simp: first_char_def)
qed

lemma v4_step:
  fixes b :: u8
  assumes "(r = [] \<and> n = 0) \<or> (\<exists>q. r = ''.'' @ q \<and> n > 0)"
  shows "v4_loop (Suc n) v4dat (dec (unat b) @ r) = v4_loop n (v4dat @ [b]) (if n > 0 then tl r else r)"
  using v4_step_nat [OF assms unat_u8_less [of b], of v4dat] by simp

lemma v4_text_spec:
  assumes "length data = 16"
  shows "v4_loop 4 [] (v4_text data) = Some (drop 12 data)" "set (v4_text data) \<subseteq> {c. isdigit c \<or> c = CHR ''.''}"
    "2 \<le> length (v4_text data)" "length (v4_text data) \<le> 15"
proof -
  have dr: "drop 12 data = [data ! 12, data ! 13, data ! 14, data ! 15]"
    using assms by (intro nth_equalityI) (auto simp: less_Suc_eq numeral_eq_Suc)
  have run: "v4_loop 4 [] (dec (unat a) @ ''.'' @ dec (unat b) @ ''.'' @ dec (unat c) @ ''.'' @ dec (unat d)) = Some [a, b, c, d]"
    for a b c d :: u8
  proof -
    have "v4_loop (Suc 0) [a, b, c] (dec (unat d)) = Some [a, b, c, d]"
      using v4_step [of "[]" 0 "[a, b, c]" d] by simp
    then show ?thesis by (simp add: v4_step numeral_eq_Suc del: v4_loop.simps(2))
  qed
  show "v4_loop 4 [] (v4_text data) = Some (drop 12 data)" unfolding v4_text_def dr by (rule run)
  have d: "isdigit c" if "c \<in> set (dec n)" for c n using dec_digits [of n] that by (simp add: list_all_iff)
  then show "set (v4_text data) \<subseteq> {c. isdigit c \<or> c = CHR ''.''}" by (auto simp: v4_text_def)
  have "length (dec (unat b)) \<le> 3" for b :: u8 using length_dec [of "unat b" 3] unat_u8_less [of b] by simp
  then have "length (dec (unat (data ! i))) \<le> 3" for i .
  from this [of 12] this [of 13] this [of 14] this [of 15]
  show "length (v4_text data) \<le> 15" "2 \<le> length (v4_text data)" by (simp_all add: v4_text_def)
qed

lemma IpAddr_roundtrip:
  assumes "ip_ok self"
  shows "IpAddr_create (ip_toString self) = Some self"
proof -
  let ?d = "ip_data self" and ?n = "ip_prefixlen self"
  have len: "length ?d = 16" and str: "ip_str self = []" using assms by (simp_all add: ip_ok_def)
  have suffix: "length (''/'' @ dec ?n) \<le> 4" if "?n \<le> 128" using length_dec [of ?n 3] that by simp
  show ?thesis
  proof (cases "ip_proto self")
    case PSC_P_ANY
    then show ?thesis using assms by (simp add: ip_ok_def)
  next
    case PSC_P_IPv4
    note v4 = v4_text_spec [OF len]
    let ?t = "v4_text ?d"
    have n: "?n \<le> 32" and z: "take 12 ?d = replicate 12 0" using assms PSC_P_IPv4 by (simp_all add: ip_ok_def)
    have slash: "CHR ''/'' \<notin> set ?t" using v4(2) by (auto simp: isdigit_def)
    have parse: "parsev4 (replicate 16 0) ?t = Some ?d"
      using v4(1) z append_take_drop_id [of 12 ?d] by (simp add: parsev4_def)
    have txt_eq: "ip_toString self = ?t @ (if ?n < 32 then ''/'' @ dec ?n else [])"
      using PSC_P_IPv4 by (simp add: ip_toString_def v4_text_def)
    have sz: "2 \<le> length (ip_toString self)" "length (ip_toString self) \<le> 43"
      using v4(3,4) suffix n unfolding txt_eq by auto
    have self: "self = \<lparr>ip_data = ?d, ip_prefixlen = ?n, ip_proto = PSC_P_IPv4, ip_str = []\<rparr>"
      using str PSC_P_IPv4 by simp
    show ?thesis
    proof (cases "?n < 32")
      case True
      then have "ip_toString self = ?t @ ''/'' @ dec ?n" using txt_eq by simp
      then show ?thesis
        using sz parse n parse_prefix_text(1) [OF slash, of ?n] takeWhile_append_sep(1) [OF slash]
        by (subst (2) self) (simp add: IpAddr_create_def Let_def del: takeWhile_eq_all_conv)
    next
      case False
      then have "?n = 32" "ip_toString self = ?t" using txt_eq n by simp_all
      then show ?thesis
        using sz parse parse_prefix_text(2) [OF slash] takeWhile_append_sep(2) [OF slash]
        by (subst (2) self) (simp add: IpAddr_create_def Let_def del: takeWhile_eq_all_conv)
    qed
  next
    case PSC_P_IPv6
    note v6 = v6_text_spec [OF len]
    let ?t = "v6_text ?d"
    have n: "?n \<le> 128" using assms PSC_P_IPv6 by (simp add: ip_ok_def)
    have slash: "CHR ''/'' \<notin> set ?t" "CHR ''.'' \<notin> set ?t"
      using v6(2) isxdigit_char by auto
    have txt_eq: "ip_toString self = ?t @ (if ?n < 128 then ''/'' @ dec ?n else [])"
      using PSC_P_IPv6 by (simp add: ip_toString_def v6_text_def split: prod.split)
    have sz: "2 \<le> length (ip_toString self)" "length (ip_toString self) \<le> 43"
      using v6(3,4) suffix n unfolding txt_eq by auto
    have self: "self = \<lparr>ip_data = ?d, ip_prefixlen = ?n, ip_proto = PSC_P_IPv6, ip_str = []\<rparr>"
      using str PSC_P_IPv6 by simp
    show ?thesis
    proof (cases "?n < 128")
      case True
      then have "ip_toString self = ?t @ ''/'' @ dec ?n" using txt_eq by simp
      then show ?thesis
        using sz v6(1) v4_needs_dot [OF slash(2)] n parse_prefix_text(1) [OF slash(1), of ?n] takeWhile_append_sep(1) [OF slash(1)]
        by (subst (2) self) (simp add: IpAddr_create_def Let_def del: takeWhile_eq_all_conv)
    next
      case False
      then have "?n = 128" "ip_toString self = ?t" using txt_eq n by simp_all
      then show ?thesis
        using sz v6(1) v4_needs_dot [OF slash(2)] parse_prefix_text(2) [OF slash(1)] takeWhile_append_sep(2) [OF slash(1)]
        by (subst (2) self) (simp add: IpAddr_create_def Let_def del: takeWhile_eq_all_conv)
    qed
  qed
qed


section \<open>Well-formed addresses\<close>

lemma v4_loop_length: "v4_loop n v4dat s = Some d \<Longrightarrow> length d = length v4dat + n"
  by (induction n v4dat s rule: v4_loop.induct) (auto simp: Let_def split: prod.splits if_splits)

lemma v6_loop_length:
  "v6_loop data len taildat taillen s = Some (d, t, n) \<Longrightarrow> length data = 16 \<Longrightarrow> length taildat = 16 \<Longrightarrow> even len \<Longrightarrow>
    len \<le> 16 \<Longrightarrow> (\<And>k. taillen = Some k \<Longrightarrow> k \<le> len) \<Longrightarrow> length d = 16 \<and> length t = 16 \<and> (\<forall>k. n = Some k \<longrightarrow> k \<le> 16)"
proof (induction data len taildat taillen s arbitrary: d t n rule: v6_loop.induct)
  case (1 data len taildat taillen buf)
  let ?G = "length d = 16 \<and> length t = 16 \<and> (\<forall>k. n = Some k \<longrightarrow> k \<le> 16)"
  have even_less: "len < 16 \<Longrightarrow> len + 2 \<le> 16" using "1.prems"(4) by (auto elim!: evenE)
  have IH1: "buf \<noteq> [] \<Longrightarrow> taillen = None \<and> first_char buf = CHR '':'' \<and> first_char (tl buf) = CHR '':'' \<Longrightarrow>
    v6_loop data len taildat (Some 0) (drop 2 buf) = Some (d, t, n) \<Longrightarrow> ?G"
    using "1.IH"(1) [of d t n] "1.prems" by auto
  show ?G
  proof (cases "buf = [] \<or> taillen = None \<and> first_char buf = CHR '':'' \<and> first_char (tl buf) = CHR '':''")
    case True
    then show ?thesis
    proof
      assume "buf = []"
      then show ?thesis using "1.prems" by (auto simp: v6_loop.simps [of _ _ _ _ "[]"] dest: order_trans)
    next
      assume c: "taillen = None \<and> first_char buf = CHR '':'' \<and> first_char (tl buf) = CHR '':''"
      then have "buf \<noteq> []" by (auto simp: first_char_def)
      then show ?thesis using c "1.prems"(1) IH1 by (simp add: v6_loop.simps [of _ _ _ _ buf])
    qed
  next
    case False
    then have ne: "buf \<noteq> []" "\<not> (taillen = None \<and> first_char buf = CHR '':'' \<and> first_char (tl buf) = CHR '':'')" by auto
    obtain w endp where w: "strtol16 buf = (w, endp)" by (cases "strtol16 buf")
    have ok: "\<not> (endp = buf \<or> (endp \<noteq> [] \<and> first_char endp \<noteq> CHR '':'') \<or> w < 0 \<or> w > 0xffff \<or> len \<ge> 16)"
      using "1.prems"(1) ne w by (subst (asm) v6_loop.simps) (auto split: if_splits)
    let ?hi = "of_int (w div 256) :: u8" and ?lo = "of_int (w mod 256) :: u8"
    let ?b = "if first_char endp = CHR '':'' \<and> first_char (tl endp) \<noteq> CHR '':'' then tl endp else endp"
    have IH2: "taillen = None \<Longrightarrow> v6_loop (data[len := ?hi, len + 1 := ?lo]) (len + 2) taildat None ?b = Some (d, t, n) \<Longrightarrow> ?G"
      using "1.IH"(2) [OF ne w [symmetric] refl ok refl refl refl] "1.prems" even_less ok by auto
    have IH3: "taillen = Some k \<Longrightarrow> v6_loop data (len + 2) (taildat[k := ?hi, k + 1 := ?lo]) (Some (k + 2)) ?b = Some (d, t, n) \<Longrightarrow> ?G" for k
      using "1.IH"(3) [OF ne w [symmetric] refl ok refl refl refl] "1.prems" even_less ok by auto
    note st = v6_loop.simps [of data len taildat taillen buf, unfolded if_not_P [OF ne(1)] if_not_P [OF ne(2)] w
      Let_def prod.case if_not_P [OF ok]]
    show ?thesis
    proof (cases taillen)
      case None
      then show ?thesis using IH2 "1.prems"(1) unfolding st by simp
    next
      case (Some k)
      then show ?thesis using IH3 "1.prems"(1) unfolding st by simp
    qed
  qed
qed

lemma parse_prefix_bound: "parse_prefix s = Some (Some n) \<Longrightarrow> n \<le> 128"
  by (auto simp: parse_prefix_def Let_def split: option.splits prod.splits if_splits)

lemma parsev4_wf: "parsev4 (replicate 16 0) buf = Some d \<Longrightarrow> length d = 16 \<and> take 12 d = replicate 12 0"
  by (auto simp: parsev4_def dest: v4_loop_length split: option.splits)

lemma parsev6_wf: "parsev6 (replicate 16 0) buf = Some d \<Longrightarrow> length d = 16"
proof -
  assume r: "parsev6 (replicate 16 0) buf = Some d"
  then obtain d' t n where l: "v6_loop (replicate 16 0) 0 (replicate 16 0) None buf = Some (d', t, n)"
    by (auto simp: parsev6_def split: option.splits)
  have "length d' = 16 \<and> length t = 16 \<and> (\<forall>k. n = Some k \<longrightarrow> k \<le> 16)" by (rule v6_loop_length [OF l]) auto
  then show ?thesis using r l by (auto simp: parsev6_def split: option.splits if_splits)
qed

lemma IpAddr_create_ok: "IpAddr_create s = Some a \<Longrightarrow> ip_ok a"
  using parse_prefix_bound [of s]
  by (auto simp: IpAddr_create_def Let_def ip_ok_def dest!: parsev4_wf parsev6_wf split: option.splits if_splits)

lemma ip_toString_fits: "ip_ok a \<Longrightarrow> 2 \<le> length (ip_toString a) \<and> length (ip_toString a) + 1 \<le> 44"
proof -
  assume ok: "ip_ok a"
  then have len: "length (ip_data a) = 16" and n: "ip_prefixlen a \<le> 128" by (auto simp: ip_ok_def split: psc_proto.splits)
  note sz = v4_text_spec(3,4) [OF len] v6_text_spec(3,4) [OF len] length_dec [of "ip_prefixlen a" 3]
  show ?thesis
  proof (cases "ip_proto a = PSC_P_IPv4")
    case True
    then have "ip_toString a = v4_text (ip_data a) @ (if ip_prefixlen a < 32 then ''/'' @ dec (ip_prefixlen a) else [])"
      by (simp add: ip_toString_def v4_text_def)
    then show ?thesis using sz n by auto
  next
    case False
    then have "ip_toString a = v6_text (ip_data a) @ (if ip_prefixlen a < 128 then ''/'' @ dec (ip_prefixlen a) else [])"
      by (simp add: ip_toString_def v6_text_def split: prod.split)
    then show ?thesis using sz n by auto
  qed
qed

section \<open>Prefixes\<close>

definition ip_bit :: "ipaddr \<Rightarrow> nat \<Rightarrow> bool" where
  "ip_bit a i = bit (ip_data a ! (i div 8)) (7 - i mod 8)"

lemma masked_eq:
  assumes "k < 8"
  shows "((x :: u8) AND push_bit (8 - k) 0xff = y AND push_bit (8 - k) 0xff) \<longleftrightarrow> (\<forall>j<k. bit x (7 - j) = bit y (7 - j))"
proof -
  have m: "bit (push_bit (8 - k) 0xff :: u8) i \<longleftrightarrow> 8 - k \<le> i" if "i < 8" for i
  proof -
    have "(0xff :: u8) = - 1" by simp
    then show ?thesis using that by (simp only:) (simp add: bit_simps not_less)
  qed
  have "(x AND push_bit (8 - k) 0xff = y AND push_bit (8 - k) 0xff) \<longleftrightarrow> (\<forall>i<8. 8 - k \<le> i \<longrightarrow> bit x i = bit y i)"
  proof
    assume e: "x AND push_bit (8 - k) 0xff = y AND push_bit (8 - k) 0xff"
    have "bit x i = bit y i" if i: "i < 8" "8 - k \<le> i" for i
      using arg_cong [OF e, of "\<lambda>w. bit w i"] i(2) unfolding bit_and_iff m [OF i(1)] by simp
    then show "\<forall>i<8. 8 - k \<le> i \<longrightarrow> bit x i = bit y i" by blast
  next
    assume r: "\<forall>i<8. 8 - k \<le> i \<longrightarrow> bit x i = bit y i"
    show "x AND push_bit (8 - k) 0xff = y AND push_bit (8 - k) 0xff"
    proof (rule bit_word_eqI)
      fix i assume "i < LENGTH(8)"
      then have i: "i < 8" by simp
      show "bit (x AND push_bit (8 - k) 0xff) i = bit (y AND push_bit (8 - k) 0xff) i"
        unfolding bit_and_iff m [OF i] using r i by blast
    qed
  qed
  also have "\<dots> \<longleftrightarrow> (\<forall>j<k. bit x (7 - j) = bit y (7 - j))"
  proof
    assume r: "\<forall>i<8. 8 - k \<le> i \<longrightarrow> bit x i = bit y i"
    have "7 - j < 8 \<and> 8 - k \<le> 7 - j" if "j < k" for j using that assms by linarith
    then show "\<forall>j<k. bit x (7 - j) = bit y (7 - j)" using r by blast
  next
    assume r: "\<forall>j<k. bit x (7 - j) = bit y (7 - j)"
    have "7 - (7 - i) = i \<and> 7 - i < k" if "i < 8" "8 - k \<le> i" for i using that assms by linarith
    then show "\<forall>i<8. 8 - k \<le> i \<longrightarrow> bit x i = bit y i" using r by metis
  qed
  finally show ?thesis .
qed

lemma byte_eq: "(x :: u8) = y \<longleftrightarrow> (\<forall>j<8. bit x (7 - j) = bit y (7 - j))"
proof
  assume r: "\<forall>j<8. bit x (7 - j) = bit y (7 - j)"
  show "x = y"
  proof (rule bit_word_eqI)
    fix i assume "i < LENGTH(8)"
    then have "7 - (7 - i) = i" "7 - i < 8" by auto
    then show "bit x i = bit y i" using r by metis
  qed
qed simp


lemma bits_split:
  "(\<forall>i<n. ip_bit a i = ip_bit p i) \<longleftrightarrow>
    (\<forall>b<n div 8. \<forall>j<8. bit (ip_data a ! b) (7 - j) = bit (ip_data p ! b) (7 - j)) \<and>
    (\<forall>j<n mod 8. bit (ip_data a ! (n div 8)) (7 - j) = bit (ip_data p ! (n div 8)) (7 - j))"
proof (rule iffI, goal_cases)
  case 1
  have "bit (ip_data a ! b) (7 - j) = bit (ip_data p ! b) (7 - j)" if "8 * b + j < n" "j < 8" for b j
    using 1 that by (auto simp: ip_bit_def dest!: spec [of _ "8 * b + j"])
  moreover have "8 * b + j < n" if "b < n div 8" "j < 8" for b j using that by linarith
  moreover have "8 * (n div 8) + j < n" "j < 8" if "j < n mod 8" for j
    using that mult_div_mod_eq [of 8 n] mod_less_divisor [of 8 n] by linarith+
  ultimately show ?case by blast
next
  case 2
  show ?case
  proof (intro allI impI)
    fix i assume i: "i < n"
    show "ip_bit a i = ip_bit p i"
    proof (cases "i div 8 < n div 8")
      case True
      then show ?thesis using 2 by (simp add: ip_bit_def)
    next
      case False
      moreover have "i div 8 \<le> n div 8" using i by (intro div_le_mono) simp
      ultimately have e: "i div 8 = n div 8" by simp
      moreover have "i mod 8 < n mod 8" using e i mult_div_mod_eq [of 8 n] mult_div_mod_eq [of 8 i] by linarith
      ultimately show ?thesis using 2 by (simp add: ip_bit_def)
    qed
  qed
qed

lemma IpAddr_matches_bits:
  assumes "length (ip_data a) = 16" "length (ip_data p) = 16" "ip_prefixlen p \<le> 128"
  shows "IpAddr_matches a p \<longleftrightarrow> ip_proto a = ip_proto p \<and> ip_prefixlen p \<le> ip_prefixlen a
    \<and> (\<forall>i<ip_prefixlen p. ip_bit a i = ip_bit p i)"
proof -
  let ?n = "ip_prefixlen p"
  have "?n div 8 \<le> 16" using assms(3) by simp
  then have tk: "take (?n div 8) (ip_data a) = take (?n div 8) (ip_data p) \<longleftrightarrow>
      (\<forall>b<?n div 8. \<forall>j<8. bit (ip_data a ! b) (7 - j) = bit (ip_data p ! b) (7 - j))"
    using assms(1,2) by (auto simp: list_eq_iff_nth_eq byte_eq [symmetric])
  have "?n mod 8 < 8" by simp
  note m = masked_eq [OF this]
  show ?thesis unfolding IpAddr_matches_def bits_split Let_def tk m
    by (cases "\<forall>b<?n div 8. \<forall>j<8. bit (ip_data a ! b) (7 - j) = bit (ip_data p ! b) (7 - j)")
      (simp_all only:, auto simp: linorder_not_less)
qed

section \<open>Properties\<close>

text \<open>
  C25: Addresses and their text. Every address that \<^term>\<open>IpAddr_create\<close> accepts is well-formed; its
  text fits into the 44 bytes of the object with its NUL, and reading that text back gives the same
  address with the same prefix, for both versions and wherever the run of zero words lies that \<open>::\<close>
  stands for.
\<close>

theorem ip_text_roundtrip:
  assumes "IpAddr_create s = Some a"
  shows "ip_ok a \<and> IpAddr_create (fst (IpAddr_string a)) = Some a \<and> length (fst (IpAddr_string a)) + 1 \<le> 44"
proof -
  have ok: "ip_ok a" by (rule IpAddr_create_ok [OF assms])
  then have "fst (IpAddr_string a) = ip_toString a" by (simp add: IpAddr_string_def ip_ok_def)
  then show ?thesis using ok IpAddr_roundtrip [OF ok] ip_toString_fits [OF ok] by simp
qed

theorem ip_text_roundtrip_witness:
  "ip_ok \<lparr>ip_data = replicate 12 0 @ [192, 168, 0, 7], ip_prefixlen = 24, ip_proto = PSC_P_IPv4, ip_str = []\<rparr>
   \<and> (\<exists>a. IpAddr_create ''192.168.0.7/24'' = Some a \<and> ip_prefixlen a = 24
      \<and> IpAddr_create (fst (IpAddr_string a)) = Some a \<and> length (fst (IpAddr_string a)) + 1 \<le> 44)"
proof -
  let ?a = "\<lparr>ip_data = replicate 12 0 @ [192, 168, 0, 7], ip_prefixlen = 24, ip_proto = PSC_P_IPv4, ip_str = []\<rparr>"
  have "IpAddr_create ''192.168.0.7/24'' = Some ?a" by code_simp
  from ip_text_roundtrip [OF this] this show ?thesis by auto
qed

text \<open>
  Matching a prefix. An address matches a prefix exactly where both are of the same version, the
  address is at least as long and the leading bits are the same. As an IPv4 address lies behind twelve
  zero bytes, and at most the first 32 bits are compared, every IPv4 address matches every IPv4 prefix
  that is not longer, whatever the two are. A NAT64 address that matches one of the prefixes gives the
  IPv4 address in its last four bytes, well-formed again.
\<close>

theorem ip_prefix_match:
  assumes "ip_ok a" "ip_ok p" "ip_prefixlen b = 128" "length (ip_data b) = 16" "p \<in> set prefixes"
  shows "(IpAddr_matches a p \<longleftrightarrow> ip_proto a = ip_proto p \<and> ip_prefixlen p \<le> ip_prefixlen a
      \<and> (\<forall>i<ip_prefixlen p. ip_bit a i = ip_bit p i))
    \<and> (ip_proto a = PSC_P_IPv4 \<and> ip_proto p = PSC_P_IPv4 \<and> ip_prefixlen p \<le> ip_prefixlen a \<longrightarrow> IpAddr_matches a p)
    \<and> (ip_prefixlen p = 96 \<and> ip_proto b = ip_proto p \<and> (\<forall>i<96. ip_bit b i = ip_bit p i) \<longrightarrow>
        (\<exists>m. IpAddr_nat64 b prefixes = Some m \<and> ip_ok m \<and> drop 12 (ip_data m) = drop 12 (ip_data b)))"
proof -
  have len: "length (ip_data a) = 16" "length (ip_data p) = 16" "ip_prefixlen p \<le> 128"
    using assms(1,2) by (auto simp: ip_ok_def split: psc_proto.splits)
  note m = IpAddr_matches_bits [OF len] and mb = IpAddr_matches_bits [OF assms(4) len(2,3)]
  have v4: "ip_bit x i = False" if "ip_ok x" "ip_proto x = PSC_P_IPv4" "i < 32" for x i
  proof -
    have "i div 8 < 12" using that(3) by linarith
    then have "ip_data x ! (i div 8) = take 12 (ip_data x) ! (i div 8)" by simp
    also have "\<dots> = 0" using that \<open>i div 8 < 12\<close> by (simp add: ip_ok_def del: nth_take)
    finally show ?thesis by (simp add: ip_bit_def)
  qed
  have "IpAddr_matches a p" if c: "ip_proto a = PSC_P_IPv4 \<and> ip_proto p = PSC_P_IPv4 \<and> ip_prefixlen p \<le> ip_prefixlen a"
  proof -
    have "ip_prefixlen p \<le> 32" using c assms(2) by (simp add: ip_ok_def)
    then show ?thesis unfolding m using c v4 [OF assms(1)] v4 [OF assms(2)] by auto
  qed
  moreover have "\<exists>m. IpAddr_nat64 b prefixes = Some m \<and> ip_ok m \<and> drop 12 (ip_data m) = drop 12 (ip_data b)"
    if c: "ip_prefixlen p = 96 \<and> ip_proto b = ip_proto p \<and> (\<forall>i<96. ip_bit b i = ip_bit p i)"
  proof -
    have "list_ex (\<lambda>prefix. ip_prefixlen prefix = 96 \<and> IpAddr_matches b prefix) prefixes"
      using assms(3,5) c mb by (auto simp: list_ex_iff)
    then show ?thesis using assms(3,4) by (simp add: IpAddr_nat64_def ip_ok_def)
  qed
  ultimately show ?thesis using m by blast
qed

theorem ip_prefix_match_witness:
  "\<exists>a p. IpAddr_create ''10.0.0.1'' = Some a \<and> IpAddr_create ''192.168.0.0/24'' = Some p \<and> IpAddr_matches a p"
proof -
  let ?a = "\<lparr>ip_data = replicate 12 0 @ [10, 0, 0, 1], ip_prefixlen = 32, ip_proto = PSC_P_IPv4, ip_str = []\<rparr>"
  let ?p = "\<lparr>ip_data = replicate 12 0 @ [192, 168, 0, 0], ip_prefixlen = 24, ip_proto = PSC_P_IPv4, ip_str = []\<rparr>"
  let ?b = "\<lparr>ip_data = [0, 0x64, 0xff, 0x9b] @ replicate 8 0 @ [10, 0, 0, 1], ip_prefixlen = 128, ip_proto = PSC_P_IPv6, ip_str = []\<rparr>"
  have c: "IpAddr_create ''10.0.0.1'' = Some ?a" "IpAddr_create ''192.168.0.0/24'' = Some ?p" by code_simp+
  have "IpAddr_matches ?a ?p"
    using ip_prefix_match [OF IpAddr_create_ok [OF c(1)] IpAddr_create_ok [OF c(2)], of ?b "[?p]",
        THEN conjunct2, THEN conjunct1] by simp
  then show ?thesis using c by blast
qed

end
