(* ===== verification/Authenticator.thy ===== *)
theory Authenticator
  imports Session
begin

text \<open>
  \<open>authenticator.c\<close>: who is logged in to a session. A session keeps, per realm, an \<open>AuthInfo\<close>: the
  user, the users who are blocked after too many failures, and the rate limit that decides about it.
  A realm names the checkers that may accept a password; a checker is an object behind the function
  pointer \<open>check\<close> and may change its state.

  The tables are poser's and come as parameters, all operations in one record. So does what
  \<open>PSC_ListIterator_moveNext\<close> does behind the end of a list: \<open>ah_rewind\<close> tells whether it starts
  again. An \<open>Authenticator\<close> holds a pointer to the table of the session; here the operations return
  the table they leave. The ghost field \<open>as_log\<close> records the calls of the checkers and of the rate
  limit with their answers. The two locks are held during a whole operation and are left out.
\<close>

section \<open>Data\<close>

definition AUTH_SESSKEY :: string where
  "AUTH_SESSKEY = ''swad_authinfo''"

definition DEFAULT_REALM :: string where
  "DEFAULT_REALM = ''SWAD''"

record user =
  us_username :: string
  us_realname :: "string option"
  us_checker :: string

record ('b, 'l) authinfo =
  ai_user :: "user option"
  ai_blocks :: "'b option"
  ai_failLimit :: "'l limit list option"

record 'l realm =
  rl_name :: string
  rl_checkers :: "string list"
  rl_limitOpts :: "'l limit list option"

datatype auth_event =
  EV_check string string string bool
| EV_limit "nat option" string bool

record ('l, 'c, 'r) auth_static =
  as_checkers :: 'c
  as_realms :: 'r
  as_defaultLimitOpts :: "'l limit list option"
  as_log :: "auth_event list"

record ('k, 'b, 'l, 't, 'c, 'r) auth_ops =
  ah_check :: "'k \<Rightarrow> string \<Rightarrow> string \<Rightarrow> (bool \<times> string option) \<times> 'k"
  ah_blocks :: "('b, unit) psc_hash"
  ah_entries :: "('l, entry) psc_hash"
  ah_infos :: "('t, ('b, 'l) authinfo) psc_hash"
  ah_checkers :: "('c, 'k) psc_hash"
  ah_realms :: "('r, 'l realm) psc_hash"
  ah_rewind :: bool

record 't authenticator =
  at_authInfos :: 't
  at_realm :: string

definition createUser :: "string \<Rightarrow> string option \<Rightarrow> string \<Rightarrow> user" where
  "createUser username realname checker = \<lparr>us_username = username, us_realname = realname, us_checker = checker\<rparr>"

text \<open>\<open>PSC_copystr\<close> of a null pointer is a null pointer.\<close>

definition copyUser :: "user \<Rightarrow> user" where
  "copyUser other = \<lparr>us_username = us_username other, us_realname = us_realname other, us_checker = us_checker other\<rparr>"

section \<open>Realms and checkers\<close>

definition Realm_create :: "string \<Rightarrow> 'l realm" where
  "Realm_create name = \<lparr>rl_name = name, rl_checkers = [], rl_limitOpts = None\<rparr>"

definition Realm_addChecker :: "'l realm \<Rightarrow> string \<Rightarrow> 'l realm" where
  "Realm_addChecker self checker = self\<lparr>rl_checkers := rl_checkers self @ [checker]\<rparr>"

definition Realm_addLimit :: "'l realm \<Rightarrow> u16 \<Rightarrow> u16 \<Rightarrow> 'l realm option" where
  "Realm_addLimit self seconds lim =
     map_option (\<lambda>opts. self\<lparr>rl_limitOpts := Some opts\<rparr>)
       (RateLimitOpts_addLimit (case rl_limitOpts self of None \<Rightarrow> [] | Some opts \<Rightarrow> opts) seconds lim)"

text \<open>
  The default limits are configured before \<open>Authenticator_init\<close> is called, which leaves them as they
  are; the argument is the static variable.
\<close>

definition Authenticator_addDefaultLimit :: "'l limit list option \<Rightarrow> u16 \<Rightarrow> u16 \<Rightarrow> 'l limit list option" where
  "Authenticator_addDefaultLimit defaultLimitOpts seconds lim =
     RateLimitOpts_addLimit (case defaultLimitOpts of None \<Rightarrow> [] | Some opts \<Rightarrow> opts) seconds lim"

definition Authenticator_init ::
  "('k, 'b, 'l, 't, 'c, 'r) auth_ops \<Rightarrow> 'l limit list option \<Rightarrow> ('l, 'c, 'r) auth_static" where
  "Authenticator_init ops defaultLimitOpts =
     \<lparr>as_checkers = ph_create (ah_checkers ops) 4, as_realms = ph_create (ah_realms ops) 4,
      as_defaultLimitOpts = defaultLimitOpts, as_log = []\<rparr>"

definition Authenticator_registerChecker ::
  "('k, 'b, 'l, 't, 'c, 'r) auth_ops \<Rightarrow> ('l, 'c, 'r) auth_static \<Rightarrow> string \<Rightarrow> 'k \<Rightarrow> ('l, 'c, 'r) auth_static" where
  "Authenticator_registerChecker ops st name checker =
     st\<lparr>as_checkers := ph_set (ah_checkers ops) (as_checkers st) name checker\<rparr>"

definition Authenticator_registerRealm ::
  "('k, 'b, 'l, 't, 'c, 'r) auth_ops \<Rightarrow> ('l, 'c, 'r) auth_static \<Rightarrow> 'l realm \<Rightarrow> ('l, 'c, 'r) auth_static" where
  "Authenticator_registerRealm ops st realm =
     st\<lparr>as_realms := ph_set (ah_realms ops) (as_realms st) (rl_name realm) realm\<rparr>"

section \<open>The authenticator of a session and a realm\<close>

definition authinfo_new :: "('b, 'l) authinfo" where
  "authinfo_new = \<lparr>ai_user = None, ai_blocks = None, ai_failLimit = None\<rparr>"

definition getAuthInfo :: "('k, 'b, 'l, 't, 'c, 'r) auth_ops \<Rightarrow> 't authenticator \<Rightarrow> ('b, 'l) authinfo option" where
  "getAuthInfo ops self = ph_get (ah_infos ops) (at_authInfos self) (at_realm self)"

text \<open>An \<open>AuthInfo\<close> that is changed through its pointer, and one that is created.\<close>

definition putAuthInfo ::
  "('k, 'b, 'l, 't, 'c, 'r) auth_ops \<Rightarrow> 't authenticator \<Rightarrow> ('b, 'l) authinfo \<Rightarrow> 't authenticator" where
  "putAuthInfo ops self authInfo =
     self\<lparr>at_authInfos := ph_set (ah_infos ops) (at_authInfos self) (at_realm self) authInfo\<rparr>"

definition createAuthInfo ::
  "('k, 'b, 'l, 't, 'c, 'r) auth_ops \<Rightarrow> 't authenticator \<Rightarrow> ('b, 'l) authinfo \<times> 't authenticator" where
  "createAuthInfo ops self =
     (case getAuthInfo ops self of
        Some authInfo \<Rightarrow> (authInfo, self)
      | None \<Rightarrow> (authinfo_new, putAuthInfo ops self authinfo_new))"

definition Authenticator_user :: "('k, 'b, 'l, 't, 'c, 'r) auth_ops \<Rightarrow> 't authenticator \<Rightarrow> user option" where
  "Authenticator_user ops self =
     (case getAuthInfo ops self of None \<Rightarrow> None | Some authInfo \<Rightarrow> ai_user authInfo)"

text \<open>
  The loops of \<open>Authenticator_silentLogin\<close>: \<open>rest\<close> is what the one iterator over the checkers of the
  realm, which both loops share, has left.
\<close>

fun silent_loop :: "bool \<Rightarrow> string list \<Rightarrow> ('b, 'l) authinfo list \<Rightarrow> string list \<Rightarrow> user option" where
  "silent_loop rewind chks [] rest = None"
| "silent_loop rewind chks (otherInfo # infos) rest =
     (case ai_user otherInfo of
        None \<Rightarrow> silent_loop rewind chks infos rest
      | Some u \<Rightarrow>
          (case dropWhile (\<lambda>c. us_checker u \<noteq> c) rest of
             [] \<Rightarrow> silent_loop rewind chks infos (if rewind then chks else [])
           | _ # _ \<Rightarrow> Some u))"

definition Authenticator_silentLogin ::
  "('k, 'b, 'l, 't, 'c, 'r) auth_ops \<Rightarrow> ('l, 'c, 'r) auth_static \<Rightarrow> 't authenticator \<Rightarrow> bool \<times> 't authenticator" where
  "Authenticator_silentLogin ops st self =
     (case getAuthInfo ops self of
        None \<Rightarrow> (False, self)
      | Some authInfo \<Rightarrow>
          if ai_user authInfo \<noteq> None then (True, self)
          else
            (case ph_get (ah_realms ops) (as_realms st) (at_realm self) of
               None \<Rightarrow> (False, self)
             | Some realm \<Rightarrow>
                 if rl_checkers realm = [] then (False, self)
                 else
                   (case silent_loop (ah_rewind ops) (rl_checkers realm)
                       (map snd (ph_items (ah_infos ops) (at_authInfos self))) (rl_checkers realm) of
                      None \<Rightarrow> (False, self)
                    | Some u \<Rightarrow> (True, putAuthInfo ops self (authInfo\<lparr>ai_user := Some (copyUser u)\<rparr>)))))"

text \<open>The rate limit of the realm in this session, created at its first use.\<close>

definition getLimits ::
  "('k, 'b, 'l, 't, 'c, 'r) auth_ops \<Rightarrow> ('l, 'c, 'r) auth_static \<Rightarrow> 't authenticator \<Rightarrow> 'l realm
    \<Rightarrow> ('l limit list \<times> ('l, 'c, 'r) auth_static \<times> 't authenticator) option" where
  "getLimits ops st self realm =
     (case createAuthInfo ops self of
        (authInfo, self) \<Rightarrow>
          (case ai_failLimit authInfo of
             Some failLimit \<Rightarrow> Some (failLimit, st, self)
           | None \<Rightarrow>
               Option.bind
                 (case rl_limitOpts realm of
                    Some limitOpts \<Rightarrow> Some (limitOpts, st)
                  | None \<Rightarrow>
                      (case as_defaultLimitOpts st of
                         Some limitOpts \<Rightarrow> Some (limitOpts, st)
                       | None \<Rightarrow>
                           map_option (\<lambda>opts. (opts, st\<lparr>as_defaultLimitOpts := Some opts\<rparr>))
                             (RateLimitOpts_addLimit [] (15 * 60) 5)))
                 (\<lambda>(limitOpts, st).
                   (let failLimit = RateLimit_create limitOpts
                    in Some (failLimit, st, putAuthInfo ops self (authInfo\<lparr>ai_failLimit := Some failLimit\<rparr>))))))"

text \<open>\<open>RateLimit_check(getLimits(self, realm), user)\<close>.\<close>

definition check_fail_limit ::
  "('k, 'b, 'l, 't, 'c, 'r) auth_ops \<Rightarrow> nat option \<Rightarrow> ('l, 'c, 'r) auth_static \<Rightarrow> 't authenticator \<Rightarrow> 'l realm \<Rightarrow> string
    \<Rightarrow> (bool \<times> ('l, 'c, 'r) auth_static \<times> 't authenticator) option" where
  "check_fail_limit ops now st self realm user =
     (case getLimits ops st self realm of
        None \<Rightarrow> None
      | Some (failLimit, st, self) \<Rightarrow>
          (case RateLimit_check (ah_entries ops) failLimit now user of
             None \<Rightarrow> None
           | Some (r, failLimit) \<Rightarrow>
               (let authInfo = fst (createAuthInfo ops self)
                in Some (r, st\<lparr>as_log := as_log st @ [EV_limit now user r]\<rparr>,
                     putAuthInfo ops self (authInfo\<lparr>ai_failLimit := Some failLimit\<rparr>)))))"

text \<open>The loop over the checkers of the realm; a name without a checker is skipped.\<close>

fun check_loop ::
  "('k, 'b, 'l, 't, 'c, 'r) auth_ops \<Rightarrow> ('l, 'c, 'r) auth_static \<Rightarrow> string list \<Rightarrow> string \<Rightarrow> string
    \<Rightarrow> user option \<times> ('l, 'c, 'r) auth_static" where
  "check_loop ops st [] user pw = (None, st)"
| "check_loop ops st (checkerName # names) user pw =
     (case ph_get (ah_checkers ops) (as_checkers st) checkerName of
        None \<Rightarrow> check_loop ops st names user pw
      | Some checker \<Rightarrow>
          (let ((accepted, realname), checker) = ah_check ops checker user pw;
               st = st\<lparr>as_checkers := ph_set (ah_checkers ops) (as_checkers st) checkerName checker,
                       as_log := as_log st @ [EV_check checkerName user pw accepted]\<rparr>
           in if accepted then (Some (createUser user realname checkerName), st)
              else check_loop ops st names user pw))"

definition is_blocked :: "('k, 'b, 'l, 't, 'c, 'r) auth_ops \<Rightarrow> 't authenticator \<Rightarrow> string \<Rightarrow> bool" where
  "is_blocked ops self user =
     (case getAuthInfo ops self of
        None \<Rightarrow> False
      | Some authInfo \<Rightarrow>
          (case ai_blocks authInfo of
             None \<Rightarrow> False
           | Some blocks \<Rightarrow> ph_get (ah_blocks ops) blocks user \<noteq> None))"

definition unblock :: "('k, 'b, 'l, 't, 'c, 'r) auth_ops \<Rightarrow> 't authenticator \<Rightarrow> string \<Rightarrow> 't authenticator" where
  "unblock ops self user =
     (let authInfo = fst (createAuthInfo ops self)
      in putAuthInfo ops self
           (authInfo\<lparr>ai_blocks := map_option (\<lambda>blocks. ph_delete (ah_blocks ops) blocks user) (ai_blocks authInfo)\<rparr>))"

definition block :: "('k, 'b, 'l, 't, 'c, 'r) auth_ops \<Rightarrow> 't authenticator \<Rightarrow> string \<Rightarrow> 't authenticator" where
  "block ops self user =
     (let authInfo = fst (createAuthInfo ops self);
          blocks = (case ai_blocks authInfo of None \<Rightarrow> ph_create (ah_blocks ops) 4 | Some blocks \<Rightarrow> blocks)
      in putAuthInfo ops self (authInfo\<lparr>ai_blocks := Some (ph_set (ah_blocks ops) blocks user ())\<rparr>))"

text \<open>\<open>Authenticator_login\<close> behind the test of the blocks: the checkers, then the limit.\<close>

definition login_check ::
  "('k, 'b, 'l, 't, 'c, 'r) auth_ops \<Rightarrow> nat option \<Rightarrow> ('l, 'c, 'r) auth_static \<Rightarrow> 't authenticator \<Rightarrow> 'l realm \<Rightarrow> string \<Rightarrow> string
    \<Rightarrow> (int \<times> ('l, 'c, 'r) auth_static \<times> 't authenticator) option" where
  "login_check ops now st self realm user pw =
     (case check_loop ops st (rl_checkers realm) user pw of
        (Some u, st) \<Rightarrow>
          (let (authInfo, self) = createAuthInfo ops self
           in Some (1, st, putAuthInfo ops self (authInfo\<lparr>ai_user := Some u\<rparr>)))
      | (None, st) \<Rightarrow>
          (case check_fail_limit ops now st self realm user of
             None \<Rightarrow> None
           | Some (r, st, self) \<Rightarrow> if r then Some (0, st, self) else Some (- 1, st, block ops self user)))"

definition Authenticator_login ::
  "('k, 'b, 'l, 't, 'c, 'r) auth_ops \<Rightarrow> nat option \<Rightarrow> ('l, 'c, 'r) auth_static \<Rightarrow> 't authenticator \<Rightarrow> string \<Rightarrow> string
    \<Rightarrow> (int \<times> ('l, 'c, 'r) auth_static \<times> 't authenticator) option" where
  "Authenticator_login ops now st self user pw =
     (case ph_get (ah_realms ops) (as_realms st) (at_realm self) of
        None \<Rightarrow> Some (0, st, self)
      | Some realm \<Rightarrow>
          if rl_checkers realm = [] then Some (0, st, self)
          else if is_blocked ops self user then
            (case check_fail_limit ops now st self realm user of
               None \<Rightarrow> None
             | Some (r, st, self) \<Rightarrow>
                 if r then login_check ops now st (unblock ops self user) realm user pw
                 else Some (- 1, st, self))
          else login_check ops now st self realm user pw)"

definition Authenticator_logout :: "('k, 'b, 'l, 't, 'c, 'r) auth_ops \<Rightarrow> 't authenticator \<Rightarrow> 't authenticator" where
  "Authenticator_logout ops self =
     (case getAuthInfo ops self of
        None \<Rightarrow> self
      | Some authInfo \<Rightarrow>
          if ai_user authInfo \<noteq> None then putAuthInfo ops self (authInfo\<lparr>ai_user := None\<rparr>) else self)"


section \<open>The users of a table\<close>

definition auth_laws :: "('k, 'b, 'l, 't, 'c, 'r) auth_ops \<Rightarrow> bool" where
  "auth_laws ops \<longleftrightarrow> psc_hash_laws (ah_blocks ops) \<and> psc_hash_laws (ah_entries ops) \<and> psc_hash_laws (ah_infos ops)
     \<and> psc_hash_laws (ah_checkers ops) \<and> psc_hash_laws (ah_realms ops)"

definition user_in :: "('k, 'b, 'l, 't, 'c, 'r) auth_ops \<Rightarrow> 't \<Rightarrow> string \<Rightarrow> user option" where
  "user_in ops t r = Authenticator_user ops \<lparr>at_authInfos = t, at_realm = r\<rparr>"

named_theorems auth_users

lemma realm_put [simp]: "at_realm (putAuthInfo ops self a) = at_realm self"
  by (simp add: putAuthInfo_def)

lemma getAuthInfo_put [auth_users]:
  "auth_laws ops \<Longrightarrow> getAuthInfo ops (putAuthInfo ops self a) = Some a"
  by (simp add: getAuthInfo_def putAuthInfo_def auth_laws_def psc_hash_lawsD(2))

lemma user_in_put [auth_users]:
  "auth_laws ops \<Longrightarrow> user_in ops (at_authInfos (putAuthInfo ops self a)) =
    (user_in ops (at_authInfos self))(at_realm self := ai_user a)"
  by (rule ext) (simp add: user_in_def Authenticator_user_def getAuthInfo_def putAuthInfo_def auth_laws_def psc_hash_lawsD(2))

lemma user_in_info: "user_in ops (at_authInfos self) (at_realm self) = Authenticator_user ops self"
  by (simp add: user_in_def Authenticator_user_def getAuthInfo_def)

lemma createAuthInfo_users:
  assumes "auth_laws ops" "createAuthInfo ops self = (a, self')"
  shows "user_in ops (at_authInfos self') = user_in ops (at_authInfos self)" "at_realm self' = at_realm self"
    "ai_user a = user_in ops (at_authInfos self) (at_realm self)" "getAuthInfo ops self' = Some a"
  using assms by (auto simp: createAuthInfo_def user_in_info Authenticator_user_def authinfo_new_def auth_users fun_eq_iff
      split: option.splits)

lemma update_info_users:
  assumes "auth_laws ops" "ai_user a = user_in ops (at_authInfos self) (at_realm self)"
  shows "user_in ops (at_authInfos (putAuthInfo ops self a)) = user_in ops (at_authInfos self)"
  using assms by (auto simp: auth_users)

lemma getLimits_users:
  assumes "auth_laws ops" "getLimits ops st self realm = Some (l, st', self')"
  shows "user_in ops (at_authInfos self') = user_in ops (at_authInfos self) \<and> at_realm self' = at_realm self
    \<and> as_log st' = as_log st \<and> as_realms st' = as_realms st \<and> as_checkers st' = as_checkers st
    \<and> (\<exists>a. getAuthInfo ops self' = Some a \<and> ai_failLimit a = Some l
        \<and> (\<forall>b. getAuthInfo ops self = Some b \<longrightarrow> ai_blocks a = ai_blocks b))"
proof -
  obtain a self1 where c: "createAuthInfo ops self = (a, self1)" by (cases "createAuthInfo ops self")
  note u = createAuthInfo_users [OF assms(1) c]
  have b: "\<forall>b. getAuthInfo ops self = Some b \<longrightarrow> a = b" using c by (auto simp: createAuthInfo_def)
  show ?thesis
    using assms(2) c u b
    by (auto simp: getLimits_def update_info_users [OF assms(1)] getAuthInfo_put [OF assms(1)] Let_def
        Option.bind_eq_Some_conv split: option.splits)
qed

lemma check_fail_limit_users:
  assumes "auth_laws ops" "check_fail_limit ops now st self realm user = Some (r, st', self')"
  shows "user_in ops (at_authInfos self') = user_in ops (at_authInfos self) \<and> at_realm self' = at_realm self
    \<and> as_log st' = as_log st @ [EV_limit now user r] \<and> as_realms st' = as_realms st \<and> as_checkers st' = as_checkers st"
proof -
  obtain l st1 self1 where g: "getLimits ops st self realm = Some (l, st1, self1)"
    using assms(2) by (auto simp: check_fail_limit_def split: option.splits)
  note g' = getLimits_users [OF assms(1) g]
  obtain a self2 where c: "createAuthInfo ops self1 = (a, self2)" by (cases "createAuthInfo ops self1")
  show ?thesis
    using assms(2) g g' c createAuthInfo_users(3) [OF assms(1) c]
    by (auto simp: check_fail_limit_def update_info_users [OF assms(1)] getAuthInfo_put [OF assms(1)]
        split: option.splits)
qed

lemma block_users:
  assumes "auth_laws ops"
  shows "user_in ops (at_authInfos (block ops self user)) = user_in ops (at_authInfos self)"
    "at_realm (block ops self user) = at_realm self"
    "user_in ops (at_authInfos (unblock ops self user)) = user_in ops (at_authInfos self)"
    "at_realm (unblock ops self user) = at_realm self"
proof -
  obtain a self1 where c: "createAuthInfo ops self = (a, self1)" by (cases "createAuthInfo ops self")
  note u = createAuthInfo_users(3) [OF assms c]
  show "user_in ops (at_authInfos (block ops self user)) = user_in ops (at_authInfos self)"
    "user_in ops (at_authInfos (unblock ops self user)) = user_in ops (at_authInfos self)"
    using c u by (simp_all add: block_def unblock_def update_info_users [OF assms])
qed (simp_all add: block_def unblock_def auth_users Let_def)

lemma check_loop_events:
  "check_loop ops st names user pw = (r, st') \<Longrightarrow>
    (\<exists>evs. as_log st' = as_log st @ evs \<and> (\<forall>e \<in> set evs. \<exists>c a. e = EV_check c user pw a \<and> c \<in> set names)
       \<and> (case r of
            None \<Rightarrow> \<forall>e \<in> set evs. \<exists>c. e = EV_check c user pw False
          | Some u \<Rightarrow> us_username u = user \<and> us_checker u \<in> set names \<and> EV_check (us_checker u) user pw True \<in> set evs))
    \<and> as_realms st' = as_realms st \<and> as_defaultLimitOpts st' = as_defaultLimitOpts st"
proof (induction ops st names user pw rule: check_loop.induct)
  case (2 ops st checkerName names user pw)
  show ?case
  proof (cases "ph_get (ah_checkers ops) (as_checkers st) checkerName")
    case None
    then have "check_loop ops st names user pw = (r, st')" using "2.prems" by simp
    from "2.IH"(1) [OF None this] obtain evs where "as_log st' = as_log st @ evs"
      "\<forall>e \<in> set evs. \<exists>c a. e = EV_check c user pw a \<and> c \<in> set names"
      "case r of None \<Rightarrow> \<forall>e \<in> set evs. \<exists>c. e = EV_check c user pw False
        | Some u \<Rightarrow> us_username u = user \<and> us_checker u \<in> set names \<and> EV_check (us_checker u) user pw True \<in> set evs"
      "as_realms st' = as_realms st" "as_defaultLimitOpts st' = as_defaultLimitOpts st"
      by blast
    then show ?thesis by (intro conjI exI [of _ evs]) (auto split: option.splits)
  next
    case (Some checker)
    obtain accepted realname checker' where ck: "ah_check ops checker user pw = ((accepted, realname), checker')"
      by (cases "ah_check ops checker user pw") auto
    let ?st = "st\<lparr>as_checkers := ph_set (ah_checkers ops) (as_checkers st) checkerName checker',
        as_log := as_log st @ [EV_check checkerName user pw accepted]\<rparr>"
    show ?thesis
    proof (cases accepted)
      case True
      then show ?thesis using "2.prems" Some ck by (auto simp: createUser_def)
    next
      case False
      then have rec: "check_loop ops ?st names user pw = (r, st')" using "2.prems" Some ck by simp
      from "2.IH"(2) [OF Some refl ck [symmetric] refl refl False rec]
      obtain evs where evs: "as_log st' = as_log ?st @ evs"
        "\<forall>e \<in> set evs. \<exists>c a. e = EV_check c user pw a \<and> c \<in> set names"
        "case r of None \<Rightarrow> \<forall>e \<in> set evs. \<exists>c. e = EV_check c user pw False
          | Some u \<Rightarrow> us_username u = user \<and> us_checker u \<in> set names \<and> EV_check (us_checker u) user pw True \<in> set evs"
        and keeps: "as_realms st' = as_realms ?st" "as_defaultLimitOpts st' = as_defaultLimitOpts ?st"
        by blast
      show ?thesis
        using evs keeps False
        by (intro conjI exI [of _ "EV_check checkerName user pw accepted # evs"]) (auto split: option.splits)
    qed
  qed
qed simp


text \<open>What a login does to the users of the session, and which checkers it asked.\<close>

definition login_outcome ::
  "('k, 'b, 'l, 't, 'c, 'r) auth_ops \<Rightarrow> ('l, 'c, 'r) auth_static \<Rightarrow> 't authenticator \<Rightarrow> string \<Rightarrow> string
    \<Rightarrow> int \<Rightarrow> ('l, 'c, 'r) auth_static \<Rightarrow> 't authenticator \<Rightarrow> bool" where
  "login_outcome ops st self user pw ok st' self' \<longleftrightarrow>
     as_realms st' = as_realms st \<and> at_realm self' = at_realm self
   \<and> (\<exists>evs. as_log st' = as_log st @ evs
        \<and> (if ok = 1
           then \<exists>u realm. ph_get (ah_realms ops) (as_realms st) (at_realm self) = Some realm
               \<and> us_checker u \<in> set (rl_checkers realm) \<and> us_username u = user \<and> EV_check (us_checker u) user pw True \<in> set evs
               \<and> user_in ops (at_authInfos self') = (user_in ops (at_authInfos self))(at_realm self := Some u)
           else ok \<in> {0, - 1} \<and> (\<forall>c n p. EV_check c n p True \<notin> set evs)
               \<and> user_in ops (at_authInfos self') = user_in ops (at_authInfos self)))"

lemma login_check_outcome:
  assumes "auth_laws ops" "ph_get (ah_realms ops) (as_realms st) (at_realm self) = Some realm"
    "login_check ops now st self realm user pw = Some (ok, st', self')"
  shows "login_outcome ops st self user pw ok st' self'"
proof -
  obtain r st1 where l: "check_loop ops st (rl_checkers realm) user pw = (r, st1)"
    by (cases "check_loop ops st (rl_checkers realm) user pw")
  from check_loop_events [OF l] obtain evs where evs: "as_log st1 = as_log st @ evs"
    "case r of None \<Rightarrow> \<forall>e \<in> set evs. \<exists>c. e = EV_check c user pw False
      | Some u \<Rightarrow> us_username u = user \<and> us_checker u \<in> set (rl_checkers realm) \<and> EV_check (us_checker u) user pw True \<in> set evs"
    and keeps: "as_realms st1 = as_realms st" by blast
  show ?thesis
  proof (cases r)
    case None
    obtain r' st2 self2 where f: "check_fail_limit ops now st1 self realm user = Some (r', st2, self2)"
      and res: "(ok, st', self') = (if r' then (0, st2, self2) else (- 1, st2, block ops self2 user))"
      using assms(3) l None by (auto simp: login_check_def split: option.splits if_splits)
    show ?thesis
      unfolding login_outcome_def
      using check_fail_limit_users [OF assms(1) f] res evs keeps None block_users [OF assms(1)]
      by (auto intro!: exI [of _ "evs @ [EV_limit now user r']"] split: if_splits)
  next
    case (Some u)
    obtain a self1 where c: "createAuthInfo ops self = (a, self1)" by (cases "createAuthInfo ops self")
    then have res: "ok = 1" "st' = st1" "self' = putAuthInfo ops self1 (a\<lparr>ai_user := Some u\<rparr>)"
      using assms(3) l Some by (auto simp: login_check_def)
    show ?thesis
      unfolding login_outcome_def
      using res evs keeps Some assms(2) createAuthInfo_users [OF assms(1) c]
      by (intro conjI exI [of _ evs]) (auto simp: auth_users [OF assms(1)] user_in_put [OF assms(1)])
  qed
qed

lemma login_outcome_after:
  assumes "login_outcome ops st1 self1 user pw ok st' self'" "as_realms st1 = as_realms st" "at_realm self1 = at_realm self"
    "user_in ops (at_authInfos self1) = user_in ops (at_authInfos self)" "as_log st1 = as_log st @ [EV_limit n v r]"
  shows "login_outcome ops st self user pw ok st' self'"
proof -
  from assms(1) obtain evs where "as_log st' = as_log st1 @ evs" "as_realms st' = as_realms st1" "at_realm self' = at_realm self1"
    "if ok = 1
     then \<exists>u realm. ph_get (ah_realms ops) (as_realms st1) (at_realm self1) = Some realm
         \<and> us_checker u \<in> set (rl_checkers realm) \<and> us_username u = user \<and> EV_check (us_checker u) user pw True \<in> set evs
         \<and> user_in ops (at_authInfos self') = (user_in ops (at_authInfos self1))(at_realm self1 := Some u)
     else ok \<in> {0, - 1} \<and> (\<forall>c n p. EV_check c n p True \<notin> set evs)
         \<and> user_in ops (at_authInfos self') = user_in ops (at_authInfos self1)"
    unfolding login_outcome_def by blast
  then show ?thesis
    unfolding login_outcome_def assms(2-4)
    by (intro conjI exI [of _ "EV_limit n v r # evs"]) (auto simp: assms(5) split: if_splits)
qed

lemma login_users:
  assumes "auth_laws ops" "Authenticator_login ops now st self user pw = Some (ok, st', self')"
  shows "login_outcome ops st self user pw ok st' self'"
proof (cases "ph_get (ah_realms ops) (as_realms st) (at_realm self)")
  case None
  then show ?thesis using assms(2) by (auto simp: Authenticator_login_def login_outcome_def)
next
  case (Some realm)
  note get = this
  show ?thesis
  proof (cases "rl_checkers realm = []")
    case True
    then show ?thesis using assms(2) Some by (auto simp: Authenticator_login_def login_outcome_def)
  next
    case ne: False
    show ?thesis
    proof (cases "is_blocked ops self user")
      case False
      then show ?thesis using login_check_outcome [OF assms(1) Some] assms(2) Some ne
        by (simp add: Authenticator_login_def)
    next
      case True
      then obtain r st1 self1 where f: "check_fail_limit ops now st self realm user = Some (r, st1, self1)"
        and res: "(if r then login_check ops now st1 (unblock ops self1 user) realm user pw else Some (- 1, st1, self1))
          = Some (ok, st', self')"
        using assms(2) Some ne by (auto simp: Authenticator_login_def split: option.splits)
      note fl = check_fail_limit_users [OF assms(1) f] block_users [OF assms(1)]
      show ?thesis
      proof (cases r)
        case False
        then show ?thesis using res fl by (auto simp: login_outcome_def)
      next
        case True
        have "login_outcome ops st1 (unblock ops self1 user) user pw ok st' self'"
          using login_check_outcome [OF assms(1)] get res True fl by simp
        then show ?thesis by (rule login_outcome_after) (use fl in simp_all)
      qed
    qed
  qed
qed

lemma silent_loop_Some:
  "silent_loop rewind chks infos rest = Some u \<Longrightarrow> set rest \<subseteq> set chks \<Longrightarrow>
    us_checker u \<in> set chks \<and> (\<exists>a \<in> set infos. ai_user a = Some u)"
proof (induction rewind chks infos rest rule: silent_loop.induct)
  case (2 rewind chks otherInfo infos rest)
  show ?case
  proof (cases "ai_user otherInfo")
    case None
    then show ?thesis using 2 by auto
  next
    case (Some v)
    show ?thesis
    proof (cases "dropWhile (\<lambda>c. us_checker v \<noteq> c) rest")
      case Nil
      then have "silent_loop rewind chks infos (if rewind then chks else []) = Some u"
        using "2.prems"(1) Some by (simp del: dropWhile_eq_Nil_conv)
      then show ?thesis using "2.IH"(2) [OF Some Nil] by (auto split: if_splits)
    next
      case (Cons c cs)
      then have "c = us_checker v" using hd_dropWhile [of "\<lambda>c. us_checker v \<noteq> c" rest] by simp
      moreover have "c \<in> set rest" using Cons set_dropWhileD [of c "\<lambda>c. us_checker v \<noteq> c" rest] by simp
      ultimately show ?thesis using "2.prems" Some Cons by auto
    qed
  qed
qed simp

lemma silent_loop_None:
  "silent_loop True chks infos chks = None \<Longrightarrow> a \<in> set infos \<Longrightarrow> ai_user a = Some u \<Longrightarrow> us_checker u \<notin> set chks"
proof (induction infos)
  case (Cons b infos)
  show ?case
  proof (cases "ai_user b")
    case None
    then show ?thesis using Cons by auto
  next
    case (Some v)
    then have d: "dropWhile (\<lambda>c. us_checker v \<noteq> c) chks = []" using Cons.prems(1) by (auto split: list.splits)
    then have "silent_loop True chks infos chks = None"
      using Cons.prems(1) Some by (simp del: dropWhile_eq_Nil_conv)
    moreover have "us_checker v \<notin> set chks" using d by auto
    ultimately show ?thesis using Cons Some by auto
  qed
qed simp

lemma silentLogin_users:
  assumes "auth_laws ops" "Authenticator_silentLogin ops st self = (ok, self')"
  shows "at_realm self' = at_realm self \<and> ok = (user_in ops (at_authInfos self') (at_realm self) \<noteq> None)
    \<and> (user_in ops (at_authInfos self') = user_in ops (at_authInfos self)
       \<or> (\<exists>u r realm. user_in ops (at_authInfos self) r = Some u \<and> ph_get (ah_realms ops) (as_realms st) (at_realm self) = Some realm
           \<and> us_checker u \<in> set (rl_checkers realm)
           \<and> user_in ops (at_authInfos self') = (user_in ops (at_authInfos self))(at_realm self := Some u)))"
proof -
  have items: "\<exists>r. user_in ops t r = Some u" if m: "a \<in> set (map snd (ph_items (ah_infos ops) t))" and u: "ai_user a = Some u" for t a u
  proof -
    have laws: "psc_hash_laws (ah_infos ops)" using assms(1) by (simp add: auth_laws_def)
    obtain r where "(r, a) \<in> set (ph_items (ah_infos ops) t)" using m by auto
    then have "ph_get (ah_infos ops) t r = Some a"
      using psc_hash_lawsD(5,6) [OF laws] by (metis map_of_eq_Some_iff)
    then show ?thesis using u by (auto simp: user_in_def Authenticator_user_def getAuthInfo_def intro!: exI [of _ r])
  qed
  have copy: "copyUser u = u" for u by (simp add: copyUser_def)
  show ?thesis
  proof (cases "getAuthInfo ops self")
    case None
    then show ?thesis using assms(2) by (auto simp: Authenticator_silentLogin_def user_in_info Authenticator_user_def)
  next
    case (Some a)
    then have ua: "user_in ops (at_authInfos self) (at_realm self) = ai_user a"
      by (simp add: user_in_info Authenticator_user_def)
    have "Authenticator_silentLogin ops st self = (ai_user a \<noteq> None, self)
      \<or> (\<exists>realm u. ph_get (ah_realms ops) (as_realms st) (at_realm self) = Some realm
        \<and> silent_loop (ah_rewind ops) (rl_checkers realm) (map snd (ph_items (ah_infos ops) (at_authInfos self)))
             (rl_checkers realm) = Some u
        \<and> Authenticator_silentLogin ops st self = (True, putAuthInfo ops self (a\<lparr>ai_user := Some u\<rparr>)))"
      using Some by (simp add: Authenticator_silentLogin_def copy split: option.split)
    then show ?thesis
    proof (elim disjE exE conjE)
      assume "Authenticator_silentLogin ops st self = (ai_user a \<noteq> None, self)"
      then show ?thesis using assms(2) ua by simp
    next
      fix realm u
      assume u: "ph_get (ah_realms ops) (as_realms st) (at_realm self) = Some realm"
        "silent_loop (ah_rewind ops) (rl_checkers realm) (map snd (ph_items (ah_infos ops) (at_authInfos self)))
           (rl_checkers realm) = Some u"
        "Authenticator_silentLogin ops st self = (True, putAuthInfo ops self (a\<lparr>ai_user := Some u\<rparr>))"
      note sl = silent_loop_Some [OF u(2) subset_refl]
      then obtain r where "user_in ops (at_authInfos self) r = Some u" using items by blast
      then show ?thesis using u(1,3) sl assms(2) by (auto simp: user_in_put [OF assms(1)])
    qed
  qed
qed

lemma logout_users:
  "auth_laws ops \<Longrightarrow> user_in ops (at_authInfos (Authenticator_logout ops self)) =
    (user_in ops (at_authInfos self))(at_realm self := None)"
  by (auto simp: Authenticator_logout_def user_in_put fun_eq_iff user_in_info Authenticator_user_def split: option.splits)


section \<open>Runs\<close>

text \<open>What the requests of one session may ask of its table.\<close>

datatype auth_call =
  AC_login "nat option" string string string
| AC_silent string
| AC_logout string

fun auth_step ::
  "('k, 'b, 'l, 't, 'c, 'r) auth_ops \<Rightarrow> auth_call \<Rightarrow> 't \<times> ('l, 'c, 'r) auth_static \<Rightarrow> ('t \<times> ('l, 'c, 'r) auth_static) option" where
  "auth_step ops (AC_login now r user pw) (t, st) =
     map_option (\<lambda>(ok, st, self). (at_authInfos self, st))
       (Authenticator_login ops now st \<lparr>at_authInfos = t, at_realm = r\<rparr> user pw)"
| "auth_step ops (AC_silent r) (t, st) =
     Some (at_authInfos (snd (Authenticator_silentLogin ops st \<lparr>at_authInfos = t, at_realm = r\<rparr>)), st)"
| "auth_step ops (AC_logout r) (t, st) =
     Some (at_authInfos (Authenticator_logout ops \<lparr>at_authInfos = t, at_realm = r\<rparr>), st)"

fun auth_run ::
  "('k, 'b, 'l, 't, 'c, 'r) auth_ops \<Rightarrow> auth_call list \<Rightarrow> 't \<times> ('l, 'c, 'r) auth_static \<Rightarrow> ('t \<times> ('l, 'c, 'r) auth_static) option" where
  "auth_run ops [] s = Some s"
| "auth_run ops (c # cs) s = Option.bind (auth_step ops c s) (auth_run ops cs)"

definition auth_inv :: "('k, 'b, 'l, 't, 'c, 'r) auth_ops \<Rightarrow> 't \<times> ('l, 'c, 'r) auth_static \<Rightarrow> bool" where
  "auth_inv ops = (\<lambda>(t, st). \<forall>r u. user_in ops t r = Some u \<longrightarrow>
     (\<exists>realm pw. ph_get (ah_realms ops) (as_realms st) r = Some realm \<and> us_checker u \<in> set (rl_checkers realm)
       \<and> EV_check (us_checker u) (us_username u) pw True \<in> set (as_log st)))"

lemma auth_step_inv:
  assumes "auth_laws ops" "auth_inv ops s" "auth_step ops c s = Some s'"
  shows "auth_inv ops s' \<and> as_realms (snd s') = as_realms (snd s)"
proof -
  obtain t st t' st' where s: "s = (t, st)" "s' = (t', st')" by (cases s, cases s')
  show ?thesis
  proof (cases c)
    case (AC_login now r user pw)
    let ?self = "\<lparr>at_authInfos = t, at_realm = r\<rparr>"
    obtain ok self' where l: "Authenticator_login ops now st ?self user pw = Some (ok, st', self')" "t' = at_authInfos self'"
      using assms(3) s AC_login by auto
    have o: "login_outcome ops st ?self user pw ok st' self'" by (rule login_users [OF assms(1) l(1)])
    then have r: "as_realms st' = as_realms st" "set (as_log st) \<subseteq> set (as_log st')"
      by (auto simp: login_outcome_def)
    have "\<exists>realm pw. ph_get (ah_realms ops) (as_realms st) r' = Some realm \<and> us_checker u \<in> set (rl_checkers realm)
       \<and> EV_check (us_checker u) (us_username u) pw True \<in> set (as_log st')" if u: "user_in ops t' r' = Some u" for r' u
    proof (cases "user_in ops t r' = Some u")
      case True
      then show ?thesis using assms(2) r(2) s by (fastforce simp: auth_inv_def)
    next
      case False
      then show ?thesis using o u l(2) by (auto simp: login_outcome_def split: if_splits)
    qed
    then show ?thesis using r s by (auto simp: auth_inv_def)
  next
    case (AC_silent r)
    let ?self = "\<lparr>at_authInfos = t, at_realm = r\<rparr>"
    obtain ok self' where l: "Authenticator_silentLogin ops st ?self = (ok, self')"
      by (cases "Authenticator_silentLogin ops st ?self")
    then have t: "t' = at_authInfos self'" "st' = st" using assms(3) s AC_silent by auto
    show ?thesis
      using silentLogin_users [OF assms(1) l] assms(2) s t by (fastforce simp: auth_inv_def split: if_splits)
  next
    case (AC_logout r)
    then have "st' = st" "user_in ops t' = (user_in ops t)(r := None)"
      using assms(3) s logout_users [OF assms(1), of "\<lparr>at_authInfos = t, at_realm = r\<rparr>"] by auto
    then show ?thesis using assms(2) s by (auto simp: auth_inv_def)
  qed
qed

lemma auth_run_inv:
  "auth_run ops cs s = Some s' \<Longrightarrow> auth_laws ops \<Longrightarrow> auth_inv ops s \<Longrightarrow>
    auth_inv ops s' \<and> as_realms (snd s') = as_realms (snd s)"
proof (induction cs arbitrary: s)
  case (Cons c cs)
  then obtain s1 where "auth_step ops c s = Some s1" "auth_run ops cs s1 = Some s'"
    by (auto simp: Option.bind_eq_Some_conv)
  with Cons auth_step_inv [OF Cons.prems(2,3)] show ?case by metis
qed simp

lemma auth_inv_fresh:
  assumes "auth_laws ops"
  shows "auth_inv ops (ph_create (ah_infos ops) n, st)"
  using assms
  by (auto simp: auth_inv_def user_in_def Authenticator_user_def getAuthInfo_def auth_laws_def psc_hash_lawsD(1))



section \<open>Properties\<close>

text \<open>
  C17: only accepted users are logged in. After any requests of a session, whoever is logged in to a
  realm is a user whose password a checker of that realm accepted in this session. A login that returns
  1 makes the user the one of the realm; one that returns 0 or -1 changes the user of no realm; and
  after a logout the realm has none.
\<close>

theorem logins_accepted:
  assumes "auth_laws ops" "as_log st = []" "auth_run ops cs (ph_create (ah_infos ops) n, st) = Some (t', st')"
  shows "(\<forall>r u. Authenticator_user ops \<lparr>at_authInfos = t', at_realm = r\<rparr> = Some u \<longrightarrow>
      (\<exists>realm pw. ph_get (ah_realms ops) (as_realms st) r = Some realm \<and> us_checker u \<in> set (rl_checkers realm)
        \<and> EV_check (us_checker u) (us_username u) pw True \<in> set (as_log st')))
    \<and> (\<forall>now r user pw ok st2 self2.
        Authenticator_login ops now st' \<lparr>at_authInfos = t', at_realm = r\<rparr> user pw = Some (ok, st2, self2) \<longrightarrow>
        (if ok = 1 then \<exists>u. Authenticator_user ops self2 = Some u \<and> us_username u = user
         else ok \<in> {0, - 1} \<and> (\<forall>r'. Authenticator_user ops \<lparr>at_authInfos = at_authInfos self2, at_realm = r'\<rparr>
           = Authenticator_user ops \<lparr>at_authInfos = t', at_realm = r'\<rparr>)))
    \<and> (\<forall>r. Authenticator_user ops (Authenticator_logout ops \<lparr>at_authInfos = t', at_realm = r\<rparr>) = None)"
proof (intro conjI allI impI)
  have inv: "auth_inv ops (t', st')" "as_realms st' = as_realms st"
    using auth_run_inv [OF assms(3,1) auth_inv_fresh [OF assms(1)]] by simp_all
  then show "\<exists>realm pw. ph_get (ah_realms ops) (as_realms st) r = Some realm \<and> us_checker u \<in> set (rl_checkers realm)
      \<and> EV_check (us_checker u) (us_username u) pw True \<in> set (as_log st')"
    if "Authenticator_user ops \<lparr>at_authInfos = t', at_realm = r\<rparr> = Some u" for r u
    using that by (simp add: auth_inv_def user_in_def)
  show "if ok = 1 then \<exists>u. Authenticator_user ops self2 = Some u \<and> us_username u = user
      else ok \<in> {0, - 1} \<and> (\<forall>r'. Authenticator_user ops \<lparr>at_authInfos = at_authInfos self2, at_realm = r'\<rparr>
        = Authenticator_user ops \<lparr>at_authInfos = t', at_realm = r'\<rparr>)"
    if "Authenticator_login ops now st' \<lparr>at_authInfos = t', at_realm = r\<rparr> user pw = Some (ok, st2, self2)"
    for now r user pw ok st2 self2
    using login_users [OF assms(1) that] user_in_info [of ops self2]
    by (auto simp: login_outcome_def user_in_def fun_eq_iff split: if_splits)
  show "Authenticator_user ops (Authenticator_logout ops \<lparr>at_authInfos = t', at_realm = r\<rparr>) = None" for r
    by (auto simp: Authenticator_logout_def Authenticator_user_def getAuthInfo_put [OF assms(1)] split: option.splits)
qed

text \<open>
  Silent login. Where the list iterator starts again behind the end, a silent login succeeds
  exactly where the realm has its user already, or where it has an \<open>AuthInfo\<close> and some realm of the
  session has a user whose checker is one of this realm's; it changes no other realm. A realm that the
  session has no \<open>AuthInfo\<close> for, as at every first visit, never gets one this way.
\<close>

theorem silent_login_exact:
  assumes "auth_laws ops" "ah_rewind ops" "Authenticator_silentLogin ops st self = (ok, self')"
  shows "(ok \<longleftrightarrow> Authenticator_user ops self \<noteq> None
      \<or> getAuthInfo ops self \<noteq> None \<and> (\<exists>realm r u. ph_get (ah_realms ops) (as_realms st) (at_realm self) = Some realm
          \<and> Authenticator_user ops \<lparr>at_authInfos = at_authInfos self, at_realm = r\<rparr> = Some u
          \<and> us_checker u \<in> set (rl_checkers realm)))
    \<and> (ok \<longleftrightarrow> Authenticator_user ops self' \<noteq> None)
    \<and> (\<forall>r. r \<noteq> at_realm self \<longrightarrow> Authenticator_user ops \<lparr>at_authInfos = at_authInfos self', at_realm = r\<rparr>
         = Authenticator_user ops \<lparr>at_authInfos = at_authInfos self, at_realm = r\<rparr>)
    \<and> (getAuthInfo ops self = None \<longrightarrow> \<not> ok \<and> self' = self)"
proof -
  note su = silentLogin_users [OF assms(1,3)]
  have laws: "psc_hash_laws (ah_infos ops)" using assms(1) by (simp add: auth_laws_def)
  have in_items: "a \<in> set (map snd (ph_items (ah_infos ops) t))" if "ph_get (ah_infos ops) t r = Some a" for t r a
    using that psc_hash_lawsD(6) [OF laws] by (metis image_eqI list.set_map map_of_SomeD snd_conv)
  have get: "\<exists>a. ph_get (ah_infos ops) t r = Some a \<and> ai_user a = Some u" if "user_in ops t r = Some u" for t r u
    using that by (auto simp: user_in_def Authenticator_user_def getAuthInfo_def split: option.splits)
  have "ok" if e: "getAuthInfo ops self = Some a" "ph_get (ah_realms ops) (as_realms st) (at_realm self) = Some realm"
      "user_in ops (at_authInfos self) r = Some u" "us_checker u \<in> set (rl_checkers realm)" for a realm r u
  proof -
    obtain b where "b \<in> set (map snd (ph_items (ah_infos ops) (at_authInfos self)))" "ai_user b = Some u"
      using get [OF e(3)] in_items by blast
    then have "silent_loop True (rl_checkers realm) (map snd (ph_items (ah_infos ops) (at_authInfos self)))
        (rl_checkers realm) \<noteq> None"
      using silent_loop_None e(4) by blast
    then show ?thesis using assms(2,3) e by (auto simp: Authenticator_silentLogin_def split: if_splits)
  qed
  moreover have "ok" if "Authenticator_user ops self = Some u" for u
    using that assms(3) by (auto simp: Authenticator_silentLogin_def Authenticator_user_def split: option.splits)
  moreover have "\<not> ok \<and> self' = self" if "getAuthInfo ops self = None"
    using that assms(3) by (simp add: Authenticator_silentLogin_def)
  moreover have "\<exists>realm r u. ph_get (ah_realms ops) (as_realms st) (at_realm self) = Some realm
      \<and> user_in ops (at_authInfos self) r = Some u \<and> us_checker u \<in> set (rl_checkers realm)"
    if "ok" "Authenticator_user ops self = None"
    using su that user_in_info [of ops self] by auto
  moreover have "ok \<longleftrightarrow> Authenticator_user ops self' \<noteq> None"
    using su user_in_info [of ops self'] by simp
  moreover have "\<forall>r. r \<noteq> at_realm self \<longrightarrow> user_in ops (at_authInfos self') r = user_in ops (at_authInfos self) r"
    using su by auto
  ultimately show ?thesis unfolding user_in_def by blast
qed

text \<open>A session with a user in one realm, and a second realm that shares the checker.\<close>

definition ex_ops ::
  "(string, (string \<times> unit) list, (string \<times> entry) list,
    (string \<times> ((string \<times> unit) list, (string \<times> entry) list) authinfo) list,
    (string \<times> string) list, (string \<times> (string \<times> entry) list realm) list) auth_ops" where
  "ex_ops = \<lparr>ah_check = (\<lambda>k user pw. ((pw = k, None), k)), ah_blocks = alist_hash, ah_entries = alist_hash,
     ah_infos = alist_hash, ah_checkers = alist_hash, ah_realms = alist_hash, ah_rewind = True\<rparr>"

definition ex_static ::
  "((string \<times> entry) list, (string \<times> string) list, (string \<times> (string \<times> entry) list realm) list) auth_static" where
  "ex_static = Authenticator_registerRealm ex_ops (Authenticator_registerRealm ex_ops
     (Authenticator_registerChecker ex_ops (Authenticator_init ex_ops None) ''pam'' ''secret'')
     (Realm_addChecker (Realm_create ''SWAD'') ''pam'')) (Realm_addChecker (Realm_create ''other'') ''pam'')"

lemma ex_ops_laws [simp]: "auth_laws ex_ops"
  by (simp add: auth_laws_def ex_ops_def)

lemma ex_login: "auth_run ex_ops [AC_login (Some 1000) ''SWAD'' ''root'' ''secret''] ([], ex_static) =
    Some ([(''SWAD'', \<lparr>ai_user = Some \<lparr>us_username = ''root'', us_realname = None, us_checker = ''pam''\<rparr>,
        ai_blocks = None, ai_failLimit = None\<rparr>)],
      ex_static\<lparr>as_log := [EV_check ''pam'' ''root'' ''secret'' True]\<rparr>)"
  by (simp add: ex_ops_def ex_static_def alist_hash_def Authenticator_login_def login_check_def is_blocked_def
      getAuthInfo_def createAuthInfo_def putAuthInfo_def authinfo_new_def createUser_def Authenticator_registerRealm_def
      Authenticator_registerChecker_def Authenticator_init_def Realm_addChecker_def Realm_create_def)

theorem logins_accepted_witness:
  "Authenticator_user ex_ops \<lparr>at_authInfos = [(''SWAD'', \<lparr>ai_user = Some \<lparr>us_username = ''root'', us_realname = None,
     us_checker = ''pam''\<rparr>, ai_blocks = None, ai_failLimit = None\<rparr>)], at_realm = ''SWAD''\<rparr> \<noteq> None
   \<and> (\<exists>pw. EV_check ''pam'' ''root'' pw True \<in> set [EV_check ''pam'' ''root'' ''secret'' True])"
proof -
  have run: "auth_run ex_ops [AC_login (Some 1000) ''SWAD'' ''root'' ''secret''] (ph_create (ah_infos ex_ops) 4, ex_static) =
      Some ([(''SWAD'', \<lparr>ai_user = Some \<lparr>us_username = ''root'', us_realname = None, us_checker = ''pam''\<rparr>,
        ai_blocks = None, ai_failLimit = None\<rparr>)], ex_static\<lparr>as_log := [EV_check ''pam'' ''root'' ''secret'' True]\<rparr>)"
    using ex_login by (simp add: ex_ops_def alist_hash_def)
  have log: "as_log ex_static = []" by (simp add: ex_static_def Authenticator_registerRealm_def
      Authenticator_registerChecker_def Authenticator_init_def)
  have u: "Authenticator_user ex_ops \<lparr>at_authInfos = [(''SWAD'', \<lparr>ai_user = Some \<lparr>us_username = ''root'', us_realname = None,
      us_checker = ''pam''\<rparr>, ai_blocks = None, ai_failLimit = None\<rparr>)], at_realm = ''SWAD''\<rparr>
    = Some \<lparr>us_username = ''root'', us_realname = None, us_checker = ''pam''\<rparr>"
    by (simp add: Authenticator_user_def getAuthInfo_def ex_ops_def alist_hash_def)
  from logins_accepted [OF ex_ops_laws log run, THEN conjunct1, rule_format, OF u] u show ?thesis by auto
qed

theorem silent_login_exact_witness:
  "\<exists>self'. Authenticator_silentLogin ex_ops ex_static
      \<lparr>at_authInfos = [(''SWAD'', authinfo_new\<lparr>ai_user := Some \<lparr>us_username = ''root'', us_realname = None, us_checker = ''pam''\<rparr>\<rparr>),
         (''other'', authinfo_new)], at_realm = ''other''\<rparr> = (True, self') \<and> Authenticator_user ex_ops self' \<noteq> None"
proof -
  let ?self = "\<lparr>at_authInfos = [(''SWAD'', authinfo_new\<lparr>ai_user := Some \<lparr>us_username = ''root'', us_realname = None, us_checker = ''pam''\<rparr>\<rparr>),
     (''other'', authinfo_new)], at_realm = ''other''\<rparr> :: (string \<times> ((string \<times> unit) list, (string \<times> entry) list) authinfo) list authenticator"
  obtain ok self' where s: "Authenticator_silentLogin ex_ops ex_static ?self = (ok, self')"
    by (cases "Authenticator_silentLogin ex_ops ex_static ?self")
  have rw: "ah_rewind ex_ops" by (simp add: ex_ops_def)
  have "ok" using s by (auto simp: Authenticator_silentLogin_def getAuthInfo_def ex_ops_def ex_static_def alist_hash_def
      Authenticator_registerRealm_def Authenticator_registerChecker_def Authenticator_init_def Realm_addChecker_def
      Realm_create_def authinfo_new_def)
  then show ?thesis using silent_login_exact [OF ex_ops_laws rw s] s by auto
qed

end
