(* ===== verification/Auth_Limit.thy ===== *)
theory Auth_Limit
  imports Authenticator
begin

text \<open>
  How often a password can be tried. The lemmas lead from the list of limits of a realm, each of
  which refines its window, over the operations of the authenticator that touch the limit and the
  blocks, to an invariant of the run of a session: in every window the failed checks of a user are at
  most one more than what the limit accepted, and equal to it while the user is not blocked.
\<close>

section \<open>The limit on failed logins\<close>

subsection \<open>A list of limits\<close>

text \<open>Every limit of the list runs like its specification; times are seconds here.\<close>

definition limits_rel ::
  "('l, entry) psc_hash \<Rightarrow> 'l limit list \<Rightarrow> nat \<Rightarrow> (string \<Rightarrow> nat option) \<Rightarrow> (nat \<Rightarrow> string \<Rightarrow> nat list) \<Rightarrow> bool" where
  "limits_rel ops ls T seen Es \<longleftrightarrow>
     (\<forall>i < length ls. limit_ok (ls ! i)
       \<and> limit_rel ops (ls ! i) (T div unat (l_res (ls ! i))) (\<lambda>k. map_option (\<lambda>s. s div unat (l_res (ls ! i))) (seen k)) (Es i))"

definition same_limit :: "'l limit \<Rightarrow> 'l limit \<Rightarrow> bool" where
  "same_limit l l' \<longleftrightarrow> l_res l' = l_res l \<and> l_ncounts l' = l_ncounts l \<and> l_limit l' = l_limit l"

lemma div_pace: "(tv::nat) \<le> t0 + 65535 \<Longrightarrow> t0 \<le> s \<Longrightarrow> 0 < r \<Longrightarrow> tv div r < s div r + 65536"
proof -
  assume a: "tv \<le> t0 + 65535" "t0 \<le> s" "0 < r"
  have "tv div r \<le> (s + 65535) div r" using a by (intro div_le_mono) simp
  also have "\<dots> \<le> (s + 65535 * r) div r" using a(3) by (intro div_le_mono) simp
  also have "\<dots> = s div r + 65535" using a(3) by simp
  finally show ?thesis by simp
qed

definition limit_grow :: "string \<Rightarrow> nat \<Rightarrow> 'l limit \<Rightarrow> (string \<Rightarrow> nat list) \<Rightarrow> (string \<Rightarrow> nat list) \<Rightarrow> bool \<Rightarrow> bool" where
  "limit_grow idt tv l E E' r \<longleftrightarrow>
     (if in_window (unat (l_ncounts l)) (tv div unat (l_res l)) (E idt) < unat (l_limit l)
      then E' = E(idt := tv div unat (l_res l) # E idt) else E' = E \<and> \<not> r)"

lemma check_limits_rel:
  assumes "psc_hash_laws ops" "T \<le> tv" "tv \<le> t0 + 65535" "\<And>k s. seen k = Some s \<Longrightarrow> t0 \<le> s"
  shows "limits_rel ops ls T seen Es \<Longrightarrow> \<exists>r ls' Es'. check_limits ops ls tv idt ok = Some (r, ls')
    \<and> limits_rel ops ls' tv (seen(idt \<mapsto> tv)) Es' \<and> list_all2 same_limit ls ls' \<and> (r \<longrightarrow> ok)
    \<and> (\<forall>i < length ls. limit_grow idt tv (ls ! i) (Es i) (Es' i) r)"
proof (induction ls arbitrary: Es ok)
  case Nil
  then show ?case by (auto simp: limits_rel_def)
next
  case (Cons l ls)
  let ?res = "unat (l_res l)" and ?tk = "\<lambda>k. map_option (\<lambda>s. s div unat (l_res l)) (seen k)"
  have l: "limit_ok l" "limit_rel ops l (T div ?res) ?tk (Es 0)"
    using Cons.prems by (auto simp: limits_rel_def dest: spec [of _ 0])
  have res: "0 < ?res" using l(1) by (simp add: limit_ok_def unat_gt_0)
  have "limits_rel ops ls T seen (\<lambda>i. Es (Suc i))"
    using Cons.prems by (auto simp: limits_rel_def dest: spec [of _ "Suc i" for i])
  note IH = Cons.IH [OF this]
  have pace: "\<forall>s. ?tk idt = Some s \<longrightarrow> tv div ?res < s + 65536"
    using div_pace [OF assms(3) assms(4) res] by auto
  have mono: "T div ?res \<le> tv div ?res" by (rule div_le_mono [OF assms(2)])
  obtain r l' E' where step: "checkLimit ops l tv idt = Some (r, l')"
    "spec_check (unat (l_ncounts l)) (unat (l_limit l)) (Es 0) (tv div ?res) idt = (r, E')"
    "limit_rel ops l' (tv div ?res) (?tk(idt \<mapsto> tv div ?res)) E'"
    "l_res l' = l_res l" "l_ncounts l' = l_ncounts l" "l_limit l' = l_limit l"
    using checkLimit_refines [OF assms(1) l refl mono pace] by blast
  from IH [of "ok \<and> r"] obtain r2 ls' Es' where rest: "check_limits ops ls tv idt (ok \<and> r) = Some (r2, ls')"
    "limits_rel ops ls' tv (seen(idt \<mapsto> tv)) Es'" "list_all2 same_limit ls ls'" "r2 \<longrightarrow> ok \<and> r"
    "\<forall>i < length ls. limit_grow idt tv (ls ! i) (Es (Suc i)) (Es' i) r2"
    by blast
  let ?Es = "\<lambda>i. case i of 0 \<Rightarrow> E' | Suc i \<Rightarrow> Es' i"
  have tk: "(\<lambda>k. map_option (\<lambda>s. s div ?res) ((seen(idt \<mapsto> tv)) k)) = ?tk(idt \<mapsto> tv div ?res)" by auto
  have "limits_rel ops (l' # ls') tv (seen(idt \<mapsto> tv)) ?Es"
    using step(3,4) rest(2) l(1) step(5) unfolding limits_rel_def
    by (auto simp: less_Suc_eq_0_disj tk limit_ok_def simp del: fun_upd_apply)
  moreover have "limit_grow idt tv l (Es 0) E' r2"
    using step(2) rest(4) by (auto simp: limit_grow_def spec_check_def split: if_splits)
  then have "\<forall>i < length (l # ls). limit_grow idt tv ((l # ls) ! i) (Es i) (?Es i) r2"
    using rest(5) by (auto simp: less_Suc_eq_0_disj)
  moreover have "list_all2 same_limit (l # ls) (l' # ls')" using rest(3) step(4-6) by (simp add: same_limit_def)
  moreover have "check_limits ops (l # ls) tv idt ok = Some (r2, l' # ls')" using step(1) rest(1) by simp
  ultimately show ?case using rest(4) by blast
qed

lemma limits_rel_later:
  assumes "limits_rel ops ls T seen Es" "T \<le> T'"
  shows "limits_rel ops ls T' seen Es"
  using assms entry_rel_mono div_le_mono [OF assms(2)]
  unfolding limits_rel_def limit_rel_def by blast

lemma limits_rel_new:
  assumes "\<forall>l \<in> set opts. limit_ok l \<and> l_entries l = None"
  shows "limits_rel ops opts T (\<lambda>_. None) (\<lambda>_ _. [])"
  using assms by (auto simp: limits_rel_def limit_rel_def entry_rel_def limit_get_def)

subsection \<open>The limit and the blocks of a session in a realm\<close>

definition fail_limits :: "('l, 'c, 'r) auth_static \<Rightarrow> 'l realm \<Rightarrow> 'l limit list option" where
  "fail_limits st realm =
     (case rl_limitOpts realm of
        Some limitOpts \<Rightarrow> Some limitOpts
      | None \<Rightarrow>
          (case as_defaultLimitOpts st of
             Some limitOpts \<Rightarrow> Some limitOpts
           | None \<Rightarrow> RateLimitOpts_addLimit [] (15 * 60) 5))"

definition eff_limits ::
  "('k, 'b, 'l, 't, 'c, 'r) auth_ops \<Rightarrow> ('l, 'c, 'r) auth_static \<Rightarrow> 't authenticator \<Rightarrow> 'l realm \<Rightarrow> 'l limit list option" where
  "eff_limits ops st self realm =
     (case Option.bind (getAuthInfo ops self) ai_failLimit of
        Some ls \<Rightarrow> Some ls
      | None \<Rightarrow> fail_limits st realm)"

lemma create_blocks:
  assumes "auth_laws ops" "createAuthInfo ops self = (a, self')"
  shows "getAuthInfo ops self' = Some a" "is_blocked ops self' = is_blocked ops self"
    "Option.bind (getAuthInfo ops self') ai_failLimit = Option.bind (getAuthInfo ops self) ai_failLimit"
    "ai_failLimit a = Option.bind (getAuthInfo ops self) ai_failLimit" "at_realm self' = at_realm self"
    "is_blocked ops self v = (case ai_blocks a of None \<Rightarrow> False | Some b \<Rightarrow> ph_get (ah_blocks ops) b v \<noteq> None)"
  using assms by (auto simp: createAuthInfo_def authinfo_new_def is_blocked_def getAuthInfo_put fun_eq_iff split: option.splits)

lemma put_blocks:
  assumes "auth_laws ops"
  shows "is_blocked ops (putAuthInfo ops self a) v =
      (case ai_blocks a of None \<Rightarrow> False | Some b \<Rightarrow> ph_get (ah_blocks ops) b v \<noteq> None)"
    "Option.bind (getAuthInfo ops (putAuthInfo ops self a)) ai_failLimit = ai_failLimit a"
  by (simp_all add: is_blocked_def getAuthInfo_put [OF assms])

lemma block_blocks:
  assumes "auth_laws ops"
  shows "is_blocked ops (block ops self user) v = (v = user \<or> is_blocked ops self v)"
    "is_blocked ops (unblock ops self user) v = (v \<noteq> user \<and> is_blocked ops self v)"
    "Option.bind (getAuthInfo ops (block ops self user)) ai_failLimit = Option.bind (getAuthInfo ops self) ai_failLimit"
    "Option.bind (getAuthInfo ops (unblock ops self user)) ai_failLimit = Option.bind (getAuthInfo ops self) ai_failLimit"
proof -
  have laws: "psc_hash_laws (ah_blocks ops)" using assms by (simp add: auth_laws_def)
  obtain a self' where c: "createAuthInfo ops self = (a, self')" by (cases "createAuthInfo ops self")
  note cb = create_blocks [OF assms c]
  show "is_blocked ops (block ops self user) v = (v = user \<or> is_blocked ops self v)"
    "is_blocked ops (unblock ops self user) v = (v \<noteq> user \<and> is_blocked ops self v)"
    using cb(6) [of v] by (auto simp: block_def unblock_def c put_blocks [OF assms] psc_hash_lawsD [OF laws] split: option.splits)
  show "Option.bind (getAuthInfo ops (block ops self user)) ai_failLimit = Option.bind (getAuthInfo ops self) ai_failLimit"
    "Option.bind (getAuthInfo ops (unblock ops self user)) ai_failLimit = Option.bind (getAuthInfo ops self) ai_failLimit"
    using cb(4) by (simp_all add: block_def unblock_def c put_blocks [OF assms])
qed

lemma check_fail_limit_eff:
  assumes "auth_laws ops" "eff_limits ops st self realm = Some ls"
    "RateLimit_check (ah_entries ops) ls now user = Some (r, ls')"
  shows "\<exists>st' self'. check_fail_limit ops now st self realm user = Some (r, st', self')
    \<and> eff_limits ops st' self' realm = Some ls' \<and> is_blocked ops self' = is_blocked ops self"
proof -
  obtain a self1 where c: "createAuthInfo ops self = (a, self1)" by (cases "createAuthInfo ops self")
  note cb = create_blocks [OF assms(1) c]
  have get: "createAuthInfo ops (putAuthInfo ops x b) = (b, putAuthInfo ops x b)" for x b
    by (simp add: createAuthInfo_def getAuthInfo_put [OF assms(1)])
  have get1: "createAuthInfo ops self1 = (a, self1)" using cb(1) by (simp add: createAuthInfo_def)
  have ib: "is_blocked ops (putAuthInfo ops x (a\<lparr>ai_failLimit := f\<rparr>)) = is_blocked ops self" for x f
    using cb(6) by (auto simp: put_blocks [OF assms(1)])
  show ?thesis
  proof (cases "ai_failLimit a")
    case (Some f)
    then have "f = ls" using assms(2) cb(4) by (simp add: eff_limits_def)
    then show ?thesis
      using assms(3) Some c get1 by (simp add: check_fail_limit_def getLimits_def eff_limits_def put_blocks [OF assms(1)] ib)
  next
    case None
    then have f: "fail_limits st realm = Some ls" using assms(2) cb(4) by (simp add: eff_limits_def)
    then obtain st1 where "getLimits ops st self realm = Some (ls, st1, putAuthInfo ops self1 (a\<lparr>ai_failLimit := Some ls\<rparr>))"
      using None c by (auto simp: getLimits_def fail_limits_def RateLimit_create_def split: option.splits)
    then show ?thesis
      using assms(3) by (simp add: check_fail_limit_def get eff_limits_def put_blocks [OF assms(1)] ib)
  qed
qed


subsection \<open>Counting failed checks\<close>

text \<open>
  \<open>E\<close> are the ticks at which the limit accepted a call for the user, \<open>F\<close> those of his failed checks,
  \<open>T\<close> is the tick now. Within a window there is at most \<open>c\<close> more of \<open>F\<close> than of \<open>E\<close>.
\<close>

definition fail_core :: "nat \<Rightarrow> nat \<Rightarrow> nat \<Rightarrow> nat \<Rightarrow> nat list \<Rightarrow> nat list \<Rightarrow> nat \<Rightarrow> bool" where
  "fail_core W n lim T E F c \<longleftrightarrow> (\<forall>t \<in> set E \<union> set F. t \<le> T) \<and> ticks_in W n E \<le> lim \<and> ticks_in W n F \<le> lim + 1
     \<and> (T \<le> W + n \<longrightarrow> ticks_in W n F \<le> ticks_in W n E + c)"

lemma ticks_in_Cons: "ticks_in W n (t # ts) = (if W < t \<and> t \<le> W + n then 1 else 0) + ticks_in W n ts"
  "ticks_in W n (ts @ [t]) = (if W < t \<and> t \<le> W + n then 1 else 0) + ticks_in W n ts"
  by (simp_all add: ticks_in_def)

lemma ticks_in_before: "\<forall>t \<in> set F. t \<le> T \<Longrightarrow> T \<le> W \<Longrightarrow> ticks_in W n F = 0"
  by (force simp: ticks_in_def filter_empty_conv)

lemma fail_core_later: "fail_core W n lim T E F c \<Longrightarrow> T \<le> T' \<Longrightarrow> c \<le> c' \<Longrightarrow> fail_core W n lim T' E F c'"
proof -
  assume a: "fail_core W n lim T E F c" "T \<le> T'" "c \<le> c'"
  have "\<forall>t \<in> set E \<union> set F. t \<le> T'" using a(1) order_trans [OF _ a(2)] unfolding fail_core_def by blast
  then show ?thesis using a unfolding fail_core_def by linarith
qed

lemma fail_core_accept:
  assumes "fail_core W n lim T E F c" "in_window n T E < lim"
  shows "fail_core W n lim T (T # E) F (c - 1)"
proof -
  have "ticks_in W n (T # E) \<le> lim"
    using assms by (intro ticks_in_accept) (auto simp: fail_core_def)
  then show ?thesis
    using assms(1) ticks_in_before [of F T W n]
    by (cases "T \<le> W") (auto simp: fail_core_def ticks_in_Cons)
qed

lemma fail_core_fail: "fail_core W n lim T E F 0 \<Longrightarrow> fail_core W n lim T E (F @ [T]) 1"
  using ticks_in_before [of F T W n] by (cases "T \<le> W") (auto simp: fail_core_def ticks_in_Cons)

lemma fail_core_drop: "fail_core W n lim T E (F @ [t]) c \<Longrightarrow> fail_core W n lim T E F c"
  by (auto simp: fail_core_def ticks_in_Cons split: if_splits)

definition fail_inv ::
  "('k, 'b, 'l, 't, 'c, 'r) auth_ops \<Rightarrow> 'l realm \<Rightarrow> nat \<Rightarrow> 'l limit \<Rightarrow> nat \<Rightarrow> string \<Rightarrow> nat \<Rightarrow> ('l, 'c, 'r) auth_static \<Rightarrow> 't authenticator
    \<Rightarrow> nat \<Rightarrow> nat list \<Rightarrow> nat \<Rightarrow> bool" where
  "fail_inv ops realm i l W u t0 st self T F c \<longleftrightarrow>
     (\<exists>ls seen Es. eff_limits ops st self realm = Some ls \<and> limits_rel (ah_entries ops) ls T seen Es
        \<and> i < length ls \<and> same_limit l (ls ! i) \<and> (\<forall>k s. seen k = Some s \<longrightarrow> t0 \<le> s) \<and> t0 \<le> T
        \<and> fail_core W (unat (l_ncounts l)) (unat (l_limit l)) (T div unat (l_res l)) (Es i u) F c)"

lemma fail_inv_later: "fail_inv ops realm i l W u t0 st self T F c \<Longrightarrow> T \<le> T' \<Longrightarrow> fail_inv ops realm i l W u t0 st self T' F c"
  unfolding fail_inv_def using limits_rel_later fail_core_later [OF _ div_le_mono order_refl] by (meson order_trans)

lemma fail_inv_cong:
  "fail_inv ops realm i l W u t0 st self T F c \<Longrightarrow> eff_limits ops st' self' realm = eff_limits ops st self realm \<Longrightarrow>
    fail_inv ops realm i l W u t0 st' self' T F c"
  by (simp add: fail_inv_def)

lemma fail_inv_core:
  assumes "fail_inv ops realm i l W u t0 st self T F c"
    "\<And>E. fail_core W (unat (l_ncounts l)) (unat (l_limit l)) (T div unat (l_res l)) E F c \<Longrightarrow>
      fail_core W (unat (l_ncounts l)) (unat (l_limit l)) (T div unat (l_res l)) E F' c'"
  shows "fail_inv ops realm i l W u t0 st self T F' c'"
  using assms unfolding fail_inv_def by blast

lemma fail_inv_call:
  assumes "auth_laws ops" "fail_inv ops realm i l W u t0 st self tv F c" "tv \<le> t0 + 65535"
  shows "\<exists>r st' self'. check_fail_limit ops (Some tv) st self realm v = Some (r, st', self')
    \<and> is_blocked ops self' = is_blocked ops self
    \<and> fail_inv ops realm i l W u t0 st' self' tv F (if v = u \<and> r then c - 1 else c)"
proof -
  from assms(2) obtain ls seen Es where inv: "eff_limits ops st self realm = Some ls"
    "limits_rel (ah_entries ops) ls tv seen Es" "i < length ls" "same_limit l (ls ! i)"
    "\<forall>k s. seen k = Some s \<longrightarrow> t0 \<le> s" "t0 \<le> tv"
    "fail_core W (unat (l_ncounts l)) (unat (l_limit l)) (tv div unat (l_res l)) (Es i u) F c"
    unfolding fail_inv_def by blast
  have laws: "psc_hash_laws (ah_entries ops)" using assms(1) by (simp add: auth_laws_def)
  obtain r ls' Es' where call: "check_limits (ah_entries ops) ls tv v True = Some (r, ls')"
    "limits_rel (ah_entries ops) ls' tv (seen(v \<mapsto> tv)) Es'" "list_all2 same_limit ls ls'"
    "\<forall>i < length ls. limit_grow v tv (ls ! i) (Es i) (Es' i) r"
    using check_limits_rel [OF laws order_refl assms(3) _ inv(2), of v True] inv(5) by blast
  then have "RateLimit_check (ah_entries ops) ls (Some tv) v = Some (r, ls')" by (simp add: RateLimit_check_def)
  from check_fail_limit_eff [OF assms(1) inv(1) this] obtain st' self' where res:
    "check_fail_limit ops (Some tv) st self realm v = Some (r, st', self')"
    "eff_limits ops st' self' realm = Some ls'" "is_blocked ops self' = is_blocked ops self" by blast
  have same: "i < length ls'" "same_limit l (ls' ! i)"
    using call(3) inv(3,4) list_all2_nthD [OF call(3) inv(3)] list_all2_lengthD [OF call(3)]
    by (auto simp: same_limit_def)
  let ?n = "unat (l_ncounts l)" and ?lim = "unat (l_limit l)" and ?t = "tv div unat (l_res l)"
  have g: "limit_grow v tv l (Es i) (Es' i) r" using call(4) inv(3,4) by (auto simp: limit_grow_def same_limit_def)
  have "fail_core W ?n ?lim ?t (Es' i u) F (if v = u \<and> r then c - 1 else c)"
  proof (cases "in_window ?n ?t (Es i v) < ?lim \<and> v = u")
    case True
    then have "Es' i u = ?t # Es i u" using g by (auto simp: limit_grow_def)
    then show ?thesis using fail_core_accept [OF inv(7)] True fail_core_later [OF _ order_refl, of W ?n ?lim ?t "?t # Es i u" F "c - 1" c]
      by auto
  next
    case False
    then have "Es' i u = Es i u" "v = u \<longrightarrow> \<not> r" using g by (auto simp: limit_grow_def split: if_splits)
    then show ?thesis using inv(7) by auto
  qed
  then have "fail_inv ops realm i l W u t0 st' self' tv F (if v = u \<and> r then c - 1 else c)"
    unfolding fail_inv_def using res(2) call(2) same inv(5,6)
    by (intro exI [of _ ls'] exI [of _ "seen(v \<mapsto> tv)"] exI [of _ Es']) auto
  then show ?thesis using res by blast
qed


subsection \<open>Logins\<close>

definition is_check :: "auth_event \<Rightarrow> bool" where
  "is_check e = (case e of EV_check c user pw a \<Rightarrow> True | EV_limit now user r \<Rightarrow> False)"

definition asked :: "('l, 'c, 'r) auth_static \<Rightarrow> ('l, 'c, 'r) auth_static \<Rightarrow> bool" where
  "asked st st' \<longleftrightarrow> list_ex is_check (drop (length (as_log st)) (as_log st'))"

abbreviation blocked_count :: "('k, 'b, 'l, 't, 'c, 'r) auth_ops \<Rightarrow> 't authenticator \<Rightarrow> string \<Rightarrow> nat" where
  "blocked_count ops self u \<equiv> if is_blocked ops self u then 1 else 0"

lemma login_check_step:
  assumes "auth_laws ops" "fail_inv ops realm i l W u t0 st self tv F (blocked_count ops self u)" "tv \<le> t0 + 65535"
    "\<not> is_blocked ops self v"
  shows "\<exists>ok st' self'. login_check ops (Some tv) st self realm v pw = Some (ok, st', self')
    \<and> fail_inv ops realm i l W u t0 st' self' tv (if v = u \<and> ok \<noteq> 1 then F @ [tv div unat (l_res l)] else F)
        (blocked_count ops self' u)"
proof -
  obtain r st1 where ck: "check_loop ops st (rl_checkers realm) v pw = (r, st1)"
    by (cases "check_loop ops st (rl_checkers realm) v pw")
  have "as_defaultLimitOpts st1 = as_defaultLimitOpts st" using check_loop_events [OF ck] by blast
  then have "fail_limits st1 realm = fail_limits st realm"
    unfolding fail_limits_def by (simp only: split: option.split)
  then have eff: "eff_limits ops st1 self realm = eff_limits ops st self realm"
    by (simp add: eff_limits_def split: option.split)
  note inv = fail_inv_cong [OF assms(2) eff]
  show ?thesis
  proof (cases r)
    case (Some usr)
    obtain a self1 where c: "createAuthInfo ops self = (a, self1)" by (cases "createAuthInfo ops self")
    note cb = create_blocks [OF assms(1) c]
    let ?self = "putAuthInfo ops self1 (a\<lparr>ai_user := Some usr\<rparr>)"
    have ib: "is_blocked ops ?self = is_blocked ops self" using cb(6) by (auto simp: put_blocks [OF assms(1)])
    have "eff_limits ops st1 ?self realm = eff_limits ops st1 self realm"
      using cb(4) by (simp add: eff_limits_def put_blocks [OF assms(1)])
    from fail_inv_cong [OF inv this] show ?thesis using ck Some c ib by (simp add: login_check_def)
  next
    case None
    show ?thesis
    proof (cases "v = u")
      case False
      from fail_inv_call [OF assms(1) inv assms(3), of v] False obtain r st2 self2 where
        call: "check_fail_limit ops (Some tv) st1 self realm v = Some (r, st2, self2)"
          "is_blocked ops self2 = is_blocked ops self"
          "fail_inv ops realm i l W u t0 st2 self2 tv F (blocked_count ops self u)" by auto
      have "eff_limits ops st2 (block ops self2 v) realm = eff_limits ops st2 self2 realm"
        by (simp add: eff_limits_def block_blocks [OF assms(1)])
      from fail_inv_cong [OF call(3) this] show ?thesis
        using ck None call False by (cases r) (simp_all add: login_check_def block_blocks [OF assms(1)])
    next
      case True
      let ?F = "F @ [tv div unat (l_res l)]"
      have "fail_inv ops realm i l W u t0 st1 self tv ?F 1"
        by (rule fail_inv_core [OF inv]) (use assms(4) True fail_core_fail in auto)
      from fail_inv_call [OF assms(1) this assms(3), of v] True obtain r st2 self2 where
        call: "check_fail_limit ops (Some tv) st1 self realm v = Some (r, st2, self2)"
          "is_blocked ops self2 = is_blocked ops self"
          "fail_inv ops realm i l W u t0 st2 self2 tv ?F (if r then 1 - 1 else 1)" by auto
      have "eff_limits ops st2 (block ops self2 v) realm = eff_limits ops st2 self2 realm"
        by (simp add: eff_limits_def block_blocks [OF assms(1)])
      from fail_inv_cong [OF call(3) this] show ?thesis
        using ck None call True assms(4) by (cases r) (simp_all add: login_check_def block_blocks [OF assms(1)])
    qed
  qed
qed

lemma login_step:
  assumes "auth_laws ops" "ph_get (ah_realms ops) (as_realms st) (at_realm self) = Some realm"
    "fail_inv ops realm i l W u t0 st self T F (blocked_count ops self u)" "T \<le> tv" "tv \<le> t0 + 65535"
  shows "\<exists>ok st' self'. Authenticator_login ops (Some tv) st self v pw = Some (ok, st', self')
    \<and> fail_inv ops realm i l W u t0 st' self' tv
        (if v = u \<and> ok \<noteq> 1 \<and> asked st st' then F @ [tv div unat (l_res l)] else F) (blocked_count ops self' u)"
proof -
  note inv = fail_inv_later [OF assms(3,4)]
  have drop: "fail_inv ops realm i l W u t0 st' self' tv (if v = u \<and> ok \<noteq> 1 \<and> b then F @ [tv div unat (l_res l)] else F) c"
    if "fail_inv ops realm i l W u t0 st' self' tv (if v = u \<and> ok \<noteq> 1 then F @ [tv div unat (l_res l)] else F) c"
    for ok :: int and st' self' b c
    by (rule fail_inv_core [OF that]) (auto dest: fail_core_drop split: if_splits)
  show ?thesis
  proof (cases "rl_checkers realm = []")
    case True
    then show ?thesis using assms(2) inv by (simp add: Authenticator_login_def asked_def)
  next
    case ne: False
    show ?thesis
    proof (cases "is_blocked ops self v")
      case False
      from login_check_step [OF assms(1) inv assms(5) False, of pw] obtain ok st' self' where
        res: "login_check ops (Some tv) st self realm v pw = Some (ok, st', self')"
          "fail_inv ops realm i l W u t0 st' self' tv (if v = u \<and> ok \<noteq> 1 then F @ [tv div unat (l_res l)] else F)
            (blocked_count ops self' u)" by blast
      have "Authenticator_login ops (Some tv) st self v pw = Some (ok, st', self')"
        using res(1) assms(2) ne False by (simp add: Authenticator_login_def)
      with drop [OF res(2)] show ?thesis by blast
    next
      case True
      from fail_inv_call [OF assms(1) inv assms(5), of v] obtain r st1 self1 where
        call: "check_fail_limit ops (Some tv) st self realm v = Some (r, st1, self1)"
          "is_blocked ops self1 = is_blocked ops self"
          "fail_inv ops realm i l W u t0 st1 self1 tv F (if v = u \<and> r then blocked_count ops self u - 1 else blocked_count ops self u)"
        by blast
      show ?thesis
      proof (cases r)
        case False
        have "\<not> asked st st1" using check_fail_limit_users [OF assms(1) call(1)] by (simp add: asked_def is_check_def)
        then show ?thesis using assms(2) ne True call False by (simp add: Authenticator_login_def)
      next
        case r: True
        let ?self = "unblock ops self1 v"
        have nb: "\<not> is_blocked ops ?self v" by (simp add: block_blocks [OF assms(1)])
        have "eff_limits ops st1 ?self realm = eff_limits ops st1 self1 realm"
          by (simp add: eff_limits_def block_blocks [OF assms(1)])
        from fail_inv_cong [OF call(3) this] have "fail_inv ops realm i l W u t0 st1 ?self tv F (blocked_count ops ?self u)"
          using call(2) r True by (auto simp: block_blocks [OF assms(1)] split: if_splits)
        from login_check_step [OF assms(1) this assms(5) nb, of pw] obtain ok st' self' where
          res: "login_check ops (Some tv) st1 ?self realm v pw = Some (ok, st', self')"
            "fail_inv ops realm i l W u t0 st' self' tv (if v = u \<and> ok \<noteq> 1 then F @ [tv div unat (l_res l)] else F)
              (blocked_count ops self' u)" by blast
        have "Authenticator_login ops (Some tv) st self v pw = Some (ok, st', self')"
          using res(1) assms(2) ne True call r by (simp add: Authenticator_login_def)
        with drop [OF res(2)] show ?thesis by blast
      qed
    qed
  qed
qed


subsection \<open>Runs of logins\<close>

text \<open>
  A run of attempts (time, user, password) to log in to one realm with one session, with the results
  and whether a checker was asked; and the ticks of the failed checks of a user.
\<close>

fun login_run ::
  "('k, 'b, 'l, 't, 'c, 'r) auth_ops \<Rightarrow> string \<Rightarrow> (nat \<times> string \<times> string) list \<Rightarrow> 't \<times> ('l, 'c, 'r) auth_static
    \<Rightarrow> ((int \<times> bool) list \<times> 't \<times> ('l, 'c, 'r) auth_static) option" where
  "login_run ops r [] s = Some ([], s)"
| "login_run ops r ((tv, user, pw) # attempts) (t, st) =
     (case Authenticator_login ops (Some tv) st \<lparr>at_authInfos = t, at_realm = r\<rparr> user pw of
        None \<Rightarrow> None
      | Some (ok, st', self') \<Rightarrow>
          map_option (\<lambda>(outs, s). ((ok, asked st st') # outs, s)) (login_run ops r attempts (at_authInfos self', st')))"

definition failed_checks :: "nat \<Rightarrow> string \<Rightarrow> (nat \<times> string \<times> string) list \<Rightarrow> (int \<times> bool) list \<Rightarrow> nat list" where
  "failed_checks res u attempts outs =
     map (\<lambda>((tv, user, pw), out). tv div res) (filter (\<lambda>((tv, user, pw), (ok, a)). user = u \<and> ok \<noteq> 1 \<and> a) (zip attempts outs))"

lemma login_run_inv:
  assumes "auth_laws ops"
  shows "ph_get (ah_realms ops) (as_realms st) r = Some realm \<Longrightarrow>
    fail_inv ops realm i l W u t0 st \<lparr>at_authInfos = t, at_realm = r\<rparr> T F
      (blocked_count ops \<lparr>at_authInfos = t, at_realm = r\<rparr> u) \<Longrightarrow>
    sorted (T # map fst attempts) \<Longrightarrow> \<forall>a \<in> set attempts. fst a \<le> t0 + 65535 \<Longrightarrow>
    \<exists>outs t' st' T' c. login_run ops r attempts (t, st) = Some (outs, t', st') \<and> length outs = length attempts
      \<and> fail_inv ops realm i l W u t0 st' \<lparr>at_authInfos = t', at_realm = r\<rparr> T'
          (F @ failed_checks (unat (l_res l)) u attempts outs) c"
proof (induction attempts arbitrary: t st T F)
  case Nil
  then show ?case by (auto simp: failed_checks_def)
next
  case (Cons a attempts)
  obtain tv v pw where a: "a = (tv, v, pw)" by (cases a) auto
  let ?self = "\<lparr>at_authInfos = t, at_realm = r\<rparr>"
  have "T \<le> tv" "tv \<le> t0 + 65535" using Cons.prems(3,4) a by auto
  from login_step [OF assms _ Cons.prems(2) this, of v pw] Cons.prems(1) obtain ok st1 self1 where
    l: "Authenticator_login ops (Some tv) st ?self v pw = Some (ok, st1, self1)"
      "fail_inv ops realm i l W u t0 st1 self1 tv
        (if v = u \<and> ok \<noteq> 1 \<and> asked st st1 then F @ [tv div unat (l_res l)] else F) (blocked_count ops self1 u)" by auto
  have o: "as_realms st1 = as_realms st" "at_realm self1 = r"
    using login_users [OF assms l(1)] by (auto simp: login_outcome_def)
  then have self1: "self1 = \<lparr>at_authInfos = at_authInfos self1, at_realm = r\<rparr>" by (cases self1) auto
  let ?F = "if v = u \<and> ok \<noteq> 1 \<and> asked st st1 then F @ [tv div unat (l_res l)] else F"
  from Cons.IH [of st1 "at_authInfos self1" tv ?F] l(2) self1 o Cons.prems(1,3,4) a
  obtain outs t' st' T' c where rest: "login_run ops r attempts (at_authInfos self1, st1) = Some (outs, t', st')"
    "length outs = length attempts"
    "fail_inv ops realm i l W u t0 st' \<lparr>at_authInfos = t', at_realm = r\<rparr> T' (?F @ failed_checks (unat (l_res l)) u attempts outs) c"
    by auto
  have "F @ failed_checks (unat (l_res l)) u (a # attempts) ((ok, asked st st1) # outs)
      = ?F @ failed_checks (unat (l_res l)) u attempts outs"
    by (simp add: a failed_checks_def)
  then have "fail_inv ops realm i l W u t0 st' \<lparr>at_authInfos = t', at_realm = r\<rparr> T'
      (F @ failed_checks (unat (l_res l)) u (a # attempts) ((ok, asked st st1) # outs)) c" using rest(3) by (simp only:)
  moreover have "login_run ops r (a # attempts) (t, st) = Some ((ok, asked st st1) # outs, t', st')"
    using l(1) rest(1) a by simp
  ultimately show ?case using rest(2) by (metis length_Cons)
qed

section \<open>Property\<close>

text \<open>
  C18: a password cannot be guessed fast. For a session that comes to a realm for the first time, and
  any attempts to log in to it within the life of a session, every login returns, and for each limit
  of the realm (five in 15 minutes, where nothing is configured) a window of the limit contains at most
  one more failed check of a user's password than the limit allows, whatever the checkers answer. A
  check is an attempt for which some checker was asked; attempts refused before that are free.
\<close>

theorem failed_logins_limited:
  assumes "auth_laws ops" "ph_get (ah_realms ops) (as_realms st) r = Some realm"
    "getAuthInfo ops \<lparr>at_authInfos = t, at_realm = r\<rparr> = None"
    "fail_limits st realm = Some opts" "\<forall>l \<in> set opts. limit_ok l \<and> l_entries l = None" "l \<in> set opts"
    "sorted (map fst attempts)" "\<forall>a \<in> set attempts. t0 \<le> fst a \<and> int (fst a) \<le> int t0 + MAXAGE"
  shows "\<exists>outs s'. login_run ops r attempts (t, st) = Some (outs, s') \<and> length outs = length attempts
    \<and> ticks_in W (unat (l_ncounts l)) (failed_checks (unat (l_res l)) u attempts outs) \<le> unat (l_limit l) + 1"
proof -
  let ?self = "\<lparr>at_authInfos = t, at_realm = r\<rparr>"
  obtain i where i: "i < length opts" "opts ! i = l" using assms(6) by (auto simp: in_set_conv_nth)
  have rel: "limits_rel (ah_entries ops) opts t0 (\<lambda>_. None) (\<lambda>_ _. [])"
    using limits_rel_new assms(5) by blast
  have "fail_core W (unat (l_ncounts l)) (unat (l_limit l)) (t0 div unat (l_res l)) [] [] c" for c
    by (simp add: fail_core_def ticks_in_def)
  then have "fail_inv ops realm i l W u t0 st ?self t0 [] (blocked_count ops ?self u)"
    unfolding fail_inv_def using rel i assms(3,4)
    by (intro exI [of _ opts] exI [of _ "\<lambda>_. None"] exI [of _ "\<lambda>_ _. []"]) (auto simp: eff_limits_def same_limit_def)
  moreover have "sorted (t0 # map fst attempts)" "\<forall>a \<in> set attempts. fst a \<le> t0 + 65535"
    using assms(7,8) by (auto simp: MAXAGE_def)
  ultimately obtain outs t' st' T' c where "login_run ops r attempts (t, st) = Some (outs, t', st')"
    "length outs = length attempts"
    "fail_inv ops realm i l W u t0 st' \<lparr>at_authInfos = t', at_realm = r\<rparr> T' (failed_checks (unat (l_res l)) u attempts outs) c"
    using login_run_inv [OF assms(1,2), of i l W u t0 t t0 "[]" attempts] by auto
  then show ?thesis by (auto simp: fail_inv_def fail_core_def)
qed

text \<open>Seven wrong passwords with the default limit: six are checked, the last one is refused before.\<close>

definition ex_auth_static ::
  "((string \<times> entry) list, (string \<times> string) list, (string \<times> (string \<times> entry) list realm) list) auth_static" where
  "ex_auth_static = Authenticator_registerRealm ex_ops
     (Authenticator_registerChecker ex_ops (Authenticator_init ex_ops None) ''pam'' ''secret'')
     (Realm_addChecker (Realm_create ''SWAD'') ''pam'')"

definition ex_attempts :: "(nat \<times> string \<times> string) list" where
  "ex_attempts = map (\<lambda>i. (1000 + 10 * i, ''root'', ''guess'')) [0..<7]"

theorem failed_logins_limited_witness:
  "\<exists>outs s'. login_run ex_ops ''SWAD'' ex_attempts ([], ex_auth_static) = Some (outs, s')
     \<and> ticks_in 499 450 (failed_checks 2 ''root'' ex_attempts outs) \<le> 6"
proof -
  let ?l = "\<lparr>l_entries = None, l_seconds = 900, l_limit = 5, l_res = 2, l_ncounts = 450\<rparr> :: (string \<times> entry) list limit"
  let ?realm = "Realm_addChecker (Realm_create ''SWAD'') ''pam'' :: (string \<times> entry) list realm"
  have r: "ph_get (ah_realms ex_ops) (as_realms ex_auth_static) ''SWAD'' = Some ?realm"
    by (simp add: ex_auth_static_def Authenticator_registerRealm_def Authenticator_registerChecker_def ex_ops_def
        alist_hash_def Realm_addChecker_def Realm_create_def Authenticator_init_def)
  have f: "fail_limits ex_auth_static ?realm = Some [?l]" by code_simp
  have n: "getAuthInfo ex_ops \<lparr>at_authInfos = [], at_realm = ''SWAD''\<rparr> = None"
    by (simp add: getAuthInfo_def ex_ops_def alist_hash_def)
  have "\<exists>outs s'. login_run ex_ops ''SWAD'' ex_attempts ([], ex_auth_static) = Some (outs, s')
      \<and> length outs = length ex_attempts
      \<and> ticks_in 499 (unat (l_ncounts ?l)) (failed_checks (unat (l_res ?l)) ''root'' ex_attempts outs) \<le> unat (l_limit ?l) + 1"
    by (rule failed_logins_limited [OF ex_ops_laws r n f, of ?l _ 1000])
      (auto simp: limit_ok_def ex_attempts_def MAXAGE_def upt_rec sorted_iff_nth_mono)
  then show ?thesis by auto
qed

end
