(* ===== verification/Middleware.thy ===== *)
theory Middleware
  imports Auth_Limit Http_Context Cookies Path_Parser Proxy_List "HOL-Library.Monad_Syntax"
begin

text \<open>
  The middlewares: \<open>middleware/cookies.c\<close>, \<open>session.c\<close>, \<open>pathparser.c\<close>, \<open>formdata.c\<close>,
  \<open>csrfprotect.c\<close> and \<open>compress.c\<close>, the parts that work on a context, and \<open>ProxyList_get\<close> with
  its relatives. Each gets what \<open>HttpContext_callNext\<close> does as its argument \<open>nxt\<close>.

  The state of the modules is the record \<open>swad\<close>; the time does not move on within one request. What
  is external (the tables, the compression of zlib, the templates that the build turns into arrays)
  is the record \<open>swad_env\<close>. The objects of a context, and those of a session, are sums; a null
  pointer that is followed and a dangling pointer are \<^term>\<open>None\<close>.
\<close>

section \<open>The objects of contexts and sessions\<close>

datatype 't sessobj = SO_str string | SO_authInfos 't

datatype sessdel = SD_free | SD_deleteAuthInfos

datatype 'ck ctxobj =
  CO_cookies "'ck cookies"
| CO_session nat
| CO_path pathparser
| CO_form formdata
| CO_trusted trustconfig
| CO_proxies "remoteentry list"

datatype ctxdel = CD_cookiesDeleter | CD_pathParserDeleter | CD_formDataDeleter | CD_free | CD_deleteProxyList

type_synonym 'ck httpctx = "('ck ctxobj, ctxdel) httpcontext"

record ('l, 't, 'c, 'r) swad =
  sw_sessions :: "('t sessobj, sessdel) sessions"
  sw_createLimit :: "'l limit list"
  sw_auth :: "('l, 'c, 'r) auth_static"
  sw_rnd :: rnd_source
  sw_validate :: form_validate
  sw_route :: string
  sw_time :: int
  sw_mono :: "nat option"

type_synonym ('l, 't, 'c, 'r, 'ck) swad_state = "('l, 't, 'c, 'r) swad \<times> 'ck httpctx"

record ('k, 'b, 'l, 't, 'c, 'r, 'ck) swad_env =
  en_auth :: "('k, 'b, 'l, 't, 'c, 'r) auth_ops"
  en_cookies :: "('ck, string) psc_hash"
  en_compress :: "bool \<Rightarrow> string \<Rightarrow> string"
  en_login_html :: string
  en_logout_html :: string

text \<open>An object of a context that is changed through its pointer.\<close>

definition ctx_poke :: "'ck httpctx \<Rightarrow> string \<Rightarrow> 'ck ctxobj \<Rightarrow> 'ck httpctx" where
  "ctx_poke self key obj =
     (case ctx_findProp self key of
        None \<Rightarrow> self
      | Some prop \<Rightarrow> self\<lparr>cx_buckets := ct_store CPHT_BITS cp_key (cx_buckets self) (prop\<lparr>cp_obj := Some obj\<rparr>)\<rparr>)"

definition ctx_headers :: "'ck httpctx \<Rightarrow> headerset" where
  "ctx_headers context = rq_headers (cx_request context)"

section \<open>Cookies\<close>

definition COOKIES_PROP :: string where
  "COOKIES_PROP = ''_COOKIES''"

definition Cookies_get :: "'ck httpctx \<Rightarrow> 'ck cookies option" where
  "Cookies_get context = (case HttpContext_get context COOKIES_PROP of Some (CO_cookies self) \<Rightarrow> Some self | _ \<Rightarrow> None)"

definition MW_Cookies ::
  "('k, 'b, 'l, 't, 'c, 'r, 'ck) swad_env \<Rightarrow> (('l, 't, 'c, 'r) swad, 'ck ctxobj, ctxdel) middleware" where
  "MW_Cookies env nxt = (\<lambda>(w, context). do {
     let self = cookies_of (en_cookies env) (ctx_headers context);
     (w, context) \<leftarrow> nxt (w, HttpContext_set context COOKIES_PROP (Some (CO_cookies self)) (Some CD_cookiesDeleter));
     case cx_response context of
       None \<Rightarrow> Some (w, context)
     | Some response \<Rightarrow> do {
         self \<leftarrow> Cookies_get context;
         response \<leftarrow> cookies_emit (en_cookies env) self response;
         Some (w, context\<lparr>cx_response := Some response\<rparr>)
       }
   })"

section \<open>The list of proxies\<close>

definition PROXYLIST_KEY :: string where
  "PROXYLIST_KEY = ''_PROXYLIST''"

definition PROXYLIST_TRKEY :: string where
  "PROXYLIST_TRKEY = ''_PROXYLIST_TRUSTED''"

definition ctx_trusted :: "'ck httpctx \<Rightarrow> trustconfig option" where
  "ctx_trusted context = (case HttpContext_get context PROXYLIST_TRKEY of Some (CO_trusted cfg) \<Rightarrow> Some cfg | _ \<Rightarrow> None)"

definition ProxyList_get :: "'ck httpctx \<Rightarrow> (remoteentry list \<times> 'ck httpctx) option" where
  "ProxyList_get context =
     (case HttpContext_get context PROXYLIST_KEY of
        Some (CO_proxies proxyList) \<Rightarrow> Some (proxyList, context)
      | _ \<Rightarrow> do {
          proxyList \<leftarrow> proxy_list (ctx_trusted context) (ctx_headers context) (cx_remoteAddr context) (cx_remoteHost context);
          Some (proxyList, HttpContext_set context PROXYLIST_KEY (Some (CO_proxies proxyList)) (Some CD_deleteProxyList))
        })"

definition ProxyList_setTrusted :: "'ck httpctx \<Rightarrow> proxyheader \<Rightarrow> nat \<Rightarrow> 'ck httpctx" where
  "ProxyList_setTrusted context hdr ntrusted =
     HttpContext_set context PROXYLIST_TRKEY (Some (CO_trusted \<lparr>tc_ntrusted = ntrusted, tc_header = hdr\<rparr>)) (Some CD_free)"

definition ProxyList_firstTrusted :: "'ck httpctx \<Rightarrow> (nat \<times> 'ck httpctx) option" where
  "ProxyList_firstTrusted context = do {
     (proxyList, context') \<leftarrow> ProxyList_get context;
     Some (proxy_firstTrusted (ctx_trusted context) proxyList, context')
   }"

section \<open>Sessions\<close>

definition SESSION_PROP :: string where
  "SESSION_PROP = ''_SESSION''"

definition COOKIENAME :: string where
  "COOKIENAME = ''PSW_SID''"

definition Session_get :: "'ck httpctx \<Rightarrow> nat option" where
  "Session_get context = (case HttpContext_get context SESSION_PROP of Some (CO_session self) \<Rightarrow> Some self | _ \<Rightarrow> None)"

text \<open>\<open>MW_Session\<close> behind the label \<open>done\<close>; \<open>self\<close> is the pointer to the session.\<close>

definition session_next ::
  "(('l, 't, 'c, 'r) swad, 'ck ctxobj, ctxdel) handler \<Rightarrow> nat \<Rightarrow> (('l, 't, 'c, 'r) swad, 'ck ctxobj, ctxdel) handler" where
  "session_next nxt self = (\<lambda>(w, context). do {
     (w, context) \<leftarrow> nxt (w, HttpContext_set context SESSION_PROP (Some (CO_session self)) None);
     let req = cx_request context;
     if rq_method req \<noteq> HTTP_GET then Some (w, context)
     else (case cx_response context of
         None \<Rightarrow> Some (w, context)
       | Some response \<Rightarrow>
           if rs_status response \<noteq> HTTP_OK \<and> rs_status response \<noteq> HTTP_UNAUTHORIZED then Some (w, context)
           else (case HeaderSet_first (rs_headers response) ''Content-Type'' of
               None \<Rightarrow> Some (w, context)
             | Some ct \<Rightarrow>
                 if take 9 (h_value ct) = ''text/html'' then do {
                   sessions \<leftarrow> session_refer (sw_sessions w) self (rq_path req);
                   Some (w\<lparr>sw_sessions := sessions\<rparr>, context)
                 }
                 else Some (w, context)))
   })"

text \<open>The session the cookie names, after the table was cleaned.\<close>

definition session_lookup ::
  "('k, 'b, 'l, 't, 'c, 'r, 'ck) swad_env \<Rightarrow> 'ck cookies \<Rightarrow> ('l, 't, 'c, 'r) swad
    \<Rightarrow> ('t sessobj, sessdel) session option \<times> ('t sessobj, sessdel) sessions" where
  "session_lookup env cookies w =
     (let sessions = clean (sw_time w) (sw_sessions w)
      in case Cookies_getCookie (en_cookies env) cookies COOKIENAME of
           None \<Rightarrow> (None, sessions)
         | Some sid \<Rightarrow> findSession sid (sw_time w) sessions)"

text \<open>A new session, unless the address of the client has too many already.\<close>

definition session_new_for ::
  "('k, 'b, 'l, 't, 'c, 'r, 'ck) swad_env \<Rightarrow> 'ck cookies \<Rightarrow> (('l, 't, 'c, 'r) swad, 'ck ctxobj, ctxdel) middleware" where
  "session_new_for env cookies nxt = (\<lambda>(w, context). do {
     (proxies, context) \<leftarrow> ProxyList_get context;
     (i, context) \<leftarrow> ProxyList_firstTrusted context;
     if i \<ge> length proxies then None
     else do {
       (ok, createLimit) \<leftarrow>
         RateLimit_check (ah_entries (en_auth env)) (sw_createLimit w) (sw_mono w) (re_addr (proxies ! i));
       let w = w\<lparr>sw_createLimit := createLimit\<rparr>;
       if \<not> ok then do {
         context \<leftarrow> HttpContext_setResponse context (HttpResponse_createError HTTP_TOOMANYREQUESTS None);
         Some (w, context)
       }
       else do {
         (self, rnd, sessions) \<leftarrow> createSession (sw_time w) (sw_rnd w) (sw_sessions w);
         let cookies = Cookies_setCookie (en_cookies env) cookies COOKIENAME (ss_id self);
         session_next nxt (ss_ref self)
           (w\<lparr>sw_sessions := sessions, sw_rnd := rnd\<rparr>, ctx_poke context COOKIES_PROP (CO_cookies cookies))
       }
     }
   })"

definition MW_Session ::
  "('k, 'b, 'l, 't, 'c, 'r, 'ck) swad_env \<Rightarrow> (('l, 't, 'c, 'r) swad, 'ck ctxobj, ctxdel) middleware" where
  "MW_Session env nxt = (\<lambda>(w, context).
     (case Cookies_get context of
        None \<Rightarrow> nxt (w, context)
      | Some cookies \<Rightarrow>
          (case session_lookup env cookies w of
             (Some self, sessions) \<Rightarrow> do {
               sessions \<leftarrow> session_touch sessions (ss_ref self) (sw_time w);
               session_next nxt (ss_ref self) (w\<lparr>sw_sessions := sessions\<rparr>, context)
             }
           | (None, sessions) \<Rightarrow> session_new_for env cookies nxt (w\<lparr>sw_sessions := sessions\<rparr>, context))))"

section \<open>The target and the form\<close>

definition PATHPARSER_PROP :: string where
  "PATHPARSER_PROP = ''_PATHPARSER''"

definition PathParser_get :: "'ck httpctx \<Rightarrow> pathparser option" where
  "PathParser_get context = (case HttpContext_get context PATHPARSER_PROP of Some (CO_path self) \<Rightarrow> Some self | _ \<Rightarrow> None)"

definition MW_PathParser :: "(('l, 't, 'c, 'r) swad, 'ck ctxobj, ctxdel) middleware" where
  "MW_PathParser nxt = (\<lambda>(w, context).
     nxt (w, HttpContext_set context PATHPARSER_PROP
       (Some (CO_path (PathParser_of (rq_path (cx_request context))))) (Some CD_pathParserDeleter)))"

definition FORMDATA_PROP :: string where
  "FORMDATA_PROP = ''_FORMDATA''"

definition FormData_get :: "'ck httpctx \<Rightarrow> formdata option" where
  "FormData_get context = (case HttpContext_get context FORMDATA_PROP of Some (CO_form self) \<Rightarrow> Some self | _ \<Rightarrow> None)"

definition MW_FormData :: "(('l, 't, 'c, 'r) swad, 'ck ctxobj, ctxdel) middleware" where
  "MW_FormData nxt = (\<lambda>(w, context). do {
     form \<leftarrow> FormData_of (sw_validate w) (cx_request context);
     nxt (w, case form of
         None \<Rightarrow> context
       | Some self \<Rightarrow> HttpContext_set context FORMDATA_PROP (Some (CO_form self)) (Some CD_formDataDeleter))
   })"

definition MW_FormData_setValidation :: "('l, 't, 'c, 'r) swad \<Rightarrow> form_validate \<Rightarrow> ('l, 't, 'c, 'r) swad" where
  "MW_FormData_setValidation w validation = w\<lparr>sw_validate := validation\<rparr>"

section \<open>Protection against forged requests\<close>

definition CSRFProtect_name :: string where
  "CSRFProtect_name = ''_CSRFPROTECT''"

text \<open>A string property of a session: a dangling pointer, a null pointer or the string.\<close>

definition session_str :: "('l, 't, 'c, 'r) swad \<Rightarrow> nat \<Rightarrow> string \<Rightarrow> string option option" where
  "session_str w self name =
     (case Session_getProp (sw_sessions w) self name of
        Some None \<Rightarrow> Some None
      | Some (Some (SO_str s)) \<Rightarrow> Some (Some s)
      | _ \<Rightarrow> None)"

definition session_put ::
  "('l, 't, 'c, 'r) swad \<Rightarrow> nat \<Rightarrow> string \<Rightarrow> 't sessobj option \<Rightarrow> sessdel option \<Rightarrow> ('l, 't, 'c, 'r) swad option" where
  "session_put w self name obj deleter = do {
     sessions \<leftarrow> Session_setProp (sw_sessions w) self name obj deleter;
     Some (w\<lparr>sw_sessions := sessions\<rparr>)
   }"

definition CSRFProtect_token ::
  "('l, 't, 'c, 'r, 'ck) swad_state \<Rightarrow> (string option \<times> ('l, 't, 'c, 'r) swad) option" where
  "CSRFProtect_token = (\<lambda>(w, context).
     (case Session_get context of
        None \<Rightarrow> Some (None, w)
      | Some session \<Rightarrow> do {
          (token, rnd) \<leftarrow> next_token (sw_time w) (sw_rnd w);
          w \<leftarrow> session_put (w\<lparr>sw_rnd := rnd\<rparr>) session CSRFProtect_name (Some (SO_str token)) (Some SD_free);
          Some (Some token, w)
        }))"

definition MW_CSRFProtect :: "(('l, 't, 'c, 'r) swad, 'ck ctxobj, ctxdel) middleware" where
  "MW_CSRFProtect nxt = (\<lambda>(w, context).
     (case FormData_get context of
        None \<Rightarrow> nxt (w, context)
      | Some form \<Rightarrow>
          (case Session_get context of
             None \<Rightarrow> nxt (w, context)
           | Some session \<Rightarrow> do {
               token \<leftarrow> session_str w session CSRFProtect_name;
               let tokenVal = FormData_single form CSRFProtect_name;
               case (token, tokenVal) of
                 (Some token, Some (val, len)) \<Rightarrow>
                   if token = cstr val
                   then do {
                     w \<leftarrow> session_put w session CSRFProtect_name None None;
                     nxt (w, context)
                   }
                   else do {
                     context \<leftarrow> HttpContext_setResponse context (HttpResponse_createError HTTP_FORBIDDEN
                       (Some ''Request tampering detected. Not here, man.''));
                     Some (w, context)
                   }
               | _ \<Rightarrow> do {
                     context \<leftarrow> HttpContext_setResponse context (HttpResponse_createError HTTP_FORBIDDEN
                       (Some ''Request tampering detected. Not here, man.''));
                     Some (w, context)
                   }
             })))"

section \<open>Compression\<close>

text \<open>
  The loop over \<open>Accept-Encoding\<close>: whether \<open>deflate\<close> and \<open>gzip\<close> are among the words. The compressed
  text has at most the size of the body, as that is the room zlib is given (in a \<open>uInt\<close>); it is
  shorter only if zlib got to its end.
\<close>

function accept_loop :: "string \<Rightarrow> bool \<Rightarrow> bool \<Rightarrow> bool \<times> bool" where
  "accept_loop acceptVal haveDeflate haveGzip =
     (let dpos = strcspn acceptVal '' ,'';
          haveDeflate = (haveDeflate \<or> dpos = 7 \<and> take 7 acceptVal = ''deflate'');
          haveGzip = (haveGzip \<or> dpos = 4 \<and> take 4 acceptVal = ''gzip'');
          rest = dropWhile (\<lambda>c. c = CHR '' '' \<or> c = CHR '','') (drop dpos acceptVal)
      in if rest \<noteq> [] then accept_loop rest haveDeflate haveGzip else (haveDeflate, haveGzip))"
  by pat_completeness auto
termination
proof (relation "measure (\<lambda>(acceptVal, d, g). length acceptVal)")
  fix acceptVal rest :: string and dpos d d' g g'
  assume "dpos = strcspn acceptVal '' ,''" "rest = dropWhile (\<lambda>c. c = CHR '' '' \<or> c = CHR '','') (drop dpos acceptVal)" "rest \<noteq> []"
  moreover have "dropWhile (\<lambda>c. c = CHR '' '' \<or> c = CHR '','') (drop (strcspn s '' ,'') s) \<noteq> [] \<Longrightarrow>
    length (dropWhile (\<lambda>c. c = CHR '' '' \<or> c = CHR '','') (drop (strcspn s '' ,'') s)) < length s" for s
    using length_dropWhile_le [of "\<lambda>c. c = CHR '' '' \<or> c = CHR '',''" "tl s"]
      length_dropWhile_le [of "\<lambda>c. c = CHR '' '' \<or> c = CHR '',''" "drop (strcspn s '' ,'') s"]
    by (cases s) (auto simp: strcspn_def)
  ultimately show "((rest, d', g'), acceptVal, d, g) \<in> measure (\<lambda>(acceptVal, d, g). length acceptVal)" by simp
qed simp

declare accept_loop.simps [simp del]

definition MW_Compress ::
  "('k, 'b, 'l, 't, 'c, 'r, 'ck) swad_env \<Rightarrow> (('l, 't, 'c, 'r) swad, 'ck ctxobj, ctxdel) middleware" where
  "MW_Compress env nxt = (\<lambda>(w, context). do {
     (w, context) \<leftarrow> nxt (w, context);
     case cx_response context of
       None \<Rightarrow> Some (w, context)
     | Some response \<Rightarrow>
         (let bodySize = rs_bodySize response
          in if bodySize = 0 then Some (w, context)
             else (case HeaderSet_first (ctx_headers context) ''Accept-Encoding'' of
                 None \<Rightarrow> Some (w, context)
               | Some accept \<Rightarrow>
                   (let (haveDeflate, haveGzip) = accept_loop (h_value accept) False False
                    in if \<not> haveDeflate \<and> \<not> haveGzip then Some (w, context)
                       else do {
                         body \<leftarrow> rs_body response;
                         let avail = bodySize mod 2 ^ 32;
                         let compressed = take avail (en_compress env haveGzip (take avail body));
                         if length compressed < bodySize
                         then do {
                           response \<leftarrow> HttpResponse_passBody response compressed (length compressed);
                           response \<leftarrow> set_header ''Content-Encoding'' (if haveGzip then ''gzip'' else ''deflate'') response;
                           Some (w, context\<lparr>cx_response := Some response\<rparr>)
                         }
                         else Some (w, context)
                       })))
   })"

end
