(* ===== verification/Handlers.thy ===== *)
theory Handlers
  imports Middleware Template
begin

text \<open>
  \<open>handler/login.c\<close> and \<open>handler/root.c\<close>, and the functions of \<open>authenticator.c\<close> that reach into a
  session; and \<open>main.c\<close>, where the middlewares are put in their order. Log messages are left out.
\<close>

section \<open>The authenticator of a session\<close>

text \<open>
  The table of a session is a property of it. An authenticator holds a pointer to the table; the
  functions here read the table before an operation and store what it leaves, without a deleter
  being called.
\<close>

definition getAuthInfos ::
  "('k, 'b, 'l, 't, 'c, 'r, 'ck) swad_env \<Rightarrow> ('l, 't, 'c, 'r) swad \<Rightarrow> nat \<Rightarrow> ('t \<times> ('l, 't, 'c, 'r) swad) option" where
  "getAuthInfos env w session = do {
     authInfos \<leftarrow> Session_getProp (sw_sessions w) session AUTH_SESSKEY;
     case authInfos of
       Some (SO_authInfos t) \<Rightarrow> Some (t, w)
     | Some (SO_str s) \<Rightarrow> None
     | None \<Rightarrow> do {
         let t = ph_create (ah_infos (en_auth env)) 4;
         w \<leftarrow> session_put w session AUTH_SESSKEY (Some (SO_authInfos t)) (Some SD_deleteAuthInfos);
         Some (t, w)
       }
   }"

definition Authenticator_create ::
  "('k, 'b, 'l, 't, 'c, 'r, 'ck) swad_env \<Rightarrow> ('l, 't, 'c, 'r) swad \<Rightarrow> nat \<Rightarrow> string option
    \<Rightarrow> ('t authenticator \<times> ('l, 't, 'c, 'r) swad) option" where
  "Authenticator_create env w session realm = do {
     (t, w) \<leftarrow> getAuthInfos env w session;
     Some (\<lparr>at_authInfos = t, at_realm = (case realm of None \<Rightarrow> DEFAULT_REALM | Some realm \<Rightarrow> realm)\<rparr>, w)
   }"

definition auth_store :: "('l, 't, 'c, 'r) swad \<Rightarrow> nat \<Rightarrow> 't authenticator \<Rightarrow> ('l, 't, 'c, 'r) swad option" where
  "auth_store w session auth = do {
     s \<leftarrow> session_at (sw_sessions w) session;
     prop \<leftarrow> sess_findProp s AUTH_SESSKEY;
     Some (w\<lparr>sw_sessions := session_write (sw_sessions w) session
       (s\<lparr>ss_buckets := ct_store SPHT_BITS sp_name (ss_buckets s) (prop\<lparr>sp_value := Some (SO_authInfos (at_authInfos auth))\<rparr>)\<rparr>)\<rparr>)
   }"

section \<open>The login handler\<close>

definition SK_FORM :: string where "SK_FORM = ''login_form''"
definition SK_RDR :: string where "SK_RDR = ''login_rdr''"
definition SK_ARDR :: string where "SK_ARDR = ''auth_rdr''"
definition SK_REALM :: string where "SK_REALM = ''login_realm''"
definition SK_AREALM :: string where "SK_AREALM = ''auth_realm''"
definition SK_USER :: string where "SK_USER = ''login_user''"
definition SK_ERROR :: string where "SK_ERROR = ''login_error''"
definition QP_RDR :: string where "QP_RDR = ''rdr''"
definition QP_REALM :: string where "QP_REALM = ''realm''"
definition HDR_RDR :: string where "HDR_RDR = ''X-SWAD-Rdr''"
definition HDR_REALM :: string where "HDR_REALM = ''X-SWAD-Realm''"

definition defroute :: string where
  "defroute = ''/login''"

definition loginHandler_setRoute :: "('l, 't, 'c, 'r) swad \<Rightarrow> string option \<Rightarrow> ('l, 't, 'c, 'r) swad" where
  "loginHandler_setRoute w loginRoute =
     w\<lparr>sw_route := (case loginRoute of Some loginRoute \<Rightarrow> loginRoute | None \<Rightarrow> defroute)\<rparr>"

text \<open>
  A header, or else the first parameter of the query. \<open>HeaderSet_single\<close> is a null pointer where
  there is none or more than one.
\<close>

definition header_or_query :: "string \<Rightarrow> string \<Rightarrow> string \<Rightarrow> headerset \<Rightarrow> pathparser \<Rightarrow> string" where
  "header_or_query hdrname qpname def hdr pathParser =
     (let v = (case HeaderSet_single hdr hdrname of
            Some h \<Rightarrow> Some (h_value h)
          | None \<Rightarrow>
              (case PathParser_param pathParser qpname None of
                 Some p \<Rightarrow> map_option cstr (qp_value p)
               | None \<Rightarrow> None))
      in case v of None \<Rightarrow> def | Some v \<Rightarrow> if v = [] then def else v)"

definition loginHandler_realm :: "headerset \<Rightarrow> pathparser \<Rightarrow> string" where
  "loginHandler_realm = header_or_query HDR_REALM QP_REALM DEFAULT_REALM"

definition loginHandler_rdr :: "headerset \<Rightarrow> pathparser \<Rightarrow> string" where
  "loginHandler_rdr = header_or_query HDR_RDR QP_RDR ''/''"

text \<open>
  \<open>doLogin\<close>: the branch of a login, the branch of a logout, and the function. The results are the
  status and the target of the redirect.
\<close>

definition field_1_32 :: "formdata \<Rightarrow> string \<Rightarrow> string option" where
  "field_1_32 form name =
     (case FormData_single form name of
        None \<Rightarrow> None
      | Some (val, len) \<Rightarrow> if len < 1 \<or> len > 32 then None else Some (cstr val))"

definition login_answer ::
  "nat \<Rightarrow> string \<Rightarrow> string \<Rightarrow> string \<Rightarrow> string \<Rightarrow> int \<Rightarrow> ('l, 't, 'c, 'r) swad
    \<Rightarrow> (httpstatus \<times> string option \<times> ('l, 't, 'c, 'r) swad) option" where
  "login_answer session realm rdr authrdr user ok w =
     (if ok > 0 then do {
        w \<leftarrow> session_put w session SK_ERROR None None;
        w \<leftarrow> session_put w session SK_USER (Some (SO_str user)) (Some SD_free);
        Some (HTTP_OK, Some authrdr, w)
      }
      else do {
        w \<leftarrow> session_put w session SK_AREALM (Some (SO_str realm)) (Some SD_free);
        w \<leftarrow> session_put w session SK_ARDR (Some (SO_str authrdr)) (Some SD_free);
        w \<leftarrow> session_put w session SK_ERROR
          (Some (SO_str (if ok < 0 then ''Too many failed attempts, try again later'' else ''Invalid credentials''))) None;
        w \<leftarrow> session_put w session SK_USER (Some (SO_str user)) (Some SD_free);
        Some (HTTP_SEEOTHER, Some rdr, w)
      })"

definition do_login ::
  "('k, 'b, 'l, 't, 'c, 'r, 'ck) swad_env \<Rightarrow> formdata \<Rightarrow> nat \<Rightarrow> string \<Rightarrow> string \<Rightarrow> ('l, 't, 'c, 'r) swad
    \<Rightarrow> (httpstatus \<times> string option \<times> ('l, 't, 'c, 'r) swad) option" where
  "do_login env form session realm rdr w =
     (case field_1_32 form ''user'' of
        None \<Rightarrow> Some (HTTP_SEEOTHER, Some rdr, w)
      | Some user \<Rightarrow>
          (case field_1_32 form ''pw'' of
             None \<Rightarrow> Some (HTTP_SEEOTHER, Some rdr, w)
           | Some pw \<Rightarrow> do {
               authrdr \<leftarrow> session_str w session SK_RDR;
               let authrdr = (case authrdr of None \<Rightarrow> ''/'' | Some authrdr \<Rightarrow> authrdr);
               (auth, w) \<leftarrow> Authenticator_create env w session (Some realm);
               (ok, st, auth) \<leftarrow> Authenticator_login (en_auth env) (sw_mono w) (sw_auth w) auth user pw;
               w \<leftarrow> auth_store (w\<lparr>sw_auth := st\<rparr>) session auth;
               login_answer session realm rdr authrdr user ok w
             }))"

definition do_logout ::
  "('k, 'b, 'l, 't, 'c, 'r, 'ck) swad_env \<Rightarrow> nat \<Rightarrow> string \<Rightarrow> string \<Rightarrow> ('l, 't, 'c, 'r) swad
    \<Rightarrow> (httpstatus \<times> string option \<times> ('l, 't, 'c, 'r) swad) option" where
  "do_logout env session realm rdr w = do {
     (auth, w) \<leftarrow> Authenticator_create env w session (Some realm);
     if Authenticator_user (en_auth env) auth \<noteq> None
     then do {
       w \<leftarrow> auth_store w session (Authenticator_logout (en_auth env) auth);
       rdr \<leftarrow> session_str w session SK_RDR;
       Some (HTTP_OK, rdr, w)
     }
     else Some (HTTP_SEEOTHER, Some rdr, w)
   }"

definition doLogin ::
  "('k, 'b, 'l, 't, 'c, 'r, 'ck) swad_env \<Rightarrow> nat \<Rightarrow> (('l, 't, 'c, 'r) swad, 'ck ctxobj, ctxdel) handler" where
  "doLogin env session = (\<lambda>(w, context). do {
     (status, rdr, w) \<leftarrow>
       (case FormData_get context of
          None \<Rightarrow> Some (HTTP_SEEOTHER, None, w)
        | Some form \<Rightarrow>
            if \<not> fd_valid form then Some (HTTP_SEEOTHER, None, w)
            else do {
              realm \<leftarrow> session_str w session SK_REALM;
              rdr \<leftarrow> session_str w session SK_FORM;
              case (realm, rdr) of
                (Some realm, Some rdr) \<Rightarrow>
                  if FormData_single form ''login'' \<noteq> None then do_login env form session realm rdr w
                  else if FormData_single form ''logout'' \<noteq> None then do_logout env session realm rdr w
                  else Some (HTTP_SEEOTHER, Some rdr, w)
              | _ \<Rightarrow> Some (HTTP_SEEOTHER, rdr, w)
            });
     context \<leftarrow> HttpContext_setResponse context
       (HttpResponse_createRedirect status (case rdr of None \<Rightarrow> ''/'' | Some rdr \<Rightarrow> rdr));
     Some (w, context)
   })"

text \<open>The page with the form to log in, or to log out.\<close>

definition login_template ::
  "('k, 'b, 'l, 't, 'c, 'r, 'ck) swad_env \<Rightarrow> user option \<Rightarrow> nat \<Rightarrow> ('l, 't, 'c, 'r) swad \<Rightarrow> template option" where
  "login_template env user session w =
     (case user of
        Some u \<Rightarrow>
          (let tmpl = Template_createStatic (en_logout_html env);
               realname = (case us_realname u of
                   None \<Rightarrow> ''<Unknown name>''
                 | Some n \<Rightarrow> if n = [] then ''<Unknown name>'' else n);
               tmpl = Template_setStaticVar tmpl ''USER'' (us_username u) TF_HTML
           in Some (Template_setStaticVar tmpl ''REALNAME'' realname TF_HTML))
      | None \<Rightarrow> do {
          let tmpl = Template_createStatic (en_login_html env);
          le \<leftarrow> session_str w session SK_ERROR;
          let tmpl = (case le of None \<Rightarrow> tmpl | Some le \<Rightarrow> Template_setStaticVar tmpl ''ERRMSG'' le TF_HTML);
          lu \<leftarrow> session_str w session SK_USER;
          Some (case lu of None \<Rightarrow> tmpl | Some lu \<Rightarrow> Template_setStaticVar tmpl ''USER'' lu TF_HTML)
        })"

text \<open>A null pointer as the value of a variable would be followed when the template is processed.\<close>

definition showForm ::
  "('k, 'b, 'l, 't, 'c, 'r, 'ck) swad_env \<Rightarrow> nat \<Rightarrow> string \<Rightarrow> string \<Rightarrow> (('l, 't, 'c, 'r) swad, 'ck ctxobj, ctxdel) handler" where
  "showForm env session realm path = (\<lambda>(w, context). do {
     (auth, w) \<leftarrow> Authenticator_create env w session (Some realm);
     let user = Authenticator_user (en_auth env) auth;
     let (silent, auth) = (if user = None then Authenticator_silentLogin (en_auth env) (sw_auth w) auth else (False, auth));
     w \<leftarrow> auth_store w session auth;
     if silent
     then do {
       w \<leftarrow> session_put w session SK_ERROR None None;
       rdr \<leftarrow> session_str w session SK_RDR;
       context \<leftarrow> HttpContext_setResponse context
         (HttpResponse_createRedirect HTTP_OK (case rdr of None \<Rightarrow> ''/'' | Some rdr \<Rightarrow> rdr));
       Some (w, context)
     }
     else do {
       tmpl \<leftarrow> login_template env user session w;
       let tmpl = Template_setStaticVar tmpl ''CSRFNAME'' CSRFProtect_name TF_NONE;
       (token, w) \<leftarrow> CSRFProtect_token (w, context);
       token \<leftarrow> token;
       let tmpl = Template_setStaticVar tmpl ''CSRFTOKEN'' token TF_NONE;
       let tmpl = Template_setStaticVar tmpl ''REALM'' realm TF_HTML;
       let tmpl = Template_setStaticVar tmpl ''SELF'' path TF_NONE;
       response \<leftarrow> HttpResponse_create HTTP_OK MT_HTML;
       response \<leftarrow> HttpResponse_passTextBody response (cstr (Template_process tmpl));
       context \<leftarrow> HttpContext_setResponse context (Some response);
       Some (w, context)
     }
   })"

text \<open>What \<open>updateSession\<close> returns is the text of the realm; the session owns it.\<close>

definition updateSession ::
  "nat \<Rightarrow> pathparser \<Rightarrow> ('l, 't, 'c, 'r, 'ck) swad_state \<Rightarrow> (string \<times> ('l, 't, 'c, 'r) swad) option" where
  "updateSession session pathParser = (\<lambda>(w, context). do {
     w \<leftarrow> session_put w session SK_FORM (Some (SO_str (rq_path (cx_request context)))) (Some SD_free);
     arealm \<leftarrow> session_str w session SK_AREALM;
     let realm = (case arealm of Some realm \<Rightarrow> realm | None \<Rightarrow> loginHandler_realm (ctx_headers context) pathParser);
     lr \<leftarrow> session_str w session SK_REALM;
     w \<leftarrow> (case lr of
         Some lr \<Rightarrow>
           if lr \<noteq> realm then do {
             w \<leftarrow> session_put w session SK_USER None None;
             session_put w session SK_ERROR None None
           }
           else Some w
       | None \<Rightarrow> Some w);
     w \<leftarrow> session_put w session SK_REALM (Some (SO_str realm)) (Some SD_free);
     w \<leftarrow> session_put w session SK_AREALM None None;
     ardr \<leftarrow> session_str w session SK_ARDR;
     let rdr = (case ardr of Some rdr \<Rightarrow> rdr | None \<Rightarrow> loginHandler_rdr (ctx_headers context) pathParser);
     w \<leftarrow> session_put w session SK_RDR (Some (SO_str rdr)) (Some SD_free);
     w \<leftarrow> session_put w session SK_ARDR None None;
     Some (realm, w)
   })"

definition loginHandler ::
  "('k, 'b, 'l, 't, 'c, 'r, 'ck) swad_env \<Rightarrow> (('l, 't, 'c, 'r) swad, 'ck ctxobj, ctxdel) handler" where
  "loginHandler env = (\<lambda>(w, context).
     (case (PathParser_get context, Session_get context) of
        (Some pathParser, Some session) \<Rightarrow>
          (let path = cstr (pp_path pathParser)
           in if sw_route w = path
              then
                (if rq_method (cx_request context) = HTTP_POST then doLogin env session (w, context)
                 else do {
                   (realm, w) \<leftarrow> updateSession session pathParser (w, context);
                   showForm env session realm path (w, context)
                 })
              else do {
                context \<leftarrow> HttpContext_setResponse context (HttpResponse_createError HTTP_NOTFOUND None);
                Some (w, context)
              })
      | _ \<Rightarrow> Some (w, context)))"

section \<open>The root handler\<close>

text \<open>The buffer for the text of the user has 4096 bytes, which \<open>snprintf\<close> does not exceed.\<close>

definition rootHandler ::
  "('k, 'b, 'l, 't, 'c, 'r, 'ck) swad_env \<Rightarrow> (('l, 't, 'c, 'r) swad, 'ck ctxobj, ctxdel) handler" where
  "rootHandler env = (\<lambda>(w, context).
     (case PathParser_get context of
        None \<Rightarrow> Some (w, context)
      | Some pathParser \<Rightarrow>
          if ''/'' \<noteq> cstr (pp_path pathParser)
          then do {
            context \<leftarrow> HttpContext_setResponse context (HttpResponse_createError HTTP_NOTFOUND None);
            Some (w, context)
          }
          else (case Session_get context of
              None \<Rightarrow> Some (w, context)
            | Some session \<Rightarrow> do {
                let hdr = ctx_headers context;
                let realm = loginHandler_realm hdr pathParser;
                (auth, w) \<leftarrow> Authenticator_create env w session (Some realm);
                (response, w) \<leftarrow>
                  (case Authenticator_user (en_auth env) auth of
                     Some user \<Rightarrow> do {
                       let responsebuf = take 4095 (case us_realname user of
                           Some realname \<Rightarrow> us_username user @ [LF] @ realname @ [LF]
                         | None \<Rightarrow> us_username user @ [LF]);
                       response \<leftarrow> HttpResponse_create HTTP_OK MT_TEXT;
                       response \<leftarrow> HttpResponse_setTextBody response responsebuf;
                       Some (response, w)
                     }
                   | None \<Rightarrow> do {
                       let loginRoute = (case HeaderSet_single hdr ''X-SWAD-Login'' of
                           Some loginHdr \<Rightarrow> if h_value loginHdr = [] then sw_route w else h_value loginHdr
                         | None \<Rightarrow> sw_route w);
                       let rdr = loginHandler_rdr hdr pathParser;
                       w \<leftarrow> session_put w session ''auth_realm'' (Some (SO_str realm)) (Some SD_free);
                       w \<leftarrow> session_put w session ''auth_rdr'' (Some (SO_str rdr)) (Some SD_free);
                       response \<leftarrow> HttpResponse_createRedirect HTTP_FORBIDDEN loginRoute;
                       Some (response, w)
                     });
                context \<leftarrow> HttpContext_setResponse context (Some response);
                Some (w, context)
              })))"

section \<open>The pipeline of main.c\<close>

definition swad_middlewares ::
  "('k, 'b, 'l, 't, 'c, 'r, 'ck) swad_env \<Rightarrow> (('l, 't, 'c, 'r) swad, 'ck ctxobj, ctxdel) middleware list" where
  "swad_middlewares env =
     [MW_Compress env, MW_Cookies env, MW_Session env, MW_PathParser, MW_FormData, MW_CSRFProtect]"

definition getMiddlewareAt :: "'m list \<Rightarrow> nat \<Rightarrow> 'm option" where
  "getMiddlewareAt middlewares pos = (if pos \<ge> length middlewares then None else Some (middlewares ! pos))"

text \<open>\<open>pipelineJob\<close>: one request through all middlewares to its handler.\<close>

definition pipelineJob ::
  "('w, 'o, 'd) middleware list \<Rightarrow> ('w, 'o, 'd) handler option \<Rightarrow> ('w, 'o, 'd) handler" where
  "pipelineJob middlewares hdl = HttpContext_callNext (length middlewares + 1) (getMiddlewareAt middlewares) hdl"

end
