(* ===== verification/Request_Flow.thy ===== *)
theory Request_Flow
  imports Handlers
begin

text \<open>
  What a request does on its way through the middlewares to its handler: lemmas about each part, the
  properties of sessions and contexts it leaves alone, and the properties of the whole path.
\<close>

section \<open>Properties of sessions\<close>

abbreviation w_prop :: "('l, 't, 'c, 'r) swad \<Rightarrow> nat \<Rightarrow> string \<Rightarrow> 't sessobj option option" where
  "w_prop w \<equiv> Session_getProp (sw_sessions w)"

abbreviation w_ok :: "('l, 't, 'c, 'r) swad \<Rightarrow> bool" where
  "w_ok w \<equiv> sess_ok (sw_sessions w)"

lemma session_write_get:
  assumes "sess_ok self" "session_at self ref = Some s" "ss_ref s' = ss_ref s" "ss_id s' = ss_id s"
    "ct_ok SPHT_BITS sp_name (ss_buckets s')"
  shows "sess_ok (session_write self ref s')"
    "Session_getProp (session_write self ref s') r k = (if r = ref then Some (session_get s' k) else Session_getProp self r k)"
proof -
  have s: "s \<in> set (all_sessions self)" "ss_ref s = ref" using session_at_Some [OF assms(1)] assms(2) by blast+
  note w = session_write_spec [OF assms(1) s(1) assms(3-5)]
  show "sess_ok (session_write self ref s')" using w(1) s(2) by simp
  show "Session_getProp (session_write self ref s') r k = (if r = ref then Some (session_get s' k) else Session_getProp self r k)"
    using w(3) [of r] s(2) by (simp add: Session_getProp_def)
qed

lemma getProp_deleted [simp]: "Session_getProp (self\<lparr>sx_deleted := d\<rparr>) r k = Session_getProp self r k"
  by (simp add: Session_getProp_def session_at_def)

lemma session_at_ct: "sess_ok self \<Longrightarrow> session_at self ref = Some s \<Longrightarrow> ct_ok SPHT_BITS sp_name (ss_buckets s)"
  using session_at_Some [of self ref s] all_in_ok [of self s] by blast

lemma session_put_spec:
  assumes "w_ok w" "session_put w ref name obj d = Some w'"
  shows "w_ok w'" "w_prop w' r k = (if r = ref \<and> k = name then Some obj else w_prop w r k)"
    "w' = w\<lparr>sw_sessions := sw_sessions w'\<rparr>"
proof -
  obtain s where s: "session_at (sw_sessions w) ref = Some s"
    using assms(2) by (auto simp: session_put_def Session_setProp_def split: option.splits)
  obtain s' del where set: "session_set s name obj d = (s', del)" by (cases "session_set s name obj d")
  note ss = session_set_spec [OF session_at_ct [OF assms(1) s] set]
  note wg = session_write_get [OF assms(1) s ss(2,3,1)]
  have w': "w' = w\<lparr>sw_sessions := (session_write (sw_sessions w) ref s')\<lparr>sx_deleted := sx_deleted (sw_sessions w) @ del\<rparr>\<rparr>"
    using assms(2) s set by (simp add: session_put_def Session_setProp_def)
  show "w_ok w'" "w' = w\<lparr>sw_sessions := sw_sessions w'\<rparr>" using wg(1) by (simp_all add: w')
  show "w_prop w' r k = (if r = ref \<and> k = name then Some obj else w_prop w r k)"
    using s by (simp add: w' wg(2) ss(7)) (simp add: Session_getProp_def)
qed

lemma auth_store_spec:
  assumes "w_ok w" "auth_store w ref auth = Some w'"
  shows "w_ok w'" "k \<noteq> AUTH_SESSKEY \<Longrightarrow> w_prop w' r k = w_prop w r k" "w' = w\<lparr>sw_sessions := sw_sessions w'\<rparr>"
    "w_prop w' ref AUTH_SESSKEY = Some (Some (SO_authInfos (at_authInfos auth)))"
proof -
  obtain s pr where s: "session_at (sw_sessions w) ref = Some s" "sess_findProp s AUTH_SESSKEY = Some pr"
    using assms(2) by (auto simp: auth_store_def Option.bind_eq_Some_conv)
  let ?s = "s\<lparr>ss_buckets := ct_store SPHT_BITS sp_name (ss_buckets s) (pr\<lparr>sp_value := Some (SO_authInfos (at_authInfos auth))\<rparr>)\<rparr>"
  have w': "w' = w\<lparr>sw_sessions := session_write (sw_sessions w) ref ?s\<rparr>"
    using assms(2) s by (simp add: auth_store_def)
  note ct = session_at_ct [OF assms(1) s(1)]
  have name: "sp_name pr = AUTH_SESSKEY" using s(2) ct_find_key unfolding sess_findProp_def by metis
  note wg = session_write_get [OF assms(1) s(1), of ?s]
  have get: "session_get ?s k = (if k = AUTH_SESSKEY then Some (SO_authInfos (at_authInfos auth)) else session_get s k)" for k
    by (simp add: session_get_def sess_findProp_def ct_find_store [OF ct] name)
  have ok: "ct_ok SPHT_BITS sp_name (ss_buckets ?s)" by (simp add: ct_store_ok [OF ct])
  show "w_ok w'" "w' = w\<lparr>sw_sessions := sw_sessions w'\<rparr>" using wg ok by (simp_all add: w')
  show "k \<noteq> AUTH_SESSKEY \<Longrightarrow> w_prop w' r k = w_prop w r k"
    "w_prop w' ref AUTH_SESSKEY = Some (Some (SO_authInfos (at_authInfos auth)))"
    using wg(2) ok get s(1) by (simp_all add: w') (simp add: Session_getProp_def)
qed

lemma session_touch_spec:
  assumes "sess_ok self" "session_touch self ref now = Some self'"
  shows "sess_ok self'" "Session_getProp self' r k = Session_getProp self r k"
proof -
  obtain s where s: "session_at self ref = Some s" "self' = session_write self ref (s\<lparr>ss_atime := now\<rparr>)"
    using assms(2) by (auto simp: session_touch_def)
  note wg = session_write_get [OF assms(1) s(1), of "s\<lparr>ss_atime := now\<rparr>"]
  show "sess_ok self'" "Session_getProp self' r k = Session_getProp self r k"
    using wg session_at_ct [OF assms(1) s(1)] s
    by (simp_all add: session_get_def sess_findProp_def) (simp add: Session_getProp_def session_get_def sess_findProp_def)
qed

lemma session_refer_spec:
  assumes "sess_ok self" "session_refer self ref path = Some self'"
  shows "sess_ok self'" "Session_getProp self' r k = Session_getProp self r k"
proof -
  obtain s where s: "session_at self ref = Some s" "self' = session_write self ref (s\<lparr>ss_referrer := Some path\<rparr>)"
    using assms(2) by (auto simp: session_refer_def)
  note wg = session_write_get [OF assms(1) s(1), of "s\<lparr>ss_referrer := Some path\<rparr>"]
  show "sess_ok self'" "Session_getProp self' r k = Session_getProp self r k"
    using wg session_at_ct [OF assms(1) s(1)] s
    by (simp_all add: session_get_def sess_findProp_def) (simp add: Session_getProp_def session_get_def sess_findProp_def)
qed

text \<open>A step that leaves one property of every session alone.\<close>

definition frame :: "string \<Rightarrow> ('l, 't, 'c, 'r) swad \<Rightarrow> ('l, 't, 'c, 'r) swad \<Rightarrow> bool" where
  "frame k w w' \<longleftrightarrow> (w_ok w \<longrightarrow> w_ok w' \<and> (\<forall>r. w_prop w' r k = w_prop w r k))"

lemma frame_refl [simp]: "frame k w w" "frame k w (w\<lparr>sw_auth := a\<rparr>)" "frame k w (w\<lparr>sw_rnd := d\<rparr>)"
  by (simp_all add: frame_def)

lemma frame_trans: "frame k w1 w2 \<Longrightarrow> frame k w2 w3 \<Longrightarrow> frame k w1 w3"
  by (simp add: frame_def)

lemma frame_put: "session_put w ref name obj d = Some w' \<Longrightarrow> name \<noteq> k \<Longrightarrow> frame k w w' \<and> sw_auth w' = sw_auth w"
proof -
  assume r: "session_put w ref name obj d = Some w'" "name \<noteq> k"
  have "sw_auth w' = sw_auth w" using r(1) by (auto simp: session_put_def Option.bind_eq_Some_conv)
  then show ?thesis using r session_put_spec [OF _ r(1)] by (auto simp: frame_def)
qed

lemma frame_store: "auth_store w ref auth = Some w' \<Longrightarrow> AUTH_SESSKEY \<noteq> k \<Longrightarrow> frame k w w' \<and> sw_auth w' = sw_auth w"
proof -
  assume r: "auth_store w ref auth = Some w'" "AUTH_SESSKEY \<noteq> k"
  have "sw_auth w' = sw_auth w" using r(1) by (auto simp: auth_store_def Option.bind_eq_Some_conv)
  then show ?thesis using r auth_store_spec [OF _ r(1)] by (auto simp: frame_def)
qed

lemma frame_create:
  assumes "Authenticator_create env w ref realm = Some (auth, w')" "AUTH_SESSKEY \<noteq> k"
  shows "frame k w w' \<and> sw_auth w' = sw_auth w"
proof -
  obtain t where g: "getAuthInfos env w ref = Some (t, w')"
    using assms(1) by (auto simp: Authenticator_create_def Option.bind_eq_Some_conv)
  obtain p where p: "w_prop w ref AUTH_SESSKEY = Some p" using g by (auto simp: getAuthInfos_def Option.bind_eq_Some_conv)
  show ?thesis
  proof (cases p)
    case None
    then obtain obj d where "session_put w ref AUTH_SESSKEY obj d = Some w'"
      using g p by (auto simp: getAuthInfos_def Let_def Option.bind_eq_Some_conv)
    from frame_put [OF this assms(2)] show ?thesis .
  next
    case (Some x)
    then show ?thesis using g p by (cases x) (auto simp: getAuthInfos_def)
  qed
qed

section \<open>The handlers\<close>

lemma put_auth: "session_put w ref name obj d = Some w' \<Longrightarrow> sw_auth w' = sw_auth w"
  by (auto simp: session_put_def Option.bind_eq_Some_conv)

lemma store_auth: "auth_store w ref auth = Some w' \<Longrightarrow> sw_auth w' = sw_auth w"
  by (auto simp: auth_store_def Option.bind_eq_Some_conv)

lemma create_auth: "Authenticator_create env w ref realm = Some (auth, w') \<Longrightarrow> sw_auth w' = sw_auth w"
proof -
  assume c: "Authenticator_create env w ref realm = Some (auth, w')"
  have "AUTH_SESSKEY \<noteq> []" by (simp add: AUTH_SESSKEY_def)
  from frame_create [OF c this] show ?thesis ..
qed

lemmas keeps_auth = put_auth store_auth create_auth

lemma csrf_keys [simp]: "AUTH_SESSKEY \<noteq> CSRFProtect_name" "SK_ERROR \<noteq> CSRFProtect_name" "SK_AREALM \<noteq> CSRFProtect_name"
  "SK_ARDR \<noteq> CSRFProtect_name" "SK_USER \<noteq> CSRFProtect_name" "SK_FORM \<noteq> CSRFProtect_name"
  "SK_REALM \<noteq> CSRFProtect_name" "SK_RDR \<noteq> CSRFProtect_name"
  by (simp_all add: AUTH_SESSKEY_def SK_ERROR_def SK_AREALM_def SK_ARDR_def SK_USER_def SK_FORM_def SK_REALM_def
      SK_RDR_def CSRFProtect_name_def)

lemma login_answer_frame:
  assumes "login_answer ref realm rdr authrdr user ok w = Some (status, rdr', w')"
  shows "frame CSRFProtect_name w w' \<and> sw_auth w' = sw_auth w"
proof -
  have step: "frame CSRFProtect_name w w2 \<and> sw_auth w2 = sw_auth w"
    if "session_put w1 ref name obj d = Some w2" "name \<noteq> CSRFProtect_name" "frame CSRFProtect_name w w1 \<and> sw_auth w1 = sw_auth w"
    for w1 w2 name obj d
    using frame_put [OF that(1,2)] that(3) frame_trans by metis
  show ?thesis
  proof (cases "ok > 0")
    case True
    with assms show ?thesis unfolding login_answer_def
      by (auto elim!: bind_SomeE dest!: step [OF _ csrf_keys(2)] step [OF _ csrf_keys(5)])
  next
    case False
    from assms False obtain wa wb wc m where "session_put w ref SK_AREALM (Some (SO_str realm)) (Some SD_free) = Some wa"
      "session_put wa ref SK_ARDR (Some (SO_str authrdr)) (Some SD_free) = Some wb"
      "session_put wb ref SK_ERROR m None = Some wc"
      "session_put wc ref SK_USER (Some (SO_str user)) (Some SD_free) = Some w'"
      unfolding login_answer_def by (auto elim!: bind_SomeE)
    then show ?thesis using step frame_refl(1) csrf_keys by metis
  qed
qed

lemma do_login_frame:
  assumes "do_login env form ref realm rdr w = Some (status, rdr', w')"
  shows "frame CSRFProtect_name w w'"
proof (cases "field_1_32 form ''user'' = None \<or> field_1_32 form ''pw'' = None")
  case True
  then show ?thesis using assms by (auto simp: do_login_def split: option.splits)
next
  case False
  then obtain user pw where fields: "field_1_32 form ''user'' = Some user" "field_1_32 form ''pw'' = Some pw" by auto
  from assms obtain auth w1 st auth2 w2 authrdr ok where
    l: "Authenticator_create env w ref (Some realm) = Some (auth, w1)"
      "auth_store (w1\<lparr>sw_auth := st\<rparr>) ref auth2 = Some w2"
      "login_answer ref realm rdr authrdr user ok w2 = Some (status, rdr', w')"
    unfolding do_login_def fields option.case Let_def by (auto elim!: bind_SomeE)
  have "frame CSRFProtect_name w w1" using frame_create [OF l(1)] by simp
  moreover have "frame CSRFProtect_name (w1\<lparr>sw_auth := st\<rparr>) w2" using frame_store [OF l(2) csrf_keys(1)] ..
  then have "frame CSRFProtect_name w1 w2" by (rule frame_trans [OF frame_refl(2)])
  moreover have "frame CSRFProtect_name w2 w'" using login_answer_frame [OF l(3)] by simp
  ultimately show ?thesis using frame_trans by metis
qed

lemma do_logout_frame:
  assumes "do_logout env ref realm rdr w = Some (status, rdr', w')"
  shows "frame CSRFProtect_name w w'" "sw_auth w' = sw_auth w"
proof -
  from assms obtain auth w1 where c: "Authenticator_create env w ref (Some realm) = Some (auth, w1)"
    and r: "w' = w1 \<or> (\<exists>auth2. auth_store w1 ref auth2 = Some w')"
    by (auto simp: do_logout_def Option.bind_eq_Some_conv split: if_splits)
  have "frame CSRFProtect_name w w1 \<and> sw_auth w1 = sw_auth w" using frame_create [OF c csrf_keys(1)] .
  moreover have "frame CSRFProtect_name w1 w' \<and> sw_auth w' = sw_auth w1"
    using r frame_store [OF _ csrf_keys(1)] by auto
  ultimately show "frame CSRFProtect_name w w'" "sw_auth w' = sw_auth w" using frame_trans by metis+
qed

lemma doLogin_frame:
  assumes "doLogin env ref (w, c) = Some (w', c')"
  shows "frame CSRFProtect_name w w'" "FormData_get c = None \<Longrightarrow> sw_auth w' = sw_auth w"
proof -
  from assms obtain status rdr where
    "(case FormData_get c of
        None \<Rightarrow> Some (HTTP_SEEOTHER, None, w)
      | Some form \<Rightarrow>
          if \<not> fd_valid form then Some (HTTP_SEEOTHER, None, w)
          else do {
            realm \<leftarrow> session_str w ref SK_REALM;
            rdr \<leftarrow> session_str w ref SK_FORM;
            case (realm, rdr) of
              (Some realm, Some rdr) \<Rightarrow>
                if FormData_single form ''login'' \<noteq> None then do_login env form ref realm rdr w
                else if FormData_single form ''logout'' \<noteq> None then do_logout env ref realm rdr w
                else Some (HTTP_SEEOTHER, Some rdr, w)
            | _ \<Rightarrow> Some (HTTP_SEEOTHER, rdr, w)
          }) = Some (status, rdr, w')"
    unfolding doLogin_def by (auto elim!: bind_SomeE)
  then have "w' = w \<or> FormData_get c \<noteq> None \<and> (\<exists>form realm rdr status rdr'.
      do_login env form ref realm rdr w = Some (status, rdr', w') \<or> do_logout env ref realm rdr w = Some (status, rdr', w'))"
    by (fastforce elim!: bind_SomeE split: option.splits if_splits)
  then show "frame CSRFProtect_name w w'" "FormData_get c = None \<Longrightarrow> sw_auth w' = sw_auth w"
    using do_login_frame do_logout_frame frame_refl(1) by metis+
qed

lemma updateSession_auth: "updateSession ref pp (w, c) = Some (realm, w') \<Longrightarrow> sw_auth w' = sw_auth w"
  unfolding updateSession_def Let_def
  by (auto elim!: bind_SomeE split: option.splits if_splits dest!: put_auth)

lemma csrf_token_auth: "CSRFProtect_token (w, c) = Some (t, w') \<Longrightarrow> sw_auth w' = sw_auth w"
  by (auto simp: CSRFProtect_token_def Option.bind_eq_Some_conv split: option.splits dest!: put_auth)

lemma showForm_auth:
  assumes "showForm env ref realm path (w, c) = Some (w', c')"
  shows "sw_auth w' = sw_auth w"
proof -
  from assms obtain auth w1 auth2 w2 where s: "Authenticator_create env w ref (Some realm) = Some (auth, w1)"
    "auth_store w1 ref auth2 = Some w2"
    "(\<exists>t. CSRFProtect_token (w2, c) = Some (t, w')) \<or> session_put w2 ref SK_ERROR None None = Some w'"
    unfolding showForm_def Let_def by (auto elim!: bind_SomeE split: prod.splits if_splits)
  then show ?thesis by (auto dest!: keeps_auth csrf_token_auth)
qed

lemma rootHandler_auth:
  assumes "rootHandler env (w, c) = Some (w', c')"
  shows "sw_auth w' = sw_auth w"
  using assms unfolding rootHandler_def Let_def
  by (auto elim!: bind_SomeE split: option.splits if_splits dest!: keeps_auth)

lemma loginHandler_frame:
  assumes "loginHandler env (w, c) = Some (w', c')"
  shows "rq_method (cx_request c) \<noteq> HTTP_POST \<or> FormData_get c = None \<Longrightarrow> sw_auth w' = sw_auth w"
    "rq_method (cx_request c) = HTTP_POST \<Longrightarrow> frame CSRFProtect_name w w'"
proof -
  from assms have "w' = w \<or> (\<exists>ref. rq_method (cx_request c) = HTTP_POST \<and> doLogin env ref (w, c) = Some (w', c'))
      \<or> (\<exists>ref pp realm w1 path. rq_method (cx_request c) \<noteq> HTTP_POST \<and> updateSession ref pp (w, c) = Some (realm, w1)
          \<and> showForm env ref realm path (w1, c) = Some (w', c'))"
    by (fastforce simp: loginHandler_def Let_def elim!: bind_SomeE split: option.splits if_splits)
  then consider (none) "w' = w"
    | (post) ref where "rq_method (cx_request c) = HTTP_POST" "doLogin env ref (w, c) = Some (w', c')"
    | (get) ref pp realm w1 path where "rq_method (cx_request c) \<noteq> HTTP_POST" "updateSession ref pp (w, c) = Some (realm, w1)"
        "showForm env ref realm path (w1, c) = Some (w', c')"
    by blast
  then have "(rq_method (cx_request c) \<noteq> HTTP_POST \<or> FormData_get c = None \<longrightarrow> sw_auth w' = sw_auth w)
    \<and> (rq_method (cx_request c) = HTTP_POST \<longrightarrow> frame CSRFProtect_name w w')"
  proof cases
    case post
    then show ?thesis using doLogin_frame [OF post(2)] by simp
  next
    case get
    then show ?thesis using showForm_auth [OF get(3)] updateSession_auth [OF get(2)] by simp
  qed simp
  then show "rq_method (cx_request c) \<noteq> HTTP_POST \<or> FormData_get c = None \<Longrightarrow> sw_auth w' = sw_auth w"
    "rq_method (cx_request c) = HTTP_POST \<Longrightarrow> frame CSRFProtect_name w w'" by blast+
qed

section \<open>The middlewares\<close>

definition ctx_keeps :: "string set \<Rightarrow> 'ck httpctx \<Rightarrow> 'ck httpctx \<Rightarrow> bool" where
  "ctx_keeps K c c' \<longleftrightarrow> cx_request c' = cx_request c \<and> cx_pipelinePos c' = cx_pipelinePos c
     \<and> (ctx_ok c \<longrightarrow> ctx_ok c' \<and> (\<forall>k. k \<notin> K \<longrightarrow> HttpContext_get c' k = HttpContext_get c k))"

lemma ctx_keeps_refl [simp]: "ctx_keeps K c c"
  by (simp add: ctx_keeps_def)

lemma ctx_keeps_set [simp]: "key \<in> K \<Longrightarrow> ctx_keeps K c (HttpContext_set c key obj d)"
  by (auto simp: ctx_keeps_def ctx_get_set)

lemma ctx_keeps_trans: "ctx_keeps K c1 c2 \<Longrightarrow> ctx_keeps L c2 c3 \<Longrightarrow> ctx_keeps (K \<union> L) c1 c3"
  by (auto simp: ctx_keeps_def)

lemma ctx_keepsD:
  assumes "ctx_keeps K c c'" "ctx_ok c"
  shows "ctx_ok c'" "k \<notin> K \<Longrightarrow> HttpContext_get c' k = HttpContext_get c k" "cx_request c' = cx_request c"
    "cx_pipelinePos c' = cx_pipelinePos c"
  using assms by (simp_all add: ctx_keeps_def)

lemma ctx_poke_keeps: "ctx_keeps {key} c (ctx_poke c key obj)"
proof (cases "ctx_findProp c key")
  case None
  then show ?thesis by (simp add: ctx_poke_def)
next
  case (Some p)
  then have key: "cp_key p = key" using ct_find_key unfolding ctx_findProp_def by metis
  show ?thesis
    using Some key by (auto simp: ctx_poke_def ctx_keeps_def ctx_ok_def ct_store_ok HttpContext_get_def ctx_findProp_def ct_find_store)
qed

lemma ProxyList_get_keeps: "ProxyList_get c = Some (l, c') \<Longrightarrow> ctx_keeps {PROXYLIST_KEY} c c'"
  unfolding ProxyList_get_def by (auto elim!: bind_SomeE split: option.splits ctxobj.splits)

lemma ProxyList_firstTrusted_keeps: "ProxyList_firstTrusted c = Some (i, c') \<Longrightarrow> ctx_keeps {PROXYLIST_KEY} c c'"
  unfolding ProxyList_firstTrusted_def by (auto elim!: bind_SomeE dest: ProxyList_get_keeps)

lemma prop_names [simp]: "COOKIES_PROP \<noteq> SESSION_PROP" "COOKIES_PROP \<noteq> PATHPARSER_PROP" "COOKIES_PROP \<noteq> FORMDATA_PROP"
  "SESSION_PROP \<noteq> PATHPARSER_PROP" "SESSION_PROP \<noteq> FORMDATA_PROP" "PATHPARSER_PROP \<noteq> FORMDATA_PROP"
  "PROXYLIST_KEY \<noteq> FORMDATA_PROP" "PROXYLIST_TRKEY \<noteq> FORMDATA_PROP" "FORMDATA_PROP \<noteq> SESSION_PROP"
  "FORMDATA_PROP \<noteq> COOKIES_PROP" "FORMDATA_PROP \<noteq> PROXYLIST_KEY" "FORMDATA_PROP \<noteq> PATHPARSER_PROP"
  "SESSION_PROP \<noteq> COOKIES_PROP" "PATHPARSER_PROP \<noteq> SESSION_PROP" "PATHPARSER_PROP \<noteq> COOKIES_PROP"
  by (simp_all add: COOKIES_PROP_def SESSION_PROP_def PATHPARSER_PROP_def FORMDATA_PROP_def PROXYLIST_KEY_def PROXYLIST_TRKEY_def)

lemma MW_Cookies_flow:
  "MW_Cookies env nxt (w, c) = Some (w', c') \<Longrightarrow> \<exists>c2. nxt (w, HttpContext_set c COOKIES_PROP
    (Some (CO_cookies (cookies_of (en_cookies env) (ctx_headers c)))) (Some CD_cookiesDeleter)) = Some (w', c2)"
  unfolding MW_Cookies_def Let_def by (auto elim!: bind_SomeE split: option.splits)

lemma MW_Compress_flow: "MW_Compress env nxt (w, c) = Some (w', c') \<Longrightarrow> \<exists>c2. nxt (w, c) = Some (w', c2)"
  unfolding MW_Compress_def Let_def
  by (fastforce elim!: bind_SomeE split: option.splits prod.splits if_splits)

lemma MW_FormData_flow:
  "MW_FormData nxt (w, c) = Some (w', c') \<Longrightarrow> \<exists>form. FormData_of (sw_validate w) (cx_request c) = Some form
    \<and> nxt (w, case form of None \<Rightarrow> c
        | Some self \<Rightarrow> HttpContext_set c FORMDATA_PROP (Some (CO_form self)) (Some CD_formDataDeleter)) = Some (w', c')"
  unfolding MW_FormData_def by (auto elim!: bind_SomeE)

lemma session_next_flow:
  assumes "session_next nxt ref (w, c) = Some (w', c')"
  obtains w2 c2 where "nxt (w, HttpContext_set c SESSION_PROP (Some (CO_session ref)) None) = Some (w2, c2)"
    "sw_auth w' = sw_auth w2" "w_ok w2 \<Longrightarrow> w_ok w' \<and> (\<forall>r k. w_prop w' r k = w_prop w2 r k)"
proof -
  from assms obtain w2 c2 where n: "nxt (w, HttpContext_set c SESSION_PROP (Some (CO_session ref)) None) = Some (w2, c2)"
    and r: "w' = w2 \<or> (\<exists>sessions path. session_refer (sw_sessions w2) ref path = Some sessions \<and> w' = w2\<lparr>sw_sessions := sessions\<rparr>)"
    unfolding session_next_def Let_def by (fastforce elim!: bind_SomeE split: option.splits if_splits)
  show ?thesis
    by (rule that [OF n]) (use r session_refer_spec in auto)
qed

lemma MW_CSRFProtect_flow:
  assumes "MW_CSRFProtect nxt (w, c) = Some (w', c')"
  shows "sw_auth w' = sw_auth w
    \<or> (FormData_get c = None \<or> Session_get c = None) \<and> nxt (w, c) = Some (w', c')
    \<or> (\<exists>form ref tok val len w1. FormData_get c = Some form \<and> Session_get c = Some ref
        \<and> session_str w ref CSRFProtect_name = Some (Some tok) \<and> FormData_single form CSRFProtect_name = Some (val, len)
        \<and> cstr val = tok \<and> session_put w ref CSRFProtect_name None None = Some w1 \<and> nxt (w1, c) = Some (w', c'))"
  using assms unfolding MW_CSRFProtect_def Let_def
  by (fastforce elim!: bind_SomeE split: option.splits if_splits prod.splits)

text \<open>
  \<open>MW_Session\<close> calls on with the session the cookie names, as it was before, or with a new one, which
  has no properties; or it refuses to create one.
\<close>

definition cookie_session :: "('k, 'b, 'l, 't, 'c, 'r, 'ck) swad_env \<Rightarrow> ('l, 't, 'c, 'r) swad \<Rightarrow> 'ck cookies
    \<Rightarrow> ('t sessobj, sessdel) session \<Rightarrow> bool" where
  "cookie_session env w cookies s \<longleftrightarrow> s \<in> set (all_sessions (sw_sessions w)) \<and> \<not> sessionExpired s (sw_time w)
     \<and> Cookies_getCookie (en_cookies env) cookies COOKIENAME = Some (ss_id s)"

definition session_entered :: "('k, 'b, 'l, 't, 'c, 'r, 'ck) swad_env \<Rightarrow> ('l, 't, 'c, 'r) swad \<Rightarrow> 'ck cookies \<Rightarrow> nat
    \<Rightarrow> ('l, 't, 'c, 'r) swad \<Rightarrow> bool" where
  "session_entered env w cookies ref w1 \<longleftrightarrow> w_ok w1 \<and> sw_auth w1 = sw_auth w \<and> sw_validate w1 = sw_validate w
     \<and> ((\<forall>k. w_prop w1 ref k = Some None)
       \<or> (\<exists>s. cookie_session env w cookies s \<and> ss_ref s = ref \<and> (\<forall>k. w_prop w1 ref k = Some (session_get s k))))"

lemma new_session_props:
  assumes "sess_ok self" "createSession now rnd self = Some (s, rnd', self')"
  shows "sess_ok self'" "Session_getProp self' (ss_ref s) k = Some None"
proof -
  note spec = createSession_spec [OF assms]
  then show ok: "sess_ok self'" by blast
  obtain sid where s: "s = session_new sid now (sx_next self)" using spec by blast
  have "session_at self' (ss_ref s) = Some s" using session_at_Some [OF ok, of "ss_ref s" s] spec by blast
  moreover have "session_get s k = None"
    by (simp add: s session_new_def session_get_def sess_findProp_def ct_empty_ok)
  ultimately show "Session_getProp self' (ss_ref s) k = Some None" by (simp add: Session_getProp_def)
qed

lemma found_session_props:
  assumes "sess_ok self" "findSession sid now (clean now self) = (Some s, self1)" "session_touch self1 (ss_ref s) now = Some self2"
  shows "sess_ok self2" "s \<in> set (all_sessions self)" "ss_id s = sid" "\<not> sessionExpired s now"
    "Session_getProp self2 (ss_ref s) k = Some (session_get s k)"
proof -
  note cl = clean_spec [OF assms(1), of now]
  note li = live_in [OF cl(1) assms(2)]
  show "sess_ok self2" "ss_id s = sid" "\<not> sessionExpired s now"
    using session_touch_spec(1) [OF li(5) assms(3)] li by blast+
  show "s \<in> set (all_sessions self)"
    using findSession_spec [OF cl(1) assms(2)] cl(2) by blast
  show "Session_getProp self2 (ss_ref s) k = Some (session_get s k)"
    using session_touch_spec(2) [OF li(5) assms(3)] li(2) by (simp add: Session_getProp_def)
qed

lemma session_new_for_flow:
  assumes "session_new_for env cookies nxt (w, c) = Some (w', c')" "w_ok w"
  shows "sw_auth w' = sw_auth w \<or> (\<exists>ref w1 c1. w_ok w1 \<and> sw_auth w1 = sw_auth w \<and> sw_validate w1 = sw_validate w
      \<and> (\<forall>k. w_prop w1 ref k = Some None) \<and> ctx_keeps {PROXYLIST_KEY, COOKIES_PROP} c c1
      \<and> session_next nxt ref (w1, c1) = Some (w', c'))"
proof -
  from assms(1) obtain proxies c1 where p: "ProxyList_get c = Some (proxies, c1)"
    and r1: "(do {
     (i, context) \<leftarrow> ProxyList_firstTrusted c1;
     if i \<ge> length proxies then None
     else do {
       (ok, createLimit) \<leftarrow>
         RateLimit_check (ah_entries (en_auth env)) (sw_createLimit w) (sw_mono w) (re_addr (proxies ! i));
       let w = w\<lparr>sw_createLimit := createLimit\<rparr>;
       if \<not> ok then do {
         context \<leftarrow> HttpContext_setResponse context (HttpResponse_createError HTTP_TOOMANYREQUESTS None);
         Some (w, context)
       }
       else do {
         (self, rnd, sessions) \<leftarrow> createSession (sw_time w) (sw_rnd w) (sw_sessions w);
         let cookies = Cookies_setCookie (en_cookies env) cookies COOKIENAME (ss_id self);
         session_next nxt (ss_ref self)
           (w\<lparr>sw_sessions := sessions, sw_rnd := rnd\<rparr>, ctx_poke context COOKIES_PROP (CO_cookies cookies))
       }
     }
   }) = Some (w', c')"
    unfolding session_new_for_def by (auto elim!: bind_SomeE)
  from r1 obtain i c2 where q: "ProxyList_firstTrusted c1 = Some (i, c2)" by (auto elim!: bind_SomeE)
  have keep: "ctx_keeps {PROXYLIST_KEY} c c2"
    using ctx_keeps_trans [OF ProxyList_get_keeps [OF p] ProxyList_firstTrusted_keeps [OF q]] by simp
  from r1 obtain ok lim where l: "RateLimit_check (ah_entries (en_auth env)) (sw_createLimit w) (sw_mono w) (re_addr (proxies ! i)) = Some (ok, lim)"
    using q by (auto elim!: bind_SomeE split: if_splits)
  show ?thesis
  proof (cases ok)
    case False
    then show ?thesis using r1 q l by (auto elim!: bind_SomeE split: if_splits)
  next
    case True
    then obtain self rnd sessions where cs: "createSession (sw_time w) (sw_rnd w) (sw_sessions w) = Some (self, rnd, sessions)"
      "session_next nxt (ss_ref self) (w\<lparr>sw_createLimit := lim, sw_sessions := sessions, sw_rnd := rnd\<rparr>,
         ctx_poke c2 COOKIES_PROP (CO_cookies (Cookies_setCookie (en_cookies env) cookies COOKIENAME (ss_id self)))) = Some (w', c')"
      using r1 q l by (auto elim!: bind_SomeE split: if_splits)
    let ?w1 = "w\<lparr>sw_createLimit := lim, sw_sessions := sessions, sw_rnd := rnd\<rparr>"
    let ?c = "ctx_poke c2 COOKIES_PROP (CO_cookies (Cookies_setCookie (en_cookies env) cookies COOKIENAME (ss_id self)))"
    have "ctx_keeps {PROXYLIST_KEY, COOKIES_PROP} c ?c"
      using ctx_keeps_trans [OF keep ctx_poke_keeps] by (simp add: insert_commute)
    then show ?thesis
      using new_session_props [OF assms(2) cs(1)] cs(2)
      by (intro disjI2 exI [of _ "ss_ref self"] exI [of _ ?w1] exI [of _ ?c]) simp
  qed
qed

lemma MW_Session_flow:
  assumes "MW_Session env nxt (w, c) = Some (w', c')" "w_ok w" "Cookies_get c = Some cookies"
  shows "sw_auth w' = sw_auth w \<or> (\<exists>ref w1 c1 w2 c2. session_entered env w cookies ref w1
      \<and> ctx_keeps {PROXYLIST_KEY, COOKIES_PROP} c c1
      \<and> nxt (w1, HttpContext_set c1 SESSION_PROP (Some (CO_session ref)) None) = Some (w2, c2)
      \<and> sw_auth w' = sw_auth w2 \<and> (w_ok w2 \<longrightarrow> w_ok w' \<and> (\<forall>r k. w_prop w' r k = w_prop w2 r k)))"
proof -
  obtain found ss where find: "session_lookup env cookies w = (found, ss)" by fastforce
  note cl = clean_spec(1) [OF assms(2), of "sw_time w"]
  have ss: "sess_ok ss"
  proof (cases "Cookies_getCookie (en_cookies env) cookies COOKIENAME")
    case None
    then show ?thesis using find cl by (simp add: session_lookup_def Let_def)
  next
    case (Some sid)
    then show ?thesis using find findSession_spec [OF cl, of sid "sw_time w"] by (simp add: session_lookup_def Let_def)
  qed
  show ?thesis
  proof (cases found)
    case (Some s)
    obtain sid where sid: "Cookies_getCookie (en_cookies env) cookies COOKIENAME = Some sid"
      "findSession sid (sw_time w) (clean (sw_time w) (sw_sessions w)) = (Some s, ss)"
      using find Some by (auto simp: session_lookup_def Let_def split: option.splits)
    have "Option.bind (session_touch ss (ss_ref s) (sw_time w))
        (\<lambda>ss2. session_next nxt (ss_ref s) (w\<lparr>sw_sessions := ss2\<rparr>, c)) = Some (w', c')"
      using assms(1) by (simp add: MW_Session_def assms(3) find Some)
    then obtain ss2 where t: "session_touch ss (ss_ref s) (sw_time w) = Some ss2"
      "session_next nxt (ss_ref s) (w\<lparr>sw_sessions := ss2\<rparr>, c) = Some (w', c')"
      by (rule bind_SomeE)
    note fp = found_session_props [OF assms(2) sid(2) t(1)]
    have entered: "session_entered env w cookies (ss_ref s) (w\<lparr>sw_sessions := ss2\<rparr>)"
      unfolding session_entered_def cookie_session_def using fp sid(1) by simp blast
    obtain w2 c2 where "nxt (w\<lparr>sw_sessions := ss2\<rparr>, HttpContext_set c SESSION_PROP (Some (CO_session (ss_ref s))) None) = Some (w2, c2)"
      "sw_auth w' = sw_auth w2" "w_ok w2 \<longrightarrow> w_ok w' \<and> (\<forall>r k. w_prop w' r k = w_prop w2 r k)"
      using session_next_flow [OF t(2)] by metis
    with entered show ?thesis
      by (intro disjI2 exI [of _ "ss_ref s"] exI [of _ "w\<lparr>sw_sessions := ss2\<rparr>"] exI [of _ c] exI [of _ w2] exI [of _ c2] conjI) simp_all
  next
    case None
    have "session_new_for env cookies nxt (w\<lparr>sw_sessions := ss\<rparr>, c) = Some (w', c')"
      using assms(1) by (simp add: MW_Session_def assms(3) find None)
    from session_new_for_flow [OF this] ss consider "sw_auth w' = sw_auth w"
      | ref w1 c1 where "w_ok w1" "sw_auth w1 = sw_auth w" "sw_validate w1 = sw_validate w" "\<forall>k. w_prop w1 ref k = Some None"
        "ctx_keeps {PROXYLIST_KEY, COOKIES_PROP} c c1" "session_next nxt ref (w1, c1) = Some (w', c')"
      by auto
    then show ?thesis
    proof cases
      case (2 ref w1 c1)
      then have entered: "session_entered env w cookies ref w1" by (simp add: session_entered_def)
      obtain w2 c2 where "nxt (w1, HttpContext_set c1 SESSION_PROP (Some (CO_session ref)) None) = Some (w2, c2)"
        "sw_auth w' = sw_auth w2" "w_ok w2 \<longrightarrow> w_ok w' \<and> (\<forall>r k. w_prop w' r k = w_prop w2 r k)"
        using session_next_flow [OF 2(6)] by metis
      with entered 2(5) show ?thesis
        by (intro disjI2 exI [of _ ref] exI [of _ w1] exI [of _ c1] exI [of _ w2] exI [of _ c2] conjI) simp_all
    qed simp
  qed
qed

section \<open>The pipeline\<close>

lemma callNext_at:
  assumes "cx_pipelinePos c = i" "i < length mws"
  shows "HttpContext_callNext (Suc d) (getMiddlewareAt mws) hdl (w, c) =
    (mws ! i) (HttpContext_callNext d (getMiddlewareAt mws) hdl) (w, c\<lparr>cx_pipelinePos := i + 1\<rparr>)"
  using assms by (simp add: getMiddlewareAt_def Let_def)

lemma callNext_end:
  assumes "cx_pipelinePos c = length mws"
  shows "HttpContext_callNext (Suc d) (getMiddlewareAt mws) (Some h) (w, c) = h (w, c\<lparr>cx_pipelinePos := length mws + 1\<rparr>)"
  using assms by (simp add: getMiddlewareAt_def Let_def)

lemma getters_pos [simp]:
  "Cookies_get (c\<lparr>cx_pipelinePos := i\<rparr>) = Cookies_get c" "Session_get (c\<lparr>cx_pipelinePos := i\<rparr>) = Session_get c"
  "PathParser_get (c\<lparr>cx_pipelinePos := i\<rparr>) = PathParser_get c" "FormData_get (c\<lparr>cx_pipelinePos := i\<rparr>) = FormData_get c"
  "ctx_headers (c\<lparr>cx_pipelinePos := i\<rparr>) = ctx_headers c"
  by (simp_all add: Cookies_get_def Session_get_def PathParser_get_def FormData_get_def ctx_headers_def)

lemma getters_set:
  "ctx_ok c \<Longrightarrow> Cookies_get (HttpContext_set c COOKIES_PROP (Some (CO_cookies ck)) d) = Some ck"
  "ctx_ok c \<Longrightarrow> Session_get (HttpContext_set c SESSION_PROP (Some (CO_session r)) d) = Some r"
  "ctx_ok c \<Longrightarrow> FormData_get (HttpContext_set c FORMDATA_PROP (Some (CO_form f)) d) = Some f"
  "ctx_ok c \<Longrightarrow> key \<noteq> SESSION_PROP \<Longrightarrow> Session_get (HttpContext_set c key obj d) = Session_get c"
  "ctx_ok c \<Longrightarrow> key \<noteq> FORMDATA_PROP \<Longrightarrow> FormData_get (HttpContext_set c key obj d) = FormData_get c"
  by (simp_all add: Cookies_get_def Session_get_def FormData_get_def ctx_get_set)

text \<open>The context a server hands to its pipeline.\<close>

definition request_context :: "httprequest \<Rightarrow> (string \<times> string option) option \<Rightarrow> proxyheader \<Rightarrow> nat \<Rightarrow> 'ck httpctx" where
  "request_context req conn hdr n = ProxyList_setTrusted (HttpContext_create req conn) hdr n"

lemma request_context_spec [simp]:
  "ctx_ok (request_context req conn hdr n)" "cx_request (request_context req conn hdr n) = req"
  "cx_pipelinePos (request_context req conn hdr n) = 0" "FormData_get (request_context req conn hdr n) = None"
  by (simp_all add: request_context_def ProxyList_setTrusted_def FormData_get_def ctx_get_set)
    (simp_all add: HttpContext_create_def)

lemma ctx_ok_pos [simp]: "ctx_ok (c\<lparr>cx_pipelinePos := i\<rparr>) = ctx_ok c"
  by (simp add: ctx_ok_def)

lemma ctx_pos_set [simp]: "cx_pipelinePos (HttpContext_set c key obj d) = cx_pipelinePos c"
  "cx_request (HttpContext_set c key obj d) = cx_request c"
  by (simp_all add: HttpContext_set_def Let_def)

lemma swad_length [simp]: "length (swad_middlewares env) = 6"
  by (simp add: swad_middlewares_def)

lemma swad_nth:
  "swad_middlewares env ! 0 = MW_Compress env" "swad_middlewares env ! Suc 0 = MW_Cookies env"
  "swad_middlewares env ! Suc (Suc 0) = MW_Session env" "swad_middlewares env ! Suc (Suc (Suc 0)) = MW_PathParser"
  "swad_middlewares env ! Suc (Suc (Suc (Suc 0))) = MW_FormData"
  "swad_middlewares env ! Suc (Suc (Suc (Suc (Suc 0)))) = MW_CSRFProtect"
  by (simp_all add: swad_middlewares_def)

text \<open>The rest of the pipeline from a position on, to a handler.\<close>

abbreviation swad_rest ::
  "('k, 'b, 'l, 't, 'c, 'r, 'ck) swad_env \<Rightarrow> (('l, 't, 'c, 'r) swad, 'ck ctxobj, ctxdel) handler \<Rightarrow> nat
    \<Rightarrow> (('l, 't, 'c, 'r) swad, 'ck ctxobj, ctxdel) handler" where
  "swad_rest env h d \<equiv> HttpContext_callNext d (getMiddlewareAt (swad_middlewares env)) (Some h)"

lemma swad_rest_at:
  "cx_pipelinePos c = 0 \<Longrightarrow> swad_rest env h 7 (w, c) = MW_Compress env (swad_rest env h 6) (w, c\<lparr>cx_pipelinePos := 1\<rparr>)"
  "cx_pipelinePos c = 1 \<Longrightarrow> swad_rest env h 6 (w, c) = MW_Cookies env (swad_rest env h 5) (w, c\<lparr>cx_pipelinePos := 2\<rparr>)"
  "cx_pipelinePos c = 2 \<Longrightarrow> swad_rest env h 5 (w, c) = MW_Session env (swad_rest env h 4) (w, c\<lparr>cx_pipelinePos := 3\<rparr>)"
  "cx_pipelinePos c = 3 \<Longrightarrow> swad_rest env h 4 (w, c) = MW_PathParser (swad_rest env h 3) (w, c\<lparr>cx_pipelinePos := 4\<rparr>)"
  "cx_pipelinePos c = 4 \<Longrightarrow> swad_rest env h 3 (w, c) = MW_FormData (swad_rest env h 2) (w, c\<lparr>cx_pipelinePos := 5\<rparr>)"
  "cx_pipelinePos c = 5 \<Longrightarrow> swad_rest env h 2 (w, c) = MW_CSRFProtect (swad_rest env h 1) (w, c\<lparr>cx_pipelinePos := 6\<rparr>)"
  "cx_pipelinePos c = 6 \<Longrightarrow> swad_rest env h 1 (w, c) = h (w, c\<lparr>cx_pipelinePos := 7\<rparr>)"
  using callNext_at [of c 0 "swad_middlewares env" 6 _ w] callNext_at [of c 1 "swad_middlewares env" 5 _ w]
    callNext_at [of c 2 "swad_middlewares env" 4 _ w] callNext_at [of c 3 "swad_middlewares env" 3 _ w]
    callNext_at [of c 4 "swad_middlewares env" 2 _ w] callNext_at [of c 5 "swad_middlewares env" 1 _ w]
    callNext_end [of c "swad_middlewares env" 0 _ w]
  by (simp_all add: swad_nth numeral_eq_Suc del: HttpContext_callNext.simps)

abbreviation login_rest ::
  "('k, 'b, 'l, 't, 'c, 'r, 'ck) swad_env \<Rightarrow> nat \<Rightarrow> (('l, 't, 'c, 'r) swad, 'ck ctxobj, ctxdel) handler" where
  "login_rest env \<equiv> swad_rest env (loginHandler env)"

lemmas login_rest_at = swad_rest_at [where h = "loginHandler env" and env = env for env]

text \<open>From the check of the token on.\<close>

lemma csrf_stage:
  assumes "login_rest env 2 (w, c) = Some (w', c')" "cx_pipelinePos c = 5"
  shows "sw_auth w' = sw_auth w
    \<or> (\<exists>form ref tok val len. rq_method (cx_request c) = HTTP_POST \<and> FormData_get c = Some form \<and> Session_get c = Some ref
        \<and> session_str w ref CSRFProtect_name = Some (Some tok) \<and> FormData_single form CSRFProtect_name = Some (val, len)
        \<and> cstr val = tok \<and> (w_ok w \<longrightarrow> w_ok w' \<and> w_prop w' ref CSRFProtect_name = Some None))"
proof -
  let ?c = "c\<lparr>cx_pipelinePos := 6\<rparr>"
  from assms have "MW_CSRFProtect (login_rest env 1) (w, ?c) = Some (w', c')" by (simp only: login_rest_at)
  from MW_CSRFProtect_flow [OF this] consider (refused) "sw_auth w' = sw_auth w"
    | (passed) "FormData_get c = None \<or> Session_get c = None" "login_rest env 1 (w, ?c) = Some (w', c')"
    | (checked) form ref tok val len w1 where "FormData_get c = Some form" "Session_get c = Some ref"
        "session_str w ref CSRFProtect_name = Some (Some tok)" "FormData_single form CSRFProtect_name = Some (val, len)"
        "cstr val = tok" "session_put w ref CSRFProtect_name None None = Some w1" "login_rest env 1 (w1, ?c) = Some (w', c')"
    unfolding getters_pos by (elim disjE exE conjE) blast+
  then show ?thesis
  proof cases
    case passed
    have l: "loginHandler env (w, ?c\<lparr>cx_pipelinePos := 7\<rparr>) = Some (w', c')"
      using passed(2) login_rest_at(7) [of ?c env w] by simp
    show ?thesis
    proof (cases "FormData_get c")
      case None
      then show ?thesis using loginHandler_frame(1) [OF l] by simp
    next
      case (Some form)
      then have "Session_get c = None" using passed(1) by simp
      then show ?thesis using l by (simp add: loginHandler_def split: option.splits)
    qed
  next
    case checked
    have l: "loginHandler env (w1, ?c\<lparr>cx_pipelinePos := 7\<rparr>) = Some (w', c')"
      using checked(7) login_rest_at(7) [of ?c env w1] by simp
    have auth: "sw_auth w1 = sw_auth w" using put_auth [OF checked(6)] .
    show ?thesis
    proof (cases "rq_method (cx_request c) = HTTP_POST")
      case True
      then have f: "frame CSRFProtect_name w1 w'" using loginHandler_frame(2) [OF l] by simp
      have "w_ok w \<longrightarrow> w_ok w' \<and> w_prop w' ref CSRFProtect_name = Some None"
        using f session_put_spec(1,2) [OF _ checked(6)] by (simp add: frame_def)
      with checked True show ?thesis by blast
    next
      case False
      then show ?thesis using loginHandler_frame(1) [OF l] auth by simp
    qed
  qed simp
qed

text \<open>From the session on.\<close>

lemma HttpContext_get_pos [simp]: "HttpContext_get (c\<lparr>cx_pipelinePos := i\<rparr>) k = HttpContext_get c k"
  by (simp add: HttpContext_get_def ctx_findProp_def)

lemma path_stage:
  assumes "login_rest env 4 (w, c) = Some (w', c')" "cx_pipelinePos c = 3" "ctx_ok c" "FormData_get c = None"
    "sw_auth w' \<noteq> sw_auth w" "Session_get c = Some ref"
  shows "\<exists>form tok val len. rq_method (cx_request c) = HTTP_POST \<and> FormData_of (sw_validate w) (cx_request c) = Some (Some form)
    \<and> session_str w ref CSRFProtect_name = Some (Some tok) \<and> FormData_single form CSRFProtect_name = Some (val, len)
    \<and> cstr val = tok \<and> (w_ok w \<longrightarrow> w_ok w' \<and> w_prop w' ref CSRFProtect_name = Some None)"
proof -
  let ?c1 = "HttpContext_set (c\<lparr>cx_pipelinePos := 4\<rparr>) PATHPARSER_PROP
    (Some (CO_path (PathParser_of (rq_path (cx_request c))))) (Some CD_pathParserDeleter)"
  let ?c2 = "\<lambda>form. (case form of None \<Rightarrow> ?c1\<lparr>cx_pipelinePos := 5\<rparr>
    | Some self \<Rightarrow> HttpContext_set (?c1\<lparr>cx_pipelinePos := 5\<rparr>) FORMDATA_PROP (Some (CO_form self)) (Some CD_formDataDeleter))"
  have "login_rest env 3 (w, ?c1) = Some (w', c')"
    using assms(1,2) login_rest_at(4) [of c env w] by (simp add: MW_PathParser_def)
  then have "MW_FormData (login_rest env 2) (w, ?c1\<lparr>cx_pipelinePos := 5\<rparr>) = Some (w', c')"
    using login_rest_at(5) [of ?c1 env w] by simp
  from MW_FormData_flow [OF this] obtain form where form: "FormData_of (sw_validate w) (cx_request c) = Some form"
    "login_rest env 2 (w, ?c2 form) = Some (w', c')" by auto
  have pos: "cx_pipelinePos (?c2 form) = 5" "cx_request (?c2 form) = cx_request c" by (simp_all split: option.split)
  have get: "FormData_get (?c2 form) = form" "Session_get (?c2 form) = Some ref"
    using assms(3,4,6) by (simp_all add: getters_set split: option.split)
  from csrf_stage [OF form(2) pos(1)] assms(5) get pos(2) form(1) show ?thesis by (auto simp: session_str_def)
qed

lemma session_stage:
  assumes "login_rest env 5 (w, c) = Some (w', c')" "cx_pipelinePos c = 2" "ctx_ok c" "FormData_get c = None"
    "sw_auth w' \<noteq> sw_auth w" "Cookies_get c = Some cookies" "w_ok w"
  shows "\<exists>s form tok val len. cookie_session env w cookies s \<and> rq_method (cx_request c) = HTTP_POST
    \<and> FormData_of (sw_validate w) (cx_request c) = Some (Some form) \<and> session_get s CSRFProtect_name = Some (SO_str tok)
    \<and> FormData_single form CSRFProtect_name = Some (val, len) \<and> cstr val = tok
    \<and> w_prop w' (ss_ref s) CSRFProtect_name = Some None"
proof -
  let ?c = "c\<lparr>cx_pipelinePos := 3\<rparr>"
  have "MW_Session env (login_rest env 4) (w, ?c) = Some (w', c')" using assms(1,2) login_rest_at(3) [of c env w] by simp
  from MW_Session_flow [OF this assms(7), unfolded getters_pos, OF assms(6)] assms(5) obtain ref w1 c1 w2 c2 where
    e: "session_entered env w cookies ref w1" "ctx_keeps {PROXYLIST_KEY, COOKIES_PROP} ?c c1"
      "login_rest env 4 (w1, HttpContext_set c1 SESSION_PROP (Some (CO_session ref)) None) = Some (w2, c2)"
      "sw_auth w' = sw_auth w2" "w_ok w2 \<longrightarrow> w_ok w' \<and> (\<forall>r k. w_prop w' r k = w_prop w2 r k)"
    by (elim disjE exE conjE) blast+
  let ?c1 = "HttpContext_set c1 SESSION_PROP (Some (CO_session ref)) None"
  have k: "ctx_ok c1" "cx_request c1 = cx_request c" "cx_pipelinePos c1 = 3" "FormData_get c1 = None"
    using ctx_keepsD [OF e(2)] assms(3,4) by (simp_all add: FormData_get_def)
  have w1: "w_ok w1" "sw_auth w1 = sw_auth w" "sw_validate w1 = sw_validate w" using e(1) by (simp_all add: session_entered_def)
  from path_stage [OF e(3), of ref] k w1 e(4) assms(5) obtain form tok val len where
    f: "rq_method (cx_request c) = HTTP_POST" "FormData_of (sw_validate w) (cx_request c) = Some (Some form)"
      "session_str w1 ref CSRFProtect_name = Some (Some tok)" "FormData_single form CSRFProtect_name = Some (val, len)"
      "cstr val = tok" "w_ok w2" "w_prop w2 ref CSRFProtect_name = Some None"
    by (auto simp: getters_set)
  have tok: "w_prop w1 ref CSRFProtect_name = Some (Some (SO_str tok))"
    using f(3) by (auto simp: session_str_def split: option.splits sessobj.splits)
  then obtain s where s: "cookie_session env w cookies s" "ss_ref s = ref" "\<forall>k. w_prop w1 ref k = Some (session_get s k)"
    using e(1) by (auto simp: session_entered_def)
  with f e(5) tok show ?thesis by auto
qed


lemma session_put_Some: "w_ok w \<Longrightarrow> w_prop w ref k \<noteq> None \<Longrightarrow> \<exists>w'. session_put w ref name obj d = Some w'"
  by (auto simp: session_put_def Session_setProp_def Session_getProp_def split: option.splits prod.splits)

lemma login_answer_runs:
  assumes "w_ok w" "w_prop w ref k = Some p"
  shows "\<exists>target w'. login_answer ref realm rdr authrdr user ok w
    = Some (if ok > 0 then HTTP_OK else HTTP_SEEOTHER, target, w') \<and> sw_auth w' = sw_auth w"
proof -
  have step: "\<exists>w2. session_put w1 ref name obj d = Some w2 \<and> w_ok w2 \<and> w_prop w2 ref k \<noteq> None \<and> sw_auth w2 = sw_auth w"
    if "w_ok w1" "w_prop w1 ref k \<noteq> None" "sw_auth w1 = sw_auth w" for w1 name obj d
    using session_put_Some [OF that(1,2), of name obj d] session_put_spec(1,2) [OF that(1)] put_auth that by fastforce
  show ?thesis
  proof (cases "ok > 0")
    case True
    from step [OF assms(1) _ refl, of SK_ERROR None None] assms(2) obtain w1 where
      1: "session_put w ref SK_ERROR None None = Some w1" "w_ok w1" "w_prop w1 ref k \<noteq> None" "sw_auth w1 = sw_auth w" by auto
    from step [OF 1(2-4), of SK_USER "Some (SO_str user)" "Some SD_free"] 1(1) True show ?thesis
      by (auto simp: login_answer_def)
  next
    case False
    from step [OF assms(1) _ refl, of SK_AREALM "Some (SO_str realm)" "Some SD_free"] assms(2) obtain w1 where
      1: "session_put w ref SK_AREALM (Some (SO_str realm)) (Some SD_free) = Some w1" "w_ok w1" "w_prop w1 ref k \<noteq> None"
        "sw_auth w1 = sw_auth w" by auto
    from step [OF 1(2-4), of SK_ARDR "Some (SO_str authrdr)" "Some SD_free"] obtain w2 where
      2: "session_put w1 ref SK_ARDR (Some (SO_str authrdr)) (Some SD_free) = Some w2" "w_ok w2" "w_prop w2 ref k \<noteq> None"
        "sw_auth w2 = sw_auth w" by auto
    let ?m = "Some (SO_str (if ok < 0 then ''Too many failed attempts, try again later'' else ''Invalid credentials''))"
    from step [OF 2(2-4), of SK_ERROR ?m None] obtain w3 where
      3: "session_put w2 ref SK_ERROR ?m None = Some w3" "w_ok w3" "w_prop w3 ref k \<noteq> None" "sw_auth w3 = sw_auth w" by auto
    from step [OF 3(2-4), of SK_USER "Some (SO_str user)" "Some SD_free"] 1(1) 2(1) 3(1) False show ?thesis
      by (auto simp: login_answer_def)
  qed
qed

lemma do_login_runs:
  assumes "w_ok w" "w_prop w ref SK_RDR = Some None" "w_prop w ref AUTH_SESSKEY = Some None"
    "field_1_32 form ''user'' = Some user" "field_1_32 form ''pw'' = Some pw"
    "Authenticator_login (en_auth env) (sw_mono w) (sw_auth w)
      \<lparr>at_authInfos = ph_create (ah_infos (en_auth env)) 4, at_realm = realm\<rparr> user pw = Some (ok, st, auth)"
  shows "\<exists>target w'. do_login env form ref realm rdr w = Some (if ok > 0 then HTTP_OK else HTTP_SEEOTHER, target, w') \<and> sw_auth w' = st"
proof -
  let ?t = "ph_create (ah_infos (en_auth env)) 4"
  obtain w1 where put: "session_put w ref AUTH_SESSKEY (Some (SO_authInfos ?t)) (Some SD_deleteAuthInfos) = Some w1"
    using session_put_Some [OF assms(1)] assms(3) by fastforce
  note spec = session_put_spec [OF assms(1) put]
  have w1: "sw_auth w1 = sw_auth w" "sw_mono w1 = sw_mono w"
    using put by (auto simp: session_put_def elim!: bind_SomeE)
  have create: "Authenticator_create env w ref (Some realm) = Some (\<lparr>at_authInfos = ?t, at_realm = realm\<rparr>, w1)"
    using assms(3) put by (simp add: Authenticator_create_def getAuthInfos_def Let_def)
  let ?w1 = "w1\<lparr>sw_auth := st\<rparr>"
  have "w_prop w1 ref AUTH_SESSKEY = Some (Some (SO_authInfos ?t))" using spec(2) by simp
  then obtain w2 where store: "auth_store ?w1 ref auth = Some w2"
    by (auto simp: auth_store_def Session_getProp_def session_get_def split: option.splits)
  have w2: "w_ok w2" "sw_auth w2 = st" "w_prop w2 ref AUTH_SESSKEY = Some (Some (SO_authInfos (at_authInfos auth)))"
    using auth_store_spec [OF _ store] spec(1) store_auth [OF store] by simp_all
  obtain target w' where a: "login_answer ref realm rdr ''/'' user ok w2 = Some (if ok > 0 then HTTP_OK else HTTP_SEEOTHER, target, w')"
    "sw_auth w' = st" using login_answer_runs [OF w2(1,3)] w2(2) by blast
  show ?thesis
    using assms(2,4-6) create store a w1 by (auto simp: do_login_def session_str_def)
qed

text \<open>A request to log in that has all it needs runs through.\<close>

lemma login_request_runs:
  fixes env :: "('k, 'b, 'l, 't, 'c, 'r, 'ck) swad_env" and w :: "('l, 't, 'c, 'r) swad" and req hdr n conn
  defines "c \<equiv> request_context req conn hdr n"
  defines "cookies \<equiv> cookies_of (en_cookies env) (rq_headers req)"
  assumes req: "rq_method req = HTTP_POST" "HeaderSet_first (rq_headers req) ''Accept-Encoding'' = None" "ck_out cookies = None"
    "sw_route w = cstr (pp_path (PathParser_of (rq_path req)))"
    and session: "session_lookup env cookies w = (Some s, ss)" "session_touch ss (ss_ref s) (sw_time w) = Some ss2"
    and form: "FormData_of (sw_validate w) req = Some (Some form)" "fd_valid form" "FormData_single form ''login'' \<noteq> None"
    and token: "session_str (w\<lparr>sw_sessions := ss2\<rparr>) (ss_ref s) CSRFProtect_name = Some (Some tok)"
      "FormData_single form CSRFProtect_name = Some (val, len)" "cstr val = tok"
      "session_put (w\<lparr>sw_sessions := ss2\<rparr>) (ss_ref s) CSRFProtect_name None None = Some w3"
    and login: "session_str w3 (ss_ref s) SK_REALM = Some (Some realm)" "session_str w3 (ss_ref s) SK_FORM = Some (Some rdr)"
      "do_login env form (ss_ref s) realm rdr w3 = Some (status, target, w')" "300 < status_code status"
  shows "\<exists>c'. pipelineJob (swad_middlewares env) (Some (loginHandler env)) (w, c) = Some (w', c')"
proof -
  let ?w2 = "w\<lparr>sw_sessions := ss2\<rparr>"
  let ?c2 = "HttpContext_set (c\<lparr>cx_pipelinePos := 2\<rparr>) COOKIES_PROP (Some (CO_cookies cookies)) (Some CD_cookiesDeleter)"
  let ?c3 = "HttpContext_set (?c2\<lparr>cx_pipelinePos := 3\<rparr>) SESSION_PROP (Some (CO_session (ss_ref s))) None"
  let ?c4 = "HttpContext_set (?c3\<lparr>cx_pipelinePos := 4\<rparr>) PATHPARSER_PROP
    (Some (CO_path (PathParser_of (rq_path req)))) (Some CD_pathParserDeleter)"
  let ?c5 = "HttpContext_set (?c4\<lparr>cx_pipelinePos := 5\<rparr>) FORMDATA_PROP (Some (CO_form form)) (Some CD_formDataDeleter)"
  let ?c7 = "?c5\<lparr>cx_pipelinePos := 6, cx_pipelinePos := 7\<rparr>"
  have ok: "ctx_ok c" "cx_request c = req" "cx_pipelinePos c = 0" by (simp_all add: c_def)
  obtain r where r: "HttpResponse_createRedirect status (case target of None \<Rightarrow> ''/'' | Some t \<Rightarrow> t) = Some r"
    using createRedirect_ok [OF login(4)] by metis
  then obtain c8 where c8: "HttpContext_setResponse ?c7 (Some r) = Some c8" by (simp add: HttpContext_setResponse_def Let_def)
  have resp: "cx_response c8 \<noteq> None" using c8 by (auto simp: HttpContext_setResponse_def Let_def)
  have ck: "Cookies_get c8 = Some cookies" "cx_request c8 = req"
    using ctx_setResponse_keeps(2,3) [OF c8] ok by (simp_all add: Cookies_get_def ctx_get_set)
  have auth3: "sw_route w3 = sw_route w" using token(4) by (auto simp: session_put_def elim!: bind_SomeE)
  have get: "FormData_get ?c5 = Some form" "Session_get ?c5 = Some (ss_ref s)"
    "PathParser_get ?c5 = Some (PathParser_of (rq_path req))" "Cookies_get ?c2 = Some cookies"
    using ok by (simp_all add: getters_set PathParser_get_def Cookies_get_def ctx_get_set)
  have "loginHandler env (w3, ?c7) = doLogin env (ss_ref s) (w3, ?c7)"
    using get ok req auth3 by (simp add: loginHandler_def)
  also have "\<dots> = Some (w', c8)"
    using get form(2,3) login(1-3) r c8 by (simp add: doLogin_def)
  finally have "login_rest env 1 (w3, ?c5\<lparr>cx_pipelinePos := 6\<rparr>) = Some (w', c8)"
    using login_rest_at(7) [of "?c5\<lparr>cx_pipelinePos := 6\<rparr>" env w3] by simp
  then have "MW_CSRFProtect (login_rest env 1) (?w2, ?c5\<lparr>cx_pipelinePos := 6\<rparr>) = Some (w', c8)"
    using get token by (simp add: MW_CSRFProtect_def)
  then have "MW_FormData (login_rest env 2) (?w2, ?c4\<lparr>cx_pipelinePos := 5\<rparr>) = Some (w', c8)"
    using login_rest_at(6) [of ?c5 env ?w2] form(1) ok by (simp add: MW_FormData_def)
  then have "MW_PathParser (login_rest env 3) (?w2, ?c3\<lparr>cx_pipelinePos := 4\<rparr>) = Some (w', c8)"
    using login_rest_at(5) [of ?c4 env ?w2] ok by (simp add: MW_PathParser_def)
  then have "session_next (login_rest env 4) (ss_ref s) (?w2, ?c2\<lparr>cx_pipelinePos := 3\<rparr>) = Some (w', c8)"
    using login_rest_at(4) [of ?c3 env ?w2] ck(2) req(1) by (simp add: session_next_def)
  then have "MW_Session env (login_rest env 4) (w, ?c2\<lparr>cx_pipelinePos := 3\<rparr>) = Some (w', c8)"
    using get(4) session by (simp add: MW_Session_def)
  then have "MW_Cookies env (login_rest env 5) (w, c\<lparr>cx_pipelinePos := 2\<rparr>) = Some (w', c8)"
    using login_rest_at(3) [of ?c2 env w] ck resp req(3) ok
    by (auto simp: MW_Cookies_def ctx_headers_def cookies_def cookies_emit_def)
  then have "MW_Compress env (login_rest env 6) (w, c\<lparr>cx_pipelinePos := 1\<rparr>) = Some (w', c8)"
    using login_rest_at(2) [of "c\<lparr>cx_pipelinePos := 1\<rparr>" env w] ck(2) resp req(2)
    by (auto simp: MW_Compress_def ctx_headers_def Let_def)
  then show ?thesis using login_rest_at(1) [of c env w] ok by (simp add: pipelineJob_def)
qed

text \<open>A login at \<open>/login\<close>: the session \<open>x\<close> has the token \<open>t\<close>, and the form has it, too.\<close>

type_synonym ex_infos = "(string \<times> ((string \<times> unit) list, (string \<times> entry) list) authinfo) list"

definition ex_env :: "(string, (string \<times> unit) list, (string \<times> entry) list, ex_infos, (string \<times> string) list,
  (string \<times> (string \<times> entry) list realm) list, (string \<times> string) list) swad_env" where
  "ex_env = \<lparr>en_auth = ex_ops, en_cookies = alist_hash, en_compress = (\<lambda>gz body. body), en_login_html = [], en_logout_html = []\<rparr>"

definition ex_session :: "(ex_infos sessobj, sessdel) session" where
  "ex_session = foldl (\<lambda>s (k, v). fst (session_set s k (Some (SO_str v)) (Some SD_free))) (session_new ''x'' 0 0)
     [(CSRFProtect_name, ''t''), (SK_REALM, ''SWAD''), (SK_FORM, ''/login'')]"

definition ex_flow_world :: "((string \<times> entry) list, ex_infos, (string \<times> string) list,
  (string \<times> (string \<times> entry) list realm) list) swad" where
  "ex_flow_world = \<lparr>sw_sessions = sessions_static\<lparr>sx_buckets := (sx_buckets sessions_static)[unat (hash ''x'' SHT_BITS) := [ex_session]],
       sx_next := 1\<rparr>, sw_createLimit = [], sw_auth = ex_auth_static, sw_rnd = \<lparr>rn_answers = [], rn_prng = prng_static\<rparr>,
     sw_validate = FDV_NONE, sw_route = ''/login'', sw_time = 100, sw_mono = Some 100\<rparr>"

definition ex_flow_request :: httprequest where
  "ex_flow_request = (let body = ''_CSRFPROTECT=t&login=1&user=root&pw=x'' in
     HttpRequest_create\<lparr>rq_method := HTTP_POST, rq_path := ''/login'', rq_bodySize := length body, rq_body := map Some body,
       rq_headers := HeaderSet_add (HeaderSet_add HeaderSet_create (header_new ''Cookie'' ''PSW_SID=x'' 6 9))
         (header_new ''Content-Type'' ''application/x-www-form-urlencoded'' 12 33)\<rparr>)"

definition ex_form :: formdata where
  "ex_form = form_parse FDV_NONE ''_CSRFPROTECT=t&login=1&user=root&pw=x''"

lemma ex_request_facts:
  "rq_method ex_flow_request = HTTP_POST" "HeaderSet_first (rq_headers ex_flow_request) ''Accept-Encoding'' = None"
  "ck_out (cookies_of alist_hash (rq_headers ex_flow_request)) = None"
  "Cookies_getCookie alist_hash (cookies_of alist_hash (rq_headers ex_flow_request)) COOKIENAME = Some ''x''"
  "PathParser_of (rq_path ex_flow_request) = PathParser_of ''/login''" "cstr (pp_path (PathParser_of ''/login'')) = ''/login''"
  "FormData_of FDV_NONE ex_flow_request = Some (Some ex_form)"
  by code_simp+

lemma ex_form_facts:
  "fd_valid ex_form" "FormData_single ex_form ''login'' \<noteq> None" "FormData_single ex_form CSRFProtect_name = Some (''t'' @ [NUL], 1)"
  "field_1_32 ex_form ''user'' = Some ''root''" "field_1_32 ex_form ''pw'' = Some ''x''"
  by code_simp+

lemma ex_session_props:
  "session_get ex_session CSRFProtect_name = Some (SO_str ''t'')" "session_get ex_session SK_REALM = Some (SO_str ''SWAD'')"
  "session_get ex_session SK_FORM = Some (SO_str ''/login'')" "session_get ex_session SK_RDR = None"
  "session_get ex_session AUTH_SESSKEY = None"
  by code_simp+

lemma ex_wrong_password:
  "\<exists>ok st auth. Authenticator_login ex_ops (Some 100) ex_auth_static \<lparr>at_authInfos = ph_create (ah_infos ex_ops) 4, at_realm = ''SWAD''\<rparr>
     ''root'' ''x'' = Some (ok, st, auth) \<and> \<not> ok > 0 \<and> st \<noteq> ex_auth_static"
proof -
  have "case Authenticator_login ex_ops (Some 100) ex_auth_static \<lparr>at_authInfos = ph_create (ah_infos ex_ops) 4, at_realm = ''SWAD''\<rparr>
     ''root'' ''x'' of None \<Rightarrow> False | Some (ok, st, auth) \<Rightarrow> \<not> ok > 0 \<and> as_log st \<noteq> as_log ex_auth_static"
    by code_simp
  then show ?thesis by (auto split: option.splits)
qed

lemma ex_flow_sessions:
  "sess_ok (sw_sessions ex_flow_world)" "set (all_sessions (sw_sessions ex_flow_world)) = {ex_session}"
proof -
  let ?self = "sessions_static :: (ex_infos sessobj, sessdel) sessions"
  let ?h = "unat (hash ''x'' SHT_BITS)"
  have s: "ct_ok SPHT_BITS sp_name (ss_buckets ex_session)" "ss_id ex_session = ''x''" "ss_ref ex_session = 0"
    by (simp_all add: ex_session_def session_new_def session_set_def ct_empty_ok ct_store_ok)
  have empty: "all_sessions ?self = []" by (simp add: sessions_static_def ct_empty_def)
  have all: "set (concat ((sx_buckets ?self)[?h := [ex_session]])) = {ex_session}"
    using set_update_bucket [OF sess_ok_static sess_bucket [of "''x''"], where c = "[ex_session]"] empty by (simp del: set_concat)
  show "set (all_sessions (sw_sessions ex_flow_world)) = {ex_session}" using all by (simp add: ex_flow_world_def del: set_concat)
  show "sess_ok (sw_sessions ex_flow_world)"
    unfolding ex_flow_world_def
    using update_bucket_ok [OF sess_ok_static sess_bucket [of "''x''"], where c = "[ex_session]" and n = 1] s all
    by (simp add: sessions_static_def del: set_concat)
qed

lemma ex_session_ref: "ss_ref ex_session = 0"
  by (simp add: ex_session_def session_new_def session_set_def)

lemma ex_flow_runs:
  obtains w' c' where "pipelineJob (swad_middlewares ex_env) (Some (loginHandler ex_env))
      (ex_flow_world, request_context ex_flow_request (Some (''10.0.0.1'', None)) PH_XFWD 0) = Some (w', c')"
    "sw_auth w' \<noteq> sw_auth ex_flow_world"
proof -
  let ?w = ex_flow_world and ?ck = "cookies_of (en_cookies ex_env) (rq_headers ex_flow_request)"
  note fs = ex_flow_sessions
  have w: "sw_time ?w = 100" "sw_mono ?w = Some 100" "sw_auth ?w = ex_auth_static" "sw_validate ?w = FDV_NONE"
    "sw_route ?w = ''/login''" "en_cookies ex_env = alist_hash" "en_auth ex_env = ex_ops"
    by (simp_all add: ex_flow_world_def ex_env_def)
  have ex: "ss_ref ex_session = 0" "ss_id ex_session = ''x''" "\<not> sessionExpired ex_session 100"
    by (simp_all add: ex_session_def session_new_def session_set_def sessionExpired_def MAXIDLE_def MAXAGE_def)
  have fresh: "clean 100 (sw_sessions ?w) = sw_sessions ?w"
    by (simp add: clean_def ex_flow_world_def sessions_static_def CLEANINTERVAL_def)
  obtain found ss where find: "findSession ''x'' 100 (sw_sessions ?w) = (found, ss)" by fastforce
  have "found = Some ex_session" using findSession_spec [OF fs(1) find] fs(2) ex by (simp del: set_concat)
  note find = find [unfolded this]
  note li = live_in [OF fs(1) find]
  obtain ss2 where touch: "session_touch ss 0 100 = Some ss2" using li(2) ex(1) by (simp add: session_touch_def)
  let ?w2 = "?w\<lparr>sw_sessions := ss2\<rparr>"
  have ok2: "w_ok ?w2" using session_touch_spec(1) [OF li(5) touch] by simp
  have p2: "w_prop ?w2 0 k = Some (session_get ex_session k)" for k
    using session_touch_spec(2) [OF li(5) touch] li(2) ex(1) by (simp add: Session_getProp_def)
  obtain w3 where put: "session_put ?w2 0 CSRFProtect_name None None = Some w3"
    using session_put_Some [OF ok2] p2 by fastforce
  note put3 = session_put_spec [OF ok2 put]
  have w3: "sw_auth w3 = ex_auth_static" "sw_mono w3 = Some 100"
    by (subst put3(3), simp add: w)+
  obtain ok st auth where l: "Authenticator_login ex_ops (Some 100) ex_auth_static
      \<lparr>at_authInfos = ph_create (ah_infos ex_ops) 4, at_realm = ''SWAD''\<rparr> ''root'' ''x'' = Some (ok, st, auth)"
    "\<not> ok > 0" "st \<noteq> ex_auth_static" using ex_wrong_password by blast
  have p3: "w_prop w3 0 SK_RDR = Some None" "w_prop w3 0 AUTH_SESSKEY = Some None"
    using put3(2) p2 ex_session_props by (simp_all add: csrf_keys)
  obtain target w' where d: "do_login ex_env ex_form 0 ''SWAD'' ''/login'' w3 = Some (HTTP_SEEOTHER, target, w')" "sw_auth w' = st"
    using do_login_runs [OF put3(1) p3 ex_form_facts(4,5), of ex_env "''SWAD''" ok st auth "''/login''"] l w w3 by auto
  have "\<exists>c'. pipelineJob (swad_middlewares ex_env) (Some (loginHandler ex_env))
      (?w, request_context ex_flow_request (Some (''10.0.0.1'', None)) PH_XFWD 0) = Some (w', c')"
  proof (rule login_request_runs)
    show "session_lookup ex_env ?ck ?w = (Some ex_session, ss)"
      using find fresh by (simp add: session_lookup_def w ex_request_facts)
    show "session_touch ss (ss_ref ex_session) (sw_time ?w) = Some ss2" using touch ex(1) w(1) by simp
    show "session_put ?w2 (ss_ref ex_session) CSRFProtect_name None None = Some w3" using put ex(1) by simp
    show "session_str ?w2 (ss_ref ex_session) CSRFProtect_name = Some (Some ''t'')"
      using p2 ex(1) by (simp add: session_str_def ex_session_props)
    show "session_str w3 (ss_ref ex_session) SK_REALM = Some (Some ''SWAD'')" "session_str w3 (ss_ref ex_session) SK_FORM = Some (Some ''/login'')"
      using put3(2) p2 ex(1) by (simp_all add: session_str_def ex_session_props)
    show "do_login ex_env ex_form (ss_ref ex_session) ''SWAD'' ''/login'' w3 = Some (HTTP_SEEOTHER, target, w')" using d(1) ex(1) by simp
    show "300 < status_code HTTP_SEEOTHER" "cstr (''t'' @ [NUL]) = ''t''" by (simp_all add: cstr_def)
    show "FormData_of (sw_validate ?w) ex_flow_request = Some (Some ex_form)" by (simp add: w ex_request_facts)
    show "sw_route ?w = cstr (pp_path (PathParser_of (rq_path ex_flow_request)))" by (simp add: w ex_request_facts)
    show "ck_out (cookies_of (en_cookies ex_env) (rq_headers ex_flow_request)) = None" by (simp add: w ex_request_facts)
  qed (rule ex_request_facts ex_form_facts)+
  then obtain c' where run: "pipelineJob (swad_middlewares ex_env) (Some (loginHandler ex_env))
      (?w, request_context ex_flow_request (Some (''10.0.0.1'', None)) PH_XFWD 0) = Some (w', c')" ..
  have changed: "sw_auth w' \<noteq> sw_auth ?w" using d(2) l(3) w(3) by simp
  show thesis by (rule that [OF run changed])
qed


end
