(* ===== verification/Compression.thy ===== *)
theory Compression
  imports Request_Flow
begin

text \<open>
  What \<open>MW_Compress\<close> promises: the loop over \<open>Accept-Encoding\<close> against a reference that splits the
  header into words, and the body a client has after it undid the encoding.
\<close>

section \<open>The loop over the header\<close>

text \<open>A reference for the loop over \<open>Accept-Encoding\<close>: the words between blanks and commas.\<close>

definition is_sep :: "char \<Rightarrow> bool" where
  "is_sep c \<longleftrightarrow> c = CHR '' '' \<or> c = CHR '',''"

fun accept_words :: "string \<Rightarrow> string list" where
  "accept_words [] = [[]]"
| "accept_words (c # s) = (if is_sep c then [] # accept_words s else (c # hd (accept_words s)) # tl (accept_words s))"

lemma accept_words_Cons: "accept_words s = takeWhile (Not \<circ> is_sep) s #
    (case dropWhile (Not \<circ> is_sep) s of [] \<Rightarrow> [] | c # r \<Rightarrow> accept_words r)"
  by (induction s) auto

lemma accept_words_seps: "w \<noteq> [] \<Longrightarrow> w \<in> set (accept_words (dropWhile is_sep s)) \<longleftrightarrow> w \<in> set (accept_words s)"
  by (induction s) auto

lemma strcspn_sep: "strcspn s '' ,'' = length (takeWhile (Not \<circ> is_sep) s)"
  by (simp add: strcspn_def comp_def is_sep_def)

lemma accept_loop_words:
  "accept_loop s d g = (d \<or> ''deflate'' \<in> set (accept_words s), g \<or> ''gzip'' \<in> set (accept_words s))"
proof (induction s d g rule: accept_loop.induct)
  case (1 s d g)
  let ?w = "takeWhile (Not \<circ> is_sep) s" and ?n = "strcspn s '' ,''"
  let ?rest = "dropWhile (\<lambda>c. c = CHR '' '' \<or> c = CHR '','') (drop ?n s)"
  have sep: "(\<lambda>c. c = CHR '' '' \<or> c = CHR '','') = is_sep" by (auto simp: is_sep_def)
  have split: "drop ?n s = dropWhile (Not \<circ> is_sep) s" "take ?n s = ?w"
    unfolding strcspn_sep by (simp_all only: dropWhile_eq_drop [symmetric] takeWhile_eq_take [symmetric])
  have word: "?n = length v \<and> take (length v) s = v \<longleftrightarrow> ?w = v" for v
    using split(2) strcspn_sep [of s] by metis
  have rest: "v \<noteq> [] \<Longrightarrow> v \<in> set (accept_words s) \<longleftrightarrow> ?w = v \<or> v \<in> set (accept_words ?rest)" for v
  proof -
    assume v: "v \<noteq> []"
    have "v \<in> set (accept_words s) \<longleftrightarrow> v = ?w \<or> v \<in> set (case dropWhile (Not \<circ> is_sep) s of [] \<Rightarrow> [] | c # r \<Rightarrow> accept_words r)"
      by (subst accept_words_Cons) simp
    also have "v \<in> set (case dropWhile (Not \<circ> is_sep) s of [] \<Rightarrow> [] | c # r \<Rightarrow> accept_words r)
        \<longleftrightarrow> v \<in> set (accept_words (dropWhile (Not \<circ> is_sep) s))"
    proof (cases "dropWhile (Not \<circ> is_sep) s")
      case Nil
      then show ?thesis using v by (simp del: dropWhile_eq_Nil_conv)
    next
      case (Cons c r)
      then have "is_sep c" by (metis comp_apply hd_dropWhile list.distinct(1) list.sel(1))
      then show ?thesis using Cons v by simp
    qed
    finally show ?thesis unfolding sep split(1) accept_words_seps [OF v] by blast
  qed
  have nil: "v \<notin> set (accept_words ?rest)" if "?rest = []" "v \<noteq> []" for v
    unfolding that(1) using that(2) by simp
  have dw: "(?n = 7 \<and> take 7 s = ''deflate'') = (?w = ''deflate'')" using word [of "''deflate''"] by (simp add: numeral_eq_Suc)
  have gw: "(?n = 4 \<and> take 4 s = ''gzip'') = (?w = ''gzip'')" using word [of "''gzip''"] by (simp add: numeral_eq_Suc)
  have dr: "''deflate'' \<in> set (accept_words s) \<longleftrightarrow> ?w = ''deflate'' \<or> ''deflate'' \<in> set (accept_words ?rest)"
    by (rule rest) simp
  have gr: "''gzip'' \<in> set (accept_words s) \<longleftrightarrow> ?w = ''gzip'' \<or> ''gzip'' \<in> set (accept_words ?rest)"
    by (rule rest) simp
  have unf: "accept_loop s d g = (if ?rest \<noteq> [] then accept_loop ?rest (d \<or> ?w = ''deflate'') (g \<or> ?w = ''gzip'')
      else (d \<or> ?w = ''deflate'', g \<or> ?w = ''gzip''))"
    by (subst accept_loop.simps) (simp only: Let_def dw gw)
  note IH = 1 [OF refl refl refl refl]
  show ?case
  proof (cases "?rest = []")
    case True
    have "''deflate'' \<notin> set (accept_words ?rest)" "''gzip'' \<notin> set (accept_words ?rest)"
      by (rule nil [OF True], simp)+
    then show ?thesis unfolding unf dr gr using True by (simp del: dropWhile_eq_Nil_conv)
  next
    case False
    then have "accept_loop s d g = accept_loop ?rest (d \<or> ?w = ''deflate'') (g \<or> ?w = ''gzip'')"
      unfolding unf by (simp only: if_True simp_thms)
    also have "\<dots> = ((d \<or> ?w = ''deflate'') \<or> ''deflate'' \<in> set (accept_words ?rest),
        (g \<or> ?w = ''gzip'') \<or> ''gzip'' \<in> set (accept_words ?rest))"
      using IH [OF False] unfolding dw gw .
    finally show ?thesis unfolding dr gr by (simp only: disj_assoc)
  qed
qed

section \<open>Properties\<close>

text \<open>The name of an encoding, and what zlib documents: inflating undoes the compression.\<close>

definition encoding_name :: "bool \<Rightarrow> string" where
  "encoding_name gz = (if gz then ''gzip'' else ''deflate'')"

definition inflates :: "('k, 'b, 'l, 't, 'c, 'r, 'ck) swad_env \<Rightarrow> (bool \<Rightarrow> string \<Rightarrow> string) \<Rightarrow> bool" where
  "inflates env inflate \<longleftrightarrow> (\<forall>gz body. inflate gz (en_compress env gz body) = body)"

lemma compressed_response:
  assumes "resp_ok r" "rs_sendPos r = 0" "length b = n"
  obtains r1 r2 where "HttpResponse_passBody r b n = Some r1"
    "set_header ''Content-Encoding'' (encoding_name gz) r1 = Some r2" "resp_ok r2" "rs_body r2 = Some b"
    "rs_bodySize r2 = n" "rs_status r2 = rs_status r" "announces r2 n"
    "map h_value (headers_of (rs_headers r2) ''Content-Encoding'') = [encoding_name gz]"
proof -
  obtain r1 where p: "HttpResponse_passBody r b n = Some r1" "resp_ok r1" "announces r1 n" "rs_body r1 = Some b"
    "rs_bodySize r1 = n" "rs_status r1 = rs_status r"
    using passBody_ok [OF assms(1,3,2)] by metis
  have len: "length ''Content-Encoding'' + length (encoding_name gz) + 4 \<le> UINT16_MAX"
    by (simp add: encoding_name_def UINT16_MAX_def)
  obtain h where h: "set_header ''Content-Encoding'' (encoding_name gz) r1 = Some (r1\<lparr>rs_headers := HeaderSet_set (rs_headers r1) h\<rparr>)"
    "h_name h = ''Content-Encoding''" "h_value h = encoding_name gz"
    "resp_ok (r1\<lparr>rs_headers := HeaderSet_set (rs_headers r1) h\<rparr>)"
    using set_header_Some [OF p(2) len] by metis
  have n: "\<not> strcaseeq ''Content-Length'' ''Content-Encoding''" "strcaseeq ''Content-Encoding'' ''Content-Encoding''"
    by code_simp+
  have "hs_ok (rs_headers r1)" using p(2) by (simp add: resp_ok_def)
  then show thesis
    using that [OF p(1) h(1,4)] p n h(2,3) by (simp add: announces_def HeaderSet_set_spec)
qed

text \<open>
  C26: compression is transparent. Whatever response the rest of the pipeline left, \<open>MW_Compress\<close>
  returns; the response is the same, as no encoding the client accepts makes it shorter, or it has the
  same status and a shorter body with its length announced, which a client that undoes the one
  \<open>Content-Encoding\<close> of the response turns into the original body. The encoding is a word of the
  request's \<open>Accept-Encoding\<close>, and \<open>gzip\<close> is preferred.
\<close>

theorem compression_transparent:
  assumes "inflates env inflate" "nxt (w, c) = Some (w1, c1)" "cx_response c1 = Some r" "resp_ok r" "rs_sendPos r = 0"
    "rs_bodySize r < 2 ^ 32"
  shows "\<exists>c2 r2. MW_Compress env nxt (w, c) = Some (w1, c2) \<and> cx_response c2 = Some r2 \<and> resp_ok r2
    \<and> rs_status r2 = rs_status r
    \<and> (r2 = r \<and> (\<forall>gz h. HeaderSet_first (ctx_headers c1) ''Accept-Encoding'' = Some h
          \<and> encoding_name gz \<in> set (accept_words (h_value h)) \<and> (''gzip'' \<in> set (accept_words (h_value h)) \<longrightarrow> gz)
          \<longrightarrow> rs_bodySize r \<le> length (en_compress env gz (body_bytes r)))
      \<or> (\<exists>gz h. HeaderSet_first (ctx_headers c1) ''Accept-Encoding'' = Some h
        \<and> encoding_name gz \<in> set (accept_words (h_value h)) \<and> (''gzip'' \<in> set (accept_words (h_value h)) \<longrightarrow> gz)
        \<and> map h_value (headers_of (rs_headers r2) ''Content-Encoding'') = [encoding_name gz]
        \<and> inflate gz (body_bytes r2) = body_bytes r \<and> rs_bodySize r2 < rs_bodySize r
        \<and> announces r2 (rs_bodySize r2)))"
proof (cases "HeaderSet_first (ctx_headers c1) ''Accept-Encoding''")
  case None
  then show ?thesis using assms(2-5) by (simp add: MW_Compress_def Let_def)
next
  case (Some h)
  let ?d = "''deflate'' \<in> set (accept_words (h_value h))" and ?g = "''gzip'' \<in> set (accept_words (h_value h))"
  let ?z = "take (rs_bodySize r) (en_compress env ?g (body_bytes r))"
  have loop: "accept_loop (h_value h) False False = (?d, ?g)" by (simp add: accept_loop_words)
  show ?thesis
  proof (cases "rs_bodySize r = 0 \<or> \<not> (?d \<or> ?g) \<or> length ?z \<ge> rs_bodySize r")
    case True
    have "rs_body r = Some (body_bytes r)" if "rs_bodySize r \<noteq> 0"
      using that assms(4) by (cases "rs_body r") (auto simp: resp_ok_def body_bytes_def)
    then have "MW_Compress env nxt (w, c) = Some (w1, c1)"
      using assms(2,3,4,6) Some True loop by (auto simp: MW_Compress_def Let_def resp_ok_def)
    moreover have "rs_bodySize r \<le> length (en_compress env gz (body_bytes r))"
      if "encoding_name gz \<in> set (accept_words (h_value h))" "?g \<longrightarrow> gz" for gz
      using True that by (cases gz) (auto simp: encoding_name_def)
    ultimately show ?thesis using assms(3,4) Some by (intro exI [of _ c1] exI [of _ r]) simp
  next
    case False
    have len: "length (body_bytes r) = rs_bodySize r" using assms(4) by (simp add: resp_ok_def)
    then have body: "rs_body r = Some (body_bytes r)" using False by (cases "rs_body r") (auto simp: body_bytes_def)
    obtain r1 r2 where c: "HttpResponse_passBody r ?z (length ?z) = Some r1"
      "set_header ''Content-Encoding'' (encoding_name ?g) r1 = Some r2" "resp_ok r2" "rs_body r2 = Some ?z"
      "rs_bodySize r2 = length ?z" "rs_status r2 = rs_status r" "announces r2 (length ?z)"
      "map h_value (headers_of (rs_headers r2) ''Content-Encoding'') = [encoding_name ?g]"
      by (rule compressed_response [OF assms(4,5) refl, where gz = ?g and b = ?z]) (rule that)
    have run: "MW_Compress env nxt (w, c) = Some (w1, c1\<lparr>cx_response := Some r2\<rparr>)"
      using assms(2,3,6) Some False loop body len c(1,2) by (simp add: MW_Compress_def Let_def encoding_name_def) blast
    have "?z = en_compress env ?g (body_bytes r)" using False by auto
    then have "inflate ?g (body_bytes r2) = body_bytes r"
      using assms(1) c(4) by (simp add: inflates_def body_bytes_def)
    then show ?thesis
      using run c False Some by (intro exI conjI disjI2) (auto simp: encoding_name_def)
  qed
qed

text \<open>A compression that knows one body: it is shortened, and the short one takes its place.\<close>

definition ex_zip :: "bool \<Rightarrow> string \<Rightarrow> string" where
  "ex_zip gz body = (if body = ''aaaaaaaa'' then ''8a'' else if body = ''8a'' then ''aaaaaaaa'' else body)"

definition ex_compress_context :: "(string \<times> string) list httpctx" where
  "ex_compress_context = (request_context (HttpRequest_create\<lparr>rq_headers := HeaderSet_add HeaderSet_create
       (header_new ''Accept-Encoding'' ''br, gzip'' 15 8)\<rparr>) None PH_XFWD 0)\<lparr>cx_response :=
     Some \<lparr>rs_bodySize = 8, rs_sendPos = 0, rs_headers = HeaderSet_create, rs_body = Some ''aaaaaaaa'', rs_status = HTTP_OK,
       rs_version = HTTP_1_1, rs_deleteScheduled = 0\<rparr>\<rparr>"

theorem compression_transparent_witness:
  "\<exists>c2 r2. MW_Compress (ex_env\<lparr>en_compress := ex_zip\<rparr>) Some (ex_flow_world, ex_compress_context) = Some (ex_flow_world, c2)
     \<and> cx_response c2 = Some r2 \<and> rs_status r2 = HTTP_OK \<and> body_bytes r2 = ''8a''"
proof -
  let ?r = "\<lparr>rs_bodySize = 8, rs_sendPos = 0, rs_headers = HeaderSet_create, rs_body = Some ''aaaaaaaa'', rs_status = HTTP_OK,
       rs_version = HTTP_1_1, rs_deleteScheduled = 0\<rparr>"
  let ?h = "header_new ''Accept-Encoding'' ''br, gzip'' 15 8"
  have inf: "inflates (ex_env\<lparr>en_compress := ex_zip\<rparr>) ex_zip" by (simp add: inflates_def ex_zip_def)
  have ok: "resp_ok ?r" by (simp add: resp_ok_def body_bytes_def hs.inv_empty hs.every_empty)
  have resp: "cx_response ex_compress_context = Some ?r" by (simp add: ex_compress_context_def)
  have h: "HeaderSet_first (ctx_headers ex_compress_context) ''Accept-Encoding'' = Some ?h"
    by (simp add: HeaderSet_first_spec ctx_headers_def ex_compress_context_def hs.look_add hs.inv_empty hs.look_empty
        strcaseeq_def header_new_def)
  have words: "set (accept_words (h_value ?h)) = {''br'', [], ''gzip''}" by (simp add: header_new_def is_sep_def insert_commute)
  have unzip: "b = ''8a''" if "ex_zip gz b = ''aaaaaaaa''" "length b < 8" for gz b
    using that by (auto simp: ex_zip_def split: if_splits)
  obtain c2 r2 where r2:
    "MW_Compress (ex_env\<lparr>en_compress := ex_zip\<rparr>) Some (ex_flow_world, ex_compress_context) = Some (ex_flow_world, c2)"
    "cx_response c2 = Some r2" "rs_status r2 = HTTP_OK" "resp_ok r2"
    "(\<forall>gz h. HeaderSet_first (ctx_headers ex_compress_context) ''Accept-Encoding'' = Some h
          \<and> encoding_name gz \<in> set (accept_words (h_value h)) \<and> (''gzip'' \<in> set (accept_words (h_value h)) \<longrightarrow> gz)
          \<longrightarrow> 8 \<le> length (ex_zip gz ''aaaaaaaa''))
      \<or> (\<exists>gz. ex_zip gz (body_bytes r2) = ''aaaaaaaa'' \<and> rs_bodySize r2 < 8)"
    using compression_transparent [where nxt = Some and w = ex_flow_world and c = ex_compress_context
        and env = "ex_env\<lparr>en_compress := ex_zip\<rparr>" and inflate = ex_zip, OF inf refl resp ok]
    by (fastforce simp: body_bytes_def [of ?r])
  have "encoding_name True \<in> set (accept_words (h_value ?h))" unfolding words by (simp add: encoding_name_def)
  moreover have "\<not> 8 \<le> length (ex_zip True ''aaaaaaaa'')" by (simp add: ex_zip_def)
  ultimately obtain gz where "ex_zip gz (body_bytes r2) = ''aaaaaaaa''" "rs_bodySize r2 < 8" using r2(5) h by blast
  then have "body_bytes r2 = ''8a''" using unzip r2(4) by (simp add: resp_ok_def)
  then show ?thesis using r2 by blast
qed

end
