(* ===== verification/Http_Server.thy ===== *)
theory Http_Server
  imports Request_Flow Ip_Addr
begin

text \<open>
  \<open>httpserver.c\<close>, the data: the configuration of a server, its routes and middlewares, the decision
  about a received request, the line that is logged for it, and what is done to its response before
  it is sent; and from \<open>main.c\<close> the pipeline that swad sets up. What happens to the objects of a
  connection over time is in \<open>Http_Connection\<close>.

  The servers of poser and their options are external. The fields of the options that are only passed
  on to poser are kept as they were given. A pointer that dangles or was never set is \<^term>\<open>None\<close>.
\<close>

section \<open>Data\<close>

definition ROUTESCHUNK :: nat where
  "ROUTESCHUNK = 32"

definition MIDDLEWARESCHUNK :: nat where
  "MIDDLEWARESCHUNK = 8"

definition CONNTIMEOUT :: nat where
  "CONNTIMEOUT = 10"

datatype loglevel = PSC_L_FATAL | PSC_L_ERROR | PSC_L_WARNING | PSC_L_INFO | PSC_L_DEBUG

type_synonym loglevel_callback = "httprequest \<Rightarrow> httpstatus \<Rightarrow> loglevel"

record 'h httproute =
  rt_prefix :: string
  rt_handler :: 'h
  rt_mask :: httpmethod
  rt_check :: "(string \<Rightarrow> httpmethod) option"

text \<open>\<open>sv_loglevel\<close> is \<^term>\<open>None\<close> while it is not initialised.\<close>

record ('h, 'm) httpserver =
  sv_loglevel :: "loglevel_callback option option"
  sv_routes :: "'h httproute list"
  sv_middlewares :: "'m list"
  sv_nat64Prefix :: "ipaddr option"
  sv_routescapa :: nat
  sv_middlewarescapa :: nat
  sv_trustedHeader :: proxyheader
  sv_trustedProxies :: nat

text \<open>A protocol that was never chosen is the 0 of the enumeration, here \<^term>\<open>None\<close>.\<close>

record httpserveropts =
  so_port :: int
  so_bind :: "string list"
  so_tls :: "(string option \<times> string option) option"
  so_numericHosts :: bool
  so_proto :: "psc_proto option"
  so_nat64Prefix :: "ipaddr option"
  so_trustedHeader :: proxyheader
  so_trustedProxies :: int

section \<open>Setting a server up\<close>

definition HttpServerOpts_create :: "int \<Rightarrow> httpserveropts" where
  "HttpServerOpts_create port =
     \<lparr>so_port = port, so_bind = [], so_tls = None, so_numericHosts = False, so_proto = None,
      so_nat64Prefix = None, so_trustedHeader = PH_XFWD OR PH_RFC, so_trustedProxies = 0\<rparr>"

definition HttpServerOpts_bind :: "httpserveropts \<Rightarrow> string \<Rightarrow> httpserveropts" where
  "HttpServerOpts_bind self bindhost = self\<lparr>so_bind := so_bind self @ [bindhost]\<rparr>"

definition HttpServerOpts_enableTls :: "httpserveropts \<Rightarrow> string option \<Rightarrow> string option \<Rightarrow> httpserveropts" where
  "HttpServerOpts_enableTls self certfile keyfile = self\<lparr>so_tls := Some (certfile, keyfile)\<rparr>"

definition HttpServerOpts_numericHosts :: "httpserveropts \<Rightarrow> httpserveropts" where
  "HttpServerOpts_numericHosts self = self\<lparr>so_numericHosts := True\<rparr>"

definition HttpServerOpts_setProto :: "httpserveropts \<Rightarrow> psc_proto option \<Rightarrow> httpserveropts" where
  "HttpServerOpts_setProto self proto = self\<lparr>so_proto := proto\<rparr>"

definition HttpServerOpts_trustedProxies :: "httpserveropts \<Rightarrow> int \<Rightarrow> httpserveropts" where
  "HttpServerOpts_trustedProxies self num = self\<lparr>so_trustedProxies := (if num < 0 then 0 else num)\<rparr>"

definition HttpServerOpts_trustedHeader :: "httpserveropts \<Rightarrow> proxyheader \<Rightarrow> httpserveropts" where
  "HttpServerOpts_trustedHeader self trusted = self\<lparr>so_trustedHeader := trusted\<rparr>"

definition HttpServerOpts_nat64Prefix :: "httpserveropts \<Rightarrow> ipaddr option \<Rightarrow> httpserveropts" where
  "HttpServerOpts_nat64Prefix self prefix = self\<lparr>so_nat64Prefix := prefix\<rparr>"

text \<open>\<open>tcp\<close> is whether poser could create its server.\<close>

definition HttpServer_create :: "bool \<Rightarrow> httpserveropts \<Rightarrow> ('h, 'm) httpserver option" where
  "HttpServer_create tcp opts =
     (if \<not> tcp then None
      else Some \<lparr>sv_loglevel = None, sv_routes = [], sv_middlewares = [], sv_nat64Prefix = so_nat64Prefix opts,
        sv_routescapa = ROUTESCHUNK, sv_middlewarescapa = MIDDLEWARESCHUNK,
        sv_trustedHeader = so_trustedHeader opts, sv_trustedProxies = nat (so_trustedProxies opts)\<rparr>)"

definition HttpServer_addRoute :: "('h, 'm) httpserver \<Rightarrow> string \<Rightarrow> 'h \<Rightarrow> httpmethod
    \<Rightarrow> (string \<Rightarrow> httpmethod) option \<Rightarrow> ('h, 'm) httpserver" where
  "HttpServer_addRoute self pfx hdl methodMask methodCheck =
     (let self = (if length (sv_routes self) = sv_routescapa self
            then self\<lparr>sv_routescapa := sv_routescapa self + ROUTESCHUNK\<rparr> else self)
      in self\<lparr>sv_routes := sv_routes self @
           [\<lparr>rt_prefix = pfx, rt_handler = hdl, rt_mask = methodMask, rt_check = methodCheck\<rparr>]\<rparr>)"

definition HttpServer_addMiddleware :: "('h, 'm) httpserver \<Rightarrow> 'm \<Rightarrow> ('h, 'm) httpserver" where
  "HttpServer_addMiddleware self hdl =
     (let self = (if length (sv_middlewares self) = sv_middlewarescapa self
            then self\<lparr>sv_middlewarescapa := sv_middlewarescapa self + MIDDLEWARESCHUNK\<rparr> else self)
      in self\<lparr>sv_middlewares := sv_middlewares self @ [hdl]\<rparr>)"

definition HttpServer_setLogLevelCallback :: "('h, 'm) httpserver \<Rightarrow> loglevel_callback option \<Rightarrow> ('h, 'm) httpserver" where
  "HttpServer_setLogLevelCallback self cb = self\<lparr>sv_loglevel := Some cb\<rparr>"

section \<open>The pipeline of main.c\<close>

definition logLevelFor :: loglevel_callback where
  "logLevelFor request status =
     (if status \<noteq> HTTP_OK then PSC_L_INFO
      else
        (let path = rq_path request
         in if first_char path = CHR ''/'' \<and> (first_char (drop 1 path) = NUL \<or> first_char (drop 1 path) = CHR ''?'')
            then PSC_L_DEBUG else PSC_L_INFO))"

type_synonym ('l, 't, 'c, 'r, 'ck) swad_server =
  "((('l, 't, 'c, 'r) swad, 'ck ctxobj, ctxdel) handler, (('l, 't, 'c, 'r) swad, 'ck ctxobj, ctxdel) middleware) httpserver"

definition setupPipeline ::
  "('k, 'b, 'l, 't, 'c, 'r, 'ck) swad_env \<Rightarrow> ('l, 't, 'c, 'r, 'ck) swad_server \<Rightarrow> ('l, 't, 'c, 'r, 'ck) swad_server" where
  "setupPipeline env server =
     (let server = foldl HttpServer_addMiddleware server (swad_middlewares env);
          server = HttpServer_addRoute server ''/login'' (loginHandler env) (HTTP_GET OR HTTP_POST) None;
          server = HttpServer_addRoute server ''/'' (rootHandler env) HTTP_GET None
      in HttpServer_setLogLevelCallback server (Some logLevelFor))"

section \<open>The line that is logged\<close>

text \<open>
  \<open>logRequest\<close> writes the addresses, from the first trusted one on, into a buffer of 1024 bytes. Each
  is written by \<open>snprintf\<close> into the room that is left, and the position moves on by what it would have
  written.
\<close>

definition LOG_ADDR_SIZE :: nat where
  "LOG_ADDR_SIZE = 1024"

definition log_remote :: "ipaddr option \<Rightarrow> remoteentry \<Rightarrow> string" where
  "log_remote nat64Prefix remote =
     (let addr = (case IpAddr_create (re_addr remote) of
            None \<Rightarrow> re_addr remote
          | Some ip \<Rightarrow>
              (let ipv4 = (case nat64Prefix of None \<Rightarrow> None | Some p \<Rightarrow> IpAddr_nat64 ip [p])
               in fst (IpAddr_string (case ipv4 of Some ipv4 \<Rightarrow> ipv4 | None \<Rightarrow> ip))))
      in case re_host remote of Some host \<Rightarrow> addr @ '' ('' @ host @ '')'' | None \<Rightarrow> addr)"

fun log_loop :: "ipaddr option \<Rightarrow> remoteentry list \<Rightarrow> string \<Rightarrow> string" where
  "log_loop nat64Prefix [] raddr = raddr"
| "log_loop nat64Prefix (remote # remotes) raddr =
     (let out = log_remote nat64Prefix remote @ (if remotes \<noteq> [] then '', '' else []);
          raddr_pos = length raddr + length out;
          raddr = raddr @ take (LOG_ADDR_SIZE - length raddr - 1) out
      in if raddr_pos \<ge> LOG_ADDR_SIZE - 1 then take (LOG_ADDR_SIZE - 1) raddr
         else log_loop nat64Prefix remotes raddr)"

definition log_text :: "httpstatus \<Rightarrow> httprequest \<Rightarrow> string \<Rightarrow> string" where
  "log_text status request raddr =
     ''http: '' @ dec (status_code status) @ '' - '' @ rq_meth request @ '' '' @ rq_path request @ '' HTTP/1.''
       @ (case rq_version request of HTTP_1_0 \<Rightarrow> ''0'' | HTTP_1_1 \<Rightarrow> ''1'') @ '' - '' @ raddr"

definition logRequest ::
  "('h, 'm) httpserver \<Rightarrow> 'ck httpctx \<Rightarrow> ((loglevel \<times> string) \<times> 'ck httpctx) option" where
  "logRequest self context = do {
     (remotes, context) \<leftarrow> ProxyList_get context;
     (i, context) \<leftarrow> ProxyList_firstTrusted context;
     let raddr = log_loop (sv_nat64Prefix self) (drop i remotes) [];
     response \<leftarrow> cx_response context;
     let status = rs_status response;
     loglevel \<leftarrow> sv_loglevel self;
     let level = (case loglevel of None \<Rightarrow> PSC_L_INFO | Some cb \<Rightarrow> cb (cx_request context) status);
     Some ((level, log_text status (cx_request context) raddr), context)
   }"

section \<open>The end of a request\<close>

text \<open>
  What becomes of the connection behind the response. \<open>pipelineJobDone\<close> gives the line that is logged,
  the response as it is sent, and this; its argument \<open>job\<close> is whether the job has completed, if there
  was one. A job that timed out has its response destroyed, but the context still points to it.
\<close>

datatype conn_fate = CF_reuse | CF_close

definition keeps_connection :: "'ck httpctx \<Rightarrow> httpstatus \<Rightarrow> bool" where
  "keeps_connection context status \<longleftrightarrow> cx_conn context \<and> cx_reuse context \<and> status \<noteq> HTTP_BADREQUEST
     \<and> status \<noteq> HTTP_TOOMANYREQUESTS \<and> status_code status < status_code HTTP_INTERNALSERVERERROR"

definition finish_headers :: "bool \<Rightarrow> httpresponse \<Rightarrow> httpresponse option" where
  "finish_headers keep response =
     (if keep then do {
        response \<leftarrow> set_header ''Connection'' ''keep-alive'' response;
        set_header ''Keep-Alive'' (''timeout='' @ dec CONNTIMEOUT @ '', max=1000'') response
      }
      else set_header ''Connection'' ''close'' response)"

definition pipelineJobDone ::
  "('h, 'm) httpserver \<Rightarrow> bool option \<Rightarrow> 'ck httpctx \<Rightarrow> ((loglevel \<times> string) \<times> httpresponse \<times> conn_fate) option" where
  "pipelineJobDone self job context = do {
     let response = (if job = Some False
           then HttpResponse_createError HTTP_SERVICEUNAVAILABLE (Some ''Request timed out.'')
           else cx_response context);
     let context = (if job = Some False then context\<lparr>cx_response := None\<rparr> else context);
     response \<leftarrow> (case response of
         None \<Rightarrow> HttpResponse_createError HTTP_INTERNALSERVERERROR None
       | Some response \<Rightarrow> Some response);
     (logged, context) \<leftarrow> logRequest self context;
     let keep = keeps_connection context (rs_status response);
     response \<leftarrow> finish_headers keep response;
     if \<not> cx_conn context then None
     else Some (logged, response, if keep then CF_reuse else CF_close)
   }"

section \<open>The decision about a request\<close>

text \<open>The first route with a prefix of the target, and the methods it allows.\<close>

fun route_loop :: "'h httproute list \<Rightarrow> string \<Rightarrow> ('h \<times> httpmethod) option" where
  "route_loop [] reqPath = None"
| "route_loop (route # routes) reqPath =
     (if take (length (rt_prefix route)) reqPath = rt_prefix route
      then Some (rt_handler route, case rt_check route of Some check \<Rightarrow> check reqPath | None \<Rightarrow> rt_mask route)
      else route_loop routes reqPath)"

text \<open>\<open>requestReceived\<close> up to the label \<open>done\<close>: a response, or the handler to run.\<close>

definition route_request ::
  "('h, 'm) httpserver \<Rightarrow> httprequest \<Rightarrow> (httpresponse option + 'h)" where
  "route_request self req =
     (if rq_status req \<noteq> HTTP_OK then Inl (HttpResponse_createError (rq_status req) None)
      else
        (case route_loop (sv_routes self) (rq_path req) of
           None \<Rightarrow> Inl (HttpResponse_createError HTTP_NOTFOUND None)
         | Some (hdl, msk) \<Rightarrow>
             if rq_method req AND msk = 0
             then Inl (do {
               response \<leftarrow> HttpResponse_createError HTTP_METHODNOTALLOWED None;
               HttpResponse_setAllowHeader response msk
             })
             else Inr hdl))"

text \<open>
  A request is answered at once, or its context is handed to a job. \<open>queued\<close> is whether poser takes
  the job.
\<close>

datatype ('h, 'ck) dispatch =
  Answered "loglevel \<times> string" httpresponse conn_fate
| Queued 'h "'ck httpctx"

definition requestReceived ::
  "('h, 'm) httpserver \<Rightarrow> bool \<Rightarrow> string \<times> string option \<Rightarrow> httprequest \<Rightarrow> ('h, 'ck) dispatch option" where
  "requestReceived self queued conn req = do {
     let context = request_context req (Some conn) (sv_trustedHeader self) (sv_trustedProxies self);
     response \<leftarrow> (case route_request self req of
         Inl response \<Rightarrow> map_option Inl response
       | Inr hdl \<Rightarrow> if queued then Some (Inr hdl)
           else map_option Inl (HttpResponse_createError HTTP_SERVICEUNAVAILABLE None));
     case response of
       Inr hdl \<Rightarrow> Some (Queued hdl context)
     | Inl response \<Rightarrow> do {
         context \<leftarrow> HttpContext_setResponse context (Some response);
         (logged, response, fate) \<leftarrow> pipelineJobDone self None context;
         Some (Answered logged response fate)
       }
   }"

section \<open>Lemmas\<close>

lemma capacity_enough:
  "length (sv_routes self) \<le> sv_routescapa self \<Longrightarrow>
    length (sv_routes (HttpServer_addRoute self p h m c)) \<le> sv_routescapa (HttpServer_addRoute self p h m c)"
  "length (sv_middlewares self) \<le> sv_middlewarescapa self \<Longrightarrow>
    length (sv_middlewares (HttpServer_addMiddleware self mw)) \<le> sv_middlewarescapa (HttpServer_addMiddleware self mw)"
  by (simp_all add: HttpServer_addRoute_def HttpServer_addMiddleware_def ROUTESCHUNK_def MIDDLEWARESCHUNK_def Let_def)

text \<open>The text \<open>logRequest\<close> would write into a buffer without an end.\<close>

fun log_join :: "ipaddr option \<Rightarrow> remoteentry list \<Rightarrow> string" where
  "log_join p [] = []"
| "log_join p (r # rs) = log_remote p r @ (if rs \<noteq> [] then '', '' else []) @ log_join p rs"

lemma log_loop_join:
  "length raddr < LOG_ADDR_SIZE - 1 \<Longrightarrow> log_loop p remotes raddr = take (LOG_ADDR_SIZE - 1) (raddr @ log_join p remotes)"
proof (induction remotes arbitrary: raddr)
  case (Cons r rs)
  obtain out where out: "log_remote p r @ (if rs \<noteq> [] then '', '' else []) = out" by blast
  have join: "log_join p (r # rs) = out @ log_join p rs" by (simp add: out [symmetric])
  have room: "take k (a @ take (k - length a) b) = take k (a @ b)" for k and a b :: string by simp
  have unf: "log_loop p (r # rs) raddr = (if length raddr + length out \<ge> LOG_ADDR_SIZE - 1
      then take (LOG_ADDR_SIZE - 1) (raddr @ take (LOG_ADDR_SIZE - 1 - length raddr) out)
      else log_loop p rs (raddr @ take (LOG_ADDR_SIZE - 1 - length raddr) out))"
    unfolding log_loop.simps Let_def out by simp
  show ?case
  proof (cases "length raddr + length out \<ge> LOG_ADDR_SIZE - 1")
    case True
    then show ?thesis unfolding unf room join by simp
  next
    case False
    then have "log_loop p (r # rs) raddr = log_loop p rs (raddr @ out)" unfolding unf by simp
    also have "\<dots> = take (LOG_ADDR_SIZE - 1) ((raddr @ out) @ log_join p rs)"
      by (rule Cons.IH) (use False in simp)
    finally show ?thesis unfolding join by simp
  qed
qed simp

lemma ProxyList_get_response: "ProxyList_get c = Some (l, c') \<Longrightarrow>
    cx_response c' = cx_response c \<and> cx_conn c' = cx_conn c \<and> cx_reuse c' = cx_reuse c \<and> cx_request c' = cx_request c"
  by (auto simp: ProxyList_get_def HttpContext_set_def Let_def elim!: bind_SomeE split: option.splits ctxobj.splits)

lemma ProxyList_get_again:
  assumes "ProxyList_get c = Some (l, c')" "ctx_ok c"
  shows "ProxyList_get c' = Some (l, c')"
  using assms by (auto simp: ProxyList_get_def ctx_get_set elim!: bind_SomeE split: option.splits ctxobj.splits)

lemma logRequest_Some:
  assumes "ctx_ok c" "ProxyList_get c = Some (l, c1)" "cx_response c = Some r" "sv_loglevel self = Some cb"
  shows "logRequest self c = Some ((case cb of None \<Rightarrow> PSC_L_INFO | Some f \<Rightarrow> f (cx_request c) (rs_status r),
      log_text (rs_status r) (cx_request c) (log_loop (sv_nat64Prefix self) (drop (proxy_firstTrusted (ctx_trusted c1) l) l) [])), c1)"
  using assms ProxyList_get_again [OF assms(2,1)] ProxyList_get_response [OF assms(2)]
  by (simp add: logRequest_def ProxyList_firstTrusted_def Let_def split: option.split)

lemma finish_headers_Some:
  assumes "resp_ok r" "announces r n"
  obtains r' where "finish_headers keep r = Some r'" "resp_ok r'" "rs_status r' = rs_status r" "announces r' n"
    "rs_body r' = rs_body r" "rs_bodySize r' = rs_bodySize r" "rs_sendPos r' = rs_sendPos r"
    "map h_value (headers_of (rs_headers r') ''Connection'') = [if keep then ''keep-alive'' else ''close'']"
    "\<And>m. \<not> strcaseeq m ''Connection'' \<Longrightarrow> \<not> strcaseeq m ''Keep-Alive'' \<Longrightarrow> headers_of (rs_headers r') m = headers_of (rs_headers r) m"
proof -
  have len: "length ''Connection'' + length (if keep then ''keep-alive'' else ''close'') + 4 \<le> UINT16_MAX"
    "length ''Keep-Alive'' + length (''timeout='' @ dec CONNTIMEOUT @ '', max=1000'') + 4 \<le> UINT16_MAX"
    using length_dec [of 10 2] by (simp_all add: UINT16_MAX_def CONNTIMEOUT_def del: dec.simps)
  obtain h where h: "set_header ''Connection'' (if keep then ''keep-alive'' else ''close'') r = Some (r\<lparr>rs_headers := HeaderSet_set (rs_headers r) h\<rparr>)"
    "h_name h = ''Connection''" "h_value h = (if keep then ''keep-alive'' else ''close'')"
    "resp_ok (r\<lparr>rs_headers := HeaderSet_set (rs_headers r) h\<rparr>)"
    by (rule set_header_Some [OF assms(1) len(1)]) (rule that)
  let ?r1 = "r\<lparr>rs_headers := HeaderSet_set (rs_headers r) h\<rparr>"
  have ok: "hs_ok (rs_headers r)" "hs_ok (rs_headers ?r1)" using assms(1) h(4) by (simp_all add: resp_ok_def)
  have n: "\<not> strcaseeq ''Content-Length'' ''Connection''" "strcaseeq ''Connection'' ''Connection''"
    "\<not> strcaseeq ''Connection'' ''Keep-Alive''" "\<not> strcaseeq ''Content-Length'' ''Keep-Alive''"
    by code_simp+
  show thesis
  proof (cases keep)
    case False
    then show thesis
      using that [of ?r1] h ok(1) n assms(2) by (simp add: finish_headers_def HeaderSet_set_spec announces_def)
  next
    case True
    obtain g where g: "set_header ''Keep-Alive'' (''timeout='' @ dec CONNTIMEOUT @ '', max=1000'') ?r1
        = Some (?r1\<lparr>rs_headers := HeaderSet_set (rs_headers ?r1) g\<rparr>)" "h_name g = ''Keep-Alive''"
      "resp_ok (?r1\<lparr>rs_headers := HeaderSet_set (rs_headers ?r1) g\<rparr>)"
      by (rule set_header_Some [OF h(4) len(2)]) (rule that)
    show thesis
      using that [of "?r1\<lparr>rs_headers := HeaderSet_set (rs_headers ?r1) g\<rparr>"] True h g ok n assms(2)
      by (simp add: finish_headers_def HeaderSet_set_spec announces_def del: dec.simps)
  qed
qed

lemma pipelineJobDone_Some:
  assumes "ctx_ok c" "ProxyList_get c = Some (l, c1)" "cx_response c = Some r" "sv_loglevel self = Some cb" "cx_conn c"
    "resp_ok r" "announces r n" "job \<noteq> Some False"
  obtains logged r' fate where "pipelineJobDone self job c = Some (logged, r', fate)" "resp_ok r'" "rs_status r' = rs_status r"
    "announces r' n" "rs_body r' = rs_body r" "rs_bodySize r' = rs_bodySize r"
    "fate = (if keeps_connection c (rs_status r) then CF_reuse else CF_close)"
    "map h_value (headers_of (rs_headers r') ''Connection'') = [if fate = CF_reuse then ''keep-alive'' else ''close'']"
    "\<And>m. \<not> strcaseeq m ''Connection'' \<Longrightarrow> \<not> strcaseeq m ''Keep-Alive'' \<Longrightarrow> headers_of (rs_headers r') m = headers_of (rs_headers r) m"
    "snd logged = log_text (rs_status r) (cx_request c)
       (log_loop (sv_nat64Prefix self) (drop (proxy_firstTrusted (ctx_trusted c1) l) l) [])"
proof -
  let ?keep = "keeps_connection c (rs_status r)"
  obtain r' where r': "finish_headers ?keep r = Some r'" "resp_ok r'" "rs_status r' = rs_status r" "announces r' n"
    "rs_body r' = rs_body r" "rs_bodySize r' = rs_bodySize r"
    "map h_value (headers_of (rs_headers r') ''Connection'') = [if ?keep then ''keep-alive'' else ''close'']"
    "\<And>m. \<not> strcaseeq m ''Connection'' \<Longrightarrow> \<not> strcaseeq m ''Keep-Alive'' \<Longrightarrow> headers_of (rs_headers r') m = headers_of (rs_headers r) m"
    by (rule finish_headers_Some [OF assms(6,7), where keep = ?keep]) (rule that)
  have same: "cx_conn c1 = cx_conn c" "keeps_connection c1 s = keeps_connection c s" for s
    using ProxyList_get_response [OF assms(2)] by (simp_all add: keeps_connection_def)
  have "pipelineJobDone self job c = Some ((case cb of None \<Rightarrow> PSC_L_INFO | Some f \<Rightarrow> f (cx_request c) (rs_status r),
      log_text (rs_status r) (cx_request c) (log_loop (sv_nat64Prefix self) (drop (proxy_firstTrusted (ctx_trusted c1) l) l) [])),
      r', if ?keep then CF_reuse else CF_close)"
    using assms(3,5,8) same r'(1) by (simp add: pipelineJobDone_def Let_def logRequest_Some [OF assms(1-4)])
  then show thesis using that r' by simp
qed

text \<open>A request that has no response, or whose job timed out: the null or dangling pointer is followed.\<close>

lemma logRequest_None:
  fixes c :: "'ck httpctx"
  shows "cx_response c = None \<Longrightarrow> logRequest self c = None"
proof -
  assume n: "cx_response c = None"
  have keep: "cx_response c' = None" if "ProxyList_get c1 = Some (l, c')" "cx_response c1 = None"
    for c1 c' :: "'ck httpctx" and l
    using ProxyList_get_response [OF that(1)] that(2) by simp
  then show ?thesis
    using n by (auto simp: logRequest_def ProxyList_firstTrusted_def Let_def split: Option.bind_split)
qed

lemma pipelineJobDone_None:
  assumes "cx_response c = None \<or> job = Some False"
  shows "pipelineJobDone self job c = None"
  using assms logRequest_None [of c self] logRequest_None [of "c\<lparr>cx_response := None\<rparr>" self]
  by (auto simp: pipelineJobDone_def Let_def split: Option.bind_split)

text \<open>The pipeline of \<open>main.c\<close> on a new server.\<close>

lemma addMiddleware_foldl:
  "length (sv_middlewares self) + length ms \<le> sv_middlewarescapa self \<Longrightarrow>
    foldl HttpServer_addMiddleware self ms = self\<lparr>sv_middlewares := sv_middlewares self @ ms\<rparr>"
  by (induction ms arbitrary: self) (simp_all add: HttpServer_addMiddleware_def Let_def)

lemma addRoute_room:
  "length (sv_routes self) < sv_routescapa self \<Longrightarrow> HttpServer_addRoute self p h m c =
    self\<lparr>sv_routes := sv_routes self @ [\<lparr>rt_prefix = p, rt_handler = h, rt_mask = m, rt_check = c\<rparr>]\<rparr>"
  by (simp add: HttpServer_addRoute_def Let_def)

lemma setupPipeline_new:
  assumes "HttpServer_create True opts = Some sv"
  shows "setupPipeline env sv = sv\<lparr>sv_loglevel := Some (Some logLevelFor), sv_middlewares := swad_middlewares env,
    sv_routes := [\<lparr>rt_prefix = ''/login'', rt_handler = loginHandler env, rt_mask = HTTP_GET OR HTTP_POST, rt_check = None\<rparr>,
       \<lparr>rt_prefix = ''/'', rt_handler = rootHandler env, rt_mask = HTTP_GET, rt_check = None\<rparr>]\<rparr>"
proof -
  have "length (sv_middlewares sv) + length (swad_middlewares env) \<le> sv_middlewarescapa sv" "sv_routes sv = []"
    "sv_routescapa sv = 32" "sv_middlewares sv = []"
    using assms by (auto simp: HttpServer_create_def ROUTESCHUNK_def MIDDLEWARESCHUNK_def)
  then show ?thesis
    by (simp add: setupPipeline_def addMiddleware_foldl addRoute_room HttpServer_setLogLevelCallback_def Let_def)
qed

section \<open>Properties\<close>

text \<open>What the pages of swad are: the handler of a request, or the status of the answer.\<close>

definition swad_pages ::
  "('k, 'b, 'l, 't, 'c, 'r, 'ck) swad_env \<Rightarrow> httprequest \<Rightarrow> httpstatus + (('l, 't, 'c, 'r) swad, 'ck ctxobj, ctxdel) handler" where
  "swad_pages env req =
     (if rq_status req \<noteq> HTTP_OK then Inl (rq_status req)
      else if take 6 (rq_path req) = ''/login''
      then if rq_method req \<in> {HTTP_GET, HTTP_POST} then Inr (loginHandler env) else Inl HTTP_METHODNOTALLOWED
      else if take 1 (rq_path req) = ''/''
      then if rq_method req = HTTP_GET then Inr (rootHandler env) else Inl HTTP_METHODNOTALLOWED
      else Inl HTTP_NOTFOUND)"

definition known_methods :: "httpmethod set" where
  "known_methods = {HTTP_INVALM, HTTP_OPTIONS, HTTP_GET, HTTP_HEAD, HTTP_POST, HTTP_PUT, HTTP_DELETE, HTTP_TRACE, HTTP_CONNECT}"

lemma method_masks:
  assumes "m \<in> known_methods"
  shows "m AND (HTTP_GET OR HTTP_POST) \<noteq> 0 \<longleftrightarrow> m \<in> {HTTP_GET, HTTP_POST}" "m AND HTTP_GET \<noteq> 0 \<longleftrightarrow> m = HTTP_GET"
  using assms by (auto simp: known_methods_def method_defs)

lemma allow_texts: "methodsStr (HTTP_GET OR HTTP_POST) = Some ''GET, POST''" "methodsStr HTTP_GET = Some ''GET''"
  by code_simp+

lemma request_context_proxies:
  assumes "proxy_list (Some \<lparr>tc_ntrusted = n, tc_header = hdr\<rparr>) (rq_headers req) addr host = Some l"
  shows "ProxyList_get (request_context req (Some (addr, host)) hdr n :: 'ck httpctx) =
    Some (l, HttpContext_set (request_context req (Some (addr, host)) hdr n) PROXYLIST_KEY (Some (CO_proxies l)) (Some CD_deleteProxyList))"
proof -
  let ?c = "request_context req (Some (addr, host)) hdr n :: 'ck httpctx"
  have n: "PROXYLIST_KEY \<noteq> PROXYLIST_TRKEY" by (simp add: PROXYLIST_KEY_def PROXYLIST_TRKEY_def)
  have "HttpContext_get ?c PROXYLIST_KEY = None" "ctx_trusted ?c = Some \<lparr>tc_ntrusted = n, tc_header = hdr\<rparr>"
    using n by (simp_all add: request_context_def ProxyList_setTrusted_def ctx_trusted_def ctx_get_set)
  moreover have "cx_remoteAddr ?c = addr" "cx_remoteHost ?c = host" "ctx_headers ?c = rq_headers req"
    by (simp_all add: request_context_def ProxyList_setTrusted_def ctx_headers_def HttpContext_create_def HttpContext_set_def Let_def)
  ultimately show ?thesis using assms by (simp add: ProxyList_get_def)
qed

lemma setAllow_ok:
  assumes "resp_ok r" "methodsStr m = Some t" "length t < 100" "announces r n"
  obtains r' where "HttpResponse_setAllowHeader r m = Some r'" "resp_ok r'" "rs_status r' = rs_status r" "announces r' n"
    "rs_bodySize r' = rs_bodySize r" "map h_value (headers_of (rs_headers r') ''Allow'') = [t]"
proof -
  have len: "length ''Allow'' + length t + 4 \<le> UINT16_MAX" using assms(3) by (simp add: UINT16_MAX_def)
  obtain h where h: "set_header ''Allow'' t r = Some (r\<lparr>rs_headers := HeaderSet_set (rs_headers r) h\<rparr>)"
    "h_name h = ''Allow''" "h_value h = t" "resp_ok (r\<lparr>rs_headers := HeaderSet_set (rs_headers r) h\<rparr>)"
    by (rule set_header_Some [OF assms(1) len]) (rule that)
  have "\<not> strcaseeq ''Content-Length'' ''Allow''" "strcaseeq ''Allow'' ''Allow''" by code_simp+
  moreover have "hs_ok (rs_headers r)" using assms(1) by (simp add: resp_ok_def)
  ultimately show thesis
    using that [of "r\<lparr>rs_headers := HeaderSet_set (rs_headers r) h\<rparr>"] h assms(2,4)
    by (simp add: HttpResponse_setAllowHeader_def HeaderSet_set_spec announces_def)
qed

text \<open>A request that is answered at once.\<close>

lemma answered_at_once:
  fixes self :: "('h, 'm) httpserver"
  defines "c \<equiv> \<lambda>req addr host. request_context req (Some (addr, host)) (sv_trustedHeader self) (sv_trustedProxies self)"
  assumes "proxy_list (Some \<lparr>tc_ntrusted = sv_trustedProxies self, tc_header = sv_trustedHeader self\<rparr>) (rq_headers req) addr host = Some l"
    "sv_loglevel self = Some cb" "resp_ok r" "announces r (rs_bodySize r)"
  shows "\<exists>(c2 :: 'ck httpctx) logged r' fate. HttpContext_setResponse (c req addr host) (Some r) = Some c2
    \<and> pipelineJobDone self None c2 = Some (logged, r', fate) \<and> resp_ok r'
    \<and> rs_status r' = HttpStatus_downgrade (rs_status r) (rq_version req) \<and> announces r' (rs_bodySize r')
    \<and> map h_value (headers_of (rs_headers r') ''Connection'') = [if fate = CF_reuse then ''keep-alive'' else ''close'']
    \<and> map h_value (headers_of (rs_headers r') ''Allow'') = map h_value (headers_of (rs_headers r) ''Allow'')
    \<and> (fate = CF_reuse \<longrightarrow> rs_status r' \<noteq> HTTP_BADREQUEST \<and> rs_status r' \<noteq> HTTP_TOOMANYREQUESTS \<and> status_code (rs_status r') < 500)"
proof -
  let ?c = "c req addr host"
  obtain c2 where c2: "HttpContext_setResponse ?c (Some r) = Some c2" by (simp add: HttpContext_setResponse_def Let_def)
  let ?r = "HttpResponse_setVersion r (rq_version req)"
  note keep = ctx_setResponse_keeps [OF c2]
  have resp: "cx_response c2 = Some ?r"
    using c2 by (auto simp: HttpContext_setResponse_def Let_def c_def)
  have conn: "cx_conn c2"
    using keep(5) by (simp add: c_def request_context_def ProxyList_setTrusted_def HttpContext_create_def HttpContext_set_def Let_def)
  have get: "ProxyList_get c2 \<noteq> None"
  proof -
    have "HttpContext_get c2 PROXYLIST_KEY = HttpContext_get ?c PROXYLIST_KEY" "ctx_trusted c2 = ctx_trusted ?c"
      "ctx_headers c2 = ctx_headers ?c" "cx_remoteAddr c2 = cx_remoteAddr ?c" "cx_remoteHost c2 = cx_remoteHost ?c"
      using keep by (simp_all add: ctx_trusted_def ctx_headers_def)
    then show ?thesis
      using request_context_proxies [OF assms(2)] unfolding ProxyList_get_def c_def
      by (auto split: option.splits ctxobj.splits Option.bind_splits)
  qed
  then obtain l1 c3 where get: "ProxyList_get c2 = Some (l1, c3)" by auto
  have ok: "ctx_ok c2" "resp_ok ?r" "announces ?r (rs_bodySize ?r)" "rs_headers ?r = rs_headers r" "rs_bodySize ?r = rs_bodySize r"
    using keep(1) assms(4,5)
    by (simp_all add: c_def HttpResponse_setVersion_def resp_ok_def body_bytes_def announces_def)
  obtain logged r' fate where d: "pipelineJobDone self None c2 = Some (logged, r', fate)" "resp_ok r'" "rs_status r' = rs_status ?r"
    "announces r' (rs_bodySize ?r)" "rs_bodySize r' = rs_bodySize ?r"
    "fate = (if keeps_connection c2 (rs_status ?r) then CF_reuse else CF_close)"
    "map h_value (headers_of (rs_headers r') ''Connection'') = [if fate = CF_reuse then ''keep-alive'' else ''close'']"
    "\<And>m. \<not> strcaseeq m ''Connection'' \<Longrightarrow> \<not> strcaseeq m ''Keep-Alive'' \<Longrightarrow> headers_of (rs_headers r') m = headers_of (rs_headers ?r) m"
    by (rule pipelineJobDone_Some [OF ok(1) get resp assms(3) conn ok(2,3), of None]) (simp, rule that)
  have "\<not> strcaseeq ''Allow'' ''Connection''" "\<not> strcaseeq ''Allow'' ''Keep-Alive''" by code_simp+
  then have allow: "headers_of (rs_headers r') ''Allow'' = headers_of (rs_headers r) ''Allow''" using d(8) ok(4) by simp
  show ?thesis
    using c2 d allow by (simp add: HttpResponse_setVersion_def keeps_connection_def)
qed


definition ex_delete_request :: httprequest where
  "ex_delete_request = HttpRequest_create\<lparr>rq_method := HTTP_DELETE, rq_path := ''/x'', rq_version := HTTP_1_1\<rparr>"

definition ex_server :: "((string \<times> entry) list, ex_infos, (string \<times> string) list,
  (string \<times> (string \<times> entry) list realm) list, (string \<times> string) list) swad_server" where
  "ex_server = the (HttpServer_create True (HttpServerOpts_create 8080))"


text \<open>
  The line logged for a request. The addresses from the first trusted one on, each with its
  name, are joined by commas, and cut off to fit the buffer of 1024 bytes, which is never left;
  an address behind a NAT64 prefix is written as the IPv4 address it contains.
\<close>

theorem log_addresses:
  "log_loop p remotes [] = take (LOG_ADDR_SIZE - 1) (log_join p remotes)
    \<and> length (log_loop p remotes []) < LOG_ADDR_SIZE"
  using log_loop_join [of "[]" p remotes] by (simp add: LOG_ADDR_SIZE_def)

text \<open>
  C29: the answers 500 and 503 for a request that fails are never sent. Where the pipeline left no
  response, or its job timed out, \<open>logRequest\<close> follows the pointer of the context to a response, which is
  null or was just destroyed.
\<close>

theorem failed_request_fatal:
  assumes "cx_response context = None \<or> job = Some False"
  shows "pipelineJobDone self job context = None"
  using assms by (rule pipelineJobDone_None)

theorem failed_request_fatal_witness:
  "pipelineJobDone (setupPipeline ex_env ex_server) (Some True)
     (request_context ex_delete_request (Some (''10.0.0.1'', None)) PH_XFWD 0 :: (string \<times> string) list httpctx) = None"
proof (rule failed_request_fatal)
  show "cx_response (request_context ex_delete_request (Some (''10.0.0.1'', None)) PH_XFWD 0 :: (string \<times> string) list httpctx) = None
    \<or> Some True = Some False"
    by (simp add: request_context_def ProxyList_setTrusted_def HttpContext_create_def)
qed

end
