(* ===== verification/Pipeline_Answers.thy ===== *)
theory Pipeline_Answers
  imports Http_Server
begin

text \<open>
  Every page of swad answers: whatever a request that is given to one of the handlers of \<open>main.c\<close> holds,
  when the middlewares and the handler return, the context has a response, so that the server sends it.
\<close>

section \<open>Handlers and middlewares that answer\<close>

definition answers :: "('ck httpctx \<Rightarrow> bool) \<Rightarrow> (('l, 't, 'c, 'r) swad, 'ck ctxobj, ctxdel) handler \<Rightarrow> bool" where
  "answers P h \<longleftrightarrow> (\<forall>w c w' c'. P c \<longrightarrow> h (w, c) = Some (w', c') \<longrightarrow> (\<exists>r'. cx_response c' = Some r'))"

lemma answersD: "answers P h \<Longrightarrow> P c \<Longrightarrow> h (w, c) = Some (w', c') \<Longrightarrow> \<exists>r'. cx_response c' = Some r'"
  by (auto simp: answers_def)

lemma setResponse_answers: "HttpContext_setResponse c r = Some c' \<Longrightarrow> \<exists>r'. cx_response c' = Some r'"
  by (auto simp: HttpContext_setResponse_def Let_def split: option.splits)

text \<open>What the handlers find in their context.\<close>

definition handler_ready :: "'ck httpctx \<Rightarrow> bool" where
  "handler_ready c \<longleftrightarrow> PathParser_get c \<noteq> None \<and> Session_get c \<noteq> None"

lemma handler_ready_pos [simp]: "handler_ready (c\<lparr>cx_pipelinePos := i\<rparr>) = handler_ready c"
  by (simp add: handler_ready_def)

lemma bind_setResponse:
  "Option.bind m (\<lambda>(a, b, w). HttpContext_setResponse c (f a b) \<bind> (\<lambda>c. Some (w, c))) = Some (w', c') \<Longrightarrow>
    \<exists>r'. cx_response c' = Some r'"
  by (cases m) (auto elim!: bind_SomeE setResponse_answers)

lemma doLogin_answers: "doLogin env ref (w, c) = Some (w', c') \<Longrightarrow> \<exists>r'. cx_response c' = Some r'"
  unfolding doLogin_def prod.case by (rule bind_setResponse)

lemma showForm_answers: "showForm env ref realm path (w, c) = Some (w', c') \<Longrightarrow> \<exists>r'. cx_response c' = Some r'"
  unfolding showForm_def Let_def
  by (auto elim!: bind_SomeE split: prod.splits if_splits) (erule setResponse_answers)+

lemma loginHandler_answers: "answers handler_ready (loginHandler env)"
  unfolding answers_def handler_ready_def loginHandler_def Let_def
  by (auto elim!: bind_SomeE split: option.splits if_splits
      dest: doLogin_answers showForm_answers setResponse_answers)

lemma rootHandler_answers: "answers handler_ready (rootHandler env)"
  unfolding answers_def handler_ready_def rootHandler_def Let_def
  by (auto elim!: bind_SomeE split: option.splits if_splits dest: setResponse_answers)

section \<open>The stages of the pipeline\<close>

lemma MW_CSRFProtect_answers:
  assumes "answers P nxt"
  shows "answers P (MW_CSRFProtect nxt)"
  unfolding answers_def MW_CSRFProtect_def Let_def
  by (auto elim!: bind_SomeE split: option.splits if_splits)
    (erule setResponse_answers | erule (1) answersD [OF assms])+

lemma session_next_answers:
  assumes "session_next nxt ref (w, c) = Some (w', c')" "answers P nxt"
    "P (HttpContext_set c SESSION_PROP (Some (CO_session ref)) None)"
  shows "\<exists>r'. cx_response c' = Some r'"
  using assms(1) answersD [OF assms(2,3)] unfolding session_next_def Let_def
  by (fastforce elim!: bind_SomeE split: option.splits if_splits)

lemma session_new_for_answers:
  assumes "session_new_for env cookies nxt (w, c) = Some (w', c')" "answers P nxt"
    "\<And>c1 ref. ctx_keeps {PROXYLIST_KEY, COOKIES_PROP} c c1 \<Longrightarrow> P (HttpContext_set c1 SESSION_PROP (Some (CO_session ref)) None)"
  shows "\<exists>r'. cx_response c' = Some r'"
proof -
  from assms(1) obtain l c1 i c2 where p: "ProxyList_get c = Some (l, c1)" "ProxyList_firstTrusted c1 = Some (i, c2)"
    unfolding session_new_for_def by (auto elim!: bind_SomeE)
  have keep: "ctx_keeps {PROXYLIST_KEY} c c2"
    using ctx_keeps_trans [OF ProxyList_get_keeps [OF p(1)] ProxyList_firstTrusted_keeps [OF p(2)]] by simp
  have poke: "ctx_keeps {PROXYLIST_KEY, COOKIES_PROP} c (ctx_poke c2 COOKIES_PROP obj)" for obj
    using ctx_keeps_trans [OF keep ctx_poke_keeps] by (simp add: insert_commute)
  from assms(1) p consider d r where "HttpContext_setResponse d r = Some c'"
    | v obj ref where "session_next nxt ref (v, ctx_poke c2 COOKIES_PROP obj) = Some (w', c')"
    unfolding session_new_for_def Let_def by (auto elim!: bind_SomeE split: if_splits)
  then show ?thesis
  proof cases
    case 1
    then show ?thesis by (rule setResponse_answers)
  next
    case 2
    show ?thesis by (rule session_next_answers [OF 2 assms(2) assms(3) [OF poke]])
  qed
qed

lemma MW_Session_answers:
  assumes "answers P nxt" "Cookies_get c = Some cookies" "MW_Session env nxt (w, c) = Some (w', c')"
    "\<And>c1 ref. ctx_keeps {PROXYLIST_KEY, COOKIES_PROP} c c1 \<Longrightarrow> P (HttpContext_set c1 SESSION_PROP (Some (CO_session ref)) None)"
  shows "\<exists>r'. cx_response c' = Some r'"
proof -
  from assms(2,3) consider v ref where "session_next nxt ref (v, c) = Some (w', c')"
    | v where "session_new_for env cookies nxt (v, c) = Some (w', c')"
    by (auto simp: MW_Session_def elim!: bind_SomeE split: prod.splits option.splits)
  then show ?thesis
  proof cases
    case 1
    show ?thesis by (rule session_next_answers [OF 1 assms(1) assms(4) [OF ctx_keeps_refl]])
  next
    case 2
    show ?thesis by (rule session_new_for_answers [OF 2 assms(1,4)])
  qed
qed

lemma MW_Cookies_answers:
  assumes "MW_Cookies env nxt (w, c) = Some (w', c')"
    "\<And>w' c'. nxt (w, HttpContext_set c COOKIES_PROP (Some (CO_cookies (cookies_of (en_cookies env) (ctx_headers c)))) (Some CD_cookiesDeleter))
      = Some (w', c') \<Longrightarrow> \<exists>r'. cx_response c' = Some r'"
  shows "\<exists>r'. cx_response c' = Some r'"
  using assms(1) unfolding MW_Cookies_def Let_def
  by (auto elim!: bind_SomeE split: option.splits dest!: assms(2))

lemma MW_Compress_answers:
  assumes "MW_Compress env nxt (w, c) = Some (w', c')" "\<And>w' c'. nxt (w, c) = Some (w', c') \<Longrightarrow> \<exists>r'. cx_response c' = Some r'"
  shows "\<exists>r'. cx_response c' = Some r'"
  using assms(1) unfolding MW_Compress_def Let_def
  by (fastforce elim!: bind_SomeE split: option.splits prod.splits if_splits dest: assms(2))


section \<open>The whole pipeline\<close>

definition stage_ready :: "nat \<Rightarrow> bool \<Rightarrow> 'ck httpctx \<Rightarrow> bool" where
  "stage_ready i path c \<longleftrightarrow> ctx_ok c \<and> cx_pipelinePos c = i \<and> Session_get c \<noteq> None \<and> (path \<longrightarrow> PathParser_get c \<noteq> None)"

lemma stage_ready_set:
  "stage_ready i path c \<Longrightarrow> key \<noteq> SESSION_PROP \<Longrightarrow> key \<noteq> PATHPARSER_PROP \<Longrightarrow> stage_ready i path (HttpContext_set c key obj d)"
  by (auto simp: stage_ready_def getters_set PathParser_get_def ctx_get_set)

lemma stage_ready_pos: "stage_ready i path c \<Longrightarrow> stage_ready j path (c\<lparr>cx_pipelinePos := j\<rparr>)"
  by (simp add: stage_ready_def)

lemma stage_handler_answers:
  assumes "answers handler_ready h"
  shows "answers (stage_ready 6 True) (swad_rest env h 1)"
  unfolding answers_def
proof (intro allI impI)
  fix w c w' c' assume c: "stage_ready 6 True c" and r: "swad_rest env h 1 (w, c) = Some (w', c')"
  have "h (w, c\<lparr>cx_pipelinePos := 7\<rparr>) = Some (w', c')"
    using r c swad_rest_at(7) [of c env h w] by (simp add: stage_ready_def)
  moreover have "handler_ready (c\<lparr>cx_pipelinePos := 7\<rparr>)" using c by (simp add: stage_ready_def handler_ready_def)
  ultimately show "\<exists>r'. cx_response c' = Some r'" using answersD [OF assms] by blast
qed

lemma stage_csrf_answers:
  assumes "answers handler_ready h"
  shows "answers (stage_ready 5 True) (swad_rest env h 2)"
  unfolding answers_def
proof (intro allI impI)
  fix w c w' c' assume c: "stage_ready 5 True c" and r: "swad_rest env h 2 (w, c) = Some (w', c')"
  have "MW_CSRFProtect (swad_rest env h 1) (w, c\<lparr>cx_pipelinePos := 6\<rparr>) = Some (w', c')"
    using r c swad_rest_at(6) [of c env h w] by (simp add: stage_ready_def)
  from answersD [OF MW_CSRFProtect_answers [OF stage_handler_answers [OF assms]] stage_ready_pos [OF c] this]
  show "\<exists>r'. cx_response c' = Some r'" .
qed

lemma stage_form_answers:
  assumes "answers handler_ready h"
  shows "answers (stage_ready 4 True) (swad_rest env h 3)"
  unfolding answers_def
proof (intro allI impI)
  fix w c w' c' assume c: "stage_ready 4 True c" and r: "swad_rest env h 3 (w, c) = Some (w', c')"
  have "MW_FormData (swad_rest env h 2) (w, c\<lparr>cx_pipelinePos := 5\<rparr>) = Some (w', c')"
    using r c swad_rest_at(5) [of c env h w] by (simp add: stage_ready_def)
  from MW_FormData_flow [OF this] obtain form where f: "swad_rest env h 2 (w, case form of None \<Rightarrow> c\<lparr>cx_pipelinePos := 5\<rparr>
      | Some self \<Rightarrow> HttpContext_set (c\<lparr>cx_pipelinePos := 5\<rparr>) FORMDATA_PROP (Some (CO_form self)) (Some CD_formDataDeleter)) = Some (w', c')"
    by blast
  have "stage_ready 5 True (case form of None \<Rightarrow> c\<lparr>cx_pipelinePos := 5\<rparr>
      | Some self \<Rightarrow> HttpContext_set (c\<lparr>cx_pipelinePos := 5\<rparr>) FORMDATA_PROP (Some (CO_form self)) (Some CD_formDataDeleter))"
    using stage_ready_set [OF stage_ready_pos [OF c, of 5]] by (simp add: stage_ready_pos [OF c] split: option.split)
  from answersD [OF stage_csrf_answers [OF assms] this f] show "\<exists>r'. cx_response c' = Some r'" .
qed

lemma stage_path_answers:
  assumes "answers handler_ready h"
  shows "answers (stage_ready 3 False) (swad_rest env h 4)"
  unfolding answers_def
proof (intro allI impI)
  fix w c w' c' assume c: "stage_ready 3 False c" and r: "swad_rest env h 4 (w, c) = Some (w', c')"
  let ?c = "HttpContext_set (c\<lparr>cx_pipelinePos := 4\<rparr>) PATHPARSER_PROP
    (Some (CO_path (PathParser_of (rq_path (cx_request c))))) (Some CD_pathParserDeleter)"
  have "MW_PathParser (swad_rest env h 3) (w, c\<lparr>cx_pipelinePos := 4\<rparr>) = Some (w', c')"
    using r c swad_rest_at(4) [of c env h w] by (simp add: stage_ready_def)
  then have p: "swad_rest env h 3 (w, ?c) = Some (w', c')" by (simp add: MW_PathParser_def)
  have "stage_ready 4 True ?c" using c by (auto simp: stage_ready_def getters_set PathParser_get_def ctx_get_set)
  from answersD [OF stage_form_answers [OF assms] this p] show "\<exists>r'. cx_response c' = Some r'" .
qed

lemma stage_session_answers:
  fixes c :: "'ck httpctx" and env :: "('k, 'b, 'l, 't, 'c, 'r, 'ck) swad_env"
  assumes "answers handler_ready h" "swad_rest env h 5 (w, c) = Some (w', c')" "ctx_ok c" "cx_pipelinePos c = 2"
    "Cookies_get c = Some cookies"
  shows "\<exists>r'. cx_response c' = Some r'"
proof (rule MW_Session_answers)
  show "answers (stage_ready 3 False) (swad_rest env h 4)" by (rule stage_path_answers [OF assms(1)])
  show "MW_Session env (swad_rest env h 4) (w, c\<lparr>cx_pipelinePos := 3\<rparr>) = Some (w', c')"
    using assms(2,4) swad_rest_at(3) [of c env h w] by simp
  show "Cookies_get (c\<lparr>cx_pipelinePos := 3\<rparr>) = Some cookies" using assms(5) by simp
  fix c1 ref assume "ctx_keeps {PROXYLIST_KEY, COOKIES_PROP} (c\<lparr>cx_pipelinePos := 3\<rparr>) (c1 :: 'ck httpctx)"
  from ctx_keepsD [OF this] assms(3) show "stage_ready 3 False (HttpContext_set c1 SESSION_PROP (Some (CO_session ref)) None)"
    by (simp add: stage_ready_def getters_set)
qed

lemma pipeline_answers:
  fixes env :: "('k, 'b, 'l, 't, 'c, 'r, 'ck) swad_env" and c c' :: "'ck httpctx"
  assumes "answers handler_ready h" "ctx_ok c" "cx_pipelinePos c = 0"
    "pipelineJob (swad_middlewares env) (Some h) (w, c) = Some (w', c')"
  shows "\<exists>r. cx_response c' = Some r"
proof (rule MW_Compress_answers)
  have "swad_rest env h 7 (w, c) = Some (w', c')" using assms(4) by (simp add: pipelineJob_def)
  then show "MW_Compress env (swad_rest env h 6) (w, c\<lparr>cx_pipelinePos := 1\<rparr>) = Some (w', c')"
    using swad_rest_at(1) [of c env h w] assms(3) by simp
next
  fix wx and cx :: "'ck httpctx"
  let ?c2 = "HttpContext_set (c\<lparr>cx_pipelinePos := 2\<rparr>) COOKIES_PROP
    (Some (CO_cookies (cookies_of (en_cookies env) (ctx_headers c)))) (Some CD_cookiesDeleter)"
  assume r: "swad_rest env h 6 (w, c\<lparr>cx_pipelinePos := 1\<rparr>) = Some (wx, cx)"
  show "\<exists>r'. cx_response cx = Some r'"
  proof (rule MW_Cookies_answers)
    show "MW_Cookies env (swad_rest env h 5) (w, c\<lparr>cx_pipelinePos := 2\<rparr>) = Some (wx, cx)"
      using r swad_rest_at(2) [of "c\<lparr>cx_pipelinePos := 1\<rparr>" env h w] by simp
  next
    fix wy and cy :: "'ck httpctx"
    assume "swad_rest env h 5 (w, HttpContext_set (c\<lparr>cx_pipelinePos := 2\<rparr>) COOKIES_PROP
      (Some (CO_cookies (cookies_of (en_cookies env) (ctx_headers (c\<lparr>cx_pipelinePos := 2\<rparr>))))) (Some CD_cookiesDeleter)) = Some (wy, cy)"
    then have "swad_rest env h 5 (w, ?c2) = Some (wy, cy)" by simp
    then show "\<exists>r'. cx_response cy = Some r'"
      by (rule stage_session_answers [OF assms(1)]) (use assms(2) in \<open>simp_all add: getters_set\<close>)
  qed
qed

text \<open>
  C28: every page of swad answers. Where a request, whatever it holds, runs through the pipeline of
  \<open>main.c\<close> to the handler of \<open>/login\<close> or of \<open>/\<close>, the context that comes out of it has a response:
  a page, a redirect or an error. So the server has something to send when the job is done.
\<close>

theorem swad_always_answers:
  fixes env :: "('k, 'b, 'l, 't, 'c, 'r, 'ck) swad_env" and c' :: "'ck httpctx"
  assumes "h = loginHandler env \<or> h = rootHandler env"
    "pipelineJob (swad_middlewares env) (Some h) (w, request_context req conn hdr n) = Some (w', c')"
  shows "\<exists>r. cx_response c' = Some r"
proof -
  have h: "answers handler_ready h" using assms(1) loginHandler_answers rootHandler_answers by blast
  show ?thesis by (rule pipeline_answers [OF h _ _ assms(2)]) simp_all
qed

theorem swad_always_answers_witness:
  "\<exists>w' c' r. pipelineJob (swad_middlewares ex_env) (Some (loginHandler ex_env))
      (ex_flow_world, request_context ex_flow_request (Some (''10.0.0.1'', None)) PH_XFWD 0) = Some (w', c')
    \<and> cx_response c' = Some r"
proof -
  obtain w' c' where run: "pipelineJob (swad_middlewares ex_env) (Some (loginHandler ex_env))
      (ex_flow_world, request_context ex_flow_request (Some (''10.0.0.1'', None)) PH_XFWD 0) = Some (w', c')"
    by (rule ex_flow_runs)
  show ?thesis using swad_always_answers [OF disjI1 [OF refl] run] run by blast
qed

end
