(* ===== verification/Http_Connection.thy ===== *)
theory Http_Connection
  imports Http_Server
begin

text \<open>
  The life of the objects of one connection (the callbacks of \<open>httpserver.c\<close>, \<open>http/httprequest.c\<close>,
  \<open>http/httpresponse.c\<close> and \<open>http/httpcontext.c\<close>): who is registered for which event, who is deleted when.
  Objects are numbered in the order of their allocation; a number that is not in its map any more is a
  pointer to memory that is freed, and following it makes the step \<open>None\<close>. What is in the objects is
  left to the other theories: the answer to a request and the sizes of the bodies come with the events.

  Of poser this uses: an event has a list of callbacks with their receivers, in the order of their
  registration; raising it calls those of them that are still registered when it is their turn. A
  connection raises \<open>closed\<close> once, when it is closed by either side, and it is deleted, with its data,
  when the events at hand are done. A job raises \<open>finished\<close> once, on the thread of the server, and is deleted then.
\<close>

section \<open>Objects, callbacks and events\<close>

text \<open>
  A registered callback, with its receiver. \<open>connActive\<close> and \<open>connClosed\<close> are registered with the
  server as receiver (\<open>True\<close>), or not found with the null pointer (\<open>False\<close>).
\<close>

datatype callback = CB_connActive bool | CB_dataReceived nat | CB_connectionLost nat | CB_connClosed bool
  | CB_connectionClosed nat | CB_nameResolved nat | CB_jobCanceled | CB_sendBody nat | CB_abortSending nat

datatype sentcallback = CB_sentSingle | CB_sentReuse nat

datatype donecallback = CB_deleteRequest nat | CB_deleteResponse nat

datatype jobcallback = CB_jobDone | CB_canceledJobDone

text \<open>A response has the bytes of its body that are not yet given to the connection.\<close>

record ctx_cell =
  cc_request :: nat
  cc_response :: "nat option"
  cc_conn :: bool
  cc_host :: bool

record resp_cell =
  rc_deleteScheduled :: nat
  rc_bodySize :: nat
  rc_sendPos :: nat
  rc_sent :: "sentcallback list"

record job_cell =
  jc_context :: nat
  jc_finished :: "jobcallback list"

datatype conn_life = CL_open | CL_closed | CL_freed

text \<open>
  The connection with its events and its data (\<open>ConnectionContext\<close>: the job of the last request and
  whether the timer was set again), the objects, and the callbacks of \<open>PSC_Service_eventsDone\<close>.
\<close>

record conn_world =
  cw_life :: conn_life
  cw_closed :: "callback list"
  cw_dataReceived :: "callback list"
  cw_dataSent :: "callback list"
  cw_nameResolved :: "callback list"
  cw_host :: "bool option"
  cw_job :: "nat option"
  cw_reqs :: "nat \<rightharpoonup> nat"
  cw_ctxs :: "nat \<rightharpoonup> ctx_cell"
  cw_resps :: "nat \<rightharpoonup> resp_cell"
  cw_jobs :: "nat \<rightharpoonup> job_cell"
  cw_next :: nat
  cw_eventsDone :: "donecallback list"

type_synonym conn_action = "conn_world \<Rightarrow> conn_world option"

section \<open>The pieces\<close>

text \<open>\<open>httprequest.c\<close>: requests are \<open>deleteScheduled\<close>; each call with a connection follows the pointer.\<close>

definition conn_alive :: "conn_world \<Rightarrow> bool" where
  "conn_alive w \<longleftrightarrow> cw_life w \<noteq> CL_freed"

definition unreg :: "'c \<Rightarrow> 'c list \<Rightarrow> 'c list" where
  "unreg cb cbs = filter (\<lambda>c. c \<noteq> cb) cbs"

definition request_create :: conn_action where
  "request_create w =
     (if \<not> conn_alive w then None
      else Some (w\<lparr>cw_reqs := (cw_reqs w)(cw_next w \<mapsto> 0), cw_next := cw_next w + 1,
         cw_dataReceived := cw_dataReceived w @ [CB_dataReceived (cw_next w)],
         cw_closed := cw_closed w @ [CB_connectionLost (cw_next w)]\<rparr>))"

definition request_deleteLater :: "nat \<Rightarrow> conn_action" where
  "request_deleteLater self w = do {
     sched \<leftarrow> cw_reqs w self;
     if sched = 0
     then Some (w\<lparr>cw_reqs := (cw_reqs w)(self \<mapsto> 1), cw_eventsDone := cw_eventsDone w @ [CB_deleteRequest self]\<rparr>)
     else Some w
   }"

definition request_destroy :: "nat \<Rightarrow> conn_action" where
  "request_destroy self w = do {
     sched \<leftarrow> cw_reqs w self;
     if sched = 1 then Some w
     else Some (w\<lparr>cw_reqs := (cw_reqs w)(self := None),
       cw_eventsDone := (if sched \<noteq> 0 then unreg (CB_deleteRequest self) (cw_eventsDone w) else cw_eventsDone w)\<rparr>)
   }"

definition deleteRequest :: "nat \<Rightarrow> conn_action" where
  "deleteRequest self w =
     (if cw_reqs w self = None then None else request_destroy self (w\<lparr>cw_reqs := (cw_reqs w)(self \<mapsto> 2)\<rparr>))"

definition connectionLost :: "nat \<Rightarrow> conn_action" where
  "connectionLost self w =
     request_deleteLater self (w\<lparr>cw_dataReceived := unreg (CB_dataReceived self) (cw_dataReceived w),
       cw_closed := unreg (CB_connectionLost self) (cw_closed w)\<rparr>)"

text \<open>\<open>httpresponse.c\<close>.\<close>

definition response_create :: "nat \<Rightarrow> conn_world \<Rightarrow> nat \<times> conn_world" where
  "response_create bodySize w = (cw_next w, w\<lparr>cw_next := cw_next w + 1, cw_resps := (cw_resps w)(cw_next w \<mapsto>
     \<lparr>rc_deleteScheduled = 0, rc_bodySize = bodySize, rc_sendPos = 0, rc_sent = []\<rparr>)\<rparr>)"

definition response_deleteLater :: "nat \<Rightarrow> conn_action" where
  "response_deleteLater self w = do {
     r \<leftarrow> cw_resps w self;
     if rc_deleteScheduled r = 0
     then Some (w\<lparr>cw_resps := (cw_resps w)(self \<mapsto> r\<lparr>rc_deleteScheduled := 1\<rparr>),
       cw_eventsDone := cw_eventsDone w @ [CB_deleteResponse self]\<rparr>)
     else Some w
   }"

definition response_destroy :: "nat option \<Rightarrow> conn_action" where
  "response_destroy self w = (case self of
     None \<Rightarrow> Some w
   | Some self \<Rightarrow> do {
       r \<leftarrow> cw_resps w self;
       if rc_deleteScheduled r = 1 then Some w
       else Some (w\<lparr>cw_resps := (cw_resps w)(self := None),
         cw_eventsDone := (if rc_deleteScheduled r \<noteq> 0 then unreg (CB_deleteResponse self) (cw_eventsDone w)
           else cw_eventsDone w)\<rparr>)
     })"

definition deleteResponse :: "nat \<Rightarrow> conn_action" where
  "deleteResponse self w = do {
     r \<leftarrow> cw_resps w self;
     response_destroy (Some self) (w\<lparr>cw_resps := (cw_resps w)(self \<mapsto> r\<lparr>rc_deleteScheduled := 2\<rparr>)\<rparr>)
   }"

definition response_send :: "nat \<Rightarrow> conn_action" where
  "response_send self w = do {
     r \<leftarrow> cw_resps w self;
     if \<not> conn_alive w then None
     else Some (w\<lparr>cw_resps := (cw_resps w)(self \<mapsto> r\<lparr>rc_sendPos := 0\<rparr>),
       cw_dataSent := cw_dataSent w @ [CB_sendBody self],
       cw_closed := cw_closed w @ [CB_abortSending self]\<rparr>)
   }"

text \<open>\<open>httpcontext.c\<close>.\<close>

definition context_create :: "nat \<Rightarrow> conn_world \<Rightarrow> nat \<times> conn_world" where
  "context_create request w = (cw_next w, w\<lparr>cw_next := cw_next w + 1,
     cw_ctxs := (cw_ctxs w)(cw_next w \<mapsto>
       \<lparr>cc_request = request, cc_response = None, cc_conn = True, cc_host = (cw_host w = Some True)\<rparr>),
     cw_nameResolved := (if cw_host w = Some True then cw_nameResolved w
       else cw_nameResolved w @ [CB_nameResolved (cw_next w)]),
     cw_closed := cw_closed w @ [CB_connectionClosed (cw_next w)]\<rparr>)"

definition context_connClosed :: "nat \<Rightarrow> conn_action" where
  "context_connClosed self w = do {
     c \<leftarrow> cw_ctxs w self;
     Some (w\<lparr>cw_ctxs := (cw_ctxs w)(self \<mapsto> c\<lparr>cc_conn := False\<rparr>)\<rparr>)
   }"

definition context_setResponse :: "nat \<Rightarrow> nat \<Rightarrow> conn_action" where
  "context_setResponse self response w = do {
     c \<leftarrow> cw_ctxs w self;
     w \<leftarrow> response_destroy (cc_response c) w;
     if cw_reqs w (cc_request c) = None \<or> cw_resps w response = None then None
     else Some (w\<lparr>cw_ctxs := (cw_ctxs w)(self \<mapsto> c\<lparr>cc_response := Some response\<rparr>)\<rparr>)
   }"

definition context_destroy :: "nat \<Rightarrow> conn_action" where
  "context_destroy self w = do {
     c \<leftarrow> cw_ctxs w self;
     let w = w\<lparr>cw_ctxs := (cw_ctxs w)(self := None)\<rparr>;
     if \<not> cc_conn c then Some w
     else if \<not> conn_alive w then None
     else Some (w\<lparr>cw_nameResolved := (if cc_host c then cw_nameResolved w
           else unreg (CB_nameResolved self) (cw_nameResolved w)),
         cw_closed := unreg (CB_connectionClosed self) (cw_closed w)\<rparr>)
   }"

section \<open>The callbacks of the server\<close>

text \<open>The response is sent: \<open>conn\<close> is whether over a connection, or it was lost.\<close>

definition sentReuse :: "nat \<Rightarrow> nat \<Rightarrow> bool \<Rightarrow> conn_action" where
  "sentReuse context response conn w = do {
     w \<leftarrow> (if conn then request_create w else Some w);
     w \<leftarrow> response_deleteLater response w;
     c \<leftarrow> cw_ctxs w context;
     w \<leftarrow> request_deleteLater (cc_request c) w;
     context_destroy context w
   }"

text \<open>\<open>httpResponseSentSingle\<close>, but for the closing of the connection, which follows below.\<close>

definition sentSingle :: "nat \<Rightarrow> conn_action" where
  "sentSingle response = response_deleteLater response"

fun each :: "('c \<Rightarrow> conn_action) \<Rightarrow> ('c \<Rightarrow> conn_world \<Rightarrow> bool) \<Rightarrow> 'c list \<Rightarrow> conn_action" where
  "each call registered [] w = Some w"
| "each call registered (cb # cbs) w = do {
     w \<leftarrow> (if registered cb w then call cb w else Some w);
     each call registered cbs w
   }"

definition response_abort :: "nat \<Rightarrow> conn_action" where
  "response_abort self w = do {
     r \<leftarrow> cw_resps w self;
     if \<not> conn_alive w then None
     else each (\<lambda>cb. case cb of CB_sentSingle \<Rightarrow> sentSingle self | CB_sentReuse context \<Rightarrow> sentReuse context self False)
       (\<lambda>cb w. True) (rc_sent r)
       (w\<lparr>cw_resps := (cw_resps w)(self \<mapsto> r\<lparr>rc_sendPos := 0\<rparr>),
         cw_closed := unreg (CB_abortSending self) (cw_closed w),
         cw_dataSent := unreg (CB_sendBody self) (cw_dataSent w)\<rparr>)
   }"

definition connClosed :: conn_action where
  "connClosed w = Some (w\<lparr>cw_dataReceived := unreg (CB_connActive False) (cw_dataReceived w),
     cw_dataSent := unreg (CB_connActive False) (cw_dataSent w),
     cw_closed := unreg (CB_connClosed False) (cw_closed w)\<rparr>)"

definition pipelineJobCanceled :: conn_action where
  "pipelineJobCanceled w = do {
     _ \<leftarrow> (if \<not> conn_alive w then None else Some ());
     j \<leftarrow> cw_job w;
     job \<leftarrow> cw_jobs w j;
     Some (w\<lparr>cw_closed := unreg CB_jobCanceled (cw_closed w),
       cw_jobs := (cw_jobs w)(j \<mapsto> job\<lparr>jc_finished := unreg CB_jobDone (jc_finished job) @ [CB_canceledJobDone]\<rparr>)\<rparr>)
   }"

fun closed_call :: "callback \<Rightarrow> conn_action" where
  "closed_call (CB_connClosed server) w = connClosed w"
| "closed_call (CB_connectionLost r) w = connectionLost r w"
| "closed_call (CB_connectionClosed c) w = context_connClosed c w"
| "closed_call CB_jobCanceled w = pipelineJobCanceled w"
| "closed_call (CB_abortSending p) w = response_abort p w"
| "closed_call cb w = None"

definition close_connection :: conn_action where
  "close_connection w = (case cw_life w of
     CL_freed \<Rightarrow> None
   | CL_closed \<Rightarrow> Some w
   | CL_open \<Rightarrow> each closed_call (\<lambda>cb w. cb \<in> set (cw_closed w)) (cw_closed w) (w\<lparr>cw_life := CL_closed\<rparr>))"

text \<open>The data given to the connection is sent.\<close>

definition sent_raise :: "nat \<Rightarrow> sentcallback list \<Rightarrow> conn_action" where
  "sent_raise response = each (\<lambda>cb w. case cb of
       CB_sentSingle \<Rightarrow> do { w \<leftarrow> sentSingle response w; close_connection w }
     | CB_sentReuse context \<Rightarrow> sentReuse context response True w)
     (\<lambda>cb w. True)"

definition send_body :: "nat \<Rightarrow> conn_action" where
  "send_body self w = do {
     r \<leftarrow> cw_resps w self;
     let remaining = rc_bodySize r - rc_sendPos r;
     if \<not> conn_alive w then None
     else if remaining = 0
     then sent_raise self (rc_sent r) (w\<lparr>cw_closed := unreg (CB_abortSending self) (cw_closed w),
         cw_dataSent := unreg (CB_sendBody self) (cw_dataSent w)\<rparr>)
     else Some (w\<lparr>cw_resps := (cw_resps w)(self \<mapsto> r\<lparr>rc_sendPos := rc_sendPos r + min remaining 65535\<rparr>)\<rparr>)
   }"

definition connActive :: conn_action where
  "connActive w = (if conn_alive w then Some w else None)"

fun dataSent_call :: "callback \<Rightarrow> conn_action" where
  "dataSent_call (CB_connActive server) w = connActive w"
| "dataSent_call (CB_sendBody p) w = send_body p w"
| "dataSent_call cb w = None"

text \<open>
  The end of a request. The job is the one that called, if any; \<open>completed\<close> and \<open>reuse\<close> (the response
  and the context allow another request) come from the parts not modelled here, \<open>len\<close> is that of the
  error page that may be needed.
\<close>

definition job_done :: "bool \<Rightarrow> bool \<Rightarrow> bool \<Rightarrow> nat \<Rightarrow> nat \<Rightarrow> conn_action" where
  "job_done job completed reuse len context w = do {
     c \<leftarrow> cw_ctxs w context;
     (response, w) \<leftarrow> (if job
        then if \<not> cc_conn c \<or> \<not> conn_alive w then None
          else do {
            let w = w\<lparr>cw_closed := unreg CB_jobCanceled (cw_closed w)\<rparr>;
            if completed then Some (cc_response c, w)
            else do {
              w \<leftarrow> response_destroy (cc_response c) w;
              let (response, w) = response_create len w;
              Some (Some response, w)
            }
          }
        else Some (cc_response c, w));
     let (response, w) = (case response of Some response \<Rightarrow> (response, w) | None \<Rightarrow> response_create len w);
     logged \<leftarrow> cc_response c;
     _ \<leftarrow> (if cw_resps w logged = None \<or> cw_reqs w (cc_request c) = None then None else Some ());
     r \<leftarrow> cw_resps w response;
     w \<leftarrow> (if cc_conn c \<and> reuse
        then Some (w\<lparr>cw_resps := (cw_resps w)(response \<mapsto> r\<lparr>rc_sent := rc_sent r @ [CB_sentReuse context]\<rparr>)\<rparr>)
        else do {
          w \<leftarrow> (if cc_conn c
            then Some (w\<lparr>cw_resps := (cw_resps w)(response \<mapsto> r\<lparr>rc_sent := rc_sent r @ [CB_sentSingle]\<rparr>)\<rparr>)
            else sentSingle response w);
          w \<leftarrow> context_destroy context w;
          request_deleteLater (cc_request c) w
        });
     if \<not> cc_conn c then None else response_send response w
   }"

definition pipelineCanceledJobDone :: "nat \<Rightarrow> conn_action" where
  "pipelineCanceledJobDone context w = do {
     c \<leftarrow> cw_ctxs w context;
     w \<leftarrow> request_deleteLater (cc_request c) w;
     w \<leftarrow> response_destroy (cc_response c) w;
     context_destroy context w
   }"

text \<open>
  What a request that was received leads to: an answer at once, a job that is queued, or the answer that
  there is no room for the job.
\<close>

datatype decision = DC_answer nat bool | DC_queue | DC_full nat bool

definition request_received :: "decision \<Rightarrow> nat \<Rightarrow> conn_action" where
  "request_received d req w = do {
     _ \<leftarrow> (if cw_reqs w req = None \<or> \<not> conn_alive w then None else Some ());
     let (context, w) = context_create req w;
     let queue = w\<lparr>cw_next := cw_next w + 1, cw_job := Some (cw_next w),
        cw_jobs := (cw_jobs w)(cw_next w \<mapsto> \<lparr>jc_context = context, jc_finished = [CB_jobDone]\<rparr>),
        cw_closed := cw_closed w @ [CB_jobCanceled]\<rparr>;
     case d of
       DC_queue \<Rightarrow> Some queue
     | DC_full len reuse \<Rightarrow> do {
         j \<leftarrow> cw_job queue;
         let w = queue\<lparr>cw_closed := unreg CB_jobCanceled (cw_closed queue), cw_jobs := (cw_jobs queue)(j := None)\<rparr>;
         let (response, w) = response_create len w;
         w \<leftarrow> context_setResponse context response w;
         job_done False False reuse len context w
       }
     | DC_answer len reuse \<Rightarrow> do {
         let (response, w) = response_create len w;
         w \<leftarrow> context_setResponse context response w;
         job_done False False reuse len context w
       }
   }"

text \<open>The end of \<open>dataReceived\<close> of a request, and a new connection.\<close>

definition request_complete :: "decision \<Rightarrow> nat \<Rightarrow> conn_action" where
  "request_complete d self w =
     request_received d self (w\<lparr>cw_dataReceived := unreg (CB_dataReceived self) (cw_dataReceived w),
       cw_closed := unreg (CB_connectionLost self) (cw_closed w)\<rparr>)"

definition client_connected :: "bool \<Rightarrow> conn_world option" where
  "client_connected host = request_create \<lparr>cw_life = CL_open, cw_closed = [CB_connClosed True],
     cw_dataReceived = [CB_connActive True], cw_dataSent = [CB_connActive True], cw_nameResolved = [],
     cw_host = (if host then Some True else None), cw_job = None, cw_reqs = Map.empty, cw_ctxs = Map.empty,
     cw_resps = Map.empty, cw_jobs = Map.empty, cw_next = 0, cw_eventsDone = []\<rparr>"

section \<open>The steps of a connection\<close>

text \<open>
  What happens, one at a time: a request is complete; the name of the client is known, or will not be; the thread of a
  job sets a response; a job ends; data is sent; the connection is closed, by its timer, an error of
  the protocol or the client; the events at hand are done.
\<close>

datatype conn_event = E_received decision | E_resolved bool | E_respond nat nat | E_finished nat bool bool nat | E_sent | E_close
  | E_eventsDone

definition enabled :: "conn_event \<Rightarrow> conn_world \<Rightarrow> bool" where
  "enabled e w = (case e of
     E_received d \<Rightarrow> cw_life w = CL_open \<and> (\<exists>r \<in> set (cw_dataReceived w). case r of CB_dataReceived _ \<Rightarrow> True | _ \<Rightarrow> False)
   | E_resolved ok \<Rightarrow> cw_life w = CL_open \<and> cw_host w = None
   | E_respond j len \<Rightarrow> cw_jobs w j \<noteq> None
   | E_finished j completed reuse len \<Rightarrow> cw_jobs w j \<noteq> None
   | E_sent \<Rightarrow> cw_life w = CL_open
   | E_close \<Rightarrow> cw_life w \<noteq> CL_freed
   | E_eventsDone \<Rightarrow> True)"

fun dataReceived_call :: "decision \<Rightarrow> callback \<Rightarrow> conn_action" where
  "dataReceived_call d (CB_connActive server) w = connActive w"
| "dataReceived_call d (CB_dataReceived r) w = request_complete d r w"
| "dataReceived_call d cb w = None"

fun nameResolved_call :: "bool \<Rightarrow> callback \<Rightarrow> conn_action" where
  "nameResolved_call ok (CB_nameResolved self) w = do {
     c \<leftarrow> cw_ctxs w self;
     Some (w\<lparr>cw_ctxs := (cw_ctxs w)(self \<mapsto> c\<lparr>cc_host := ok\<rparr>)\<rparr>)
   }"
| "nameResolved_call ok cb w = None"

fun done_call :: "donecallback \<Rightarrow> conn_action" where
  "done_call (CB_deleteRequest r) w = deleteRequest r w"
| "done_call (CB_deleteResponse p) w = deleteResponse p w"

fun job_call :: "nat \<Rightarrow> bool \<Rightarrow> bool \<Rightarrow> nat \<Rightarrow> jobcallback \<Rightarrow> conn_action" where
  "job_call context completed reuse len CB_jobDone w = job_done True completed reuse len context w"
| "job_call context completed reuse len CB_canceledJobDone w = pipelineCanceledJobDone context w"

definition conn_step :: "conn_event \<Rightarrow> conn_action" where
  "conn_step e w = (case e of
     E_received d \<Rightarrow> each (dataReceived_call d) (\<lambda>cb w. cb \<in> set (cw_dataReceived w)) (cw_dataReceived w) w
   | E_resolved ok \<Rightarrow> each (nameResolved_call ok) (\<lambda>cb w. cb \<in> set (cw_nameResolved w)) (cw_nameResolved w) (w\<lparr>cw_host := Some ok\<rparr>)
   | E_respond j len \<Rightarrow> do {
       job \<leftarrow> cw_jobs w j;
       let (response, w) = response_create len w;
       context_setResponse (jc_context job) response w
     }
   | E_finished j completed reuse len \<Rightarrow> do {
       job \<leftarrow> cw_jobs w j;
       w \<leftarrow> each (job_call (jc_context job) completed reuse len) (\<lambda>cb w. True) (jc_finished job) w;
       Some (w\<lparr>cw_jobs := (cw_jobs w)(j := None)\<rparr>)
     }
   | E_sent \<Rightarrow> each dataSent_call (\<lambda>cb w. cb \<in> set (cw_dataSent w)) (cw_dataSent w) w
   | E_close \<Rightarrow> close_connection w
   | E_eventsDone \<Rightarrow> do {
       w \<leftarrow> each done_call (\<lambda>cb w. cb \<in> set (cw_eventsDone w)) (cw_eventsDone w) w;
       Some (if cw_life w = CL_closed then w\<lparr>cw_life := CL_freed\<rparr> else w)
     })"


section \<open>What a connection is doing\<close>

text \<open>
  The specification: a connection receives a request, handles it (with the size of the response that
  is set, if any), sends a response (with the bytes left, and then another request or not); it can be closed with the
  handling still going on, or over.
\<close>

datatype stage = Receiving | Handling "nat option" | Sending bool nat | Abandoned "nat option" | Over

fun stage_step :: "conn_event \<Rightarrow> stage \<Rightarrow> stage" where
  "stage_step (E_received d) Receiving = (case d of
     DC_queue \<Rightarrow> Handling None | DC_answer len reuse \<Rightarrow> Sending reuse len | DC_full len reuse \<Rightarrow> Sending reuse len)"
| "stage_step (E_respond j len) (Handling r) = Handling (Some len)"
| "stage_step (E_respond j len) (Abandoned r) = Abandoned (Some len)"
| "stage_step (E_finished j completed reuse len) (Handling (Some n)) = Sending reuse n"
| "stage_step (E_finished j completed reuse len) (Abandoned r) = Over"
| "stage_step E_sent (Sending reuse left) =
     (if left = 0 then if reuse then Receiving else Over else Sending reuse (left - min left 65535))"
| "stage_step E_close (Handling r) = Abandoned r"
| "stage_step E_close Receiving = Over"
| "stage_step E_close (Sending reuse left) = Over"
| "stage_step e s = s"

text \<open>
  The handlers answer: a job that is not canceled has completed, and its context has a response when it
  ends. (Otherwise the server follows a bad pointer when it logs the request.)
\<close>

definition answered :: "conn_event \<Rightarrow> conn_world \<Rightarrow> bool" where
  "answered e w = (case e of
     E_finished j completed reuse len \<Rightarrow> (case cw_jobs w j of
         Some job \<Rightarrow> CB_jobDone \<in> set (jc_finished job) \<longrightarrow>
           completed \<and> (case cw_ctxs w (jc_context job) of Some c \<Rightarrow> cc_response c \<noteq> None | None \<Rightarrow> True)
       | None \<Rightarrow> True)
   | _ \<Rightarrow> True)"

text \<open>The objects of each stage, by their numbers.\<close>

datatype phase = PH_receiving nat | PH_handling nat nat nat "(nat \<times> resp_cell) option" | PH_sending nat resp_cell "(nat \<times> nat) option"
  | PH_abandoned nat nat nat "(nat \<times> resp_cell) option" | PH_over

fun stage_of :: "phase \<Rightarrow> stage" where
  "stage_of (PH_receiving r) = Receiving"
| "stage_of (PH_handling r c j p) = Handling (map_option (rc_bodySize \<circ> snd) p)"
| "stage_of (PH_sending p cell reuse) = Sending (reuse \<noteq> None) (rc_bodySize cell - rc_sendPos cell)"
| "stage_of (PH_abandoned r c j p) = Abandoned (map_option (rc_bodySize \<circ> snd) p)"
| "stage_of PH_over = Over"

fun ph_open :: "phase \<Rightarrow> bool" where
  "ph_open (PH_abandoned r c j p) = False"
| "ph_open PH_over = False"
| "ph_open ph = True"

fun ph_closed :: "phase \<Rightarrow> callback list" where
  "ph_closed (PH_receiving r) = [CB_connectionLost r]"
| "ph_closed (PH_handling r c j p) = [CB_connectionClosed c, CB_jobCanceled]"
| "ph_closed (PH_sending p cell reuse) = (case reuse of None \<Rightarrow> [] | Some (r, c) \<Rightarrow> [CB_connectionClosed c]) @ [CB_abortSending p]"
| "ph_closed ph = []"

fun ph_received :: "phase \<Rightarrow> callback list" where
  "ph_received (PH_receiving r) = [CB_dataReceived r]"
| "ph_received ph = []"

fun ph_sent :: "phase \<Rightarrow> callback list" where
  "ph_sent (PH_sending p cell reuse) = [CB_sendBody p]"
| "ph_sent ph = []"

fun ph_req :: "phase \<Rightarrow> nat option" where
  "ph_req (PH_receiving r) = Some r"
| "ph_req (PH_handling r c j p) = Some r"
| "ph_req (PH_sending p cell reuse) = map_option fst reuse"
| "ph_req (PH_abandoned r c j p) = Some r"
| "ph_req PH_over = None"

fun ph_ctx :: "phase \<Rightarrow> (nat \<times> nat \<times> nat option) option" where
  "ph_ctx (PH_handling r c j p) = Some (c, r, map_option fst p)"
| "ph_ctx (PH_sending p cell reuse) = map_option (\<lambda>(r, c). (c, r, Some p)) reuse"
| "ph_ctx (PH_abandoned r c j p) = Some (c, r, map_option fst p)"
| "ph_ctx ph = None"

fun ph_resp :: "phase \<Rightarrow> (nat \<times> resp_cell) option" where
  "ph_resp (PH_handling r c j p) = p"
| "ph_resp (PH_sending p cell reuse) = Some (p, cell)"
| "ph_resp (PH_abandoned r c j p) = p"
| "ph_resp ph = None"

fun ph_resps :: "phase \<Rightarrow> nat set" where
  "ph_resps (PH_handling r c j p) = (case p of None \<Rightarrow> {} | Some (p, cell) \<Rightarrow> {p})"
| "ph_resps (PH_sending p cell reuse) = {p}"
| "ph_resps (PH_abandoned r c j p) = (case p of None \<Rightarrow> {} | Some (p, cell) \<Rightarrow> {p})"
| "ph_resps ph = {}"

fun ph_job :: "phase \<Rightarrow> (nat \<times> job_cell) option" where
  "ph_job (PH_handling r c j p) = Some (j, \<lparr>jc_context = c, jc_finished = [CB_jobDone]\<rparr>)"
| "ph_job (PH_abandoned r c j p) = Some (j, \<lparr>jc_context = c, jc_finished = [CB_canceledJobDone]\<rparr>)"
| "ph_job ph = None"

fun ph_cell_ok :: "phase \<Rightarrow> bool" where
  "ph_cell_ok (PH_handling r c j p) = (case p of None \<Rightarrow> True | Some (p, cell) \<Rightarrow> rc_sent cell = [] \<and> rc_sendPos cell = 0)"
| "ph_cell_ok (PH_sending p cell reuse) =
     (rc_sent cell = [case reuse of None \<Rightarrow> CB_sentSingle | Some (r, c) \<Rightarrow> CB_sentReuse c] \<and> rc_sendPos cell \<le> rc_bodySize cell)"
| "ph_cell_ok ph = True"

text \<open>The world is exactly that of the phase, and what else there is waits to be deleted.\<close>

definition rep_events :: "phase \<Rightarrow> conn_world \<Rightarrow> bool" where
  "rep_events ph w \<longleftrightarrow> (ph_open ph \<longrightarrow> cw_closed w = CB_connClosed True # ph_closed ph)
     \<and> cw_dataReceived w = CB_connActive True # ph_received ph \<and> cw_dataSent w = CB_connActive True # ph_sent ph
     \<and> (ph_open ph \<longleftrightarrow> cw_life w = CL_open)
     \<and> (ph_open ph \<and> cw_host w = None \<longrightarrow> cw_nameResolved w = (case ph_ctx ph of None \<Rightarrow> [] | Some (c, r, p) \<Rightarrow> [CB_nameResolved c]))
     \<and> (case ph of PH_handling r c j p \<Rightarrow> cw_job w = Some j | _ \<Rightarrow> True)"

definition rep_objects :: "phase \<Rightarrow> conn_world \<Rightarrow> bool" where
  "rep_objects ph w \<longleftrightarrow>
     (\<forall>i. cw_reqs w i = (if ph_req ph = Some i then Some 0 else if CB_deleteRequest i \<in> set (cw_eventsDone w) then Some 1 else None))
     \<and> cw_ctxs w = (case ph_ctx ph of None \<Rightarrow> Map.empty | Some (c, r, p) \<Rightarrow>
          [c \<mapsto> \<lparr>cc_request = r, cc_response = p, cc_conn = ph_open ph, cc_host = (cw_host w = Some True)\<rparr>])
     \<and> cw_jobs w = (case ph_job ph of None \<Rightarrow> Map.empty | Some (j, cell) \<Rightarrow> [j \<mapsto> cell])
     \<and> (\<forall>p cell. ph_resp ph = Some (p, cell) \<longrightarrow> cw_resps w p = Some cell \<and> rc_deleteScheduled cell = 0)
     \<and> (\<forall>i. CB_deleteResponse i \<in> set (cw_eventsDone w) \<longrightarrow> (\<exists>cell. cw_resps w i = Some cell))
     \<and> (\<forall>i cell. cw_resps w i = Some cell \<longrightarrow>
          i \<in> ph_resps ph \<or> rc_deleteScheduled cell = 1 \<and> CB_deleteResponse i \<in> set (cw_eventsDone w))
     \<and> distinct (cw_eventsDone w) \<and> ph_cell_ok ph
     \<and> (\<forall>i. ph_req ph = Some i \<longrightarrow> CB_deleteRequest i \<notin> set (cw_eventsDone w))
     \<and> (\<forall>i cell. ph_resp ph = Some (i, cell) \<longrightarrow> CB_deleteResponse i \<notin> set (cw_eventsDone w))"

definition rep_fresh :: "phase \<Rightarrow> conn_world \<Rightarrow> bool" where
  "rep_fresh ph w \<longleftrightarrow> (\<forall>i. CB_deleteRequest i \<in> set (cw_eventsDone w) \<longrightarrow> i < cw_next w)
     \<and> (\<forall>i. CB_deleteResponse i \<in> set (cw_eventsDone w) \<longrightarrow> i < cw_next w)
     \<and> (\<forall>i. ph_req ph = Some i \<longrightarrow> i < cw_next w) \<and> (\<forall>i c. ph_resp ph = Some (i, c) \<longrightarrow> i < cw_next w)"

definition rep :: "phase \<Rightarrow> conn_world \<Rightarrow> bool" where
  "rep ph w \<longleftrightarrow> rep_events ph w \<and> rep_objects ph w \<and> rep_fresh ph w"

lemmas rep_defs = rep_def rep_events_def rep_objects_def rep_fresh_def

lemma unreg_simps [simp]: "unreg cb [] = []" "unreg cb (c # cbs) = (if c = cb then unreg cb cbs else c # unreg cb cbs)"
  "unreg cb (xs @ ys) = unreg cb xs @ unreg cb ys"
  by (simp_all add: unreg_def)

lemma connected_rep: "client_connected host = Some w \<Longrightarrow> \<exists>r. rep (PH_receiving r) w"
  by (auto simp: client_connected_def request_create_def conn_alive_def rep_defs fun_eq_iff)

definition steps_to :: "conn_event \<Rightarrow> conn_world \<Rightarrow> phase \<Rightarrow> bool" where
  "steps_to e w ph' \<longleftrightarrow> (\<exists>w'. conn_step e w = Some w' \<and> rep ph' w')"

lemma step_queue: "rep (PH_receiving r) w \<Longrightarrow> steps_to (E_received DC_queue) w (PH_handling r (cw_next w) (cw_next w + 1) None)"
  by (auto simp: steps_to_def rep_defs conn_step_def connActive_def conn_alive_def request_complete_def request_received_def context_create_def)

lemmas conn_defs = steps_to_def conn_step_def connActive_def conn_alive_def request_complete_def request_received_def
  context_create_def response_create_def context_setResponse_def response_destroy_def job_done_def response_send_def
  context_destroy_def request_deleteLater_def close_connection_def connClosed_def connectionLost_def context_connClosed_def
  pipelineJobCanceled_def response_abort_def sentSingle_def sentReuse_def response_deleteLater_def
  request_create_def pipelineCanceledJobDone_def send_body_def sent_raise_def Let_def

definition new_cell :: "nat \<Rightarrow> resp_cell" where
  "new_cell len = \<lparr>rc_deleteScheduled = 0, rc_bodySize = len, rc_sendPos = 0, rc_sent = []\<rparr>"

abbreviation answer_phase :: "bool \<Rightarrow> nat \<Rightarrow> nat \<Rightarrow> nat \<Rightarrow> nat \<Rightarrow> phase" where
  "answer_phase reuse r c p len \<equiv> PH_sending p (new_cell len\<lparr>rc_sent := [if reuse then CB_sentReuse c else CB_sentSingle]\<rparr>)
     (if reuse then Some (r, c) else None)"

lemma step_answer:
  "rep (PH_receiving r) w \<Longrightarrow> steps_to (E_received (DC_answer len reuse)) w (answer_phase reuse r (cw_next w) (cw_next w + 1) len)"
  by (auto simp: rep_defs conn_defs new_cell_def intro: less_SucI)

lemma step_full:
  "rep (PH_receiving r) w \<Longrightarrow> steps_to (E_received (DC_full len reuse)) w (answer_phase reuse r (cw_next w) (cw_next w + 2) len)"
  by (auto simp: rep_defs conn_defs new_cell_def intro: less_SucI)

lemma rep_new:
  assumes "rep ph w"
  shows "CB_deleteResponse (cw_next w) \<notin> set (cw_eventsDone w)" "cw_resps w (cw_next w) = None"
    "CB_deleteRequest i \<in> set (cw_eventsDone w) \<Longrightarrow> i < Suc (cw_next w)"
    "CB_deleteResponse i \<in> set (cw_eventsDone w) \<Longrightarrow> i < Suc (cw_next w)"
proof -
  have f: "\<forall>i. CB_deleteRequest i \<in> set (cw_eventsDone w) \<longrightarrow> i < cw_next w"
    "\<forall>i. CB_deleteResponse i \<in> set (cw_eventsDone w) \<longrightarrow> i < cw_next w"
    using assms by (simp_all add: rep_defs)
  then show n: "CB_deleteResponse (cw_next w) \<notin> set (cw_eventsDone w)" by blast
  show "CB_deleteRequest i \<in> set (cw_eventsDone w) \<Longrightarrow> i < Suc (cw_next w)"
    "CB_deleteResponse i \<in> set (cw_eventsDone w) \<Longrightarrow> i < Suc (cw_next w)"
    using f less_SucI by blast+
  have "cw_next w \<notin> ph_resps ph" using assms by (cases ph) (auto simp: rep_defs split: option.splits)
  then show "cw_resps w (cw_next w) = None" using assms n by (cases "cw_resps w (cw_next w)") (auto simp: rep_defs)
qed

lemma step_respond:
  assumes "rep (PH_handling r c j p) w"
  shows "steps_to (E_respond j len) w (PH_handling r c j (Some (cw_next w, new_cell len)))"
  using assms rep_new [OF assms] by (cases p; auto simp: rep_defs conn_defs new_cell_def; blast)

lemma step_respond_abandoned:
  assumes "rep (PH_abandoned r c j p) w"
  shows "steps_to (E_respond j len) w (PH_abandoned r c j (Some (cw_next w, new_cell len)))"
  using assms rep_new [OF assms] by (cases p; auto simp: rep_defs conn_defs new_cell_def; blast)

lemma step_finished:
  "rep (PH_handling r c j (Some (p, cell))) w \<Longrightarrow> steps_to (E_finished j True reuse len) w
    (PH_sending p (cell\<lparr>rc_sent := [if reuse then CB_sentReuse c else CB_sentSingle]\<rparr>) (if reuse then Some (r, c) else None))"
  by (auto simp: rep_defs conn_defs intro: less_SucI)

lemma step_canceled: "rep (PH_abandoned r c j p) w \<Longrightarrow> steps_to (E_finished j completed reuse len) w PH_over"
  by (cases p; auto simp: rep_defs conn_defs intro: less_SucI; blast)

lemma step_close_receiving: "rep (PH_receiving r) w \<Longrightarrow> steps_to E_close w PH_over"
  by (auto simp: rep_defs conn_defs intro: less_SucI)

lemma step_close_handling: "rep (PH_handling r c j p) w \<Longrightarrow> steps_to E_close w (PH_abandoned r c j p)"
  by (auto simp: rep_defs conn_defs intro: less_SucI)

lemma step_close_single: "rep (PH_sending p cell None) w \<Longrightarrow> steps_to E_close w PH_over"
  by (auto simp: rep_defs conn_defs intro: less_SucI)

lemma step_close_reuse: "rep (PH_sending p cell (Some (r, c))) w \<Longrightarrow> steps_to E_close w PH_over"
  by (auto simp: rep_defs conn_defs intro: less_SucI)

lemma step_sent_piece:
  "rep (PH_sending p cell reuse) w \<Longrightarrow> rc_sendPos cell < rc_bodySize cell \<Longrightarrow>
    steps_to E_sent w (PH_sending p (cell\<lparr>rc_sendPos := rc_sendPos cell + min (rc_bodySize cell - rc_sendPos cell) 65535\<rparr>) reuse)"
  by (cases reuse) (auto simp: rep_defs conn_defs intro: less_SucI)

lemma step_sent_single:
  "rep (PH_sending p cell None) w \<Longrightarrow> rc_sendPos cell = rc_bodySize cell \<Longrightarrow> steps_to E_sent w PH_over"
  by (auto simp: rep_defs conn_defs intro: less_SucI)

lemma step_sent_reuse:
  "rep (PH_sending p cell (Some (r, c))) w \<Longrightarrow> rc_sendPos cell = rc_bodySize cell \<Longrightarrow> steps_to E_sent w (PH_receiving (cw_next w))"
  by (auto simp: rep_defs conn_defs intro: less_SucI)

lemma step_sent_idle:
  "rep ph w \<Longrightarrow> ph_open ph \<Longrightarrow> ph_sent ph = [] \<Longrightarrow> steps_to E_sent w ph"
  by (auto simp: rep_defs conn_defs intro: less_SucI)

lemma step_close_closed:
  "rep ph w \<Longrightarrow> \<not> ph_open ph \<Longrightarrow> cw_life w = CL_closed \<Longrightarrow> steps_to E_close w ph"
  by (auto simp: rep_defs conn_defs intro: less_SucI)

lemma step_resolved:
  assumes "rep ph w" "ph_open ph" "cw_host w = None"
  shows "steps_to (E_resolved ok) w ph"
proof (cases "\<exists>p cell r c. ph = PH_sending p cell (Some (r, c))")
  case True
  then show ?thesis using assms by (auto simp: rep_defs conn_defs)
next
  case False
  then show ?thesis using assms by (cases ph) (auto simp: rep_defs conn_defs split: option.splits)
qed

text \<open>The events at hand are done: what is scheduled is deleted, and nothing else.\<close>

lemma done_all:
  assumes "\<forall>i. CB_deleteRequest i \<in> set cbs \<longrightarrow> cw_reqs w i = Some 1"
    "\<forall>i. CB_deleteResponse i \<in> set cbs \<longrightarrow> (\<exists>cell. cw_resps w i = Some cell)"
    "distinct cbs" "cw_eventsDone w = cbs"
  shows "each done_call (\<lambda>cb w. cb \<in> set (cw_eventsDone w)) cbs w = Some (w\<lparr>cw_eventsDone := [],
    cw_reqs := (\<lambda>i. if CB_deleteRequest i \<in> set cbs then None else cw_reqs w i),
    cw_resps := (\<lambda>i. if CB_deleteResponse i \<in> set cbs then None else cw_resps w i)\<rparr>)"
  using assms
proof (induction cbs arbitrary: w)
  case (Cons cb cbs)
  have keep: "unreg cb (cb # cbs) = cbs" using Cons.prems(3) by (auto simp: unreg_def filter_id_conv)
  show ?case
  proof (cases cb)
    case (CB_deleteRequest r)
    then obtain w' where "done_call cb w = Some w'" "w' = w\<lparr>cw_reqs := (cw_reqs w)(r := None), cw_eventsDone := cbs\<rparr>"
      using Cons.prems keep by (auto simp: deleteRequest_def request_destroy_def)
    then show ?thesis using Cons CB_deleteRequest by (auto simp: fun_eq_iff)
  next
    case (CB_deleteResponse p)
    then obtain w' where "done_call cb w = Some w'" "w' = w\<lparr>cw_resps := (cw_resps w)(p := None), cw_eventsDone := cbs\<rparr>"
      using Cons.prems keep by (auto simp: deleteResponse_def response_destroy_def)
    then show ?thesis using Cons CB_deleteResponse by (auto simp: fun_eq_iff)
  qed
qed simp

lemma step_eventsDone:
  assumes "rep ph w"
  shows "steps_to E_eventsDone w ph" "conn_step E_eventsDone w = Some w' \<Longrightarrow> cw_eventsDone w' = []"
    "conn_step E_eventsDone w = Some w' \<Longrightarrow> cw_life w \<noteq> CL_open \<Longrightarrow> cw_life w' = CL_freed"
proof -
  let ?w = "w\<lparr>cw_eventsDone := [],
    cw_reqs := (\<lambda>i. if CB_deleteRequest i \<in> set (cw_eventsDone w) then None else cw_reqs w i),
    cw_resps := (\<lambda>i. if CB_deleteResponse i \<in> set (cw_eventsDone w) then None else cw_resps w i)\<rparr>"
  let ?w2 = "if cw_life w = CL_closed then ?w\<lparr>cw_life := CL_freed\<rparr> else ?w"
  have "each done_call (\<lambda>cb w. cb \<in> set (cw_eventsDone w)) (cw_eventsDone w) w = Some ?w"
    by (rule done_all) (use assms in \<open>auto simp: rep_defs\<close>)
  then have step: "conn_step E_eventsDone w = Some ?w2" by (simp add: conn_step_def)
  have e: "rep_events ph ?w2" using assms by (cases ph) (simp_all add: rep_def rep_events_def)
  have o: "rep_objects ph w" using assms by (simp add: rep_def)
  have "rep_objects ph ?w2"
    using o unfolding rep_objects_def by (intro conjI allI impI) (auto split: if_splits option.splits)
  moreover have "rep_fresh ph ?w2" using assms by (simp add: rep_def rep_fresh_def)
  ultimately show "steps_to E_eventsDone w ph" using e step unfolding steps_to_def rep_def by blast
  show "conn_step E_eventsDone w = Some w' \<Longrightarrow> cw_eventsDone w' = []" using step by (auto split: if_splits)
  show "conn_step E_eventsDone w = Some w' \<Longrightarrow> cw_life w \<noteq> CL_open \<Longrightarrow> cw_life w' = CL_freed"
    using step by (cases "cw_life w") auto
qed

text \<open>Every step that can happen is a step of the specification.\<close>

lemma conn_simulation:
  assumes "rep ph w" "enabled e w" "answered e w"
  obtains ph' where "steps_to e w ph'" "stage_of ph' = stage_step e (stage_of ph)"
proof (cases e)
  case (E_received d)
  with assms obtain r where ph: "ph = PH_receiving r"
    by (cases ph) (auto simp: enabled_def rep_defs)
  show thesis
    by (cases d) (use assms(1) that step_queue step_answer step_full in \<open>fastforce simp: E_received ph new_cell_def\<close>)+
next
  case (E_resolved ok)
  with assms have "ph_open ph" "cw_host w = None" by (auto simp: enabled_def rep_defs)
  then show thesis using that [of ph] step_resolved [OF assms(1)] E_resolved by (cases ph) auto
next
  case (E_respond j len)
  with assms consider r c p where "ph = PH_handling r c j p" | r c p where "ph = PH_abandoned r c j p"
    by (cases ph) (auto simp: enabled_def rep_defs split: if_splits)
  then show thesis
    by cases (use assms(1) that step_respond step_respond_abandoned E_respond in \<open>fastforce simp: new_cell_def\<close>)+
next
  case (E_finished j completed reuse len)
  have jobs: "cw_jobs w j \<noteq> None" "cw_jobs w = (case ph_job ph of None \<Rightarrow> Map.empty | Some (j, cell) \<Rightarrow> [j \<mapsto> cell])"
    using assms(1,2) by (simp_all add: E_finished enabled_def rep_defs)
  consider r c p cell where "ph = PH_handling r c j (Some (p, cell))" "completed" | r c p where "ph = PH_abandoned r c j p"
  proof (cases ph)
    case (PH_handling r c j' p)
    then have j: "j' = j" "cw_jobs w j = Some \<lparr>jc_context = c, jc_finished = [CB_jobDone]\<rparr>"
      using jobs by (simp_all split: if_splits)
    moreover have "cw_ctxs w c = Some \<lparr>cc_request = r, cc_response = map_option fst p, cc_conn = True, cc_host = (cw_host w = Some True)\<rparr>"
      using assms(1) PH_handling by (simp add: rep_defs)
    ultimately have "completed" "p \<noteq> None" using assms(3) by (simp_all add: E_finished answered_def)
    then show ?thesis using that PH_handling j(1) by auto
  next
    case (PH_abandoned r c j' p)
    then show ?thesis using that jobs by (simp split: if_splits)
  qed (use jobs in simp_all)
  then show thesis
  proof cases
    case 1
    then have "rc_sendPos cell = 0" using assms(1) by (simp add: rep_defs)
    then show ?thesis using that step_finished assms(1) 1 E_finished by fastforce
  next
    case 2
    then show ?thesis using that step_canceled assms(1) E_finished by fastforce
  qed
next
  case E_sent
  then have o: "ph_open ph" using assms by (simp add: enabled_def rep_defs)
  show thesis
  proof (cases ph)
    case (PH_sending p cell reuse)
    then have le: "rc_sendPos cell \<le> rc_bodySize cell" using assms(1) by (simp add: rep_defs)
    show thesis
    proof (cases "rc_sendPos cell = rc_bodySize cell")
      case True
      then show thesis using that assms(1) PH_sending E_sent step_sent_single step_sent_reuse by (cases reuse) fastforce+
    next
      case False
      then show thesis using that step_sent_piece assms(1) PH_sending E_sent le by fastforce
    qed
  qed (use assms(1) o that step_sent_idle E_sent in \<open>fastforce+\<close>)
next
  case E_close
  then have live: "cw_life w \<noteq> CL_freed" using assms by (simp add: enabled_def)
  show thesis
  proof (cases ph)
    case (PH_sending p cell reuse)
    then show thesis using that assms(1) E_close step_close_single step_close_reuse by (cases reuse) fastforce+
  next
    case (PH_abandoned r c j p)
    then have "cw_life w = CL_closed" using assms(1) live by (cases "cw_life w") (simp_all add: rep_defs)
    then show thesis using that [of ph] step_close_closed assms(1) E_close PH_abandoned by simp
  next
    case PH_over
    then have "cw_life w = CL_closed" using assms(1) live by (cases "cw_life w") (simp_all add: rep_defs)
    then show thesis using that [of ph] step_close_closed assms(1) E_close PH_over by simp
  qed (use assms(1) that step_close_receiving step_close_handling E_close in \<open>fastforce+\<close>)
next
  case E_eventsDone
  then show thesis using that [of ph] step_eventsDone(1) [OF assms(1)] by (cases ph) auto
qed

section \<open>Reachable states\<close>

text \<open>The states a connection reaches as long as its handlers answer, with the stage of the specification.\<close>

inductive conn_reach :: "stage \<Rightarrow> conn_world \<Rightarrow> bool" where
  connected: "client_connected host = Some w \<Longrightarrow> conn_reach Receiving w"
| happened: "conn_reach s w \<Longrightarrow> enabled e w \<Longrightarrow> answered e w \<Longrightarrow> conn_step e w = Some w' \<Longrightarrow> conn_reach (stage_step e s) w'"

lemma conn_reach_rep: "conn_reach s w \<Longrightarrow> \<exists>ph. rep ph w \<and> stage_of ph = s"
proof (induction rule: conn_reach.induct)
  case (connected host w)
  then show ?case using connected_rep by fastforce
next
  case (happened s w e w')
  then obtain ph where ph: "rep ph w" "stage_of ph = s" by blast
  from conn_simulation [OF ph(1) happened.hyps(2,3)] obtain ph' where
    "steps_to e w ph'" "stage_of ph' = stage_step e (stage_of ph)" .
  then show ?case using happened.hyps(4) ph(2) by (auto simp: steps_to_def)
qed

fun run_events :: "conn_event list \<Rightarrow> conn_action" where
  "run_events [] w = Some w"
| "run_events (e # es) w = do { w \<leftarrow> conn_step e w; run_events es w }"

lemma connection_steps:
  assumes "conn_reach s w" "enabled e w" "answered e w"
  shows "\<exists>w'. conn_step e w = Some w' \<and> conn_reach (stage_step e s) w'
    \<and> (cw_life w = CL_open \<longleftrightarrow> s \<noteq> Over \<and> (\<forall>r. s \<noteq> Abandoned r))"
proof -
  from conn_reach_rep [OF assms(1)] obtain ph where ph: "rep ph w" "stage_of ph = s" by blast
  from conn_simulation [OF ph(1) assms(2,3)] obtain ph' where "steps_to e w ph'" .
  then obtain w' where w': "conn_step e w = Some w'" by (auto simp: steps_to_def)
  have "cw_life w = CL_open \<longleftrightarrow> ph_open ph" using ph(1) by (auto simp: rep_defs)
  then have "cw_life w = CL_open \<longleftrightarrow> s \<noteq> Over \<and> (\<forall>r. s \<noteq> Abandoned r)" using ph(2) by (cases ph) auto
  then show ?thesis using w' happened [OF assms w'] by blast
qed


text \<open>
  C14: a connection leaves nothing behind. When it is closed and its job, if there was one, has ended,
  the end of the events at hand deletes what is left of all its requests, contexts and responses.
\<close>

theorem connection_freed:
  assumes "conn_reach s w" "cw_life w \<noteq> CL_open" "cw_jobs w = Map.empty"
  shows "\<exists>w'. conn_step E_eventsDone w = Some w' \<and> cw_reqs w' = Map.empty \<and> cw_ctxs w' = Map.empty
    \<and> cw_resps w' = Map.empty \<and> cw_jobs w' = Map.empty \<and> cw_eventsDone w' = [] \<and> cw_life w' = CL_freed"
proof -
  from conn_reach_rep [OF assms(1)] obtain ph where ph: "rep ph w" by blast
  then have "cw_jobs w = (case ph_job ph of None \<Rightarrow> Map.empty | Some (j, cell) \<Rightarrow> [j \<mapsto> cell])" "\<not> ph_open ph"
    using assms(2) by (simp_all add: rep_defs)
  then have over: "ph = PH_over" using assms(3) by (cases ph) (auto simp: fun_eq_iff split: if_splits)
  from step_eventsDone(1) [OF ph] obtain w' where w': "conn_step E_eventsDone w = Some w'" "rep ph w'" by (auto simp: steps_to_def)
  have "cw_life w' = CL_freed" using step_eventsDone(3) [OF ph w'(1) assms(2)] .
  moreover have none: "cw_eventsDone w' = []" using step_eventsDone(2) [OF ph w'(1)] .
  moreover have "cw_reqs w' = Map.empty" "cw_ctxs w' = Map.empty" "cw_resps w' = Map.empty" "cw_jobs w' = Map.empty"
    using w'(2) none by (auto simp: over rep_defs fun_eq_iff)
  ultimately show ?thesis using w'(1) by blast
qed

lemma sending_done:
  assumes "conn_reach (Sending reuse n) w"
  shows "\<exists>w'. run_events (replicate ((n + 65534) div 65535 + 1) E_sent) w = Some w'
    \<and> conn_reach (if reuse then Receiving else Over) w'"
  using assms
proof (induction n arbitrary: w rule: less_induct)
  case (less n)
  have open_w: "cw_life w = CL_open" "enabled E_sent w" "answered E_sent w"
  proof -
    from conn_reach_rep [OF less.prems] obtain ph where ph: "rep ph w" "stage_of ph = Sending reuse n" by blast
    then have "ph_open ph" by (cases ph) simp_all
    then show "cw_life w = CL_open" using ph(1) by (simp add: rep_defs)
    then show "enabled E_sent w" "answered E_sent w" by (simp_all add: enabled_def answered_def)
  qed
  obtain w1 where w1: "conn_step E_sent w = Some w1" "conn_reach (stage_step E_sent (Sending reuse n)) w1"
    using connection_steps [OF less.prems open_w(2,3)] by blast
  show ?case
  proof (cases "n = 0")
    case True
    then show ?thesis using w1 by simp
  next
    case False
    let ?m = "n - min n 65535"
    have "?m < n" using False by simp
    moreover have "conn_reach (Sending reuse ?m) w1" using w1(2) False by simp
    ultimately obtain w' where w': "run_events (replicate ((?m + 65534) div 65535 + 1) E_sent) w1 = Some w'"
      "conn_reach (if reuse then Receiving else Over) w'" using less.IH by blast
    have "(n + 65534) div 65535 = (?m + 65534) div 65535 + 1" using False by (cases "n \<le> 65535") (auto simp: min_def)
    then show ?thesis using w1(1) w' by simp
  qed
qed


text \<open>A connection whose first request is queued, or is answered at once with a body of 100000 bytes.\<close>

lemma ex_connected: obtains w where "conn_reach Receiving w" "enabled (E_received d) w"
proof -
  obtain w where w: "client_connected True = Some w" by (simp add: client_connected_def request_create_def conn_alive_def)
  from connected_rep [OF this] obtain r where "rep (PH_receiving r) w" ..
  then have "enabled (E_received d) w" by (simp add: enabled_def rep_defs)
  then show thesis using that connected [OF w] by blast
qed

lemma answered_simps [simp]: "answered (E_received d) w" "answered E_close w" "answered E_sent w" "answered E_eventsDone w"
  by (simp_all add: answered_def)


theorem connection_freed_witness:
  "\<exists>w w'. conn_reach Over w \<and> conn_step E_eventsDone w = Some w' \<and> cw_reqs w' = Map.empty \<and> cw_ctxs w' = Map.empty"
proof -
  obtain w where w: "conn_reach Receiving w" "enabled (E_received DC_queue) w" by (rule ex_connected)
  then obtain w1 where w1: "conn_reach (Handling None) w1" using connection_steps [OF w] by auto
  have "cw_life w1 = CL_open" using connection_steps [OF w1, of E_eventsDone] by (auto simp: enabled_def)
  then obtain w2 where w2: "conn_reach (Abandoned None) w2"
    using connection_steps [OF w1, of E_close] by (auto simp: enabled_def)
  from conn_reach_rep [OF w2] obtain ph where ph: "rep ph w2" "stage_of ph = Abandoned None" by blast
  then obtain r c j p where "ph = PH_abandoned r c j p" by (cases ph) auto
  then have "cw_jobs w2 j = Some \<lparr>jc_context = c, jc_finished = [CB_canceledJobDone]\<rparr>" using ph(1) by (simp add: rep_defs)
  then have "enabled (E_finished j True True 0) w2" "answered (E_finished j True True 0) w2"
    by (simp_all add: enabled_def answered_def)
  then obtain w3 where w3: "conn_reach Over w3" using connection_steps [OF w2] by fastforce
  have "cw_life w3 \<noteq> CL_open" using connection_steps [OF w3, of E_eventsDone] by (auto simp: enabled_def)
  moreover have "cw_jobs w3 = Map.empty"
  proof -
    from conn_reach_rep [OF w3] obtain ph where "rep ph w3" "stage_of ph = Over" by blast
    then show ?thesis by (cases ph) (simp_all add: rep_defs)
  qed
  ultimately show ?thesis using connection_freed [OF w3] w3 by blast
qed


end
