(* ===== verification/Config.thy ===== *)
theory Config
  imports Proxy_List Ip_Addr "HOL-Library.Monad_Syntax"
begin

text \<open>
  \<open>config.c\<close>, the configuration file: sections, settings, the checkers, realms and servers they
  describe, the functions the rest of swad asks, and the file itself, line by line through a buffer of
  1024 bytes. The warnings go to a list instead of a log. \<^term>\<open>None\<close> is undefined behaviour:
  a write behind an array, a null string that is compared, a text that is read behind its end (where
  earlier lines, or nothing at all, may be).
\<close>

section \<open>The configuration\<close>

datatype checkerclass = CC_NONE | CC_PAM

record cfgchecker =
  ck_name :: string
  ck_class :: checkerclass
  ck_args :: "string list"

text \<open>Limits: how many, and two arrays of eight; a cell that was never written is \<^term>\<open>None\<close>.\<close>

record cfglimits =
  lm_n :: nat
  lm_seconds :: "u16 option list"
  lm_limits :: "u16 option list"

record cfgrealm =
  cr_name :: string
  cr_checkers :: "string list"
  cr_limits :: cfglimits

text \<open>A server has the protocol 0 of its cleared memory until one is set.\<close>

record cfgserver =
  cs_name :: "string option"
  cs_tlsCert :: "string option"
  cs_tlsKey :: "string option"
  cs_nat64Prefix :: "ipaddr option"
  cs_listen :: "string list"
  cs_proto :: "psc_proto option"
  cs_trustedHeader :: proxyheader
  cs_port :: int
  cs_tls :: bool
  cs_trustedProxies :: int

datatype cfgsection = CS_INVALID | CS_GLOBAL | CS_CHECKERS | CS_REALMS | CS_SERVER

datatype cfgwarning = W_malformed | W_emptyServerName | W_tooManyArguments string | W_unknownRealm string string
  | W_tooManyLimits | W_invalid string string | W_tooManyCheckers string | W_unknownServerOption string
  | W_unknownUser string | W_unknownGroup string | W_tooManySessionLimits | W_unknownOption string
  | W_unknownSection string | W_malformedSection | W_tooLong

text \<open>
  The static variables. The arrays of checkers, realms and servers grow as needed; \<open>cf_server\<close> is the
  index of the server the pointer \<open>server\<close> points to.
\<close>

record config =
  cf_checkers :: "cfgchecker list"
  cf_realms :: "cfgrealm list"
  cf_servers :: "cfgserver list"
  cf_nat64Prefix :: "ipaddr option"
  cf_cfgfile :: "string option"
  cf_pidfile :: "string option"
  cf_uid :: int
  cf_gid :: int
  cf_resolveHosts :: int
  cf_foreground :: bool
  cf_verbose :: bool
  cf_sessionLimits :: cfglimits
  cf_loginLimits :: cfglimits
  cf_lineno :: nat
  cf_section :: cfgsection
  cf_server :: nat
  cf_log :: "(nat \<times> cfgwarning) list"

definition limits_cleared :: cfglimits where
  "limits_cleared = \<lparr>lm_n = 0, lm_seconds = replicate 8 (Some 0), lm_limits = replicate 8 (Some 0)\<rparr>"

definition limits_malloc :: cfglimits where
  "limits_malloc = \<lparr>lm_n = 0, lm_seconds = replicate 8 None, lm_limits = replicate 8 None\<rparr>"

definition config_static :: config where
  "config_static = \<lparr>cf_checkers = [], cf_realms = [], cf_servers = [], cf_nat64Prefix = None, cf_cfgfile = None,
     cf_pidfile = None, cf_uid = -1, cf_gid = -1, cf_resolveHosts = -1, cf_foreground = False, cf_verbose = False,
     cf_sessionLimits = limits_cleared, cf_loginLimits = limits_cleared, cf_lineno = 0, cf_section = CS_INVALID,
     cf_server = 0, cf_log = []\<rparr>"

definition warn :: "cfgwarning \<Rightarrow> config \<Rightarrow> config" where
  "warn msg cf = cf\<lparr>cf_log := cf_log cf @ [(cf_lineno cf, msg)]\<rparr>"

section \<open>Values\<close>

text \<open>\<open>strtol(s, &endp, 10)\<close> with \<open>errno\<close>: the number, the rest, and whether it is out of range.\<close>

definition strtol10 :: "string \<Rightarrow> int \<times> string \<times> bool" where
  "strtol10 s =
     (let (v, endp) = strtoll s;
          t = dropWhile isspace s;
          u = (if first_char t \<in> {CHR ''-'', CHR ''+''} then tl t else t);
          n = int (dec_value (takeWhile isdigit u))
      in (v, endp, if first_char t = CHR ''-'' then n > 2 ^ 63 else n \<ge> 2 ^ 63))"

definition longArg :: "string \<Rightarrow> int option" where
  "longArg setting = (let (val, endp, erange) = strtol10 setting in if erange \<or> endp \<noteq> [] then None else Some val)"

definition intArg :: "string \<Rightarrow> int \<Rightarrow> int \<Rightarrow> int option" where
  "intArg setting mn mx =
     (let (val, endp, erange) = strtol10 setting in if erange \<or> endp \<noteq> [] \<or> val < mn \<or> val > mx then None else Some val)"

definition boolArg :: "string \<Rightarrow> bool option" where
  "boolArg str =
     (if strcaseeq str ''1'' \<or> strcaseeq str ''on'' \<or> strcaseeq str ''yes'' \<or> strcaseeq str ''true'' then Some True
      else if strcaseeq str ''0'' \<or> strcaseeq str ''no'' \<or> strcaseeq str ''off'' \<or> strcaseeq str ''false'' then Some False
      else None)"

text \<open>
  \<open>limitsArg\<close> on the next cells of the arrays: whether the text was valid, and the arrays. The numbers
  are stored in 16 bits. The counter is the caller's.
\<close>

definition cell_write :: "u16 option list \<Rightarrow> nat \<Rightarrow> int \<Rightarrow> u16 option list option" where
  "cell_write arr i v = (if i < length arr then Some (arr[i := Some (of_int v)]) else None)"

definition limitsArg :: "cfglimits \<Rightarrow> string \<Rightarrow> (bool \<times> cfglimits) option" where
  "limitsArg lm val =
     (case strchr val CHR '':'' of
        None \<Rightarrow> Some (False, lm)
      | Some i \<Rightarrow>
          (case intArg (take i val) 1 86400 of
             None \<Rightarrow> Some (False, lm)
           | Some s \<Rightarrow> do {
               secs \<leftarrow> cell_write (lm_seconds lm) (lm_n lm) s;
               let lm = lm\<lparr>lm_seconds := secs\<rparr>;
               case intArg (drop (i + 1) val) 1 1024 of
                 None \<Rightarrow> Some (False, lm)
               | Some l \<Rightarrow> do {
                   lims \<leftarrow> cell_write (lm_limits lm) (lm_n lm) l;
                   Some (True, lm\<lparr>lm_limits := lims\<rparr>)
                 }
             }))"

text \<open>\<open>name = value ; comment\<close>\<close>

definition rstrip :: "string \<Rightarrow> string" where
  "rstrip s = rev (dropWhile isspace (rev s))"

definition readKeyValue :: "string \<Rightarrow> (string \<times> string) option" where
  "readKeyValue lp =
     (if first_char lp = CHR ''='' then None
      else
        (case strchr lp CHR ''='' of
           None \<Rightarrow> None
         | Some i \<Rightarrow>
             (let v = dropWhile isspace (drop (i + 1) lp)
              in if first_char v \<in> {NUL, CHR '';'', CHR ''#''} then None
                 else Some (rstrip (take i lp), rstrip (take (strcspn v '';#'') v)))))"

text \<open>The words that \<open>strtok\<close> finds.\<close>

function words_of :: "char \<Rightarrow> string \<Rightarrow> string list" where
  "words_of d s =
     (let t = dropWhile (\<lambda>c. c = d) s
      in if t = [] then [] else takeWhile (\<lambda>c. c \<noteq> d) t # words_of d (dropWhile (\<lambda>c. c \<noteq> d) t))"
  by pat_completeness auto

termination
proof (relation "measure (\<lambda>(d, s). length s)", goal_cases)
  case (2 d s t)
  obtain c cs where t: "t = c # cs" using 2(2) list.exhaust by blast
  have "c \<noteq> d" using 2(1) t dropWhile_eq_Cons_conv [of "\<lambda>c. c = d" s c cs] by simp
  then have "length (dropWhile (\<lambda>c. c \<noteq> d) t) < length t"
    using length_dropWhile_le [of "\<lambda>c. c \<noteq> d" cs] by (simp add: t)
  moreover have "length t \<le> length s" using 2(1) by (simp add: length_dropWhile_le)
  ultimately show ?case by simp
qed simp

declare words_of.simps [simp del]

text \<open>
  Storing words in an array of eight pointers; the guard compares their number with its size in bytes.
  The inner \<^term>\<open>None\<close> is the warning about too many.
\<close>

definition WORDS_SIZEOF :: nat where
  "WORDS_SIZEOF = 8 * 8"

fun word_loop :: "string list \<Rightarrow> string list \<Rightarrow> string list option option" where
  "word_loop [] arr = Some (Some arr)"
| "word_loop (w # ws) arr =
     (if length arr = WORDS_SIZEOF then Some None
      else if length arr \<ge> 8 then None
      else word_loop ws (arr @ [w]))"

section \<open>Sections\<close>

fun server_loop :: "string option \<Rightarrow> cfgserver list \<Rightarrow> nat \<Rightarrow> nat option option" where
  "server_loop name [] i = Some None"
| "server_loop name (s # ss) i =
     (case cs_name s of
        None \<Rightarrow> if name = None then Some (Some i) else server_loop name ss (i + 1)
      | Some sname \<Rightarrow>
          (case name of
             None \<Rightarrow> None
           | Some n \<Rightarrow> if n = sname then Some (Some i) else server_loop name ss (i + 1)))"

definition server_new :: "string option \<Rightarrow> cfgserver" where
  "server_new name = \<lparr>cs_name = name, cs_tlsCert = None, cs_tlsKey = None, cs_nat64Prefix = None, cs_listen = [],
     cs_proto = None, cs_trustedHeader = PH_XFWD OR PH_RFC, cs_port = 8080, cs_tls = False, cs_trustedProxies = 0\<rparr>"

definition getServer :: "string option \<Rightarrow> config \<Rightarrow> config option" where
  "getServer name cf = do {
     let (name, cf) = (if name = Some [] then (None, warn W_emptyServerName cf) else (name, cf));
     s \<leftarrow> server_loop name (cf_servers cf) 0;
     case s of
       Some i \<Rightarrow> Some (cf\<lparr>cf_server := i\<rparr>)
     | None \<Rightarrow> Some (cf\<lparr>cf_servers := cf_servers cf @ [server_new name], cf_server := length (cf_servers cf)\<rparr>)
   }"

definition readChecker :: "string \<Rightarrow> config \<Rightarrow> config option" where
  "readChecker lp cf =
     (case readKeyValue lp of
        None \<Rightarrow> Some (warn W_malformed cf)
      | Some (key, val) \<Rightarrow> do {
          let ws = words_of CHR '':'' val;
          args \<leftarrow> word_loop (tl ws) [];
          case args of
            None \<Rightarrow> Some (warn (W_tooManyArguments key) cf)
          | Some args \<Rightarrow>
              if ws = [] then None
              else Some (cf\<lparr>cf_checkers := cf_checkers cf @
                [\<lparr>ck_name = key, ck_class = (if hd ws = ''pam'' then CC_PAM else CC_NONE), ck_args = args\<rparr>]\<rparr>)
        })"

fun strstr :: "string \<Rightarrow> string \<Rightarrow> nat option" where
  "strstr s needle =
     (if take (length needle) s = needle then Some 0
      else (case s of [] \<Rightarrow> None | c # cs \<Rightarrow> map_option Suc (strstr cs needle)))"

declare strstr.simps [simp del]

definition FAIL_LIMIT :: string where
  "FAIL_LIMIT = ''_login_fail_limit''"

fun realm_loop :: "string \<Rightarrow> cfgrealm list \<Rightarrow> nat option" where
  "realm_loop key [] = None"
| "realm_loop key (r # rs) = (if cr_name r = key then Some 0 else map_option Suc (realm_loop key rs))"

text \<open>The size of the array in bytes, again.\<close>

definition LIMITS_SIZEOF :: nat where
  "LIMITS_SIZEOF = 8 * 2"

definition readRealm_new :: "string \<Rightarrow> string \<Rightarrow> config \<Rightarrow> config option" where
  "readRealm_new key val cf = do {
     chck \<leftarrow> word_loop (words_of CHR '':'' val) [];
     case chck of
       None \<Rightarrow> Some (warn (W_tooManyCheckers key) cf)
     | Some chck \<Rightarrow> Some (cf\<lparr>cf_realms := cf_realms cf @ [\<lparr>cr_name = key, cr_checkers = chck, cr_limits = limits_malloc\<rparr>]\<rparr>)
   }"

definition readRealm :: "string \<Rightarrow> config \<Rightarrow> config option" where
  "readRealm lp cf =
     (case readKeyValue lp of
        None \<Rightarrow> Some (warn W_malformed cf)
      | Some (key, val) \<Rightarrow>
          (case strstr key FAIL_LIMIT of
             Some o' \<Rightarrow>
               if length key - o' = length FAIL_LIMIT
               then
                 (let opt = tl FAIL_LIMIT; key = take o' key
                  in case realm_loop key (cf_realms cf) of
                       None \<Rightarrow> Some (warn (W_unknownRealm opt key) cf)
                     | Some i \<Rightarrow>
                         (let realm = cf_realms cf ! i; lm = cr_limits realm
                          in if lm_n lm = LIMITS_SIZEOF then Some (warn W_tooManyLimits cf)
                             else do {
                               (ok, lm) \<leftarrow> limitsArg lm val;
                               let cf = (if ok then cf else warn (W_invalid val opt) cf);
                               Some (cf\<lparr>cf_realms := (cf_realms cf)[i := realm\<lparr>cr_limits := lm\<lparr>lm_n := lm_n lm + 1\<rparr>\<rparr>]\<rparr>)
                             }))
               else readRealm_new key val cf
           | None \<Rightarrow> readRealm_new key val cf))"

text \<open>The setting of one server: \<^term>\<open>None\<close> for an invalid value, else the server.\<close>

definition server_option :: "string \<Rightarrow> string \<Rightarrow> cfgserver \<Rightarrow> (cfgserver option \<times> cfgserver) option" where
  "server_option key val s =
     (if key = ''port'' then Some (map_option (\<lambda>n. s\<lparr>cs_port := n\<rparr>) (intArg val 1 65535), s)
      else if key = ''listen'' then Some (Some (s\<lparr>cs_listen := cs_listen s @ [val]\<rparr>), s)
      else if key = ''proto'' then
        Some (if strcaseeq val ''any'' then Some (s\<lparr>cs_proto := Some PSC_P_ANY\<rparr>)
          else if strcaseeq val ''ipv4'' then Some (s\<lparr>cs_proto := Some PSC_P_IPv4\<rparr>)
          else if strcaseeq val ''ipv6'' then Some (s\<lparr>cs_proto := Some PSC_P_IPv6\<rparr>)
          else None, s)
      else if key = ''tls'' then Some (map_option (\<lambda>b. s\<lparr>cs_tls := b\<rparr>) (boolArg val), s)
      else if key = ''tls_cert_file'' then Some (Some (s\<lparr>cs_tlsCert := Some val\<rparr>), s)
      else if key = ''tls_key_file'' then Some (Some (s\<lparr>cs_tlsKey := Some val\<rparr>), s)
      else if key = ''trusted_proxies'' then Some (map_option (\<lambda>n. s\<lparr>cs_trustedProxies := n\<rparr>) (intArg val 0 16), s)
      else if key = ''trusted_header'' then
        Some (if val = ''xfwd'' then Some (s\<lparr>cs_trustedHeader := PH_XFWD\<rparr>)
          else if val = ''rfc'' then Some (s\<lparr>cs_trustedHeader := PH_RFC\<rparr>)
          else if val = ''prefer_xfwd'' then Some (s\<lparr>cs_trustedHeader := PH_XFWD OR PH_RFC\<rparr>)
          else if val = ''prefer_rfc'' then Some (s\<lparr>cs_trustedHeader := PH_XFWD OR PH_RFC OR PH_PREFRFC\<rparr>)
          else None, s)
      else if key = ''nat64_prefix'' then
        (let s = s\<lparr>cs_nat64Prefix := (case IpAddr_create val of
               Some ip \<Rightarrow> if ip_prefixlen ip \<noteq> 96 then None else Some ip
             | None \<Rightarrow> None)\<rparr>
         in Some (if cs_nat64Prefix s = None then None else Some s, s))
      else None)"

definition readServer :: "string \<Rightarrow> config \<Rightarrow> config option" where
  "readServer lp cf =
     (case readKeyValue lp of
        None \<Rightarrow> Some (warn W_malformed cf)
      | Some (key, val) \<Rightarrow>
          if cf_server cf \<ge> length (cf_servers cf) then None
          else
            (case server_option key val (cf_servers cf ! cf_server cf) of
               None \<Rightarrow> Some (warn (W_unknownServerOption key) cf)
             | Some (done', s) \<Rightarrow>
                 (let cf = cf\<lparr>cf_servers := (cf_servers cf)[cf_server cf := (case done' of Some t \<Rightarrow> t | None \<Rightarrow> s)]\<rparr>
                  in Some (if done' = None then warn (W_invalid val key) cf else cf))))"

text \<open>
  The users and groups of the system: by name the numbers of the user and its group, by number the group
  of the user; of groups the number, and whether there is one. A number is looked up with 32 bits.
\<close>

record cfg_env =
  ce_getpwnam :: "string \<Rightarrow> (int \<times> int) option"
  ce_getpwuid :: "int \<Rightarrow> int option"
  ce_getgrnam :: "string \<Rightarrow> int option"
  ce_getgrgid :: "int \<Rightarrow> bool"

definition parseUser :: "cfg_env \<Rightarrow> string \<Rightarrow> config \<Rightarrow> config option" where
  "parseUser env str cf = do {
     (tuid, pw_gid) \<leftarrow> (case longArg str of
         None \<Rightarrow> ce_getpwnam env str
       | Some tuid \<Rightarrow> map_option (\<lambda>g. (tuid, g)) (ce_getpwuid env (tuid mod 2 ^ 32)));
     Some (cf\<lparr>cf_uid := tuid, cf_gid := (if cf_gid cf = -1 then pw_gid else cf_gid cf)\<rparr>)
   }"

definition parseGroup :: "cfg_env \<Rightarrow> string \<Rightarrow> config \<Rightarrow> config option" where
  "parseGroup env str cf = do {
     tgid \<leftarrow> (case longArg str of
         None \<Rightarrow> ce_getgrnam env str
       | Some tgid \<Rightarrow> if ce_getgrgid env (tgid mod 2 ^ 32) then Some tgid else None);
     Some (cf\<lparr>cf_gid := tgid\<rparr>)
   }"

text \<open>
  A global option. The branch for \<open>pidfile\<close> does not return, so that the end warns about it.
\<close>

definition readOption :: "cfg_env \<Rightarrow> string \<Rightarrow> config \<Rightarrow> config option" where
  "readOption env lp cf =
     (case readKeyValue lp of
        None \<Rightarrow> Some (warn W_malformed cf)
      | Some (key, val) \<Rightarrow>
          if key = ''user''
          then Some (if cf_uid cf < 0
            then (case parseUser env val cf of Some cf' \<Rightarrow> cf' | None \<Rightarrow> warn (W_unknownUser val) cf) else cf)
          else if key = ''group''
          then Some (if cf_gid cf < 0
            then (case parseGroup env val cf of Some cf' \<Rightarrow> cf' | None \<Rightarrow> warn (W_unknownGroup val) cf) else cf)
          else
            (let cf = (if key = ''pidfile'' \<and> cf_pidfile cf = None then cf\<lparr>cf_pidfile := Some val\<rparr> else cf)
             in if key = ''resolveHosts''
                then Some (if cf_resolveHosts cf < 0
                  then (case boolArg val of
                      Some b \<Rightarrow> cf\<lparr>cf_resolveHosts := (if b then 1 else 0)\<rparr>
                    | None \<Rightarrow> warn (W_invalid val key) cf) else cf)
                else if key = ''session_limit''
                then if lm_n (cf_sessionLimits cf) = LIMITS_SIZEOF then Some (warn W_tooManySessionLimits cf)
                  else do {
                    (ok, lm) \<leftarrow> limitsArg (cf_sessionLimits cf) val;
                    Some (if ok then cf\<lparr>cf_sessionLimits := lm\<lparr>lm_n := lm_n lm + 1\<rparr>\<rparr>
                      else warn (W_invalid val key) (cf\<lparr>cf_sessionLimits := lm\<rparr>))
                  }
                else if key = ''login_fail_limit''
                then if lm_n (cf_loginLimits cf) = LIMITS_SIZEOF then Some (warn W_tooManyLimits cf)
                  else do {
                    (ok, lm) \<leftarrow> limitsArg (cf_loginLimits cf) val;
                    Some (if ok then cf\<lparr>cf_loginLimits := lm\<lparr>lm_n := lm_n lm + 1\<rparr>\<rparr>
                      else warn (W_invalid val key) (cf\<lparr>cf_loginLimits := lm\<rparr>))
                  }
                else Some (warn (W_unknownOption key) cf)))"

text \<open>
  \<open>[section]\<close>. The loop that looks for the end of the name does not stop at the end of the text.
\<close>

definition section_name :: "string \<Rightarrow> string \<times> string" where
  "section_name lp = (takeWhile (\<lambda>c. \<not> isspace c \<and> c \<noteq> CHR '']'') lp, dropWhile (\<lambda>c. \<not> isspace c \<and> c \<noteq> CHR '']'') lp)"

definition readSection :: "string \<Rightarrow> config \<Rightarrow> (cfgsection \<times> config) option" where
  "readSection lp cf =
     (let malformed = Some (cf_section cf, warn W_malformedSection cf);
          lp = dropWhile isspace (tl lp)
      in if first_char lp \<in> {NUL, CHR '']''} then malformed
         else
           (let (start, lp) = section_name lp
            in if lp = [] then None
               else
                 (let lp = dropWhile isspace lp
                  in if first_char lp \<noteq> CHR '']'' then malformed
                     else if first_char (dropWhile isspace (tl lp)) \<notin> {NUL, CHR '';'', CHR ''#''} then malformed
                     else if start = ''global'' then Some (CS_GLOBAL, cf)
                     else if start = ''checkers'' then Some (CS_CHECKERS, cf)
                     else if start = ''realms'' then Some (CS_REALMS, cf)
                     else if take 6 start = ''server'' \<and> first_char (drop 6 start) \<in> {NUL, CHR '':''}
                     then map_option (Pair CS_SERVER)
                       (getServer (if drop 6 start = [] then None else Some (tl (drop 6 start))) cf)
                     else Some (CS_INVALID, warn (W_unknownSection start) cf))))"

section \<open>The file\<close>

text \<open>\<open>fgets\<close> with the buffer of 1024 bytes: a line with its end, or 1023 bytes of it.\<close>

definition LINEBUF :: nat where
  "LINEBUF = 1024"

definition fgets :: "string \<Rightarrow> (string \<times> string) option" where
  "fgets f =
     (if f = [] then None
      else
        (let chunk = take (LINEBUF - 1) f; n = length (takeWhile (\<lambda>c. c \<noteq> LF) chunk) + 1
         in Some (take n chunk, drop (length (take n chunk)) f)))"

lemma fgets_shorter: "fgets f = Some (line, rest) \<Longrightarrow> length rest < length f"
  by (auto simp: fgets_def Let_def LINEBUF_def split: if_splits)

text \<open>The rest of a line that was too long.\<close>

function skip_line :: "string \<Rightarrow> string" where
  "skip_line f = (case fgets f of
     None \<Rightarrow> []
   | Some (lp, f) \<Rightarrow> if LF \<in> set (cstr lp) then f else skip_line f)"
  by pat_completeness auto

termination
  by (relation "measure length") (auto dest: fgets_shorter)

declare skip_line.simps [simp del]

lemma skip_line_le: "length (skip_line f) \<le> length f"
proof (induction f rule: skip_line.induct)
  case (1 f)
  show ?case
  proof (cases "fgets f")
    case None
    then show ?thesis by (simp add: skip_line.simps [of f])
  next
    case (Some p)
    obtain lp g where p: "p = (lp, g)" by (cases p)
    show ?thesis
    proof (cases "LF \<in> set (cstr lp)")
      case True
      then show ?thesis using Some p fgets_shorter [of f lp g] by (simp add: skip_line.simps [of f])
    next
      case False
      then have "length (skip_line g) \<le> length g" using 1 Some p by blast
      then show ?thesis using False Some p fgets_shorter [of f lp g] by (simp add: skip_line.simps [of f])
    qed
  qed
qed

text \<open>One line, without its end.\<close>

definition read_line :: "cfg_env \<Rightarrow> string \<Rightarrow> config \<Rightarrow> config option" where
  "read_line env line cf =
     (let lp = dropWhile isspace line
      in if first_char lp \<in> {NUL, CHR '';'', CHR ''#''} then Some cf
         else if first_char lp = CHR ''[''
         then map_option (\<lambda>(sect, cf). cf\<lparr>cf_section := sect\<rparr>) (readSection lp cf)
         else
           (case cf_section cf of
              CS_INVALID \<Rightarrow> Some cf
            | CS_GLOBAL \<Rightarrow> readOption env lp cf
            | CS_CHECKERS \<Rightarrow> readChecker lp cf
            | CS_REALMS \<Rightarrow> readRealm lp cf
            | CS_SERVER \<Rightarrow> readServer lp cf))"

function read_lines :: "cfg_env \<Rightarrow> string \<Rightarrow> config \<Rightarrow> config option" where
  "read_lines env f cf = (case fgets f of
     None \<Rightarrow> Some cf
   | Some (lp, f) \<Rightarrow>
       (let cf = cf\<lparr>cf_lineno := cf_lineno cf + 1\<rparr>
        in case strchr (cstr lp) LF of
             None \<Rightarrow> read_lines env (skip_line f) (warn W_tooLong cf)
           | Some nl \<Rightarrow> Option.bind (read_line env (take nl lp) cf) (read_lines env f)))"
  by pat_completeness auto

termination
proof (relation "measure (\<lambda>(env, f, cf). length f)", goal_cases)
  case (2 env f cf x2 lp g)
  then show ?case using fgets_shorter [of f lp g] skip_line_le [of g] by simp
next
  case (3 env f cf x2 lp g)
  then show ?case using fgets_shorter [of f lp g] by simp
qed simp

declare read_lines.simps [simp del]

definition readConfigFile :: "cfg_env \<Rightarrow> string \<Rightarrow> config \<Rightarrow> config option" where
  "readConfigFile env f cf = read_lines env f (cf\<lparr>cf_lineno := 0, cf_section := CS_GLOBAL\<rparr>)"

text \<open>A file that cannot be opened changes nothing.\<close>

definition Config_readConfigFile :: "cfg_env \<Rightarrow> (string \<Rightarrow> string option) \<Rightarrow> config \<Rightarrow> config option" where
  "Config_readConfigFile env files cf =
     (case Option.bind (cf_cfgfile cf) files of Some f \<Rightarrow> readConfigFile env f cf | None \<Rightarrow> Some cf)"

section \<open>What the rest of swad asks\<close>

definition Config_checker :: "config \<Rightarrow> nat \<Rightarrow> cfgchecker option" where
  "Config_checker cf num = (if num \<ge> length (cf_checkers cf) then None else Some (cf_checkers cf ! num))"

definition CfgChecker_arg :: "cfgchecker \<Rightarrow> nat \<Rightarrow> string option" where
  "CfgChecker_arg self num = (if num \<ge> length (ck_args self) then None else Some (ck_args self ! num))"

definition Config_realm :: "config \<Rightarrow> nat \<Rightarrow> cfgrealm option" where
  "Config_realm cf num = (if num \<ge> length (cf_realms cf) then None else Some (cf_realms cf ! num))"

definition CfgRealm_checker :: "cfgrealm \<Rightarrow> nat \<Rightarrow> string option" where
  "CfgRealm_checker self num = (if num \<ge> length (cr_checkers self) then None else Some (cr_checkers self ! num))"

text \<open>A limit: the inner \<^term>\<open>None\<close> is that there are no more; a cell that was not written is read as undefined.\<close>

definition limit_at :: "cfglimits \<Rightarrow> nat \<Rightarrow> (u16 \<times> u16) option option" where
  "limit_at lm num =
     (if num \<ge> lm_n lm then Some None
      else if num \<ge> length (lm_seconds lm) \<or> num \<ge> length (lm_limits lm) then None
      else do {
        s \<leftarrow> lm_seconds lm ! num;
        l \<leftarrow> lm_limits lm ! num;
        Some (Some (s, l))
      })"

definition CfgRealm_loginFailLimit :: "cfgrealm \<Rightarrow> nat \<Rightarrow> (u16 \<times> u16) option option" where
  "CfgRealm_loginFailLimit self num = limit_at (cr_limits self) num"

definition Config_sessionLimit :: "config \<Rightarrow> nat \<Rightarrow> (u16 \<times> u16) option option" where
  "Config_sessionLimit cf num = limit_at (cf_sessionLimits cf) num"

definition Config_loginFailLimit :: "config \<Rightarrow> nat \<Rightarrow> (u16 \<times> u16) option option" where
  "Config_loginFailLimit cf num = limit_at (cf_loginLimits cf) num"

definition Config_server :: "config \<Rightarrow> nat \<Rightarrow> cfgserver option" where
  "Config_server cf num = (if num \<ge> length (cf_servers cf) then None else Some (cf_servers cf ! num))"

definition CfgServer_listen :: "cfgserver \<Rightarrow> nat \<Rightarrow> string option" where
  "CfgServer_listen self num = (if num \<ge> length (cs_listen self) then None else Some (cs_listen self ! num))"

definition CfgServer_nat64Prefix :: "cfgserver \<Rightarrow> config \<Rightarrow> ipaddr option \<times> config" where
  "CfgServer_nat64Prefix self cf =
     (if cs_nat64Prefix self \<noteq> None then (cs_nat64Prefix self, cf)
      else
        (let cf = (if cf_nat64Prefix cf = None then cf\<lparr>cf_nat64Prefix := IpAddr_create ''64:ff9b::/96''\<rparr> else cf)
         in (cf_nat64Prefix cf, cf)))"

definition Config_pidfile :: "string \<Rightarrow> config \<Rightarrow> string" where
  "Config_pidfile DEFPIDFILE cf = (case cf_pidfile cf of None \<Rightarrow> DEFPIDFILE | Some f \<Rightarrow> f)"

definition Config_resolveHosts :: "config \<Rightarrow> int" where
  "Config_resolveHosts cf = (if cf_resolveHosts cf < 0 then 0 else cf_resolveHosts cf)"

text \<open>The line number, the section and the name of the file are left, and the server points to freed memory.\<close>

definition Config_done :: "config \<Rightarrow> config" where
  "Config_done cf = config_static\<lparr>cf_cfgfile := cf_cfgfile cf, cf_lineno := cf_lineno cf, cf_section := cf_section cf,
     cf_server := cf_server cf, cf_log := cf_log cf,
     cf_sessionLimits := (cf_sessionLimits cf)\<lparr>lm_n := 0\<rparr>, cf_loginLimits := (cf_loginLimits cf)\<lparr>lm_n := 0\<rparr>\<rparr>"

end
