(* ===== verification/Config_Args.thy ===== *)
theory Config_Args
  imports Config
begin

text \<open>
  \<open>config.c\<close>, the command line, and how the configuration starts. Flags can be grouped behind one dash;
  those with an argument take it from the rest of the word, if a flag is repeated or unknown there, or
  from the words that follow, in the order of the flags.
\<close>

section \<open>The command line\<close>

definition ARGBUFSZ :: nat where
  "ARGBUFSZ = 8"

text \<open>Why reading stops: the usage is printed with an error, the help, the version, or nothing.\<close>

datatype args_stop = AS_usage "string option" | AS_help | AS_version | AS_full

text \<open>A flag goes to the front of the flags that wait for an argument; the last of them is served first.\<close>

definition addArg :: "string \<Rightarrow> char \<Rightarrow> string option" where
  "addArg args opt = (if length args = ARGBUFSZ then None else Some (opt # args))"

definition optArg :: "cfg_env \<Rightarrow> string \<Rightarrow> string \<Rightarrow> config \<Rightarrow> string option + string \<times> config" where
  "optArg env args op cf =
     (if args = [] then Inl None
      else
        (let opt = last args; args = butlast args
         in if opt = CHR ''c'' then Inr (args, cf\<lparr>cf_cfgfile := Some op\<rparr>)
            else if opt = CHR ''g''
            then (case parseGroup env op cf of None \<Rightarrow> Inl (Some ''Unknown group'') | Some cf \<Rightarrow> Inr (args, cf))
            else if opt = CHR ''p'' then Inr (args, cf\<lparr>cf_pidfile := Some op\<rparr>)
            else if opt = CHR ''u''
            then (case parseUser env op cf of None \<Rightarrow> Inl (Some ''Unknown user'') | Some cf \<Rightarrow> Inr (args, cf))
            else Inl None))"

definition onceflags :: string where
  "onceflags = ''cgpu''"

text \<open>The flags of one word; \<open>seen\<close> has the flags with an argument that were there.\<close>

definition flag_arg :: "cfg_env \<Rightarrow> string \<Rightarrow> config \<Rightarrow> string \<Rightarrow> string \<Rightarrow> args_stop + config \<times> string \<times> string" where
  "flag_arg env op cf needargs seen =
     (case optArg env needargs op cf of Inl errstr \<Rightarrow> Inl (AS_usage errstr) | Inr (needargs, cf) \<Rightarrow> Inr (cf, needargs, seen))"

fun flag_loop :: "cfg_env \<Rightarrow> string \<Rightarrow> config \<Rightarrow> string \<Rightarrow> string \<Rightarrow> args_stop + config \<times> string \<times> string" where
  "flag_loop env [] cf needargs seen = Inr (cf, needargs, seen)"
| "flag_loop env (c # cs) cf needargs seen =
     (if c \<in> set onceflags \<and> c \<in> set seen then flag_arg env (c # cs) cf needargs seen
      else
        (let seen = (if c \<in> set onceflags then c # seen else seen)
         in if c \<in> {CHR ''c'', CHR ''g'', CHR ''u''}
            then (case addArg needargs c of None \<Rightarrow> Inl AS_full | Some needargs \<Rightarrow> flag_loop env cs cf needargs seen)
            else if c = CHR ''R'' then flag_loop env cs (cf\<lparr>cf_resolveHosts := 0\<rparr>) needargs seen
            else if c = CHR ''f'' then flag_loop env cs (cf\<lparr>cf_foreground := True\<rparr>) needargs seen
            else if c = CHR ''h'' then Inl AS_help
            else if c = CHR ''r'' then flag_loop env cs (cf\<lparr>cf_resolveHosts := 1\<rparr>) needargs seen
            else if c = CHR ''V'' then Inl AS_version
            else if c = CHR ''v'' then flag_loop env cs (cf\<lparr>cf_verbose := True\<rparr>) needargs seen
            else flag_arg env (c # cs) cf needargs seen))"

fun arg_loop :: "cfg_env \<Rightarrow> string list \<Rightarrow> bool \<Rightarrow> config \<Rightarrow> string \<Rightarrow> string \<Rightarrow> args_stop + config" where
  "arg_loop env [] escapedash cf needargs seen =
     (if needargs \<noteq> [] then Inl (AS_usage (Some ''Missing argument(s) for given flags'')) else Inr cf)"
| "arg_loop env (o' # os) escapedash cf needargs seen =
     (if \<not> escapedash \<and> o' = ''--'' then arg_loop env os True cf needargs seen
      else if \<not> escapedash \<and> first_char o' = CHR ''-'' \<and> tl o' \<noteq> []
      then if needargs \<noteq> [] then Inl (AS_usage (Some ''Missing argument(s) for given flags''))
        else (case flag_loop env (tl o') cf needargs seen of
            Inl stop \<Rightarrow> Inl stop
          | Inr (cf, needargs, seen) \<Rightarrow> arg_loop env os escapedash cf needargs seen)
      else if \<not> escapedash \<and> needargs \<noteq> []
      then (case flag_arg env o' cf needargs seen of
            Inl stop \<Rightarrow> Inl stop
          | Inr (cf, needargs, seen) \<Rightarrow> arg_loop env os escapedash cf needargs seen)
      else Inl (AS_usage (Some ''Extra arguments found'')))"

definition readArguments :: "cfg_env \<Rightarrow> string list \<Rightarrow> config \<Rightarrow> args_stop + config" where
  "readArguments env argv cf = arg_loop env (tl argv) False cf [] []"

text \<open>
  \<open>Config_init\<close>: what stops it decides whether \<open>main\<close> returns a failure (the code is negative). The
  default server is made before anything else.
\<close>

definition Config_init :: "cfg_env \<Rightarrow> string \<Rightarrow> string list \<Rightarrow> (args_stop + config) option" where
  "Config_init env DEFCONFFILE argv = do {
     cf \<leftarrow> getServer None config_static;
     Some (case readArguments env argv cf of
         Inl stop \<Rightarrow> Inl stop
       | Inr cf \<Rightarrow> Inr (if cf_cfgfile cf = None then cf\<lparr>cf_cfgfile := Some DEFCONFFILE\<rparr> else cf))
   }"

definition stop_failure :: "args_stop \<Rightarrow> bool" where
  "stop_failure stop = (case stop of AS_usage _ \<Rightarrow> True | AS_full \<Rightarrow> True | AS_help \<Rightarrow> False | AS_version \<Rightarrow> False)"

end
