(* ===== verification/Config_Facts.thy ===== *)
theory Config_Facts
  imports Config_Args
begin

text \<open>
  Lemmas about the configuration: what is true of every configuration that was read, and what a file
  means line by line.
\<close>

section \<open>What is always true of a configuration\<close>

text \<open>Limits: arrays of eight cells, with the cells of the limits that count written within the range of the second number.\<close>

definition limits_shape :: "cfglimits \<Rightarrow> bool" where
  "limits_shape lm \<longleftrightarrow> length (lm_seconds lm) = 8 \<and> length (lm_limits lm) = 8"

definition limits_ok :: "cfglimits \<Rightarrow> bool" where
  "limits_ok lm \<longleftrightarrow> limits_shape lm \<and> lm_n lm \<le> 8
     \<and> (\<forall>i < lm_n lm. \<exists>s l. lm_seconds lm ! i = Some s \<and> lm_limits lm ! i = Some l \<and> 1 \<le> unat l \<and> unat l \<le> 1024)"

definition server_ok :: "cfgserver \<Rightarrow> bool" where
  "server_ok s \<longleftrightarrow> 1 \<le> cs_port s \<and> cs_port s \<le> 65535 \<and> 0 \<le> cs_trustedProxies s \<and> cs_trustedProxies s \<le> 16
     \<and> cs_trustedHeader s \<in> {PH_XFWD, PH_RFC, PH_XFWD OR PH_RFC, PH_XFWD OR PH_RFC OR PH_PREFRFC}
     \<and> (\<forall>ip. cs_nat64Prefix s = Some ip \<longrightarrow> ip_prefixlen ip = 96) \<and> cs_name s \<noteq> Some []"

definition config_ok :: "config \<Rightarrow> bool" where
  "config_ok cf \<longleftrightarrow> cf_servers cf \<noteq> [] \<and> cs_name (hd (cf_servers cf)) = None \<and> cf_server cf < length (cf_servers cf)
     \<and> distinct (map cs_name (cf_servers cf)) \<and> (\<forall>s \<in> set (cf_servers cf). server_ok s)
     \<and> (\<forall>c \<in> set (cf_checkers cf). length (ck_args c) \<le> 8)
     \<and> (\<forall>r \<in> set (cf_realms cf). length (cr_checkers r) \<le> 8 \<and> limits_shape (cr_limits r))
     \<and> limits_ok (cf_sessionLimits cf) \<and> limits_ok (cf_loginLimits cf)"

lemma config_ok_frame [simp]:
  "config_ok (warn m cf) = config_ok cf" "config_ok (cf\<lparr>cf_uid := u\<rparr>) = config_ok cf" "config_ok (cf\<lparr>cf_gid := g\<rparr>) = config_ok cf"
  "config_ok (cf\<lparr>cf_cfgfile := f\<rparr>) = config_ok cf" "config_ok (cf\<lparr>cf_pidfile := f\<rparr>) = config_ok cf"
  "config_ok (cf\<lparr>cf_resolveHosts := r\<rparr>) = config_ok cf" "config_ok (cf\<lparr>cf_foreground := b\<rparr>) = config_ok cf"
  "config_ok (cf\<lparr>cf_verbose := b\<rparr>) = config_ok cf" "config_ok (cf\<lparr>cf_lineno := n\<rparr>) = config_ok cf"
  "config_ok (cf\<lparr>cf_section := s\<rparr>) = config_ok cf"
  by (simp_all add: config_ok_def warn_def)

lemma server_new_ok: "name \<noteq> Some [] \<Longrightarrow> server_ok (server_new name)"
  by (simp add: server_ok_def server_new_def)

lemma server_loop_found:
  "server_loop name ss i = Some (Some j) \<Longrightarrow> i \<le> j \<and> j < i + length ss \<and> cs_name (ss ! (j - i)) = name"
proof (induction ss arbitrary: i)
  case (Cons s ss)
  show ?case
  proof (cases "cs_name s = name")
    case True
    then have "j = i" using Cons.prems by (auto split: option.splits if_splits)
    then show ?thesis using True by simp
  next
    case False
    then have "server_loop name ss (i + 1) = Some (Some j)" using Cons.prems by (auto split: option.splits if_splits)
    from Cons.IH [OF this] show ?thesis by (auto simp: nth_Cons')
  qed
qed simp

lemma server_loop_none: "server_loop name ss i = Some None \<Longrightarrow> name \<notin> cs_name ` set ss"
  by (induction name ss i rule: server_loop.induct) (auto split: option.splits if_splits)

lemma server_loop_default: "ss \<noteq> [] \<Longrightarrow> cs_name (hd ss) = None \<Longrightarrow> server_loop None ss i = Some (Some i)"
  by (cases ss) auto

lemma server_loop_named: "name \<noteq> None \<Longrightarrow> server_loop name ss i \<noteq> None"
  by (induction name ss i rule: server_loop.induct) (auto split: option.splits)

text \<open>With the default server in its place, the null name is never compared.\<close>

lemma getServer_ok:
  assumes "config_ok cf"
  obtains cf' where "getServer name cf = Some cf'" "config_ok cf'"
proof -
  obtain name' cf1 where n: "(if name = Some [] then (None, warn W_emptyServerName cf) else (name, cf)) = (name', cf1)"
    by (cases "if name = Some [] then (None, warn W_emptyServerName cf) else (name, cf)")
  have c1: "config_ok cf1" "name' \<noteq> Some []" using n assms by (auto split: if_splits)
  have ss: "cf_servers cf1 \<noteq> []" "cs_name (hd (cf_servers cf1)) = None" using c1(1) by (simp_all add: config_ok_def)
  obtain r where r: "server_loop name' (cf_servers cf1) 0 = Some r"
    using server_loop_default [OF ss] server_loop_named [of name' "cf_servers cf1" 0] by (cases name') auto
  show thesis
  proof (cases r)
    case None
    then have fresh: "name' \<notin> cs_name ` set (cf_servers cf1)" using server_loop_none r by blast
    let ?cf = "cf1\<lparr>cf_servers := cf_servers cf1 @ [server_new name'], cf_server := length (cf_servers cf1)\<rparr>"
    have "getServer name cf = Some ?cf" using n r None by (simp add: getServer_def)
    moreover have "config_ok ?cf"
      using c1 ss fresh server_new_ok [OF c1(2)] by (auto simp: config_ok_def server_new_def)
    ultimately show thesis by (rule that)
  next
    case (Some i)
    then have i: "i < length (cf_servers cf1)" using server_loop_found r by fastforce
    have "getServer name cf = Some (cf1\<lparr>cf_server := i\<rparr>)" using n r Some by (simp add: getServer_def)
    moreover have "config_ok (cf1\<lparr>cf_server := i\<rparr>)" using c1(1) i by (simp add: config_ok_def)
    ultimately show thesis by (rule that)
  qed
qed

lemma intArg_range: "intArg s mn mx = Some v \<Longrightarrow> mn \<le> v \<and> v \<le> mx"
  by (auto simp: intArg_def split: prod.splits if_splits)

lemma cell_write_Some: "cell_write arr i v = Some arr' \<Longrightarrow> i < length arr \<and> arr' = arr[i := Some (of_int v)]"
  by (auto simp: cell_write_def split: if_splits)

lemma limitsArg_shape: "limitsArg lm val = Some (ok, lm') \<Longrightarrow> limits_shape lm \<Longrightarrow> limits_shape lm' \<and> lm_n lm' = lm_n lm"
  unfolding limitsArg_def limits_shape_def Let_def
  by (auto elim!: bind_SomeE split: option.splits dest!: cell_write_Some)

lemma limitsArg_ok:
  assumes "limitsArg lm val = Some (ok, lm')" "limits_ok lm"
  shows "limits_ok lm'" "ok \<Longrightarrow> limits_ok (lm'\<lparr>lm_n := lm_n lm' + 1\<rparr>)"
proof -
  note shape = limitsArg_shape [OF assms(1)]
  have ok: "limits_shape lm" "lm_n lm \<le> 8" using assms(2) by (simp_all add: limits_ok_def)
  consider (same) "lm' = lm" "\<not> ok" | (half) s where "lm' = lm\<lparr>lm_seconds := (lm_seconds lm)[lm_n lm := Some s]\<rparr>" "\<not> ok"
    | (full) s l where "lm' = lm\<lparr>lm_seconds := (lm_seconds lm)[lm_n lm := Some s], lm_limits := (lm_limits lm)[lm_n lm := Some (of_int l)]\<rparr>"
        "ok" "1 \<le> l" "l \<le> 1024" "lm_n lm < length (lm_limits lm)"
    using assms(1) unfolding limitsArg_def Let_def
    by (auto elim!: bind_SomeE split: option.splits dest!: cell_write_Some intArg_range)
  then have "limits_ok lm' \<and> (ok \<longrightarrow> limits_ok (lm'\<lparr>lm_n := lm_n lm' + 1\<rparr>))"
  proof cases
    case full
    have "unat (of_int l :: u16) = nat l" using full(3,4) by (simp add: unsigned_of_int take_bit_int_eq_self)
    then show ?thesis using full assms(2) shape ok by (auto simp: limits_ok_def limits_shape_def less_Suc_eq)
  qed (use assms(2) shape in \<open>auto simp: limits_ok_def limits_shape_def\<close>)
  then show "limits_ok lm'" "ok \<Longrightarrow> limits_ok (lm'\<lparr>lm_n := lm_n lm' + 1\<rparr>)" by blast+
qed

lemma word_loop_le: "word_loop ws arr = Some (Some r) \<Longrightarrow> length arr \<le> 8 \<Longrightarrow> length r \<le> 8"
  by (induction ws arr rule: word_loop.induct) (auto split: if_splits)

lemma readChecker_ok: "readChecker lp cf = Some cf' \<Longrightarrow> config_ok cf \<Longrightarrow> config_ok cf'"
  unfolding readChecker_def Let_def
  by (auto elim!: bind_SomeE split: option.splits prod.splits if_splits)
    (auto simp: config_ok_def dest: word_loop_le)

lemma readRealm_new_ok: "readRealm_new key val cf = Some cf' \<Longrightarrow> config_ok cf \<Longrightarrow> config_ok cf'"
  unfolding readRealm_new_def
  by (auto elim!: bind_SomeE split: option.splits)
    (auto simp: config_ok_def limits_shape_def limits_malloc_def dest: word_loop_le)

lemma realm_loop_le: "realm_loop key rs = Some i \<Longrightarrow> i < length rs"
  by (induction rs arbitrary: i) (auto split: if_splits)

lemma config_ok_realm:
  assumes "config_ok cf" "i < length (cf_realms cf)" "limitsArg (cr_limits (cf_realms cf ! i)) val = Some (ok, lm)"
  shows "config_ok (cf\<lparr>cf_realms := (cf_realms cf)[i := (cf_realms cf ! i)\<lparr>cr_limits := lm\<lparr>lm_n := n\<rparr>\<rparr>]\<rparr>)"
proof -
  have r: "length (cr_checkers (cf_realms cf ! i)) \<le> 8" "limits_shape (cr_limits (cf_realms cf ! i))"
    using assms(1,2) by (auto simp: config_ok_def)
  have "limits_shape (lm\<lparr>lm_n := n\<rparr>)" using limitsArg_shape [OF assms(3) r(2)] by (simp add: limits_shape_def)
  then show ?thesis using assms(1) r(1) by (auto simp: config_ok_def dest: set_update_subset_insert [THEN subsetD])
qed

lemma realm_limit_ok:
  assumes "config_ok cf" "i < length (cf_realms cf)"
    "Option.bind (limitsArg (cr_limits (cf_realms cf ! i)) val) (\<lambda>(ok, lm).
       Some ((if ok then cf else warn m cf)\<lparr>cf_realms := (cf_realms (if ok then cf else warn m cf))
         [i := (cf_realms cf ! i)\<lparr>cr_limits := lm\<lparr>lm_n := lm_n lm + 1\<rparr>\<rparr>]\<rparr>)) = Some cf'"
  shows "config_ok cf'"
proof -
  from assms(3) obtain ok lm where l: "limitsArg (cr_limits (cf_realms cf ! i)) val = Some (ok, lm)" by (auto elim!: bind_SomeE)
  let ?cf = "cf\<lparr>cf_realms := (cf_realms cf)[i := (cf_realms cf ! i)\<lparr>cr_limits := lm\<lparr>lm_n := lm_n lm + 1\<rparr>\<rparr>]\<rparr>"
  have "cf' = (if ok then ?cf else warn m ?cf)" using assms(3) l by (auto simp: warn_def)
  moreover have "config_ok ?cf" using config_ok_realm [OF assms(1,2) l] .
  ultimately show ?thesis by simp
qed

lemma readRealm_ok:
  assumes "readRealm lp cf = Some cf'" "config_ok cf"
  shows "config_ok cf'"
proof (cases "readKeyValue lp")
  case None
  then show ?thesis using assms by (auto simp: readRealm_def)
next
  case (Some kv)
  obtain key val where kv: "readKeyValue lp = Some (key, val)" using Some by (cases kv) auto
  show ?thesis
  proof (cases "\<exists>p. strstr key FAIL_LIMIT = Some p \<and> length key - p = length FAIL_LIMIT")
    case False
    then have "readRealm_new key val cf = Some cf'" using assms(1) kv by (auto simp: readRealm_def split: option.splits)
    then show ?thesis using readRealm_new_ok assms(2) by blast
  next
    case True
    then obtain p where p: "strstr key FAIL_LIMIT = Some p" "length key - p = length FAIL_LIMIT" by blast
    show ?thesis
    proof (cases "realm_loop (take p key) (cf_realms cf)")
      case None
      then show ?thesis using assms kv p by (auto simp: readRealm_def Let_def)
    next
      case (Some i)
      show ?thesis
      proof (cases "lm_n (cr_limits (cf_realms cf ! i)) = LIMITS_SIZEOF")
        case True
        then show ?thesis using assms kv p Some by (auto simp: readRealm_def Let_def)
      next
        case False
        show ?thesis
          by (rule realm_limit_ok [OF assms(2) realm_loop_le [OF Some], where m = "W_invalid val (tl FAIL_LIMIT)"])
            (use assms(1) kv p Some False in \<open>simp add: readRealm_def Let_def\<close>)
      qed
    qed
  qed
qed

lemma server_ok_frame [simp]:
  "server_ok (s\<lparr>cs_listen := l\<rparr>) = server_ok s" "server_ok (s\<lparr>cs_proto := q\<rparr>) = server_ok s"
  "server_ok (s\<lparr>cs_tls := b\<rparr>) = server_ok s" "server_ok (s\<lparr>cs_tlsCert := c\<rparr>) = server_ok s"
  "server_ok (s\<lparr>cs_tlsKey := k\<rparr>) = server_ok s"
  by (simp_all add: server_ok_def)

lemma server_ok_header:
  "server_ok s \<Longrightarrow> h \<in> {PH_XFWD, PH_RFC, PH_XFWD OR PH_RFC, PH_XFWD OR PH_RFC OR PH_PREFRFC} \<Longrightarrow> server_ok (s\<lparr>cs_trustedHeader := h\<rparr>)"
  by (simp add: server_ok_def)

lemma server_option_ok:
  assumes "server_option key val s = Some (t, s')" "server_ok s"
  shows "server_ok (case t of Some t \<Rightarrow> t | None \<Rightarrow> s')" "cs_name (case t of Some t \<Rightarrow> t | None \<Rightarrow> s') = cs_name s"
proof -
  consider "key = ''port''" | "key = ''listen''" | "key = ''proto''" | "key = ''tls''" | "key = ''tls_cert_file''"
    | "key = ''tls_key_file''" | "key = ''trusted_proxies''" | "key = ''trusted_header''" | "key = ''nat64_prefix''"
    | "key \<noteq> ''port'' \<and> key \<noteq> ''listen'' \<and> key \<noteq> ''proto'' \<and> key \<noteq> ''tls'' \<and> key \<noteq> ''tls_cert_file'' \<and> key \<noteq> ''tls_key_file''
        \<and> key \<noteq> ''trusted_proxies'' \<and> key \<noteq> ''trusted_header'' \<and> key \<noteq> ''nat64_prefix''"
    by argo
  then have "server_ok (case t of Some t \<Rightarrow> t | None \<Rightarrow> s') \<and> cs_name (case t of Some t \<Rightarrow> t | None \<Rightarrow> s') = cs_name s"
  proof cases
    case 1
    then show ?thesis using assms intArg_range by (cases "intArg val 1 65535") (auto simp: server_option_def server_ok_def)
  next
    case 7
    then show ?thesis using assms intArg_range by (cases "intArg val 0 16") (auto simp: server_option_def server_ok_def)
  next
    case 4
    then show ?thesis using assms by (cases "boolArg val") (auto simp: server_option_def server_ok_def)
  next
    case 9
    let ?s = "s\<lparr>cs_nat64Prefix := (case IpAddr_create val of
               Some ip \<Rightarrow> if ip_prefixlen ip \<noteq> 96 then None else Some ip
             | None \<Rightarrow> None)\<rparr>"
    have "s' = ?s" "t = None \<or> t = Some ?s" using assms(1) 9 by (auto simp: server_option_def Let_def split: if_splits)
    moreover have "server_ok ?s" using assms(2) by (auto simp: server_ok_def split: option.splits if_splits)
    ultimately show ?thesis by auto
  next
    case 2
    then show ?thesis using assms by (simp add: server_option_def) (elim conjE, erule subst, simp)
  next
    case 3
    then have "s' = s" "t = None \<or> (\<exists>q. t = Some (s\<lparr>cs_proto := q\<rparr>))"
      using assms(1) by (simp_all add: server_option_def split: if_splits) blast+
    then show ?thesis using assms(2) by auto
  next
    case 5
    then show ?thesis using assms by (simp add: server_option_def) (elim conjE, erule subst, simp)
  next
    case 6
    then show ?thesis using assms by (simp add: server_option_def) (elim conjE, erule subst, simp)
  next
    case 8
    then have "s' = s" "t = None \<or> (\<exists>h \<in> {PH_XFWD, PH_RFC, PH_XFWD OR PH_RFC, PH_XFWD OR PH_RFC OR PH_PREFRFC}.
        t = Some (s\<lparr>cs_trustedHeader := h\<rparr>))"
      using assms(1) by (simp_all add: server_option_def split: if_splits) (elim conjE, hypsubst, simp)+
    then show ?thesis using assms(2) server_ok_header by auto
  next
    case 10
    then show ?thesis using assms by (simp add: server_option_def)
  qed
  then show "server_ok (case t of Some t \<Rightarrow> t | None \<Rightarrow> s')" "cs_name (case t of Some t \<Rightarrow> t | None \<Rightarrow> s') = cs_name s" by blast+
qed

lemma config_ok_server:
  assumes "config_ok cf" "server_ok t" "cs_name t = cs_name (cf_servers cf ! cf_server cf)"
  shows "config_ok (cf\<lparr>cf_servers := (cf_servers cf)[cf_server cf := t]\<rparr>)"
proof -
  have i: "cf_server cf < length (cf_servers cf)" using assms(1) by (simp add: config_ok_def)
  have "map cs_name ((cf_servers cf)[cf_server cf := t]) = map cs_name (cf_servers cf)"
    using i assms(3) by (simp add: map_update list_update_same_conv)
  moreover have "cs_name (hd ((cf_servers cf)[cf_server cf := t])) = cs_name (hd (cf_servers cf))"
    using i assms(3) by (cases "cf_servers cf"; cases "cf_server cf") auto
  ultimately show ?thesis
    using assms(1,2) i by (auto simp: config_ok_def dest: set_update_subset_insert [THEN subsetD])
qed

lemma readServer_ok: "readServer lp cf = Some cf' \<Longrightarrow> config_ok cf \<Longrightarrow> config_ok cf'"
proof -
  assume r: "readServer lp cf = Some cf'" "config_ok cf"
  have i: "cf_server cf < length (cf_servers cf)" "server_ok (cf_servers cf ! cf_server cf)" using r(2) by (auto simp: config_ok_def)
  show ?thesis
  proof (cases "readKeyValue lp")
    case None
    then show ?thesis using r by (auto simp: readServer_def)
  next
    case (Some kv)
    obtain key val where kv: "kv = (key, val)" by (cases kv)
    show ?thesis
    proof (cases "server_option key val (cf_servers cf ! cf_server cf)")
      case None
      then show ?thesis using r i(1) Some kv by (auto simp: readServer_def)
    next
      case o: (Some ts)
      obtain t s where ts: "ts = (t, s)" by (cases ts)
      have "config_ok (cf\<lparr>cf_servers := (cf_servers cf)[cf_server cf := (case t of Some t \<Rightarrow> t | None \<Rightarrow> s)]\<rparr>)"
        using config_ok_server [OF r(2) server_option_ok [OF _ i(2)]] o ts by blast
      then show ?thesis using r(1) i(1) Some kv o ts by (auto simp: readServer_def Let_def split: if_splits)
    qed
  qed
qed

lemma parse_ok:
  "parseUser env str cf = Some cf' \<Longrightarrow> config_ok cf \<Longrightarrow> config_ok cf'"
  "parseGroup env str cf = Some cf' \<Longrightarrow> config_ok cf \<Longrightarrow> config_ok cf'"
  unfolding parseUser_def parseGroup_def by (auto elim!: bind_SomeE)

lemma config_ok_limits:
  "config_ok cf \<Longrightarrow> limits_ok lm \<Longrightarrow> config_ok (cf\<lparr>cf_sessionLimits := lm\<rparr>)"
  "config_ok cf \<Longrightarrow> limits_ok lm \<Longrightarrow> config_ok (cf\<lparr>cf_loginLimits := lm\<rparr>)"
  by (simp_all add: config_ok_def)

lemma limitsArg_next:
  "limitsArg lm val = Some (True, lm') \<Longrightarrow> limits_ok lm \<Longrightarrow> limits_ok (lm'\<lparr>lm_n := Suc (lm_n lm')\<rparr>)"
  using limitsArg_ok(2) [of lm val True lm'] by simp

lemma readOption_ok: "readOption env lp cf = Some cf' \<Longrightarrow> config_ok cf \<Longrightarrow> config_ok cf'"
proof -
  assume r: "readOption env lp cf = Some cf'" "config_ok cf"
  have lim: "limits_ok (cf_sessionLimits cf)" "limits_ok (cf_loginLimits cf)" using r(2) by (simp_all add: config_ok_def)
  show ?thesis
  proof (cases "readKeyValue lp")
    case None
    then show ?thesis using r by (auto simp: readOption_def)
  next
    case (Some kv)
    obtain key val where kv: "readKeyValue lp = Some (key, val)" using Some by (cases kv) auto
    consider "key = ''user''" | "key = ''group''" | "key = ''pidfile''" | "key = ''resolveHosts''" | "key = ''session_limit''"
      | "key = ''login_fail_limit''" | "key \<noteq> ''user'' \<and> key \<noteq> ''group'' \<and> key \<noteq> ''pidfile'' \<and> key \<noteq> ''resolveHosts''
        \<and> key \<noteq> ''session_limit'' \<and> key \<noteq> ''login_fail_limit''"
      by argo
    then show ?thesis
    proof cases
      case 5
      then show ?thesis using r kv lim
        by (auto simp: readOption_def elim!: bind_SomeE split: if_splits intro!: config_ok_limits dest: limitsArg_next limitsArg_ok(1))
    next
      case 6
      then show ?thesis using r kv lim
        by (auto simp: readOption_def elim!: bind_SomeE split: if_splits intro!: config_ok_limits dest: limitsArg_next limitsArg_ok(1))
    qed (use r kv in \<open>auto simp: readOption_def split: if_splits option.splits dest: parse_ok\<close>)
  qed
qed

lemma getServer_keeps: "getServer name cf = Some cf' \<Longrightarrow> config_ok cf \<Longrightarrow> config_ok cf'"
  using getServer_ok [of cf name] by fastforce

lemma readSection_ok:
  assumes "readSection lp cf = Some (sect, cf')" "config_ok cf"
  shows "config_ok cf'"
proof -
  have "cf' = cf \<or> (\<exists>m. cf' = warn m cf) \<or> (\<exists>name. getServer name cf = Some cf')"
    using assms(1) unfolding readSection_def Let_def section_name_def
    by (simp split: if_splits) blast+
  then show ?thesis using assms(2) getServer_keeps by auto
qed

lemma read_line_ok: "read_line env line cf = Some cf' \<Longrightarrow> config_ok cf \<Longrightarrow> config_ok cf'"
  unfolding read_line_def Let_def
  by (auto split: if_splits cfgsection.splits dest: readOption_ok readChecker_ok readRealm_ok readServer_ok readSection_ok)

lemma read_lines_ok: "read_lines env f cf = Some cf' \<Longrightarrow> config_ok cf \<Longrightarrow> config_ok cf'"
proof (induction env f cf rule: read_lines.induct)
  case (1 env f cf)
  show ?case
  proof (cases "fgets f")
    case None
    then show ?thesis using 1(3,4) by (simp add: read_lines.simps [of env f])
  next
    case (Some lg)
    obtain lp g where lg: "lg = (lp, g)" by (cases lg)
    let ?cf = "cf\<lparr>cf_lineno := cf_lineno cf + 1\<rparr>"
    show ?thesis
    proof (cases "strchr (cstr lp) LF")
      case None
      then have "read_lines env (skip_line g) (warn W_tooLong ?cf) = Some cf'"
        using 1(3) Some lg by (simp add: read_lines.simps [of env f])
      then show ?thesis using 1(1) [OF Some lg [symmetric] refl None] 1(4) by simp
    next
      case (Some nl)
      then have "Option.bind (read_line env (take nl lp) ?cf) (read_lines env g) = Some cf'"
        using 1(3) \<open>fgets f = Some lg\<close> lg by (simp add: read_lines.simps [of env f])
      then obtain cf1 where cf1: "read_line env (take nl lp) ?cf = Some cf1" "read_lines env g cf1 = Some cf'" by (rule bind_SomeE)
      then show ?thesis
        using 1(2) [OF \<open>fgets f = Some lg\<close> lg [symmetric] refl Some, of cf1] read_line_ok [OF cf1(1)] 1(4) by simp
    qed
  qed
qed

lemma flag_arg_ok: "flag_arg env op cf args seen = Inr (cf', args', seen') \<Longrightarrow> config_ok cf \<Longrightarrow> config_ok cf'"
  unfolding flag_arg_def optArg_def Let_def
  by (auto split: sum.splits option.splits if_splits dest: parse_ok)

lemma flag_loop_ok: "flag_loop env o' cf args seen = Inr (cf', args', seen') \<Longrightarrow> config_ok cf \<Longrightarrow> config_ok cf'"
proof (induction o' arbitrary: cf args seen)
  case (Cons c cs)
  have frame: "\<And>cf. config_ok (cf\<lparr>cf_resolveHosts := r\<rparr>) = config_ok cf" "\<And>cf. config_ok (cf\<lparr>cf_foreground := b\<rparr>) = config_ok cf" for r b
    by simp_all
  consider (arg) seen2 where "flag_arg env (c # cs) cf args seen2 = Inr (cf', args', seen')"
    | (loop) cf2 args2 seen2 where "flag_loop env cs cf2 args2 seen2 = Inr (cf', args', seen')" "config_ok cf2"
    using Cons.prems by (auto simp: Let_def split: if_splits option.splits)
  then show ?case
  proof cases
    case arg
    then show ?thesis using flag_arg_ok Cons.prems(2) by blast
  next
    case loop
    then show ?thesis using Cons.IH by blast
  qed
qed simp

lemma arg_loop_ok: "arg_loop env os esc cf args seen = Inr cf' \<Longrightarrow> config_ok cf \<Longrightarrow> config_ok cf'"
proof (induction os arbitrary: esc cf args seen)
  case (Cons w ws)
  then show ?case by (auto split: if_splits sum.splits dest: flag_loop_ok flag_arg_ok)
qed (auto split: if_splits)

lemma Config_init_ok: "Config_init env def argv = Some (Inr cf) \<Longrightarrow> config_ok cf"
proof -
  assume r: "Config_init env def argv = Some (Inr cf)"
  let ?cf0 = "config_static\<lparr>cf_servers := [server_new None], cf_server := 0\<rparr>"
  have g: "getServer None config_static = Some ?cf0" by (simp add: getServer_def config_static_def)
  have ok: "config_ok ?cf0"
    by (simp add: config_ok_def config_static_def server_new_ok limits_ok_def limits_shape_def limits_cleared_def)
      (simp add: server_new_def)
  from r g obtain cf1 where "readArguments env argv ?cf0 = Inr cf1"
    "cf = (if cf_cfgfile cf1 = None then cf1\<lparr>cf_cfgfile := Some def\<rparr> else cf1)"
    by (auto simp: Config_init_def split: sum.splits)
  then show "config_ok cf" using arg_loop_ok [OF _ ok] by (auto simp: readArguments_def)
qed

section \<open>A file, line by line\<close>

definition line_step :: "cfg_env \<Rightarrow> string \<Rightarrow> config \<Rightarrow> config option" where
  "line_step env l cf =
     (let cf = cf\<lparr>cf_lineno := cf_lineno cf + 1\<rparr>
      in if length l > 1022 then Some (warn W_tooLong cf) else read_line env l cf)"

fun fold_lines :: "cfg_env \<Rightarrow> string list \<Rightarrow> config \<Rightarrow> config option" where
  "fold_lines env [] cf = Some cf"
| "fold_lines env (l # ls) cf = Option.bind (line_step env l cf) (fold_lines env ls)"

definition line_text :: "string \<Rightarrow> bool" where
  "line_text l \<longleftrightarrow> LF \<notin> set l \<and> NUL \<notin> set l"

lemma LINEBUF_room: "LINEBUF - 1 = 1023"
  by (simp add: LINEBUF_def)

lemma no_LF: "LF \<notin> set l \<Longrightarrow> takeWhile (\<lambda>c. c \<noteq> LF) l = l"
  by (auto simp: takeWhile_eq_all_conv)

lemma fgets_line:
  assumes "LF \<notin> set l" "length l \<le> 1022"
  shows "fgets (l @ LF # f) = Some (l @ [LF], f)"
proof -
  have chunk: "take 1023 (l @ LF # f) = l @ LF # take (1022 - length l) f"
    using assms(2) by (simp add: take_Cons' le_diff_conv)
  have word: "takeWhile (\<lambda>c. c \<noteq> LF) (l @ LF # take (1022 - length l) f) = l"
    using assms(1) by (subst takeWhile_append2) auto
  show ?thesis unfolding fgets_def Let_def LINEBUF_room chunk word by simp
qed

lemma fgets_piece:
  assumes "LF \<notin> set l" "1023 \<le> length l"
  shows "fgets (l @ f) = Some (take 1023 l, drop 1023 l @ f)"
proof -
  have chunk: "take 1023 (l @ f) = take 1023 l" using assms(2) by simp
  have word: "takeWhile (\<lambda>c. c \<noteq> LF) (take 1023 l) = take 1023 l" using assms(1) by (intro no_LF) (auto dest: in_set_takeD)
  have "l @ f \<noteq> []" using assms(2) by auto
  then show ?thesis using assms(2) unfolding fgets_def Let_def LINEBUF_room chunk word by simp
qed

lemma fgets_end:
  assumes "LF \<notin> set l" "length l \<le> 1023" "l \<noteq> []"
  shows "fgets l = Some (l, [])"
proof -
  have chunk: "take 1023 l = l" using assms(2) by simp
  show ?thesis using assms(2,3) unfolding fgets_def Let_def LINEBUF_room chunk no_LF [OF assms(1)] by simp
qed

lemma cstr_no_LF: "LF \<notin> set l \<Longrightarrow> LF \<notin> set (cstr l)"
  by (auto simp: cstr_def dest: set_takeWhileD)

lemma not_in_drop: "c \<notin> set l \<Longrightarrow> c \<notin> set (drop n l)"
  by (auto dest: in_set_dropD)

lemma line_text_drop: "line_text l \<Longrightarrow> line_text (drop n l)"
  by (simp add: line_text_def not_in_drop)

lemma skip_line_text: "line_text l \<Longrightarrow> skip_line (l @ LF # f) = f"
proof (induction "length l" arbitrary: l rule: less_induct)
  case less
  then have l: "LF \<notin> set l" "nulfree (l @ [LF])" by (simp_all add: line_text_def nulfree_def)
  show ?case
  proof (cases "length l \<le> 1022")
    case True
    then show ?thesis using fgets_line [OF l(1) True] l(2) by (simp add: skip_line.simps [of "l @ LF # f"])
  next
    case False
    then have "1023 \<le> length l" by simp
    note piece = fgets_piece [OF l(1) this, of "LF # f"]
    have "skip_line (drop 1023 l @ LF # f) = f"
      using less.hyps [of "drop 1023 l"] line_text_drop [OF less.prems] False by simp
    moreover have "LF \<notin> set (cstr (take 1023 l))" using l(1) cstr_no_LF in_set_takeD by metis
    ultimately show ?thesis using piece by (simp add: skip_line.simps [of "l @ LF # f"])
  qed
qed

lemma skip_line_end: "LF \<notin> set l \<Longrightarrow> skip_line l = []"
proof (induction "length l" arbitrary: l rule: less_induct)
  case less
  show ?case
  proof (cases "length l \<le> 1023")
    case True
    then show ?thesis
      using fgets_end [OF less.prems True] cstr_no_LF [OF less.prems]
      by (cases "l = []") (simp_all add: skip_line.simps [of l] skip_line.simps [of "[]"] fgets_def)
  next
    case False
    then have "1023 \<le> length l" by simp
    note piece = fgets_piece [OF less.prems this, of "[]"]
    have "skip_line (drop 1023 l) = []"
      using less.hyps [of "drop 1023 l"] not_in_drop [OF less.prems] False by simp
    moreover have "LF \<notin> set (cstr (take 1023 l))" using less.prems cstr_no_LF in_set_takeD by metis
    ultimately show ?thesis using piece by (simp add: skip_line.simps [of l])
  qed
qed

lemma read_lines_line:
  assumes "line_text l"
  shows "read_lines env (l @ LF # f) cf = Option.bind (line_step env l cf) (read_lines env f)"
proof -
  have l: "LF \<notin> set l" "nulfree (l @ [LF])" using assms by (simp_all add: line_text_def nulfree_def)
  show ?thesis
  proof (cases "length l \<le> 1022")
    case True
    then show ?thesis
      using fgets_line [OF l(1) True] l strchr_append [OF l(1), of "[]"]
      by (simp add: read_lines.simps [of env "l @ LF # f"] line_step_def Let_def)
  next
    case False
    then have "1023 \<le> length l" by simp
    note piece = fgets_piece [OF l(1) this, of "LF # f"]
    have "strchr (cstr (take 1023 l)) LF = None" using l(1) cstr_no_LF in_set_takeD by (metis strchr_None)
    moreover have "skip_line (drop 1023 l @ LF # f) = f"
      using skip_line_text [OF line_text_drop [OF assms]] .
    ultimately show ?thesis
      using piece False by (simp add: read_lines.simps [of env "l @ LF # f"] line_step_def Let_def)
  qed
qed

lemma read_lines_fold:
  assumes "\<forall>l \<in> set ls. line_text l"
  shows "read_lines env (concat (map (\<lambda>l. l @ [LF]) ls) @ f) cf = Option.bind (fold_lines env ls cf) (read_lines env f)"
  using assms
proof (induction ls arbitrary: cf)
  case (Cons l ls)
  then show ?case by (cases "line_step env l cf") (simp_all add: read_lines_line)
qed simp

lemma read_lines_rest:
  assumes "LF \<notin> set f"
  shows "read_lines env f cf = Some (if f = [] then cf else warn W_tooLong (cf\<lparr>cf_lineno := cf_lineno cf + 1\<rparr>))"
proof (cases "f = []")
  case True
  then show ?thesis by (simp add: read_lines.simps [of env "[]"] fgets_def)
next
  case False
  obtain lp g where f: "fgets f = Some (lp, g)" "LF \<notin> set lp" "LF \<notin> set g"
  proof (cases "length f \<le> 1023")
    case True
    then show thesis using that [of f "[]"] fgets_end [OF assms True False] assms by simp
  next
    case False
    then show thesis
      using that [of "take 1023 f" "drop 1023 f"] fgets_piece [OF assms, of "[]"] assms by (auto dest: in_set_takeD in_set_dropD)
  qed
  have "strchr (cstr lp) LF = None" using cstr_no_LF [OF f(2)] by (simp add: strchr_None)
  then show ?thesis
    using f(1) skip_line_end [OF f(3)] False
    by (simp add: read_lines.simps [of env f] read_lines.simps [of env "[]"] fgets_def [of "[]"] Let_def)
qed

end
