(* ===== verification/Config_File.thy ===== *)
theory Config_File
  imports Config_Facts
begin

text \<open>
  The properties of the configuration: what a file means, what is true of every configuration, and what
  the settings with limits and groups really do.
\<close>

section \<open>Settings as they are written\<close>

definition setting :: "string \<Rightarrow> string \<Rightarrow> string" where
  "setting key val = key @ '' = '' @ val"

definition key_text :: "string \<Rightarrow> bool" where
  "key_text k \<longleftrightarrow> k \<noteq> [] \<and> CHR ''='' \<notin> set k \<and> \<not> isspace (hd k) \<and> \<not> isspace (last k) \<and> hd k \<notin> {NUL, CHR '';'', CHR ''#'', CHR ''[''}"

definition value_text :: "string \<Rightarrow> bool" where
  "value_text v \<longleftrightarrow> v \<noteq> [] \<and> \<not> isspace (hd v) \<and> \<not> isspace (last v) \<and> CHR '';'' \<notin> set v \<and> CHR ''#'' \<notin> set v \<and> line_text v"

lemma rstrip_keeps: "v \<noteq> [] \<Longrightarrow> \<not> isspace (last v) \<Longrightarrow> rstrip v = v"
  by (cases v rule: rev_cases) (simp_all add: rstrip_def)

lemma isspace_blank [simp]: "isspace CHR '' ''"
  by (simp add: isspace_def)

lemma rstrip_space: "v \<noteq> [] \<Longrightarrow> \<not> isspace (last v) \<Longrightarrow> rstrip (v @ '' '') = v"
  by (cases v rule: rev_cases) (simp_all add: rstrip_def)

lemma dropWhile_hd: "v \<noteq> [] \<Longrightarrow> \<not> P (hd v) \<Longrightarrow> dropWhile P v = v"
  by (cases v) simp_all

lemma first_char_hd: "v \<noteq> [] \<Longrightarrow> first_char v = hd v"
  by (cases v) (simp_all add: first_char_def)

lemma readKeyValue_setting:
  assumes "key_text k" "value_text v"
  shows "readKeyValue (setting k v) = Some (k, v)"
proof -
  have k: "k \<noteq> []" "CHR ''='' \<notin> set k" "\<not> isspace (last k)" using assms(1) by (auto simp: key_text_def)
  have v: "v \<noteq> []" "\<not> isspace (hd v)" "\<not> isspace (last v)" "CHR '';'' \<notin> set v" "CHR ''#'' \<notin> set v" "NUL \<notin> set v"
    using assms(2) by (auto simp: value_text_def line_text_def)
  have s: "setting k v = (k @ '' '') @ CHR ''='' # '' '' @ v" by (simp add: setting_def)
  have i: "strchr (setting k v) CHR ''='' = Some (length k + 1)"
    unfolding s using strchr_append [of "CHR ''=''" "k @ '' ''" "'' '' @ v"] k(2) by simp
  have first: "first_char (setting k v) \<noteq> CHR ''=''"
    using k(1,2) by (cases k) (auto simp: setting_def first_char_def)
  have val: "dropWhile isspace (drop (length k + 1 + 1) (setting k v)) = v"
    using dropWhile_hd [where P = isspace, OF v(1,2)] by (simp add: s)
  have hd: "first_char v \<notin> {NUL, CHR '';'', CHR ''#''}" using v by (cases v) (auto simp: first_char_def)
  have "takeWhile (\<lambda>c. c \<notin> set '';#'') v = v" using v(4,5) by (intro takeWhile_eq_all_conv [THEN iffD2]) auto
  then have "strcspn v '';#'' = length v" by (simp only: strcspn_def)
  then have "rstrip (take (strcspn v '';#'') v) = v" using rstrip_keeps [OF v(1,3)] by simp
  moreover have "rstrip (take (length k + 1) (setting k v)) = k" using rstrip_space [OF k(1,3)] by (simp add: setting_def)
  ultimately show ?thesis unfolding readKeyValue_def using first i val hd by (simp add: Let_def)
qed

lemma setting_start:
  assumes "key_text k"
  shows "dropWhile isspace (setting k v) = setting k v" "first_char (setting k v) \<notin> {NUL, CHR '';'', CHR ''#'', CHR ''[''}"
  using assms by (cases k; auto simp: key_text_def setting_def first_char_def)+

lemma strtol10_dec: "n < 2 ^ 63 \<Longrightarrow> strtol10 (dec n) = (int n, [], False)"
proof -
  assume n: "n < 2 ^ 63"
  obtain c ds where d: "dec n = c # ds" using dec_not_Nil [of n] by (cases "dec n") auto
  then have c: "isdigit c" using dec_digits [of n] by simp
  then have sp: "\<not> isspace c" "c \<noteq> CHR ''-''" "c \<noteq> CHR ''+''" by (auto simp: isdigit_def isspace_def)
  have whole: "takeWhile isdigit (dec n) = dec n"
    using dec_digits [of n] by (intro takeWhile_eq_all_conv [THEN iffD2]) (auto simp: list_all_iff)
  have "int (dec_value (takeWhile isdigit (dec n))) = int n" by (subst whole) simp
  moreover have "strtoll (dec n) = (int n, [])" using strtoll_dec [of n "[]"] n by (simp add: first_char_def)
  moreover have "dropWhile isspace (dec n) = dec n" "first_char (dec n) = c" using d sp by (simp_all add: first_char_def)
  ultimately show ?thesis using n sp by (simp add: strtol10_def Let_def del: takeWhile_eq_all_conv)
qed

lemma intArg_dec: "mn \<le> int n \<Longrightarrow> int n \<le> mx \<Longrightarrow> n < 2 ^ 63 \<Longrightarrow> intArg (dec n) mn mx = Some (int n)"
  by (simp add: intArg_def strtol10_dec)

lemma dec_plain: "c \<in> set (dec n) \<Longrightarrow> isdigit c"
  using dec_digits [of n] by (simp add: list_all_iff)

lemma dec_not_in [simp]: "\<not> isdigit c \<Longrightarrow> c \<notin> set (dec n)"
  using dec_plain by blast

lemma digit_not_space: "isdigit c \<Longrightarrow> \<not> isspace c"
  by (auto simp: isdigit_def isspace_def)

lemma dec_value_text: "value_text (dec n)"
  using dec_plain [of "hd (dec n)" n] dec_plain [of "last (dec n)" n] digit_not_space
  by (auto simp: value_text_def line_text_def isdigit_def dest: dec_plain)

section \<open>Limits\<close>

definition limit_text :: "nat \<Rightarrow> nat \<Rightarrow> string" where
  "limit_text s l = dec s @ '':'' @ dec l"

lemma limit_value_text: "value_text (limit_text s l)"
proof -
  have "isdigit (hd (dec s))" "isdigit (last (dec l))" using dec_plain dec_not_Nil by (metis hd_in_set, metis last_in_set)
  then show ?thesis
    using digit_not_space by (auto simp: value_text_def line_text_def limit_text_def isdigit_def dest: dec_plain)
qed

lemma limitsArg_text:
  assumes "1 \<le> s" "s \<le> 86400" "1 \<le> l" "l \<le> 1024" "limits_shape lm"
  shows "limitsArg lm (limit_text s l) = (if lm_n lm < 8
    then Some (True, lm\<lparr>lm_seconds := (lm_seconds lm)[lm_n lm := Some (of_nat s)], lm_limits := (lm_limits lm)[lm_n lm := Some (of_nat l)]\<rparr>)
    else None)"
proof -
  have "strchr (limit_text s l) CHR '':'' = Some (length (dec s))"
    unfolding limit_text_def using strchr_append [of "CHR '':''" "dec s" "dec l"] by (simp add: isdigit_def)
  moreover have "intArg (dec s) 1 86400 = Some (int s)" "intArg (dec l) 1 1024 = Some (int l)"
    using assms(1-4) by (simp_all add: intArg_dec)
  ultimately show ?thesis
    using assms(5) by (simp add: limitsArg_def limit_text_def cell_write_def limits_shape_def)
qed

definition session_line :: "nat \<times> nat \<Rightarrow> string" where
  "session_line p = setting ''session_limit'' (limit_text (fst p) (snd p))"

lemma session_line_text: "line_text (session_line p)"
  using limit_value_text [of "fst p" "snd p"] by (simp add: session_line_def setting_def line_text_def value_text_def)

lemma session_key: "key_text ''session_limit''"
  by (simp add: key_text_def isspace_def)

lemma session_line_step:
  assumes "limits_shape (cf_sessionLimits cf)" "cf_section cf = CS_GLOBAL" "1 \<le> s" "s \<le> 86400" "1 \<le> l" "l \<le> 1024"
    "lm_n (cf_sessionLimits cf) \<le> 8"
  shows "line_step env (session_line (s, l)) cf =
    (if lm_n (cf_sessionLimits cf) < 8
     then Some (cf\<lparr>cf_lineno := cf_lineno cf + 1, cf_sessionLimits := (cf_sessionLimits cf)
       \<lparr>lm_seconds := (lm_seconds (cf_sessionLimits cf))[lm_n (cf_sessionLimits cf) := Some (of_nat s)],
        lm_limits := (lm_limits (cf_sessionLimits cf))[lm_n (cf_sessionLimits cf) := Some (of_nat l)],
        lm_n := lm_n (cf_sessionLimits cf) + 1\<rparr>\<rparr>)
     else None)"
proof -
  have "length (dec s) \<le> 5" "length (dec l) \<le> 4" using assms(4,6) by (auto intro!: length_dec)
  then have "length (session_line (s, l)) \<le> 1022" by (simp add: session_line_def setting_def limit_text_def)
  then show ?thesis
    using setting_start [OF session_key, of "limit_text s l"] readKeyValue_setting [OF session_key limit_value_text, of s l] assms(2,7)
      limitsArg_text [OF assms(3-6,1)]
    by (simp add: line_step_def session_line_def read_line_def readOption_def LIMITS_SIZEOF_def)
qed

lemma session_lines_fold:
  assumes "limits_shape (cf_sessionLimits cf)" "cf_section cf = CS_GLOBAL" "lm_n (cf_sessionLimits cf) \<le> 8"
    "\<forall>(s, l) \<in> set ps. 1 \<le> s \<and> s \<le> 86400 \<and> 1 \<le> l \<and> l \<le> 1024"
  shows "lm_n (cf_sessionLimits cf) + length ps > 8 \<Longrightarrow> fold_lines env (map session_line ps) cf = None"
    "lm_n (cf_sessionLimits cf) + length ps \<le> 8 \<Longrightarrow> \<exists>cf'. fold_lines env (map session_line ps) cf = Some cf'
      \<and> (\<forall>i < lm_n (cf_sessionLimits cf). Config_sessionLimit cf' i = Config_sessionLimit cf i)
      \<and> (\<forall>i < length ps. Config_sessionLimit cf' (lm_n (cf_sessionLimits cf) + i)
           = Some (Some (of_nat (fst (ps ! i)), of_nat (snd (ps ! i)))))
      \<and> Config_sessionLimit cf' (lm_n (cf_sessionLimits cf) + length ps) = Some None"
proof -
  show "lm_n (cf_sessionLimits cf) + length ps > 8 \<Longrightarrow> fold_lines env (map session_line ps) cf = None"
    using assms
  proof (induction ps arbitrary: cf)
    case (Cons p ps)
    obtain s l where p: "p = (s, l)" by (cases p)
    note step = session_line_step [OF Cons.prems(2,3) _ _ _ _ Cons.prems(4), of s l env]
    show ?case
      using Cons.prems Cons.IH step by (auto simp: p limits_shape_def)
  qed simp
  show "lm_n (cf_sessionLimits cf) + length ps \<le> 8 \<Longrightarrow> \<exists>cf'. fold_lines env (map session_line ps) cf = Some cf'
      \<and> (\<forall>i < lm_n (cf_sessionLimits cf). Config_sessionLimit cf' i = Config_sessionLimit cf i)
      \<and> (\<forall>i < length ps. Config_sessionLimit cf' (lm_n (cf_sessionLimits cf) + i)
           = Some (Some (of_nat (fst (ps ! i)), of_nat (snd (ps ! i)))))
      \<and> Config_sessionLimit cf' (lm_n (cf_sessionLimits cf) + length ps) = Some None"
    using assms
  proof (induction ps arbitrary: cf)
    case Nil
    then show ?case by (simp add: Config_sessionLimit_def limit_at_def)
  next
    case (Cons p ps)
    obtain s l where p: "p = (s, l)" by (cases p)
    let ?n = "lm_n (cf_sessionLimits cf)"
    let ?cf = "cf\<lparr>cf_lineno := cf_lineno cf + 1, cf_sessionLimits := (cf_sessionLimits cf)
       \<lparr>lm_seconds := (lm_seconds (cf_sessionLimits cf))[?n := Some (of_nat s)],
        lm_limits := (lm_limits (cf_sessionLimits cf))[?n := Some (of_nat l)],
        lm_n := ?n + 1\<rparr>\<rparr>"
    have n: "?n < 8" using Cons.prems(1) by simp
    have step: "line_step env (session_line (s, l)) cf = Some ?cf"
      using session_line_step [OF Cons.prems(2,3), of s l env] Cons.prems(4,5) n p by simp
    have "limits_shape (cf_sessionLimits ?cf)" using Cons.prems(2) by (simp add: limits_shape_def)
    then obtain cf' where cf': "fold_lines env (map session_line ps) ?cf = Some cf'"
      "\<forall>i < ?n + 1. Config_sessionLimit cf' i = Config_sessionLimit ?cf i"
      "\<forall>i < length ps. Config_sessionLimit cf' (?n + 1 + i) = Some (Some (of_nat (fst (ps ! i)), of_nat (snd (ps ! i))))"
      "Config_sessionLimit cf' (?n + 1 + length ps) = Some None"
      using Cons.IH [of ?cf] Cons.prems n by auto
    have old: "Config_sessionLimit ?cf i = Config_sessionLimit cf i" if "i < ?n" for i
      using that n by (simp add: Config_sessionLimit_def limit_at_def)
    have new: "Config_sessionLimit ?cf ?n = Some (Some (of_nat s, of_nat l))"
      using n Cons.prems(2) by (simp add: Config_sessionLimit_def limit_at_def limits_shape_def)
    have "Config_sessionLimit cf' (?n + i) = Some (Some (of_nat (fst ((p # ps) ! i)), of_nat (snd ((p # ps) ! i))))"
      if "i < length (p # ps)" for i
    proof (cases i)
      case 0
      then show ?thesis using cf'(2) new by (simp add: p)
    next
      case (Suc k)
      then show ?thesis using cf'(3) that by (simp add: p)
    qed
    moreover have "Config_sessionLimit cf' i = Config_sessionLimit cf i" if "i < ?n" for i using cf'(2) old that by simp
    ultimately show ?case using step cf'(1,4) by (intro exI [of _ cf']) (simp add: p)
  qed
qed


section \<open>A server\<close>

definition proto_text :: "psc_proto \<Rightarrow> string" where
  "proto_text p = (case p of PSC_P_ANY \<Rightarrow> ''any'' | PSC_P_IPv4 \<Rightarrow> ''ipv4'' | PSC_P_IPv6 \<Rightarrow> ''ipv6'')"

definition trusted_text :: "proxyheader \<Rightarrow> string" where
  "trusted_text h = (if h = PH_XFWD then ''xfwd'' else if h = PH_RFC then ''rfc''
     else if h = PH_XFWD OR PH_RFC then ''prefer_xfwd'' else ''prefer_rfc'')"

definition server_settings :: "cfgserver \<Rightarrow> (string \<times> string) list" where
  "server_settings s =
     [(''port'', dec (nat (cs_port s)))]
     @ map (Pair ''listen'') (cs_listen s)
     @ (case cs_proto s of None \<Rightarrow> [] | Some p \<Rightarrow> [(''proto'', proto_text p)])
     @ [(''tls'', if cs_tls s then ''on'' else ''off'')]
     @ (case cs_tlsCert s of None \<Rightarrow> [] | Some f \<Rightarrow> [(''tls_cert_file'', f)])
     @ (case cs_tlsKey s of None \<Rightarrow> [] | Some f \<Rightarrow> [(''tls_key_file'', f)])
     @ [(''trusted_proxies'', dec (nat (cs_trustedProxies s))), (''trusted_header'', trusted_text (cs_trustedHeader s))]"

definition server_lines :: "cfgserver \<Rightarrow> string list" where
  "server_lines s = (''[server:'' @ (case cs_name s of None \<Rightarrow> [] | Some n \<Rightarrow> n) @ '']'') # map (\<lambda>(k, v). setting k v) (server_settings s)"

definition short_value :: "string \<Rightarrow> bool" where
  "short_value v \<longleftrightarrow> value_text v \<and> length v \<le> 1000"

definition server_name :: "string \<Rightarrow> bool" where
  "server_name n \<longleftrightarrow> n \<noteq> [] \<and> length n \<le> 1000 \<and> (\<forall>c \<in> set n. \<not> isspace c \<and> c \<noteq> CHR '']'' \<and> c \<noteq> NUL)"

definition server_writable :: "cfgserver \<Rightarrow> bool" where
  "server_writable s \<longleftrightarrow> (\<exists>n. cs_name s = Some n \<and> server_name n) \<and> server_ok s \<and> cs_nat64Prefix s = None
     \<and> (\<forall>v \<in> set (cs_listen s). short_value v) \<and> (\<forall>v. cs_tlsCert s = Some v \<longrightarrow> short_value v)
     \<and> (\<forall>v. cs_tlsKey s = Some v \<longrightarrow> short_value v)"

text \<open>The configuration while the section of a new server is read.\<close>

definition in_server :: "config \<Rightarrow> nat \<Rightarrow> cfgserver \<Rightarrow> config" where
  "in_server cf k s = cf\<lparr>cf_lineno := cf_lineno cf + k, cf_section := CS_SERVER, cf_server := length (cf_servers cf),
     cf_servers := cf_servers cf @ [s]\<rparr>"

lemma fold_lines_append: "fold_lines env (a @ b) cf = Option.bind (fold_lines env a cf) (fold_lines env b)"
proof (induction a arbitrary: cf)
  case (Cons l ls)
  then show ?case by (cases "line_step env l cf") simp_all
qed simp

lemma server_step:
  assumes "key_text k" "length k \<le> 19" "short_value v" "server_option k v s = Some (Some t, s')"
  shows "line_step env (setting k v) (in_server cf n s) = Some (in_server cf (n + 1) t)"
  using assms setting_start [OF assms(1), of v] readKeyValue_setting [OF assms(1), of v]
  by (simp add: line_step_def read_line_def readServer_def in_server_def short_value_def Let_def setting_def)

text \<open>The values of the settings so far.\<close>

fun server_apply :: "(string \<times> string) list \<Rightarrow> cfgserver \<Rightarrow> cfgserver option" where
  "server_apply [] s = Some s"
| "server_apply ((k, v) # kvs) s = (case server_option k v s of Some (Some t, _) \<Rightarrow> server_apply kvs t | _ \<Rightarrow> None)"

lemma server_apply_append: "server_apply (a @ b) s = Option.bind (server_apply a s) (server_apply b)"
  by (induction a s rule: server_apply.induct) (auto split: option.splits)

lemma server_steps:
  assumes "\<forall>(k, v) \<in> set kvs. key_text k \<and> length k \<le> 19 \<and> short_value v" "server_apply kvs s = Some t"
  shows "fold_lines env (map (\<lambda>(k, v). setting k v) kvs) (in_server cf n s) = Some (in_server cf (n + length kvs) t)"
  using assms
proof (induction kvs arbitrary: s n)
  case (Cons kv kvs)
  obtain k v where kv: "kv = (k, v)" by (cases kv)
  obtain s1 s' where o: "server_option k v s = Some (Some s1, s')" "server_apply kvs s1 = Some t"
    using Cons.prems(2) by (auto simp: kv split: option.splits)
  show ?case using Cons.IH [OF _ o(2), of "n + 1"] server_step [of k v s s1 s'] o(1) Cons.prems(1) by (simp add: kv)
qed simp

lemma listen_apply: "server_apply (map (Pair ''listen'') vs) s = Some (s\<lparr>cs_listen := cs_listen s @ vs\<rparr>)"
proof (induction vs arbitrary: s)
  case (Cons v vs)
  then show ?case by (simp add: server_option_def)
qed simp

lemma headers_different: "PH_XFWD \<noteq> PH_RFC" "PH_XFWD OR PH_RFC \<noteq> PH_XFWD" "PH_XFWD OR PH_RFC \<noteq> PH_RFC"
    "PH_XFWD OR PH_RFC OR PH_PREFRFC \<noteq> PH_XFWD" "PH_XFWD OR PH_RFC OR PH_PREFRFC \<noteq> PH_RFC"
    "PH_XFWD OR PH_RFC OR PH_PREFRFC \<noteq> PH_XFWD OR PH_RFC"
  by code_simp+

lemma intArg_nat: "mn \<le> i \<Longrightarrow> i \<le> mx \<Longrightarrow> 0 \<le> i \<Longrightarrow> i < 2 ^ 63 \<Longrightarrow> intArg (dec (nat i)) mn mx = Some i"
  using intArg_dec [of mn "nat i" mx] by simp


lemma proto_option: "server_option ''proto'' (proto_text p) t = Some (Some (t\<lparr>cs_proto := Some p\<rparr>), t)"
proof -
  have "\<not> strcaseeq ''ipv4'' ''any''" "\<not> strcaseeq ''ipv6'' ''any''" "\<not> strcaseeq ''ipv6'' ''ipv4''" "strcaseeq ''any'' ''any''"
    "strcaseeq ''ipv4'' ''ipv4''" "strcaseeq ''ipv6'' ''ipv6''"
    by code_simp+
  then show ?thesis by (cases p) (simp_all add: server_option_def proto_text_def)
qed

lemma bool_texts: "boolArg ''on'' = Some True" "boolArg ''off'' = Some False"
  by code_simp+

lemma settings_apply:
  assumes "server_ok s" "cs_nat64Prefix s = None"
  shows "server_apply (server_settings s) (server_new (cs_name s)) = Some s"
proof -
  let ?s0 = "server_new (cs_name s)"
  let ?s1 = "?s0\<lparr>cs_port := cs_port s, cs_listen := cs_listen s, cs_proto := cs_proto s, cs_tls := cs_tls s\<rparr>"
  let ?s2 = "?s1\<lparr>cs_tlsCert := cs_tlsCert s, cs_tlsKey := cs_tlsKey s\<rparr>"
  have p: "intArg (dec (nat (cs_port s))) 1 65535 = Some (cs_port s)" "intArg (dec (nat (cs_trustedProxies s))) 0 16 = Some (cs_trustedProxies s)"
    using assms(1) by (auto simp: server_ok_def intro!: intArg_nat)
  have proto: "server_apply (case cs_proto s of None \<Rightarrow> [] | Some p \<Rightarrow> [(''proto'', proto_text p)]) t
      = Some (t\<lparr>cs_proto := cs_proto s\<rparr>)" if "cs_proto t = None" for t
    using that by (cases "cs_proto s") (simp_all add: proto_option)
  have tls: "server_apply [(''tls'', if cs_tls s then ''on'' else ''off'')] t = Some (t\<lparr>cs_tls := cs_tls s\<rparr>)" for t
    using bool_texts by (simp add: server_option_def)
  have cert: "server_apply (case cs_tlsCert s of None \<Rightarrow> [] | Some f \<Rightarrow> [(''tls_cert_file'', f)]) t = Some (t\<lparr>cs_tlsCert := cs_tlsCert s\<rparr>)"
    if "cs_tlsCert t = None" for t
    using that by (cases "cs_tlsCert s") (simp_all add: server_option_def)
  have key: "server_apply (case cs_tlsKey s of None \<Rightarrow> [] | Some f \<Rightarrow> [(''tls_key_file'', f)]) t = Some (t\<lparr>cs_tlsKey := cs_tlsKey s\<rparr>)"
    if "cs_tlsKey t = None" for t
    using that by (cases "cs_tlsKey s") (simp_all add: server_option_def)
  have header: "server_option ''trusted_header'' (trusted_text (cs_trustedHeader s)) t = Some (Some (t\<lparr>cs_trustedHeader := cs_trustedHeader s\<rparr>), t)" for t
    using assms(1) headers_different by (auto simp: server_option_def trusted_text_def server_ok_def)
  have port: "server_apply [(''port'', dec (nat (cs_port s)))] t = Some (t\<lparr>cs_port := cs_port s\<rparr>)" for t
    using p by (simp add: server_option_def)
  have rest: "server_apply [(''trusted_proxies'', dec (nat (cs_trustedProxies s))), (''trusted_header'', trusted_text (cs_trustedHeader s))] t
      = Some (t\<lparr>cs_trustedProxies := cs_trustedProxies s, cs_trustedHeader := cs_trustedHeader s\<rparr>)" for t
    using p header by (simp add: server_option_def [of "''trusted_proxies''"])
  have "server_apply (server_settings s) ?s0
      = Some (?s2\<lparr>cs_trustedProxies := cs_trustedProxies s, cs_trustedHeader := cs_trustedHeader s\<rparr>)"
    unfolding server_settings_def server_apply_append
    by (simp add: port listen_apply proto tls cert key rest server_new_def del: server_apply.simps)
  moreover have "?s2\<lparr>cs_trustedProxies := cs_trustedProxies s, cs_trustedHeader := cs_trustedHeader s\<rparr> = s"
    using assms(2) by (simp add: server_new_def)
  ultimately show ?thesis by simp
qed

lemma short_texts:
  "n < 100000 \<Longrightarrow> short_value (dec n)" "short_value ''on''" "short_value ''off''" "short_value (proto_text p)" "short_value (trusted_text h)"
proof -
  show "n < 100000 \<Longrightarrow> short_value (dec n)" using length_dec [of n 5] dec_value_text [of n] by (simp add: short_value_def)
qed (auto simp: short_value_def value_text_def line_text_def proto_text_def trusted_text_def isspace_def split: psc_proto.splits)

lemma settings_written:
  assumes "server_writable s"
  shows "\<forall>(k, v) \<in> set (server_settings s). key_text k \<and> length k \<le> 19 \<and> short_value v"
proof -
  have n: "nat (cs_port s) < 100000" "nat (cs_trustedProxies s) < 100000" using assms by (auto simp: server_writable_def server_ok_def)
  have "key_text ''port''" "key_text ''listen''" "key_text ''proto''" "key_text ''tls''" "key_text ''tls_cert_file''"
    "key_text ''tls_key_file''" "key_text ''trusted_proxies''" "key_text ''trusted_header''"
    by (simp_all add: key_text_def isspace_def)
  with n assms show ?thesis
    unfolding server_settings_def server_writable_def by (auto simp: short_texts split: option.splits)
qed

lemma server_loop_absent: "Some n \<notin> cs_name ` set ss \<Longrightarrow> server_loop (Some n) ss i = Some None"
  by (induction ss arbitrary: i) (auto split: option.splits)

lemma section_step:
  assumes "server_name n" "Some n \<notin> cs_name ` set (cf_servers cf)"
  shows "line_step env (''[server:'' @ n @ '']'') cf = Some (in_server cf 1 (server_new (Some n)))"
proof -
  have plain: "\<forall>c \<in> set (''server:'' @ n). \<not> isspace c \<and> c \<noteq> CHR '']''" using assms(1) by (auto simp: server_name_def isspace_def)
  have name: "section_name ((''server:'' @ n) @ '']'') = (''server:'' @ n, '']'')"
    unfolding section_name_def using plain by (subst takeWhile_append2, blast, subst dropWhile_append2, blast) simp
  have n: "n \<noteq> []" "length n \<le> 1000" using assms(1) by (simp_all add: server_name_def)
  have "getServer (Some n) cf' = Some (cf'\<lparr>cf_servers := cf_servers cf' @ [server_new (Some n)], cf_server := length (cf_servers cf')\<rparr>)"
    if "cf_servers cf' = cf_servers cf" for cf'
    using n server_loop_absent [OF assms(2)] that by (simp add: getServer_def)
  then show ?thesis
    using name n by (simp add: line_step_def read_line_def readSection_def isspace_def first_char_def in_server_def)
qed

section \<open>Owners\<close>

definition owner_lines :: "string \<Rightarrow> string \<Rightarrow> string list" where
  "owner_lines u g = [setting ''user'' u, setting ''group'' g]"

lemma owner_keys: "key_text ''user''" "key_text ''group''"
  by (simp_all add: key_text_def isspace_def)

lemma option_step:
  assumes "key_text k" "length k \<le> 19" "short_value v" "cf_section cf = CS_GLOBAL"
  shows "line_step env (setting k v) cf = readOption env (setting k v) (cf\<lparr>cf_lineno := cf_lineno cf + 1\<rparr>)"
  using assms setting_start [OF assms(1), of v]
  by (simp add: line_step_def read_line_def short_value_def setting_def Let_def)

section \<open>The properties\<close>

lemma bind_read_lines_end: "Option.bind x (read_lines env []) = x"
  using read_lines_rest [of "[]" env] by (cases x) simp_all


text \<open>
  C31: a file means its lines one after the other, each read by itself: the buffer of 1024 bytes and the
  skipping of lines that are too long are not seen, except that a line above 1022 bytes is dropped with a
  warning, as is a last line that is not ended, however short it is.
\<close>

theorem config_file_lines:
  assumes "\<forall>l \<in> set ls. line_text l" "LF \<notin> set f"
  shows "readConfigFile env (concat (map (\<lambda>l. l @ [LF]) ls) @ f) cf =
    map_option (\<lambda>cf. if f = [] then cf else warn W_tooLong (cf\<lparr>cf_lineno := cf_lineno cf + 1\<rparr>))
      (fold_lines env ls (cf\<lparr>cf_lineno := 0, cf_section := CS_GLOBAL\<rparr>))"
  using read_lines_fold [OF assms(1)] read_lines_rest [OF assms(2)]
  by (auto simp: readConfigFile_def map_option_case split: option.splits bind_splits)

text \<open>
  Up to eight session limits can be set, and they are the ones the sessions get, except that the seconds are
  stored in 16 bits, so that a day (86400) is 20864 seconds; a ninth is not refused with a warning but written behind the array.
\<close>

theorem session_limits:
  assumes "limits_shape (cf_sessionLimits cf)" "lm_n (cf_sessionLimits cf) = 0"
    "\<forall>(s, l) \<in> set ps. 1 \<le> s \<and> s \<le> 86400 \<and> 1 \<le> l \<and> l \<le> 1024"
  shows "if length ps \<le> 8
    then \<exists>cf'. readConfigFile env (concat (map (\<lambda>p. session_line p @ [LF]) ps)) cf = Some cf'
      \<and> (\<forall>i < length ps. Config_sessionLimit cf' i = Some (Some (of_nat (fst (ps ! i)), of_nat (snd (ps ! i)))))
      \<and> Config_sessionLimit cf' (length ps) = Some None
    else readConfigFile env (concat (map (\<lambda>p. session_line p @ [LF]) ps)) cf = None"
proof -
  have text1: "\<forall>l \<in> set (map session_line ps). line_text l" using session_line_text by auto
  have "concat (map (\<lambda>p. session_line p @ [LF]) ps) = concat (map (\<lambda>l. l @ [LF]) (map session_line ps)) @ []"
    by (simp add: comp_def)
  then have read: "readConfigFile env (concat (map (\<lambda>p. session_line p @ [LF]) ps)) cf
      = fold_lines env (map session_line ps) (cf\<lparr>cf_lineno := 0, cf_section := CS_GLOBAL\<rparr>)"
    using read_lines_fold [OF text1, of env "[]"] bind_read_lines_end by (simp add: readConfigFile_def)
  show ?thesis
    unfolding read using session_lines_fold [of "cf\<lparr>cf_lineno := 0, cf_section := CS_GLOBAL\<rparr>" ps env] assms by auto
qed

text \<open>
  C32: writing a server as a section gives the server. The settings of a named server, each on its line, make a
  new server at the end with just these values.
\<close>

theorem server_section:
  assumes "server_writable s" "cs_name s \<notin> cs_name ` set (cf_servers cf)"
  shows "\<exists>cf'. fold_lines env (server_lines s) cf = Some cf' \<and> cf_servers cf' = cf_servers cf @ [s]
    \<and> Config_server cf' (length (cf_servers cf)) = Some s \<and> cf_log cf' = cf_log cf"
proof -
  obtain n where n: "cs_name s = Some n" "server_name n" using assms(1) by (auto simp: server_writable_def)
  have "fold_lines env (server_lines s) cf = Some (in_server cf (1 + length (server_settings s)) s)"
    using section_step [OF n(2)] assms n(1) server_steps [OF settings_written [OF assms(1)] settings_apply]
    by (simp add: server_lines_def server_writable_def)
  then show ?thesis by (simp add: in_server_def Config_server_def)
qed

text \<open>
  A group that follows the user in the file is not used. The user sets the group too, and what
  follows is passed over without a warning, so that the process runs with the primary group of the user.
\<close>

theorem owner_group:
  assumes "cf_uid cf = -1" "cf_gid cf = -1" "cf_section cf = CS_GLOBAL" "short_value u" "short_value g"
    "longArg u = None" "ce_getpwnam env u = Some (i, pg)" "0 \<le> i" "0 \<le> pg"
  shows "fold_lines env (owner_lines u g) cf = Some (cf\<lparr>cf_lineno := cf_lineno cf + 2, cf_uid := i, cf_gid := pg\<rparr>)"
  using assms readKeyValue_setting owner_keys
  by (simp add: owner_lines_def option_step short_value_def readOption_def parseUser_def)


text \<open>The witnesses.\<close>

definition ex_cfg_env :: cfg_env where
  "ex_cfg_env = \<lparr>ce_getpwnam = (\<lambda>n. if n = ''www'' then Some (80, 80) else None), ce_getpwuid = (\<lambda>i. None),
     ce_getgrnam = (\<lambda>n. if n = ''swad'' then Some 81 else None), ce_getgrgid = (\<lambda>i. False)\<rparr>"

definition ex_config :: config where
  "ex_config = config_static\<lparr>cf_servers := [server_new None]\<rparr>"

definition ex_cfgserver :: cfgserver where
  "ex_cfgserver = (server_new (Some ''a''))\<lparr>cs_port := 80, cs_listen := [''::1'', ''127.0.0.1''], cs_proto := Some PSC_P_IPv6,
     cs_trustedHeader := PH_RFC\<rparr>"


theorem config_file_lines_witness:
  "readConfigFile ex_cfg_env (''[server:a]'' @ [LF] @ ''port = 80'') ex_config =
    map_option (\<lambda>cf. warn W_tooLong (cf\<lparr>cf_lineno := cf_lineno cf + 1\<rparr>))
      (fold_lines ex_cfg_env [''[server:a]''] (ex_config\<lparr>cf_lineno := 0, cf_section := CS_GLOBAL\<rparr>))"
  using config_file_lines [of "[''[server:a]'']" "''port = 80''" ex_cfg_env ex_config] by (simp add: line_text_def)

theorem session_limits_witness:
  "(\<exists>cf'. readConfigFile ex_cfg_env (session_line (86400, 7) @ [LF]) ex_config = Some cf'
      \<and> Config_sessionLimit cf' 0 = Some (Some (20864, 7)) \<and> Config_sessionLimit cf' 1 = Some None)
    \<and> readConfigFile ex_cfg_env (concat (map (\<lambda>p. session_line p @ [LF]) (replicate 9 (60, 5)))) ex_config = None"
proof -
  have "limits_shape (cf_sessionLimits ex_config)" "lm_n (cf_sessionLimits ex_config) = 0"
    by (simp_all add: ex_config_def config_static_def limits_cleared_def limits_shape_def)
  note limits = session_limits [OF this]
  obtain cf' where "readConfigFile ex_cfg_env (session_line (86400, 7) @ [LF]) ex_config = Some cf'"
    "Config_sessionLimit cf' 0 = Some (Some (86400, 7))" "Config_sessionLimit cf' 1 = Some None"
    using limits [of "[(86400, 7)]" ex_cfg_env] by auto
  moreover have "(86400 :: u16) = 20864" by code_simp
  ultimately show ?thesis
    using limits [of "replicate 9 (60, 5)" ex_cfg_env] by simp
qed

theorem server_section_witness:
  "\<exists>cf'. fold_lines ex_cfg_env (server_lines ex_cfgserver) ex_config = Some cf' \<and> Config_server cf' 1 = Some ex_cfgserver"
proof -
  have "server_writable ex_cfgserver"
    by (auto simp: server_writable_def ex_cfgserver_def server_new_def server_ok_def server_name_def short_value_def value_text_def
        line_text_def isspace_def)
  moreover have "cs_name ex_cfgserver \<notin> cs_name ` set (cf_servers ex_config)"
    by (simp add: ex_cfgserver_def ex_config_def server_new_def)
  ultimately show ?thesis using server_section [of ex_cfgserver ex_config ex_cfg_env] by (auto simp: ex_config_def)
qed

theorem owner_group_witness:
  "map_option cf_gid (fold_lines ex_cfg_env (owner_lines ''www'' ''swad'') (ex_config\<lparr>cf_section := CS_GLOBAL\<rparr>)) = Some 80"
proof -
  have "short_value ''www''" "short_value ''swad''" by (simp_all add: short_value_def value_text_def line_text_def isspace_def)
  moreover have "longArg ''www'' = None" by code_simp
  ultimately show ?thesis
    using owner_group [of "ex_config\<lparr>cf_section := CS_GLOBAL\<rparr>" "''www''" "''swad''" ex_cfg_env 80 80]
    by (simp add: ex_config_def config_static_def ex_cfg_env_def)
qed

end
