(* ===== verification/Startup.thy ===== *)
theory Startup
  imports Config_File Http_Server
begin

text \<open>
  The rest of \<open>main.c\<close>: \<open>main\<close> with the command line and the configuration, and the event handlers that
  build swad from the configuration and take it apart again. They compose nearly every component: the
  limits, the sessions, the checkers and realms, and the servers with their pipeline. \<^term>\<open>None\<close> is undefined
  behaviour, such as the division by zero for a limit of 0 seconds.
\<close>

section \<open>What is built\<close>

text \<open>
  What swad does not decide: the functions of the library, how a checker for PAM is made, whether poser
  can open a server, and the clocks.
\<close>

record ('k, 'b, 'l, 't, 'c, 'r, 'ck) boot =
  bo_env :: "('k, 'b, 'l, 't, 'c, 'r, 'ck) swad_env"
  bo_createPam :: "string option \<Rightarrow> 'k"
  bo_tcp :: "httpserveropts \<Rightarrow> bool"
  bo_rnd :: rnd_source
  bo_time :: int
  bo_mono :: "nat option"

text \<open>The world of the requests, the servers, and whether starting was given up.\<close>

record ('l, 't, 'c, 'r, 'ck) started =
  su_world :: "('l, 't, 'c, 'r) swad"
  su_servers :: "('l, 't, 'c, 'r, 'ck) swad_server list"
  su_failed :: bool
  su_config :: config
  su_warned :: "string option list"

text \<open>The loops over limits.\<close>

lemma limit_at_less: "limit_at lm i = Some (Some p) \<Longrightarrow> i < lm_n lm"
  by (auto simp: limit_at_def split: if_splits)

function limit_loop :: "cfglimits \<Rightarrow> ('s \<Rightarrow> u16 \<Rightarrow> u16 \<Rightarrow> 's option) \<Rightarrow> nat \<Rightarrow> 's \<Rightarrow> 's option" where
  "limit_loop lm add i s =
     (case limit_at lm i of
        None \<Rightarrow> None
      | Some None \<Rightarrow> Some s
      | Some (Some (seconds, lim)) \<Rightarrow> Option.bind (add s seconds lim) (limit_loop lm add (i + 1)))"
  by pat_completeness auto

termination
  by (relation "measure (\<lambda>(lm, add, i, s). lm_n lm - i)") (auto dest: limit_at_less)

declare limit_loop.simps [simp del]

text \<open>The loops over checkers, realms and servers.\<close>

definition checker_register ::
  "('k, 'b, 'l, 't, 'c, 'r, 'ck) boot \<Rightarrow> ('l, 'c, 'r) auth_static \<Rightarrow> cfgchecker \<Rightarrow> ('l, 'c, 'r) auth_static" where
  "checker_register bo st c =
     (case ck_class c of
        CC_NONE \<Rightarrow> st
      | CC_PAM \<Rightarrow> Authenticator_registerChecker (en_auth (bo_env bo)) st (ck_name c) (bo_createPam bo (CfgChecker_arg c 0)))"

definition realm_build :: "cfgrealm \<Rightarrow> 'l realm option" where
  "realm_build r = limit_loop (cr_limits r) Realm_addLimit 0 (foldl Realm_addChecker (Realm_create (cr_name r)) (cr_checkers r))"

fun realm_register_loop ::
  "('k, 'b, 'l, 't, 'c, 'r, 'ck) boot \<Rightarrow> cfgrealm list \<Rightarrow> ('l, 'c, 'r) auth_static \<Rightarrow> ('l, 'c, 'r) auth_static option" where
  "realm_register_loop bo [] st = Some st"
| "realm_register_loop bo (r # rs) st =
     Option.bind (realm_build r) (\<lambda>realm.
       realm_register_loop bo rs (Authenticator_registerRealm (en_auth (bo_env bo)) st realm))"

definition server_opts :: "cfgserver \<Rightarrow> config \<Rightarrow> httpserveropts \<times> config" where
  "server_opts s cf =
     (let opts = HttpServerOpts_create (cs_port s);
          opts = foldl HttpServerOpts_bind opts (cs_listen s);
          opts = (if cs_tls s then HttpServerOpts_enableTls opts (cs_tlsCert s) (cs_tlsKey s) else opts);
          opts = HttpServerOpts_setProto opts (cs_proto s);
          opts = (if Config_resolveHosts cf = 0 then HttpServerOpts_numericHosts opts else opts);
          opts = HttpServerOpts_trustedProxies opts (cs_trustedProxies s);
          opts = HttpServerOpts_trustedHeader opts (cs_trustedHeader s);
          (pfx, cf) = CfgServer_nat64Prefix s cf
      in (HttpServerOpts_nat64Prefix opts pfx, cf))"

fun server_create_loop ::
  "('k, 'b, 'l, 't, 'c, 'r, 'ck) boot \<Rightarrow> cfgserver list \<Rightarrow> config
    \<Rightarrow> ('l, 't, 'c, 'r, 'ck) swad_server list \<Rightarrow> string option list
    \<Rightarrow> ('l, 't, 'c, 'r, 'ck) swad_server list \<times> string option list \<times> config" where
  "server_create_loop bo [] cf servers warned = (servers, warned, cf)"
| "server_create_loop bo (s # ss) cf servers warned =
     (let (opts, cf) = server_opts s cf
      in case HttpServer_create (bo_tcp bo opts) opts of
           Some server \<Rightarrow> server_create_loop bo ss cf (servers @ [setupPipeline (bo_env bo) server]) warned
         | None \<Rightarrow> server_create_loop bo ss cf servers (warned @ [cs_name s]))"

text \<open>
  \<open>prestartup\<close>. The default limits are set before \<open>Authenticator_init\<close> creates the lock that guards them; the lock
  is not modelled.
\<close>

definition prestartup ::
  "('k, 'b, 'l, 't, 'c, 'r, 'ck) boot \<Rightarrow> config \<Rightarrow> ('l, 't, 'c, 'r, 'ck) started option" where
  "prestartup bo cf = do {
     createLimitOpts \<leftarrow> limit_loop (cf_sessionLimits cf) (\<lambda>opts seconds lim. map_option Some (MW_SessionOpts_addLimit opts seconds lim)) 0 None;
     (createLimit, sessions) \<leftarrow> MW_Session_init createLimitOpts (bo_time bo) sessions_static;
     defaultLimitOpts \<leftarrow> limit_loop (cf_loginLimits cf) (\<lambda>opts seconds lim. map_option Some (Authenticator_addDefaultLimit opts seconds lim)) 0 None;
     let st = Authenticator_init (en_auth (bo_env bo)) defaultLimitOpts;
     let st = foldl (checker_register bo) st (cf_checkers cf);
     st \<leftarrow> realm_register_loop bo (cf_realms cf) st;
     let (servers, warned, cf) = server_create_loop bo (cf_servers cf) cf [] [];
     let w = \<lparr>sw_sessions = sessions, sw_createLimit = createLimit, sw_auth = st, sw_rnd = bo_rnd bo,
       sw_validate = FDV_NONE, sw_route = defroute, sw_time = bo_time bo, sw_mono = bo_mono bo\<rparr>;
     Some \<lparr>su_world = MW_FormData_setValidation w FDV_UTF8_SANITIZE, su_servers = servers, su_failed = (servers = []),
       su_config = cf, su_warned = warned\<rparr>
   }"

text \<open>
  \<open>shutdown\<close>: the servers go first, then the authenticator with its tables, then the sessions, whose
  properties are deleted.
\<close>

definition Authenticator_done :: "('l, 'c, 'r) auth_static \<Rightarrow> ('l, 'c, 'r) auth_static" where
  "Authenticator_done st = st\<lparr>as_defaultLimitOpts := None\<rparr>"

definition swad_shutdown :: "('l, 't, 'c, 'r, 'ck) started \<Rightarrow> ('l, 't, 'c, 'r, 'ck) started" where
  "swad_shutdown su =
     (let w = su_world su;
          w = w\<lparr>sw_auth := Authenticator_done (sw_auth w)\<rparr>;
          w = w\<lparr>sw_sessions := MW_Session_done (sw_sessions w), sw_createLimit := []\<rparr>
      in su\<lparr>su_servers := [], su_world := w\<rparr>)"

section \<open>The program\<close>

text \<open>What \<open>main\<close> tells poser before the service runs.\<close>

record runopts =
  ro_loglevel :: loglevel
  ro_pidfile :: string
  ro_runas :: "int \<times> int"
  ro_foreground :: bool

datatype exit_code = EXIT_SUCCESS | EXIT_FAILURE

definition swad_main ::
  "cfg_env \<Rightarrow> string \<Rightarrow> string \<Rightarrow> (string \<Rightarrow> string option) \<Rightarrow> string list \<Rightarrow> (exit_code + runopts \<times> config) option" where
  "swad_main env DEFCONFFILE DEFPIDFILE files argv = do {
     rc \<leftarrow> Config_init env DEFCONFFILE argv;
     case rc of
       Inl stop \<Rightarrow> Some (Inl (if stop_failure stop then EXIT_FAILURE else EXIT_SUCCESS))
     | Inr cf \<Rightarrow> do {
         let level = (if cf_verbose cf then PSC_L_DEBUG else PSC_L_INFO);
         cf \<leftarrow> Config_readConfigFile env files cf;
         Some (Inr (\<lparr>ro_loglevel = level, ro_pidfile = Config_pidfile DEFPIDFILE cf, ro_runas = (cf_uid cf, cf_gid cf),
           ro_foreground = cf_foreground cf\<rparr>, cf))
       }
   }"

end
