(* ===== verification/Startup_Facts.thy ===== *)
theory Startup_Facts
  imports Startup
begin

text \<open>
  What swad is built from: the limits, realms, checkers and servers of the configuration are exactly those
  that serve requests.
\<close>

section \<open>Limits\<close>

definition limit_list :: "cfglimits \<Rightarrow> (u16 \<times> u16) list" where
  "limit_list lm = map (\<lambda>i. (the (lm_seconds lm ! i), the (lm_limits lm ! i))) [0..<lm_n lm]"

definition cells_written :: "cfglimits \<Rightarrow> bool" where
  "cells_written lm \<longleftrightarrow> (\<forall>i < lm_n lm. i < length (lm_seconds lm) \<and> i < length (lm_limits lm)
     \<and> lm_seconds lm ! i \<noteq> None \<and> lm_limits lm ! i \<noteq> None)"

lemma limits_ok_written: "limits_ok lm \<Longrightarrow> cells_written lm"
  by (fastforce simp: limits_ok_def cells_written_def limits_shape_def)

fun limit_fold :: "('s \<Rightarrow> u16 \<Rightarrow> u16 \<Rightarrow> 's option) \<Rightarrow> (u16 \<times> u16) list \<Rightarrow> 's \<Rightarrow> 's option" where
  "limit_fold add [] s = Some s"
| "limit_fold add ((seconds, lim) # ls) s = Option.bind (add s seconds lim) (limit_fold add ls)"

lemma limit_list_drop: "i < lm_n lm \<Longrightarrow> drop i (limit_list lm) =
    (the (lm_seconds lm ! i), the (lm_limits lm ! i)) # drop (i + 1) (limit_list lm)"
  by (subst Cons_nth_drop_Suc [symmetric]) (simp_all add: limit_list_def)

lemma limit_loop_fold: "cells_written lm \<Longrightarrow> limit_loop lm add i s = limit_fold add (drop i (limit_list lm)) s"
proof (induction lm add i s rule: limit_loop.induct)
  case (1 lm add i s)
  show ?case
  proof (cases "i < lm_n lm")
    case True
    then have at: "limit_at lm i = Some (Some (the (lm_seconds lm ! i), the (lm_limits lm ! i)))"
      using 1(2) by (auto simp: cells_written_def limit_at_def)
    let ?m = "add s (the (lm_seconds lm ! i)) (the (lm_limits lm ! i))"
    have "Option.bind ?m (limit_loop lm add (i + 1)) = Option.bind ?m (limit_fold add (drop (i + 1) (limit_list lm)))"
      using 1(1) [OF at refl refl] 1(2) by (cases ?m) simp_all
    then show ?thesis using at limit_list_drop [OF True] by (simp add: limit_loop.simps [of lm add i s])
  next
    case False
    then have "limit_at lm i = Some None" by (simp add: limit_at_def)
    then show ?thesis using False by (simp add: limit_loop.simps [of lm add i s] limit_list_def)
  qed
qed

text \<open>The limit that \<open>RateLimitOpts_addLimit\<close> makes of a window.\<close>

definition window :: "u16 \<times> u16 \<Rightarrow> 't limit" where
  "window p = (let res = (unat (fst p) + 511) div 512 in
     \<lparr>l_entries = None, l_seconds = fst p, l_limit = snd p, l_res = of_nat res,
      l_ncounts = of_nat ((unat (fst p) + res - 1) div res)\<rparr>)"

lemma addLimit_window_eq: "RateLimitOpts_addLimit ls s l = (if s = 0 then None else Some (ls @ [window (s, l)]))"
proof -
  have b: "(unat s + 511) div 512 < 65536" using unsigned_less [of s, where ?'a = nat] by (simp add: div_less_iff_less_mult)
  have n: "unat (of_nat ((unat s + 511) div 512) :: u16) = (unat s + 511) div 512" using b by (simp add: unat_of_nat)
  have "(unat s + 511) div 512 = 0 \<longleftrightarrow> unat s = 0" by (simp add: div_eq_0_iff)
  then have "(of_nat ((unat s + 511) div 512) :: u16) = 0 \<longleftrightarrow> s = 0"
    using n by (metis unat_eq_zero)
  moreover have "(unat s + MAXCOUNTS - 1) div MAXCOUNTS = (unat s + 511) div 512" by (simp add: MAXCOUNTS_def)
  ultimately show ?thesis unfolding RateLimitOpts_addLimit_def using n by (simp add: window_def Let_def)
qed


definition add_opts :: "'t limit list option \<Rightarrow> (u16 \<times> u16) list \<Rightarrow> 't limit list option" where
  "add_opts opts ls = (if ls = [] then opts else Some ((case opts of None \<Rightarrow> [] | Some opts \<Rightarrow> opts) @ map window ls))"

lemma limit_fold_addLimit:
  "limit_fold (\<lambda>opts s l. map_option Some (RateLimitOpts_addLimit (case opts of None \<Rightarrow> [] | Some opts \<Rightarrow> opts) s l)) ls opts =
     (if \<forall>p \<in> set ls. fst p \<noteq> 0 then Some (add_opts opts ls) else None)"
proof (induction ls arbitrary: opts)
  case (Cons p ls)
  obtain s l where p: "p = (s, l)" by (cases p)
  show ?case using Cons.IH by (auto simp: p addLimit_window_eq add_opts_def split: option.splits)
qed (simp add: add_opts_def)

lemma limit_fold_realm:
  "limit_fold Realm_addLimit ls realm =
     (if \<forall>p \<in> set ls. fst p \<noteq> 0 then Some (realm\<lparr>rl_limitOpts := add_opts (rl_limitOpts realm) ls\<rparr>) else None)"
proof (induction ls arbitrary: realm)
  case (Cons p ls)
  obtain s l where p: "p = (s, l)" by (cases p)
  show ?case using Cons.IH by (auto simp: p addLimit_window_eq add_opts_def Realm_addLimit_def split: option.splits)
qed (simp add: add_opts_def)

definition seconds_ok :: "cfglimits \<Rightarrow> bool" where
  "seconds_ok lm \<longleftrightarrow> (\<forall>p \<in> set (limit_list lm). fst p \<noteq> 0)"

lemma window_ok:
  fixes p :: "u16 \<times> u16"
  assumes "fst p \<noteq> 0"
  shows "limit_ok (window p :: 't limit)" "l_entries (window p :: 't limit) = None" "l_limit (window p :: 't limit) = snd p"
    "unat (fst p) \<le> unat (l_res (window p :: 't limit)) * unat (l_ncounts (window p :: 't limit))"
  using addLimit_window [of "[] :: 't limit list" "snd p" "fst p"] assms by (auto simp: addLimit_window_eq)

section \<open>Realms and checkers\<close>

definition realm_of :: "cfgrealm \<Rightarrow> 'l realm" where
  "realm_of r = \<lparr>rl_name = cr_name r, rl_checkers = cr_checkers r, rl_limitOpts = add_opts None (limit_list (cr_limits r))\<rparr>"

lemma addChecker_foldl: "foldl Realm_addChecker realm cs = realm\<lparr>rl_checkers := rl_checkers realm @ cs\<rparr>"
  by (induction cs arbitrary: realm) (simp_all add: Realm_addChecker_def)

lemma realm_build_eq:
  "cells_written (cr_limits r) \<Longrightarrow> realm_build r = (if seconds_ok (cr_limits r) then Some (realm_of r) else None)"
  by (simp add: realm_build_def limit_loop_fold limit_fold_realm addChecker_foldl Realm_create_def realm_of_def seconds_ok_def)

definition realms_ok :: "config \<Rightarrow> bool" where
  "realms_ok cf \<longleftrightarrow> (\<forall>r \<in> set (cf_realms cf). cells_written (cr_limits r) \<and> seconds_ok (cr_limits r))"

lemma realm_register_loop_eq:
  "\<forall>r \<in> set rs. cells_written (cr_limits r) \<and> seconds_ok (cr_limits r) \<Longrightarrow>
   realm_register_loop bo rs st = Some (foldl (Authenticator_registerRealm (en_auth (bo_env bo))) st (map realm_of rs))"
  by (induction rs arbitrary: st) (simp_all add: realm_build_eq)

lemma registerRealm_foldl:
  assumes "psc_hash_laws (ah_realms ops)"
  shows "ph_get (ah_realms ops) (as_realms (foldl (Authenticator_registerRealm ops) st rs)) k =
      (case map_of (rev (map (\<lambda>r. (rl_name r, r)) rs)) k of Some r \<Rightarrow> Some r | None \<Rightarrow> ph_get (ah_realms ops) (as_realms st) k)"
    "as_checkers (foldl (Authenticator_registerRealm ops) st rs) = as_checkers st"
    "as_defaultLimitOpts (foldl (Authenticator_registerRealm ops) st rs) = as_defaultLimitOpts st"
    "as_log (foldl (Authenticator_registerRealm ops) st rs) = as_log st"
proof -
  show "ph_get (ah_realms ops) (as_realms (foldl (Authenticator_registerRealm ops) st rs)) k =
      (case map_of (rev (map (\<lambda>r. (rl_name r, r)) rs)) k of Some r \<Rightarrow> Some r | None \<Rightarrow> ph_get (ah_realms ops) (as_realms st) k)"
    by (induction rs arbitrary: st)
      (auto simp: Authenticator_registerRealm_def psc_hash_lawsD(2) [OF assms] map_add_def split: option.splits)
  show "as_checkers (foldl (Authenticator_registerRealm ops) st rs) = as_checkers st"
    "as_defaultLimitOpts (foldl (Authenticator_registerRealm ops) st rs) = as_defaultLimitOpts st"
    "as_log (foldl (Authenticator_registerRealm ops) st rs) = as_log st"
    by (induction rs arbitrary: st) (simp_all add: Authenticator_registerRealm_def)
qed

text \<open>The checkers for PAM; the others are never made.\<close>

definition pam_checkers :: "(string option \<Rightarrow> 'k) \<Rightarrow> cfgchecker list \<Rightarrow> (string \<times> 'k) list" where
  "pam_checkers mk cs = map (\<lambda>c. (ck_name c, mk (CfgChecker_arg c 0))) (filter (\<lambda>c. ck_class c = CC_PAM) cs)"

lemma checker_register_foldl:
  assumes "psc_hash_laws (ah_checkers (en_auth (bo_env bo)))"
  shows "ph_get (ah_checkers (en_auth (bo_env bo))) (as_checkers (foldl (checker_register bo) st cs)) k =
      (case map_of (rev (pam_checkers (bo_createPam bo) cs)) k of Some c \<Rightarrow> Some c
       | None \<Rightarrow> ph_get (ah_checkers (en_auth (bo_env bo))) (as_checkers st) k)"
    "as_realms (foldl (checker_register bo) st cs) = as_realms st"
    "as_defaultLimitOpts (foldl (checker_register bo) st cs) = as_defaultLimitOpts st"
    "as_log (foldl (checker_register bo) st cs) = as_log st"
proof -
  show "ph_get (ah_checkers (en_auth (bo_env bo))) (as_checkers (foldl (checker_register bo) st cs)) k =
      (case map_of (rev (pam_checkers (bo_createPam bo) cs)) k of Some c \<Rightarrow> Some c
       | None \<Rightarrow> ph_get (ah_checkers (en_auth (bo_env bo))) (as_checkers st) k)"
    by (induction cs arbitrary: st)
      (auto simp: checker_register_def pam_checkers_def Authenticator_registerChecker_def psc_hash_lawsD(2) [OF assms]
        map_add_def split: option.splits checkerclass.splits)
  show "as_realms (foldl (checker_register bo) st cs) = as_realms st"
    "as_defaultLimitOpts (foldl (checker_register bo) st cs) = as_defaultLimitOpts st"
    "as_log (foldl (checker_register bo) st cs) = as_log st"
    by (induction cs arbitrary: st) (simp_all add: checker_register_def Authenticator_registerChecker_def split: checkerclass.splits)
qed


section \<open>Servers\<close>

definition nat64_of :: "config \<Rightarrow> cfgserver \<Rightarrow> ipaddr option" where
  "nat64_of cf s = (case cs_nat64Prefix s of Some ip \<Rightarrow> Some ip
     | None \<Rightarrow> (case cf_nat64Prefix cf of Some ip \<Rightarrow> Some ip | None \<Rightarrow> IpAddr_create ''64:ff9b::/96''))"

definition opts_of :: "config \<Rightarrow> cfgserver \<Rightarrow> httpserveropts" where
  "opts_of cf s = \<lparr>so_port = cs_port s, so_bind = cs_listen s, so_tls = (if cs_tls s then Some (cs_tlsCert s, cs_tlsKey s) else None),
     so_numericHosts = (Config_resolveHosts cf = 0), so_proto = cs_proto s, so_nat64Prefix = nat64_of cf s,
     so_trustedHeader = cs_trustedHeader s, so_trustedProxies = max 0 (cs_trustedProxies s)\<rparr>"

definition server_of :: "('k, 'b, 'l, 't, 'c, 'r, 'ck) boot \<Rightarrow> config \<Rightarrow> cfgserver \<Rightarrow> ('l, 't, 'c, 'r, 'ck) swad_server" where
  "server_of bo cf s = setupPipeline (bo_env bo) (the (HttpServer_create True (opts_of cf s)))"

lemma bind_foldl: "foldl HttpServerOpts_bind opts hs = opts\<lparr>so_bind := so_bind opts @ hs\<rparr>"
  by (induction hs arbitrary: opts) (simp_all add: HttpServerOpts_bind_def)

lemma server_opts_eq: "\<exists>cf'. server_opts s cf = (opts_of cf s, cf') \<and> opts_of cf' = opts_of cf"
proof (cases "cs_nat64Prefix s \<noteq> None \<or> cf_nat64Prefix cf \<noteq> None")
  case True
  then have "server_opts s cf = (opts_of cf s, cf)"
    by (auto simp: server_opts_def bind_foldl Let_def CfgServer_nat64Prefix_def opts_of_def nat64_of_def HttpServerOpts_create_def
        HttpServerOpts_enableTls_def HttpServerOpts_setProto_def HttpServerOpts_numericHosts_def HttpServerOpts_trustedProxies_def
        HttpServerOpts_trustedHeader_def HttpServerOpts_nat64Prefix_def max_def)
  then show ?thesis by blast
next
  case False
  let ?cf = "cf\<lparr>cf_nat64Prefix := IpAddr_create ''64:ff9b::/96''\<rparr>"
  have "opts_of ?cf = opts_of cf"
    using False by (simp add: opts_of_def nat64_of_def Config_resolveHosts_def fun_eq_iff split: option.splits)
  moreover have "server_opts s cf = (opts_of cf s, ?cf)"
    using False by (simp add: server_opts_def bind_foldl Let_def CfgServer_nat64Prefix_def opts_of_def nat64_of_def HttpServerOpts_create_def
        HttpServerOpts_enableTls_def HttpServerOpts_setProto_def HttpServerOpts_numericHosts_def HttpServerOpts_trustedProxies_def
        HttpServerOpts_trustedHeader_def HttpServerOpts_nat64Prefix_def max_def)
  ultimately show ?thesis by blast
qed

lemma server_create_loop_eq:
  "\<exists>cf'. server_create_loop bo ss cf servers warned =
     (servers @ map (server_of bo cf) (filter (\<lambda>s. bo_tcp bo (opts_of cf s)) ss),
      warned @ map cs_name (filter (\<lambda>s. \<not> bo_tcp bo (opts_of cf s)) ss), cf')"
proof (induction ss arbitrary: cf servers warned)
  case (Cons s ss)
  obtain cf1 where o: "server_opts s cf = (opts_of cf s, cf1)" "opts_of cf1 = opts_of cf"
    using server_opts_eq by blast
  have same: "server_of bo cf1 = server_of bo cf" by (simp add: server_of_def o(2) fun_eq_iff)
  show ?case
  proof (cases "bo_tcp bo (opts_of cf s)")
    case True
    then show ?thesis
      using o same Cons.IH [of cf1 "servers @ [server_of bo cf s]" warned] by (simp add: server_of_def HttpServer_create_def)
  next
    case False
    then show ?thesis using o same Cons.IH [of cf1 servers "warned @ [cs_name s]"] by (simp add: HttpServer_create_def)
  qed
qed simp

section \<open>Starting\<close>

definition session_windows :: "config \<Rightarrow> 't limit list" where
  "session_windows cf = map window (if limit_list (cf_sessionLimits cf) = [] then [(5, 3), (60, 5), (3600, 25)]
     else limit_list (cf_sessionLimits cf))"

text \<open>A configuration for which no division by zero stops the start.\<close>

definition startable :: "config \<Rightarrow> bool" where
  "startable cf \<longleftrightarrow> seconds_ok (cf_sessionLimits cf) \<and> seconds_ok (cf_loginLimits cf) \<and> realms_ok cf"

lemma session_init_eq:
  "MW_Session_init opts now self = Some (case opts of Some opts \<Rightarrow> opts | None \<Rightarrow> map window [(5, 3), (60, 5), (3600, 25)],
     self\<lparr>sx_cleantime := now\<rparr>)"
  by (simp add: MW_Session_init_def RateLimit_create_def addLimit_window_eq Let_def split: option.splits)

lemma prestartup_auth:
  assumes "config_ok cf" "startable cf"
  shows "\<exists>servers warned cf'. server_create_loop bo (cf_servers cf) cf [] [] = (servers, warned, cf')
    \<and> prestartup bo cf = Some \<lparr>
      su_world = \<lparr>sw_sessions = sessions_static\<lparr>sx_cleantime := bo_time bo\<rparr>, sw_createLimit = session_windows cf,
        sw_auth = foldl (Authenticator_registerRealm (en_auth (bo_env bo)))
          (foldl (checker_register bo) (Authenticator_init (en_auth (bo_env bo)) (add_opts None (limit_list (cf_loginLimits cf)))) (cf_checkers cf))
          (map realm_of (cf_realms cf)),
        sw_rnd = bo_rnd bo, sw_validate = FDV_UTF8_SANITIZE, sw_route = defroute, sw_time = bo_time bo, sw_mono = bo_mono bo\<rparr>,
      su_servers = servers, su_failed = (servers = []), su_config = cf', su_warned = warned\<rparr>"
proof -
  have w: "cells_written (cf_sessionLimits cf)" "cells_written (cf_loginLimits cf)"
    using assms(1) by (simp_all add: config_ok_def limits_ok_written)
  have z: "\<forall>p \<in> set (limit_list (cf_sessionLimits cf)). fst p \<noteq> 0" "\<forall>p \<in> set (limit_list (cf_loginLimits cf)). fst p \<noteq> 0"
    "\<forall>r \<in> set (cf_realms cf). cells_written (cr_limits r) \<and> seconds_ok (cr_limits r)"
    using assms(2) by (simp_all add: startable_def seconds_ok_def realms_ok_def)
  obtain servers warned cf' where loop: "server_create_loop bo (cf_servers cf) cf [] [] = (servers, warned, cf')"
    by (cases "server_create_loop bo (cf_servers cf) cf [] []") auto
  show ?thesis
    using w z loop
    by (simp add: prestartup_def limit_loop_fold MW_SessionOpts_addLimit_def Authenticator_addDefaultLimit_def limit_fold_addLimit
        realm_register_loop_eq session_init_eq MW_FormData_setValidation_def session_windows_def)
      (simp add: add_opts_def)
qed


lemma prestartup_zero:
  assumes "cells_written (cf_sessionLimits cf)" "\<not> seconds_ok (cf_sessionLimits cf)"
  shows "prestartup bo cf = None"
  using assms by (auto simp: prestartup_def limit_loop_fold limit_fold_addLimit MW_SessionOpts_addLimit_def seconds_ok_def)

section \<open>The properties\<close>




text \<open>
  C35: a session limit as the file says it is the limit the sessions get, except that the seconds are taken
  modulo 65536: a limit for a day is one for 20864 seconds, and a limit for 65536 seconds, which is in the range the
  code checks, divides by zero when swad starts.
\<close>

theorem session_limit_start:
  assumes "config_ok cf" "startable cf" "lm_n (cf_sessionLimits cf) = 0" "1 \<le> s" "s \<le> 86400" "1 \<le> l" "l \<le> 1024"
  shows "\<exists>cf'. readConfigFile env (session_line (s, l) @ [LF]) cf = Some cf'
    \<and> (if s = 65536 then prestartup bo cf' = None
       else \<exists>su. prestartup bo cf' = Some su
         \<and> map (\<lambda>w. (unat (l_seconds w), unat (l_limit w))) (sw_createLimit (su_world su)) = [(s mod 65536, l)])"
proof -
  let ?start = "cf\<lparr>cf_lineno := 0, cf_section := CS_GLOBAL\<rparr>"
  let ?lm = "(cf_sessionLimits cf)\<lparr>lm_seconds := (lm_seconds (cf_sessionLimits cf))[0 := Some (of_nat s)],
    lm_limits := (lm_limits (cf_sessionLimits cf))[0 := Some (of_nat l)], lm_n := Suc 0\<rparr>"
  let ?fin = "?start\<lparr>cf_lineno := Suc 0, cf_sessionLimits := ?lm\<rparr>"
  have shape: "limits_shape (cf_sessionLimits cf)" using assms(1) by (simp add: config_ok_def limits_ok_def)
  then have "line_step env (session_line (s, l)) ?start = Some ?fin"
    using session_line_step [of ?start s l env] assms(3-7) by simp
  then have read: "readConfigFile env (session_line (s, l) @ [LF]) cf = Some ?fin"
    using read_lines_line [OF session_line_text, of env "(s, l)" "[]" ?start] bind_read_lines_end [of "Some ?fin"]
    by (simp add: readConfigFile_def)
  have list: "limit_list ?lm = [(of_nat s, of_nat l)]" using shape by (simp add: limit_list_def limits_shape_def)
  have n: "unat (of_nat s :: u16) = s mod 65536" "unat (of_nat l :: u16) = l" using assms(7) by (simp_all add: unat_of_nat)
  have mod_zero: "s mod 65536 = 0 \<longleftrightarrow> s = 65536"
    using assms(4,5) by (cases "s < 65536") (simp_all add: le_mod_geq)
  have zero: "(of_nat s :: u16) = 0 \<longleftrightarrow> s = 65536"
    using n(1) mod_zero unat_eq_zero [of "of_nat s :: u16"] by simp
  have written: "cells_written ?lm" using shape by (simp add: cells_written_def limits_shape_def)
  show ?thesis
  proof (cases "s = 65536")
    case True
    then have z: "(of_nat s :: u16) = 0" using zero by blast
    have "\<not> seconds_ok ?lm" unfolding seconds_ok_def list using z by simp
    then have "prestartup bo ?fin = None" using prestartup_zero [of ?fin bo] written by simp
    then show ?thesis using read True by (intro exI [of _ ?fin]) (simp del: of_nat_numeral)
  next
    case False
    have "limits_ok ?lm" using assms(6,7) shape n by (simp add: limits_ok_def limits_shape_def)
    then have ok: "config_ok ?fin" using config_ok_limits(1) [OF assms(1)] by (simp add: config_ok_def)
    have "startable ?fin" using assms(2) False zero by (simp add: startable_def seconds_ok_def list realms_ok_def)
    from prestartup_auth [OF ok this, of bo] obtain su where su: "prestartup bo ?fin = Some su"
      "sw_createLimit (su_world su) = session_windows ?fin"
      by fastforce
    show ?thesis using read su False n by (intro exI [of _ ?fin]) (simp add: session_windows_def list window_def Let_def)
  qed
qed


text \<open>The witnesses: one realm with a checker for PAM, and a port that poser can open.\<close>

definition ex_boot :: "(string, (string \<times> unit) list, (string \<times> entry) list, ex_infos, (string \<times> string) list,
  (string \<times> (string \<times> entry) list realm) list, (string \<times> string) list) boot" where
  "ex_boot = \<lparr>bo_env = ex_env, bo_createPam = (\<lambda>service. case service of None \<Rightarrow> [] | Some service \<Rightarrow> service),
     bo_tcp = (\<lambda>opts. so_port opts = 8080), bo_rnd = \<lparr>rn_answers = [], rn_prng = prng_static\<rparr>, bo_time = 0, bo_mono = None\<rparr>"

definition ex_pam_config :: config where
  "ex_pam_config = ex_config\<lparr>cf_checkers := [\<lparr>ck_name = ''pam'', ck_class = CC_PAM, ck_args = [''swad'']\<rparr>],
     cf_realms := [\<lparr>cr_name = ''SWAD'', cr_checkers = [''pam''], cr_limits = limits_malloc\<rparr>]\<rparr>"

lemma ex_pam_ok: "config_ok ex_pam_config" "startable ex_pam_config" "auth_laws (en_auth (bo_env ex_boot))"
proof -
  have "server_ok (server_new None)" by (simp add: server_new_ok)
  then show "config_ok ex_pam_config"
    by (simp add: ex_pam_config_def ex_config_def config_static_def config_ok_def limits_ok_def limits_shape_def limits_cleared_def limits_malloc_def)
      (simp add: server_new_def)
  show "startable ex_pam_config"
    by (simp add: ex_pam_config_def ex_config_def config_static_def startable_def seconds_ok_def realms_ok_def cells_written_def
        limit_list_def limits_cleared_def limits_malloc_def)
  show "auth_laws (en_auth (bo_env ex_boot))" by (simp add: ex_boot_def ex_env_def)
qed



theorem session_limit_start_witness:
  "(\<exists>cf. readConfigFile ex_cfg_env (session_line (65536, 5) @ [LF]) ex_pam_config = Some cf \<and> prestartup ex_boot cf = None)
    \<and> (\<exists>cf su. readConfigFile ex_cfg_env (session_line (86400, 5) @ [LF]) ex_pam_config = Some cf \<and> prestartup ex_boot cf = Some su
        \<and> map (\<lambda>w. (unat (l_seconds w), unat (l_limit w))) (sw_createLimit (su_world su)) = [(20864, 5)])"
proof -
  have n: "lm_n (cf_sessionLimits ex_pam_config) = 0" by (simp add: ex_pam_config_def ex_config_def config_static_def limits_cleared_def)
  show ?thesis
    using session_limit_start [OF ex_pam_ok(1,2) n, of 65536 5 ex_cfg_env ex_boot]
      session_limit_start [OF ex_pam_ok(1,2) n, of 86400 5 ex_cfg_env ex_boot]
    by auto
qed

end
