(* ===== verification/Pam.thy ===== *)
theory Pam
  imports Swad_Prelude
begin

text \<open>
  \<open>cred/pamchecker.c\<close> and \<open>libexec/swad_pam/main.c\<close>: checking a password with PAM. Three processes take
  part: the thread of a login (\<open>check\<close>), the thread that controls the helper, and the helper, a process
  of its own that calls PAM. The first two share a struct behind a lock and two semaphores, the other two talk
  through two pipes. Each has a program counter; a step is what one of them does between two points at which
  the others can act. A function for a step is \<^term>\<open>None\<close> where it blocks. Text that was
  written in one call is read at once or in pieces of the size of the reader's buffer.
\<close>

section \<open>PAM\<close>

text \<open>
  What PAM does, as far as swad sees it: it ends with a result, or asks questions in a conversation and goes
  on with the answers, which are the cells of an array: not initialised, a null pointer, or a text.
\<close>

datatype resp_cell = Resp_uninit | Resp_null | Resp_str string

datatype msg_style = PAM_PROMPT_ECHO_OFF | PAM_PROMPT_ECHO_ON | PAM_ERROR_MSG | PAM_TEXT_INFO

datatype pam_run = PamResult bool | PamConv "msg_style list" "resp_cell list \<Rightarrow> pam_run"

text \<open>The array is allocated for all answers and cleared for the first.\<close>

definition resp_alloc :: "msg_style list \<Rightarrow> resp_cell list" where
  "resp_alloc msgs = (case msgs of [] \<Rightarrow> [] | m # ms \<Rightarrow> Resp_null # map (\<lambda>_. Resp_uninit) ms)"

section \<open>The processes\<close>

datatype pam_actor = Checker | Controller

text \<open>The thread of a login; the arguments of \<open>check\<close> are kept until they are stored.\<close>

datatype check_pc = C_none | C_start string string string | C_lock string string string | C_post | C_unlock | C_wait | C_relock | C_read | C_done bool

datatype control_pc = T_test | T_wait | T_lock | T_write | T_read | T_password | T_read2 | T_answer string | T_unlock
  | T_end | T_closed | T_over | T_undef

text \<open>There may be no helper. In a conversation the helper has the messages that are left, the answers, the index, and what PAM does with them.\<close>

datatype helper_pc = H_none | H_read | H_pam pam_run
  | H_conv "msg_style list" "resp_cell list" nat "resp_cell list \<Rightarrow> pam_run"
  | H_pass "msg_style list" "resp_cell list" nat "resp_cell list \<Rightarrow> pam_run"
  | H_exit bool

record pamthread =
  pt_service :: string
  pt_user :: string
  pt_pw :: string
  pt_lock :: "pam_actor option"
  pt_request :: nat
  pt_response :: nat
  pt_refcnt :: nat
  pt_stoprq :: bool
  pt_ok :: bool
  pt_childExited :: bool
  pt_check :: check_pc
  pt_control :: control_pc
  pt_to :: string
  pt_from :: string
  pt_helper :: helper_pc
  pt_pass :: string
  pt_passread :: bool

definition helper_gone :: "pamthread \<Rightarrow> bool" where
  "helper_gone w \<longleftrightarrow> (case pt_helper w of H_exit _ \<Rightarrow> True | _ \<Rightarrow> False)"

definition control_gone :: "pamthread \<Rightarrow> bool" where
  "control_gone w \<longleftrightarrow> pt_control w \<in> {T_closed, T_over}"

text \<open>\<open>read\<close> on a pipe: it waits for text, and returns nothing at the end, when the writer is gone.\<close>

definition pipe_read :: "nat \<Rightarrow> bool \<Rightarrow> string \<Rightarrow> (string \<times> string) option" where
  "pipe_read n gone pipe = (if pipe = [] then if gone then Some ([], []) else None else Some (take n pipe, drop n pipe))"

definition line_of :: "string \<Rightarrow> string" where
  "line_of s = takeWhile (\<lambda>c. c \<noteq> LF) s"

section \<open>The thread of a login\<close>

text \<open>
  \<open>check\<close>, up to its result. Whether \<open>pthread_kill\<close> reports a thread that has ended is up to the C
  library (\<open>esrch\<close>).
\<close>

definition check_step :: "bool \<Rightarrow> pamthread \<Rightarrow> pamthread option" where
  "check_step esrch w =
     (case pt_check w of
        C_none \<Rightarrow> None
      | C_start service user pw \<Rightarrow>
          Some (w\<lparr>pt_check := (if esrch \<and> pt_control w = T_over then C_done False else C_lock service user pw)\<rparr>)
      | C_lock service user pw \<Rightarrow>
          if pt_lock w \<noteq> None then None
          else Some (w\<lparr>pt_lock := Some Checker, pt_service := service, pt_user := user, pt_pw := pw, pt_check := C_post\<rparr>)
      | C_post \<Rightarrow> Some (w\<lparr>pt_request := pt_request w + 1, pt_check := C_unlock\<rparr>)
      | C_unlock \<Rightarrow> Some (w\<lparr>pt_lock := None, pt_check := C_wait\<rparr>)
      | C_wait \<Rightarrow> if pt_response w = 0 then None else Some (w\<lparr>pt_response := pt_response w - 1, pt_check := C_relock\<rparr>)
      | C_relock \<Rightarrow> if pt_lock w \<noteq> None then None else Some (w\<lparr>pt_lock := Some Checker, pt_check := C_read\<rparr>)
      | C_read \<Rightarrow> Some (w\<lparr>pt_lock := None, pt_check := C_done (pt_ok w)\<rparr>)
      | C_done ok \<Rightarrow> None)"

section \<open>The controlling thread\<close>

text \<open>
  \<open>snprintf\<close> into 256 bytes and \<open>write\<close> with the length the whole text would have; a longer text reads
  behind the buffer. A helper that is gone breaks the loop.
\<close>

definition WRBUF :: nat where
  "WRBUF = 256"

definition control_write :: "string \<Rightarrow> control_pc \<Rightarrow> pamthread \<Rightarrow> pamthread" where
  "control_write text' pc w =
     (if length text' > WRBUF then w\<lparr>pt_control := T_undef\<rparr>
      else if helper_gone w then w\<lparr>pt_control := T_end\<rparr>
      else w\<lparr>pt_to := pt_to w @ take (length text') (take (WRBUF - 1) text' @ [NUL]), pt_control := pc\<rparr>)"

definition RDBUF :: nat where
  "RDBUF = 16"

definition control_read :: "pamthread \<Rightarrow> (string \<times> pamthread) option" where
  "control_read w = map_option (\<lambda>(rdbuf, from). (cstr rdbuf, w\<lparr>pt_from := from\<rparr>)) (pipe_read (RDBUF - 1) (helper_gone w) (pt_from w))"

definition control_step :: "pamthread \<Rightarrow> pamthread option" where
  "control_step w =
     (case pt_control w of
        T_test \<Rightarrow> Some (w\<lparr>pt_control := (if pt_childExited w then T_end else T_wait)\<rparr>)
      | T_wait \<Rightarrow> if pt_request w = 0 then None else Some (w\<lparr>pt_request := pt_request w - 1, pt_control := T_lock\<rparr>)
      | T_lock \<Rightarrow>
          if pt_lock w \<noteq> None then None
          else Some (w\<lparr>pt_lock := Some Controller, pt_ok := False,
            pt_control := (if pt_stoprq w \<or> pt_childExited w then T_end else T_write)\<rparr>)
      | T_write \<Rightarrow> Some (control_write (pt_service w @ '':'' @ pt_user w @ [LF]) T_read w)
      | T_read \<Rightarrow> map_option (\<lambda>(rdbuf, w).
          if rdbuf = ''P'' @ [LF] then w\<lparr>pt_control := T_password\<rparr> else w\<lparr>pt_control := T_answer rdbuf\<rparr>) (control_read w)
      | T_password \<Rightarrow> Some (control_write (pt_pw w @ [LF]) T_read2 w)
      | T_read2 \<Rightarrow> map_option (\<lambda>(rdbuf, w). w\<lparr>pt_control := T_answer rdbuf\<rparr>) (control_read w)
      | T_answer rdbuf \<Rightarrow>
          Some (w\<lparr>pt_ok := (if rdbuf = ''1'' @ [LF] then True else pt_ok w), pt_response := pt_response w + 1, pt_control := T_unlock\<rparr>)
      | T_unlock \<Rightarrow> Some (w\<lparr>pt_lock := None, pt_control := T_test\<rparr>)
      | T_end \<Rightarrow> Some (w\<lparr>pt_lock := None, pt_control := T_closed\<rparr>)
      | T_closed \<Rightarrow> if helper_gone w then Some (w\<lparr>pt_control := T_over\<rparr>) else None
      | T_over \<Rightarrow> None
      | T_undef \<Rightarrow> None)"

text \<open>
  The signal that tells about the end of the helper. It comes while a call waits, which it interrupts and so
  breaks the loop, or at another time.
\<close>

definition handlechild :: "bool \<Rightarrow> pamthread \<Rightarrow> pamthread option" where
  "handlechild waiting w =
     (if \<not> helper_gone w \<or> pt_childExited w then None
      else
        (let w = w\<lparr>pt_childExited := True\<rparr>
         in if waiting then if pt_control w \<in> {T_wait, T_read, T_read2} then Some (w\<lparr>pt_control := T_end\<rparr>) else None
            else Some w))"

section \<open>The helper\<close>

definition PASSBUF :: nat where "PASSBUF = 256"
definition HELPERBUF :: nat where "HELPERBUF = 512"

text \<open>Setting one answer.\<close>

definition conv_answer :: "string \<Rightarrow> resp_cell list \<Rightarrow> nat \<Rightarrow> resp_cell list" where
  "conv_answer pass resp i = (if pass \<noteq> [] then resp[i := Resp_str pass] else resp)"

text \<open>
  A line of the controlling thread, \<open>service:user\<close>. The parameter is PAM with these; \<^term>\<open>None\<close> is a
  failed start.
\<close>

definition helper_line :: "(string \<Rightarrow> string \<Rightarrow> pam_run option) \<Rightarrow> string \<Rightarrow> pamthread \<Rightarrow> pamthread" where
  "helper_line pam buf w =
     (case strchr buf CHR '':'' of
        None \<Rightarrow> w\<lparr>pt_helper := H_exit False\<rparr>
      | Some i \<Rightarrow>
          (let user = drop (i + 1) buf
           in case strchr user LF of
                None \<Rightarrow> w\<lparr>pt_helper := H_exit False\<rparr>
              | Some nl \<Rightarrow>
                  (case pam (take i buf) (take nl user) of
                     None \<Rightarrow> w\<lparr>pt_passread := False, pt_pass := [], pt_helper := H_exit False\<rparr>
                   | Some run \<Rightarrow> w\<lparr>pt_passread := False, pt_pass := [], pt_helper := H_pam run\<rparr>)))"

definition helper_write :: "string \<Rightarrow> helper_pc \<Rightarrow> pamthread \<Rightarrow> pamthread" where
  "helper_write text' pc w =
     (if control_gone w then w\<lparr>pt_helper := H_exit False\<rparr> else w\<lparr>pt_from := pt_from w @ text', pt_helper := pc\<rparr>)"

definition helper_step :: "(string \<Rightarrow> string \<Rightarrow> pam_run option) \<Rightarrow> pamthread \<Rightarrow> pamthread option" where
  "helper_step pam w =
     (case pt_helper w of
        H_none \<Rightarrow> None
      | H_read \<Rightarrow>
          (case pipe_read (HELPERBUF - 1) (control_gone w) (pt_to w) of
             None \<Rightarrow> None
           | Some (buf, to) \<Rightarrow>
               if buf = [] then Some (w\<lparr>pt_helper := H_exit True\<rparr>) else Some (helper_line pam (cstr buf) (w\<lparr>pt_to := to\<rparr>)))
      | H_pam (PamResult result) \<Rightarrow> Some (helper_write ((if result then ''1'' else ''0'') @ [LF]) H_read w)
      | H_pam (PamConv msgs k) \<Rightarrow> Some (w\<lparr>pt_helper := H_conv msgs (resp_alloc msgs) 0 k\<rparr>)
      | H_conv [] resp i k \<Rightarrow> Some (w\<lparr>pt_helper := H_pam (k resp)\<rparr>)
      | H_conv (m # ms) resp i k \<Rightarrow>
          if m = PAM_PROMPT_ECHO_OFF
          then if \<not> pt_passread w then Some (helper_write (''P'' @ [LF]) (H_pass ms resp i k) w)
            else Some (w\<lparr>pt_helper := H_conv ms (conv_answer (pt_pass w) resp i) (i + 1) k\<rparr>)
          else Some (w\<lparr>pt_helper := H_conv ms resp (i + 1) k\<rparr>)
      | H_pass ms resp i k \<Rightarrow>
          map_option (\<lambda>(buf, to).
              let pass = (if buf = [] then pt_pass w else line_of (cstr buf))
              in w\<lparr>pt_to := to, pt_pass := pass, pt_passread := True, pt_helper := H_conv ms (conv_answer pass resp i) (i + 1) k\<rparr>)
            (pipe_read (PASSBUF - 1) (control_gone w) (pt_to w))
      | H_exit status \<Rightarrow> None)"

section \<open>Any of them\<close>

inductive pam_step :: "bool \<Rightarrow> (string \<Rightarrow> string \<Rightarrow> pam_run option) \<Rightarrow> pamthread \<Rightarrow> pamthread \<Rightarrow> bool" for esrch pam where
  check: "check_step esrch w = Some w' \<Longrightarrow> pam_step esrch pam w w'"
| control: "control_step w = Some w' \<Longrightarrow> pam_step esrch pam w w'"
| helper: "helper_step pam w = Some w' \<Longrightarrow> pam_step esrch pam w w'"
| signal: "handlechild waiting w = Some w' \<Longrightarrow> pam_step esrch pam w w'"

inductive_simps pam_step_iff: "pam_step esrch pam w w'"

section \<open>Starting and stopping\<close>


definition pamthread_new :: pamthread where
  "pamthread_new = \<lparr>pt_service = [], pt_user = [], pt_pw = [], pt_lock = None, pt_request = 0, pt_response = 0, pt_refcnt = 0,
     pt_stoprq = False, pt_ok = False, pt_childExited = False, pt_check = C_none, pt_control = T_test, pt_to = [], pt_from = [],
     pt_helper = H_read, pt_pass = [], pt_passread = False\<rparr>"

text \<open>
  How \<open>pamthreadproc\<close> begins: with the handler of the signal, the pipes and the helper, each of which can fail. Without
  one of them the thread is over at once. In the helper, \<open>execl\<close> can fail, and then its own beginning: it wants
  one argument and a closed standard error, which it opens on \<open>/dev/null\<close>.
\<close>

definition helper_begin :: "nat \<Rightarrow> string \<Rightarrow> bool \<Rightarrow> int \<Rightarrow> bool \<Rightarrow> bool" where
  "helper_begin argc argv0 closed fd dup2 \<longleftrightarrow>
     (if argc \<noteq> 1 \<or> argv0 \<noteq> ''swad: pam helper'' \<or> \<not> closed then False
      else if fd \<noteq> 2 then \<not> (fd < 0 \<or> \<not> dup2) else True)"

record pam_start_results =
  pr_sigaction :: bool
  pr_sigmask :: bool
  pr_pipes :: bool
  pr_fork :: bool
  pr_execl :: bool
  pr_null :: int
  pr_dup2 :: bool

definition pamthreadproc_start :: "pam_start_results \<Rightarrow> pamthread \<Rightarrow> pamthread" where
  "pamthreadproc_start r w =
     (if \<not> pr_sigaction r then w\<lparr>pt_control := T_over, pt_helper := H_none\<rparr>
      else if \<not> pr_sigmask r then w\<lparr>pt_control := T_over, pt_helper := H_none\<rparr>
      else if \<not> pr_pipes r then w\<lparr>pt_control := T_over, pt_helper := H_none\<rparr>
      else if \<not> pr_fork r then w\<lparr>pt_control := T_over, pt_helper := H_none\<rparr>
      else if \<not> pr_execl r \<or> \<not> helper_begin 1 ''swad: pam helper'' True (pr_null r) (pr_dup2 r)
      then w\<lparr>pt_control := T_test, pt_helper := H_exit False\<rparr>
      else w\<lparr>pt_control := T_test, pt_helper := H_read\<rparr>)"

definition PamThread_create :: "pamthread option \<Rightarrow> pamthread" where
  "PamThread_create pamThread =
     (let w = (case pamThread of None \<Rightarrow> pamthread_new | Some w \<Rightarrow> w) in w\<lparr>pt_refcnt := pt_refcnt w + 1\<rparr>)"

text \<open>
  \<open>PamThread_destroy\<close>: the last checker asks the thread to stop, with the lock, and then waits until it is
  over. \<^term>\<open>None\<close> is waiting for the lock.
\<close>

definition PamThread_destroy :: "pamthread \<Rightarrow> pamthread option" where
  "PamThread_destroy w =
     (let w = w\<lparr>pt_refcnt := pt_refcnt w - 1\<rparr>
      in if pt_refcnt w > 0 then Some w
         else if pt_lock w \<noteq> None then None
         else Some (w\<lparr>pt_stoprq := True, pt_request := pt_request w + 1\<rparr>))"

section \<open>The name of a user\<close>

text \<open>
  The real name from the \<open>gecos\<close> field: up to the first comma, with the first ampersand replaced by the
  capitalised user. The text with a replacement is built byte by byte in a fresh buffer with room for its end, which
  is not written: its last byte stays uninitialised.
\<close>

definition pam_realname :: "string \<Rightarrow> string option \<Rightarrow> char option list option" where
  "pam_realname user gecos =
     (case gecos of
        None \<Rightarrow> None
      | Some gecos \<Rightarrow>
          if gecos = [] then None
          else
            (let gecos = takeWhile (\<lambda>c. c \<noteq> CHR '','') gecos
             in case strchr gecos CHR ''&'' of
                  None \<Rightarrow> Some (map Some (gecos @ [NUL]))
                | Some amp \<Rightarrow>
                    Some (map Some (take amp gecos @ toupper (first_char user) # tl user @ drop (amp + 1) gecos) @ [None])))"

end
