(* ===== verification/Pam_Facts.thy ===== *)
theory Pam_Facts
  imports Pam
begin

text \<open>
  The protocol of checking a password: in every order in which the three processes can act it comes to an
  end, with the answer of PAM, and ready for the next check. Where the helper ends during a check, it may not.
\<close>

section \<open>What happens in any case\<close>

text \<open>A state from which \<open>P\<close> is reached on every way the steps can take.\<close>

inductive inevitable :: "('s \<Rightarrow> 's \<Rightarrow> bool) \<Rightarrow> ('s \<Rightarrow> bool) \<Rightarrow> 's \<Rightarrow> bool" for step P where
  now: "P s \<Longrightarrow> inevitable step P s"
| later: "step s s1 \<Longrightarrow> (\<And>s'. step s s' \<Longrightarrow> inevitable step P s') \<Longrightarrow> inevitable step P s"

lemma inevitable_one: "(\<And>s'. step s s' \<longleftrightarrow> s' = t) \<Longrightarrow> inevitable step P t \<Longrightarrow> inevitable step P s"
  by (rule later [of step s t]) simp_all

lemma inevitable_two:
  "(\<And>s'. step s s' \<longleftrightarrow> s' = t \<or> s' = u) \<Longrightarrow> inevitable step P t \<Longrightarrow> inevitable step P u \<Longrightarrow> inevitable step P s"
  by (rule later [of step s t]) auto

lemma inevitable_mono: "inevitable step P s \<Longrightarrow> (\<And>s. P s \<Longrightarrow> Q s) \<Longrightarrow> inevitable step Q s"
  by (induction rule: inevitable.induct) (auto intro: inevitable.intros)

lemma inevitable_then:
  "inevitable step P s \<Longrightarrow> (\<And>s. P s \<Longrightarrow> inevitable step Q s) \<Longrightarrow> inevitable step Q s"
  by (induction rule: inevitable.induct) (auto intro: inevitable.later)

text \<open>No run goes on for ever without \<open>P\<close>.\<close>

lemma inevitable_finite: "inevitable step P s \<Longrightarrow> f 0 = s \<Longrightarrow> \<forall>i. step (f i) (f (Suc i)) \<Longrightarrow> \<exists>i. P (f i)"
proof (induction arbitrary: f rule: inevitable.induct)
  case (later s s1)
  have "step s (f (Suc 0))" using later.prems by metis
  then obtain i where "P (f (Suc i))" using later.IH [of "f (Suc 0)" "\<lambda>i. f (Suc i)"] later.prems(2) by auto
  then show ?case by blast
qed auto

section \<open>The answer of PAM\<close>

text \<open>The result of PAM in a conversation in which the password is all that is answered.\<close>

fun conv_cells :: "string \<Rightarrow> msg_style list \<Rightarrow> resp_cell list \<Rightarrow> nat \<Rightarrow> resp_cell list" where
  "conv_cells pw [] resp i = resp"
| "conv_cells pw (m # ms) resp i =
     conv_cells pw ms (if m = PAM_PROMPT_ECHO_OFF then conv_answer pw resp i else resp) (i + 1)"

primrec pam_accepts :: "string \<Rightarrow> pam_run \<Rightarrow> bool" where
  "pam_accepts pw (PamResult result) = result"
| "pam_accepts pw (PamConv msgs k) = pam_accepts pw (k (conv_cells pw msgs (resp_alloc msgs) 0))"

definition pam_answer :: "(string \<Rightarrow> string \<Rightarrow> pam_run option) \<Rightarrow> string \<Rightarrow> string \<Rightarrow> string \<Rightarrow> bool" where
  "pam_answer pam service user pw =
     (case pam service (line_of user) of None \<Rightarrow> False | Some run \<Rightarrow> pam_accepts (line_of pw) run)"

section \<open>The protocol\<close>

text \<open>Between two checks: nobody holds the lock, nothing is pending, the thread waits or is about to.\<close>

definition pam_ready :: "pamthread \<Rightarrow> bool" where
  "pam_ready w \<longleftrightarrow> pt_lock w = None \<and> pt_request w = 0 \<and> pt_response w = 0 \<and> \<not> pt_stoprq w \<and> \<not> pt_childExited w
     \<and> pt_control w \<in> {T_test, T_wait} \<and> pt_to w = [] \<and> pt_from w = [] \<and> pt_helper w = H_read"

definition pam_answered :: "bool \<Rightarrow> pamthread \<Rightarrow> bool" where
  "pam_answered r w \<longleftrightarrow> pt_check w = C_done r \<and> pam_ready w"

lemmas pam_steps = pam_step_iff check_step_def control_step_def helper_step_def handlechild_def helper_gone_def
  control_gone_def pipe_read_def control_read_def

lemma pam_ready_eq: "pam_ready w \<Longrightarrow> pt_control w = T_test \<or> pt_control w = T_wait"
  by (simp add: pam_ready_def)

abbreviation ends :: "bool \<Rightarrow> (string \<Rightarrow> string \<Rightarrow> pam_run option) \<Rightarrow> bool \<Rightarrow> pamthread \<Rightarrow> bool" where
  "ends esrch pam r \<equiv> inevitable (pam_step esrch pam) (pam_answered r)"

lemma ends_next: "\<forall>s'. pam_step esrch pam s s' \<longleftrightarrow> s' = t \<Longrightarrow> ends esrch pam r t \<Longrightarrow> ends esrch pam r s"
  by (rule inevitable_one) simp_all

subsection \<open>The end of a check\<close>

text \<open>The answer is there, and the two threads part. The order of what they do does not matter.\<close>

lemma ends_done:
  "pam_ready (w\<lparr>pt_lock := None\<rparr>) \<Longrightarrow> pt_ok w = r \<Longrightarrow> ends esrch pam r (w\<lparr>pt_lock := None, pt_check := C_done (pt_ok w)\<rparr>)"
  by (rule now) (simp add: pam_answered_def pam_ready_def)

text \<open>The thread being about to wait or waiting makes no difference to a check that can go on.\<close>

lemma ends_test:
  assumes "pt_control w = T_test" "\<not> pt_childExited w" "pt_helper w = H_read" "pt_to w = []" "check_step esrch w = Some v"
    "ends esrch pam r v" "ends esrch pam r (w\<lparr>pt_control := T_wait\<rparr>)"
  shows "ends esrch pam r w"
  by (rule inevitable_two [OF _ assms(6,7)]) (use assms(1-5) in \<open>auto simp: pam_step_iff control_step_def helper_step_def
    handlechild_def helper_gone_def control_gone_def pipe_read_def\<close>)

lemma ends_wait:
  assumes "pt_control w = T_wait" "pt_request w = 0" "pt_helper w = H_read" "pt_to w = []" "check_step esrch w = Some v"
    "ends esrch pam r v"
  shows "ends esrch pam r w"
  by (rule inevitable_one [OF _ assms(6)]) (use assms(1-5) in \<open>auto simp: pam_step_iff control_step_def helper_step_def
    handlechild_def helper_gone_def control_gone_def pipe_read_def\<close>)

lemma ends_read:
  assumes "pt_check w = C_read" "pam_ready (w\<lparr>pt_lock := None\<rparr>)" "pt_ok w = r"
  shows "ends esrch pam r w"
proof -
  have wait: "ends esrch pam r w'" if "pt_check w' = C_read" "pam_ready (w'\<lparr>pt_lock := None\<rparr>)" "pt_ok w' = r" "pt_control w' = T_wait" for w'
    by (rule ends_wait [OF _ _ _ _ _ ends_done [OF that(2,3)]]) (use that in \<open>simp_all add: pam_ready_def check_step_def\<close>)
  show ?thesis
    by (cases "pt_control w = T_wait", rule wait, use assms in simp_all)
      (rule ends_test [OF _ _ _ _ _ ends_done [OF assms(2,3)] wait],
        use assms in \<open>auto simp: pam_ready_def check_step_def\<close>)
qed

lemma ends_relock:
  assumes "pt_check w = C_relock" "pam_ready w" "pt_ok w = r"
  shows "ends esrch pam r w"
proof -
  have next_read: "ends esrch pam r (w'\<lparr>pt_lock := Some Checker, pt_check := C_read\<rparr>)" if "pam_ready w'" "pt_ok w' = r" for w'
    by (rule ends_read) (use that in \<open>simp_all add: pam_ready_def\<close>)
  have wait: "ends esrch pam r w'" if "pt_check w' = C_relock" "pam_ready w'" "pt_ok w' = r" "pt_control w' = T_wait" for w'
    by (rule ends_wait [OF _ _ _ _ _ next_read [OF that(2,3)]]) (use that in \<open>simp_all add: pam_ready_def check_step_def\<close>)
  show ?thesis
    by (cases "pt_control w = T_wait", rule wait, use assms in simp_all)
      (rule ends_test [OF _ _ _ _ _ next_read [OF assms(2,3)] wait], use assms in \<open>auto simp: pam_ready_def check_step_def\<close>)
qed

lemma ends_response:
  assumes "pt_check w = C_wait" "pt_response w = 1" "pam_ready (w\<lparr>pt_response := 0\<rparr>)" "pt_ok w = r"
  shows "ends esrch pam r w"
proof -
  have next_relock: "ends esrch pam r (w'\<lparr>pt_response := pt_response w' - 1, pt_check := C_relock\<rparr>)"
    if "pam_ready (w'\<lparr>pt_response := 0\<rparr>)" "pt_ok w' = r" "pt_response w' = 1" for w'
    by (rule ends_relock) (use that in \<open>simp_all add: pam_ready_def\<close>)
  have wait: "ends esrch pam r w'" if "pt_check w' = C_wait" "pt_response w' = 1" "pam_ready (w'\<lparr>pt_response := 0\<rparr>)" "pt_ok w' = r" "pt_control w' = T_wait" for w'
    by (rule ends_wait [OF _ _ _ _ _ next_relock [OF that(3,4,2)]]) (use that in \<open>simp_all add: pam_ready_def check_step_def\<close>)
  show ?thesis
    by (cases "pt_control w = T_wait", rule wait, use assms in simp_all)
      (rule ends_test [OF _ _ _ _ _ next_relock [OF assms(3,4,2)] wait], use assms in \<open>auto simp: pam_ready_def check_step_def\<close>)
qed

text \<open>The thread has the text of the answer.\<close>

definition in_check :: "control_pc \<Rightarrow> pamthread \<Rightarrow> bool" where
  "in_check pc w \<longleftrightarrow> pt_check w = C_wait \<and> pt_lock w = Some Controller \<and> pt_request w = 0 \<and> pt_response w = 0 \<and> \<not> pt_stoprq w
     \<and> \<not> pt_childExited w \<and> pt_control w = pc"

lemma ends_unlock:
  assumes "pt_check w = C_wait" "pt_response w = 1" "pt_control w = T_unlock" "pam_ready (w\<lparr>pt_response := 0, pt_lock := None, pt_control := T_test\<rparr>)" "pt_ok w = r"
    "pt_lock w = Some Controller"
  shows "ends esrch pam r w"
proof (rule inevitable_two)
  show "pam_step esrch pam w s' \<longleftrightarrow> s' = w\<lparr>pt_lock := None, pt_control := T_test\<rparr> \<or> s' = w\<lparr>pt_response := 0, pt_check := C_relock\<rparr>" for s'
    using assms by (auto simp: pam_steps pam_ready_def)
  show "ends esrch pam r (w\<lparr>pt_lock := None, pt_control := T_test\<rparr>)"
    by (rule ends_response) (use assms in \<open>simp_all add: pam_ready_def\<close>)
  show "ends esrch pam r (w\<lparr>pt_response := 0, pt_check := C_relock\<rparr>)"
  proof (rule inevitable_one)
    show "pam_step esrch pam (w\<lparr>pt_response := 0, pt_check := C_relock\<rparr>) s'
        \<longleftrightarrow> s' = w\<lparr>pt_response := 0, pt_check := C_relock, pt_lock := None, pt_control := T_test\<rparr>" for s'
      using assms by (auto simp: pam_steps pam_ready_def)
    show "ends esrch pam r (w\<lparr>pt_response := 0, pt_check := C_relock, pt_lock := None, pt_control := T_test\<rparr>)"
      by (rule ends_relock) (use assms in \<open>simp_all add: pam_ready_def\<close>)
  qed
qed

lemma ends_answer:
  assumes "in_check (T_answer rdbuf) w" "\<not> pt_ok w" "pt_to w = []" "pt_from w = []" "pt_helper w = H_read" "r \<longleftrightarrow> rdbuf = ''1'' @ [LF]"
  shows "ends esrch pam r w"
proof (rule inevitable_one)
  show "pam_step esrch pam w s' \<longleftrightarrow> s' = w\<lparr>pt_ok := r, pt_response := 1, pt_control := T_unlock\<rparr>" for s'
    using assms by (auto simp: pam_steps in_check_def)
  show "ends esrch pam r (w\<lparr>pt_ok := r, pt_response := 1, pt_control := T_unlock\<rparr>)"
    by (rule ends_unlock) (use assms in \<open>simp_all add: pam_ready_def in_check_def\<close>)
qed

text \<open>The answer is in the pipe.\<close>

lemma ends_written:
  assumes "in_check pc w" "pc \<in> {T_read, T_read2}" "\<not> pt_ok w" "pt_to w = []" "pt_from w = (if r then ''1'' else ''0'') @ [LF]" "pt_helper w = H_read"
  shows "ends esrch pam r w"
proof (rule inevitable_one)
  show "pam_step esrch pam w s' \<longleftrightarrow> s' = w\<lparr>pt_from := [], pt_control := T_answer ((if r then ''1'' else ''0'') @ [LF])\<rparr>" for s'
    using assms by (auto simp: pam_steps in_check_def RDBUF_def cstr_def)
  show "ends esrch pam r (w\<lparr>pt_from := [], pt_control := T_answer ((if r then ''1'' else ''0'') @ [LF])\<rparr>)"
  proof (rule ends_answer)
    show "r \<longleftrightarrow> (if r then ''1'' else ''0'') @ [LF] = ''1'' @ [LF]" by (cases r) simp_all
  qed (use assms in \<open>simp_all add: in_check_def\<close>)
qed


subsection \<open>PAM at work\<close>

text \<open>The thread reads while the helper works; \<open>passed\<close> is after the password was asked for.\<close>

definition at_work :: "helper_pc \<Rightarrow> pamthread \<Rightarrow> bool" where
  "at_work h w \<longleftrightarrow> in_check T_read w \<and> \<not> pt_ok w \<and> pt_to w = [] \<and> pt_from w = [] \<and> pt_helper w = h \<and> \<not> pt_passread w \<and> pt_pass w = []"

definition passed :: "string \<Rightarrow> helper_pc \<Rightarrow> pamthread \<Rightarrow> bool" where
  "passed p h w \<longleftrightarrow> in_check T_read2 w \<and> \<not> pt_ok w \<and> pt_to w = [] \<and> pt_from w = [] \<and> pt_helper w = h \<and> pt_passread w \<and> pt_pass w = p"

lemma passed_step:
  assumes "passed p h w" "helper_step pam w = Some (w\<lparr>pt_helper := h'\<rparr>)" "\<not> helper_gone w" "ends esrch pam r (w\<lparr>pt_helper := h'\<rparr>)"
  shows "ends esrch pam r w"
  by (rule inevitable_one [OF _ assms(4)])
    (use assms(1-3) in \<open>auto simp: pam_step_iff passed_def in_check_def check_step_def control_step_def control_read_def handlechild_def pipe_read_def\<close>)

lemma work_step:
  assumes "at_work h w" "helper_step pam w = Some (w\<lparr>pt_helper := h'\<rparr>)" "\<not> helper_gone w" "ends esrch pam r (w\<lparr>pt_helper := h'\<rparr>)"
  shows "ends esrch pam r w"
  by (rule inevitable_one [OF _ assms(4)])
    (use assms(1-3) in \<open>auto simp: pam_step_iff at_work_def in_check_def check_step_def control_step_def control_read_def handlechild_def pipe_read_def\<close>)

text \<open>The result is written.\<close>

lemma result_step:
  assumes "in_check pc w" "pc \<in> {T_read, T_read2}" "\<not> pt_ok w" "pt_to w = []" "pt_from w = []" "pt_helper w = H_pam (PamResult r)"
  shows "ends esrch pam r w"
proof (rule inevitable_one)
  show "pam_step esrch pam w s' \<longleftrightarrow> s' = w\<lparr>pt_from := (if r then ''1'' else ''0'') @ [LF], pt_helper := H_read\<rparr>" for s'
    using assms by (auto simp: pam_steps in_check_def helper_write_def)
  show "ends esrch pam r (w\<lparr>pt_from := (if r then ''1'' else ''0'') @ [LF], pt_helper := H_read\<rparr>)"
    by (rule ends_written [of pc]) (use assms in \<open>simp_all add: in_check_def\<close>)
qed

lemma passed_conv:
  assumes "\<And>resp w. passed p (H_pam (k resp)) w \<Longrightarrow> ends esrch pam (pam_accepts p (k resp)) w"
  shows "passed p (H_conv ms resp i k) w \<Longrightarrow> ends esrch pam (pam_accepts p (k (conv_cells p ms resp i))) w"
proof (induction ms arbitrary: resp i w)
  case Nil
  have "ends esrch pam (pam_accepts p (k resp)) (w\<lparr>pt_helper := H_pam (k resp)\<rparr>)"
    by (rule assms) (use Nil in \<open>simp add: passed_def in_check_def\<close>)
  then show ?case
    by (intro passed_step [OF Nil]) (use Nil in \<open>auto simp: passed_def helper_step_def helper_gone_def\<close>)
next
  case (Cons m ms)
  let ?resp = "if m = PAM_PROMPT_ECHO_OFF then conv_answer p resp i else resp"
  have "ends esrch pam (pam_accepts p (k (conv_cells p ms ?resp (i + 1)))) (w\<lparr>pt_helper := H_conv ms ?resp (i + 1) k\<rparr>)"
    by (rule Cons.IH) (use Cons.prems in \<open>simp add: passed_def in_check_def\<close>)
  then show ?case unfolding conv_cells.simps
    by (intro passed_step [OF Cons.prems]) (use Cons.prems in \<open>auto simp: passed_def helper_step_def helper_gone_def\<close>)
qed

lemma passed_run: "passed p (H_pam run) w \<Longrightarrow> ends esrch pam (pam_accepts p run) w"
proof (induction run arbitrary: w)
  case (PamResult r)
  then show ?case using result_step [of T_read2 w r] by (simp add: passed_def)
next
  case (PamConv msgs k)
  have "ends esrch pam (pam_accepts p (k (conv_cells p msgs (resp_alloc msgs) 0))) (w\<lparr>pt_helper := H_conv msgs (resp_alloc msgs) 0 k\<rparr>)"
    by (rule passed_conv [OF PamConv.IH [OF rangeI]]) (use PamConv.prems in \<open>simp_all add: passed_def in_check_def\<close>)
  then show ?case
    unfolding pam_accepts.simps
    by (intro passed_step [OF PamConv.prems]) (use PamConv.prems in \<open>auto simp: passed_def helper_step_def helper_gone_def\<close>)
qed

text \<open>The password is asked for and sent.\<close>

definition pipe_fits :: "string \<Rightarrow> bool" where
  "pipe_fits s \<longleftrightarrow> length s < WRBUF \<and> NUL \<notin> set s"

lemma control_write_fits:
  "pipe_fits s \<Longrightarrow> \<not> helper_gone w \<Longrightarrow> control_write s pc w = w\<lparr>pt_to := pt_to w @ s, pt_control := pc\<rparr>"
  by (simp add: control_write_def pipe_fits_def WRBUF_def)

lemma cstr_fits: "pipe_fits s \<Longrightarrow> cstr s = s"
  by (simp add: pipe_fits_def cstr_def takeWhile_eq_all_conv) (metis)

lemma line_of_line: "line_of (s @ [LF]) = line_of s"
  by (induction s) (simp_all add: line_of_def)

lemma ask_password:
  assumes "at_work (H_conv (PAM_PROMPT_ECHO_OFF # ms) resp i k) w" "pipe_fits (pt_pw w @ [LF])" "p = line_of (pt_pw w)"
    "\<And>w'. passed p (H_conv ms (conv_answer p resp i) (i + 1) k) w' \<Longrightarrow> ends esrch pam r w'"
  shows "ends esrch pam r w"
proof -
  let ?h = "H_pass ms resp i k"
  let ?w1 = "w\<lparr>pt_from := ''P'' @ [LF], pt_helper := ?h\<rparr>"
  let ?w2 = "w\<lparr>pt_control := T_password, pt_helper := ?h\<rparr>"
  let ?w3 = "w\<lparr>pt_to := pt_pw w @ [LF], pt_control := T_read2, pt_helper := ?h\<rparr>"
  let ?w4 = "w\<lparr>pt_pass := p, pt_passread := True, pt_control := T_read2, pt_helper := H_conv ms (conv_answer p resp i) (i + 1) k\<rparr>"
  note w = assms(1) [unfolded at_work_def in_check_def]
  have len: "length (pt_pw w @ [LF]) \<le> PASSBUF - 1" using assms(2) by (simp add: pipe_fits_def WRBUF_def PASSBUF_def)
  have pw: "take (PASSBUF - 1) (pt_pw w @ [LF]) = pt_pw w @ [LF]" "cstr (pt_pw w @ [LF]) = pt_pw w @ [LF]" "drop (PASSBUF - 1) (pt_pw w @ [LF]) = []"
    by (simp_all only: take_all [OF len] drop_all [OF len] cstr_fits [OF assms(2)])
  have s1: "\<forall>s'. pam_step esrch pam w s' \<longleftrightarrow> s' = ?w1"
    using w by (auto simp: pam_steps helper_write_def)
  have s2: "\<forall>s'. pam_step esrch pam ?w1 s' \<longleftrightarrow> s' = ?w2"
    using w by (auto simp: pam_steps RDBUF_def cstr_def)
  have s3: "\<forall>s'. pam_step esrch pam ?w2 s' \<longleftrightarrow> s' = ?w3"
    using w assms(2) by (auto simp: pam_steps control_write_fits)
  have s4: "\<forall>s'. pam_step esrch pam ?w3 s' \<longleftrightarrow> s' = ?w4"
    using w pw assms(3) by (auto simp: pam_steps line_of_line Let_def)
  have "ends esrch pam r ?w4"
    by (rule assms(4)) (use w in \<open>simp add: passed_def in_check_def\<close>)
  then show ?thesis by (rule ends_next [OF s1 ends_next [OF s2 ends_next [OF s3 ends_next [OF s4]]]])
qed

lemma work_conv:
  assumes "\<And>resp w. at_work (H_pam (k resp)) w \<Longrightarrow> pipe_fits (pt_pw w @ [LF]) \<Longrightarrow> line_of (pt_pw w) = p \<Longrightarrow> ends esrch pam (pam_accepts p (k resp)) w"
  shows "at_work (H_conv ms resp i k) w \<Longrightarrow> pipe_fits (pt_pw w @ [LF]) \<Longrightarrow> line_of (pt_pw w) = p
    \<Longrightarrow> ends esrch pam (pam_accepts p (k (conv_cells p ms resp i))) w"
proof (induction ms arbitrary: resp i w)
  case Nil
  have "ends esrch pam (pam_accepts p (k resp)) (w\<lparr>pt_helper := H_pam (k resp)\<rparr>)"
    by (rule assms) (use Nil in \<open>simp_all add: at_work_def in_check_def\<close>)
  then show ?case
    by (intro work_step [OF Nil(1)]) (use Nil in \<open>auto simp: at_work_def helper_step_def helper_gone_def\<close>)
next
  case (Cons m ms)
  show ?case
  proof (cases "m = PAM_PROMPT_ECHO_OFF")
    case True
    have "ends esrch pam (pam_accepts p (k (conv_cells p ms (conv_answer p resp i) (i + 1)))) w"
      by (rule ask_password [OF Cons.prems(1) [unfolded True] Cons.prems(2) Cons.prems(3) [symmetric]])
        (rule passed_conv [OF passed_run])
    then show ?thesis by (simp add: True)
  next
    case False
    have "ends esrch pam (pam_accepts p (k (conv_cells p ms resp (i + 1)))) (w\<lparr>pt_helper := H_conv ms resp (i + 1) k\<rparr>)"
      by (rule Cons.IH) (use Cons.prems in \<open>simp_all add: at_work_def in_check_def\<close>)
    then show ?thesis unfolding conv_cells.simps if_not_P [OF False]
      by (intro work_step [OF Cons.prems(1)]) (use Cons.prems False in \<open>auto simp: at_work_def helper_step_def helper_gone_def\<close>)
  qed
qed

lemma work_run:
  "at_work (H_pam run) w \<Longrightarrow> pipe_fits (pt_pw w @ [LF]) \<Longrightarrow> line_of (pt_pw w) = p \<Longrightarrow> ends esrch pam (pam_accepts p run) w"
proof (induction run arbitrary: w)
  case (PamResult r)
  then show ?case using result_step [of T_read w r] by (simp add: at_work_def)
next
  case (PamConv msgs k)
  have "ends esrch pam (pam_accepts p (k (conv_cells p msgs (resp_alloc msgs) 0))) (w\<lparr>pt_helper := H_conv msgs (resp_alloc msgs) 0 k\<rparr>)"
    by (rule work_conv [OF PamConv.IH [OF rangeI]]) (use PamConv.prems in \<open>simp_all add: at_work_def in_check_def\<close>)
  then show ?case
    unfolding pam_accepts.simps
    by (intro work_step [OF PamConv.prems(1)]) (use PamConv.prems in \<open>auto simp: at_work_def helper_step_def helper_gone_def\<close>)
qed


subsection \<open>A whole check\<close>

lemma pam_line:
  assumes "CHR '':'' \<notin> set service"
  shows "helper_line pam (service @ '':'' @ user @ [LF]) w =
    (case pam service (line_of user) of
       None \<Rightarrow> w\<lparr>pt_passread := False, pt_pass := [], pt_helper := H_exit False\<rparr>
     | Some run \<Rightarrow> w\<lparr>pt_passread := False, pt_pass := [], pt_helper := H_pam run\<rparr>)"
proof -
  have i: "strchr (service @ '':'' @ user @ [LF]) CHR '':'' = Some (length service)"
    using strchr_append [OF assms, of "user @ [LF]"] by simp
  have split: "user @ [LF] = line_of user @ LF # drop (length (line_of user) + 1) (user @ [LF])"
  proof (induction user)
    case (Cons c user)
    then show ?case by (auto simp: line_of_def)
  qed (simp add: line_of_def)
  have "LF \<notin> set (line_of user)" by (auto simp: line_of_def dest: set_takeWhileD)
  then have nl: "strchr (user @ [LF]) LF = Some (length (line_of user))" "take (length (line_of user)) (user @ [LF]) = line_of user"
    using strchr_append [of LF "line_of user" "drop (length (line_of user) + 1) (user @ [LF])"] split by (metis, metis append_eq_conv_conj)
  have parts: "drop (length service + 1) (service @ '':'' @ user @ [LF]) = user @ [LF]"
    "take (length service) (service @ '':'' @ user @ [LF]) = service" by simp_all
  show ?thesis unfolding helper_line_def i option.case Let_def parts nl ..
qed

definition pam_fits :: "string \<Rightarrow> string \<Rightarrow> string \<Rightarrow> bool" where
  "pam_fits service user pw \<longleftrightarrow> pipe_fits (service @ '':'' @ user @ [LF]) \<and> pipe_fits (pw @ [LF]) \<and> CHR '':'' \<notin> set service"

lemma ends_write:
  assumes "in_check T_write w" "\<not> pt_ok w" "pt_to w = []" "pt_from w = []" "pt_helper w = H_read"
    "pam_fits (pt_service w) (pt_user w) (pt_pw w)" "pam (pt_service w) (line_of (pt_user w)) = Some run"
  shows "ends esrch pam (pam_accepts (line_of (pt_pw w)) run) w"
proof -
  let ?line = "pt_service w @ '':'' @ pt_user w @ [LF]"
  let ?w1 = "w\<lparr>pt_to := ?line, pt_control := T_read\<rparr>"
  let ?w2 = "w\<lparr>pt_control := T_read, pt_passread := False, pt_pass := [], pt_helper := H_pam run\<rparr>"
  note w = assms(1-5) [unfolded in_check_def]
  have f: "pipe_fits ?line" "pipe_fits (pt_pw w @ [LF])" using assms(6) by (simp_all add: pam_fits_def)
  have len: "length ?line \<le> HELPERBUF - 1" using f(1) by (simp add: pipe_fits_def WRBUF_def HELPERBUF_def)
  have line: "take (HELPERBUF - 1) ?line = ?line" "cstr ?line = ?line" "drop (HELPERBUF - 1) ?line = []"
    by (simp_all only: take_all [OF len] drop_all [OF len] cstr_fits [OF f(1)])
  have run: "helper_line pam ?line v = v\<lparr>pt_passread := False, pt_pass := [], pt_helper := H_pam run\<rparr>" for v
    using pam_line [of "pt_service w" pam "pt_user w" v] assms(6,7) by (simp add: pam_fits_def)
  have s1: "\<forall>s'. pam_step esrch pam w s' \<longleftrightarrow> s' = ?w1"
    using w f by (auto simp: pam_steps control_write_fits)
  have s2: "\<forall>s'. pam_step esrch pam ?w1 s' \<longleftrightarrow> s' = ?w2"
    using w line run by (auto simp: pam_steps)
  have "ends esrch pam (pam_accepts (line_of (pt_pw w)) run) ?w2"
    by (rule work_run) (use w f in \<open>simp_all add: at_work_def in_check_def\<close>)
  then show ?thesis by (rule ends_next [OF s1 ends_next [OF s2]])
qed


text \<open>The check has stored what it asks; the thread takes the request before or after the lock is released.\<close>

definition asked_for :: "(string \<Rightarrow> string \<Rightarrow> pam_run option) \<Rightarrow> bool \<Rightarrow> pamthread \<Rightarrow> bool" where
  "asked_for pam r w \<longleftrightarrow> pt_response w = 0 \<and> \<not> pt_stoprq w \<and> \<not> pt_childExited w \<and> pt_to w = [] \<and> pt_from w = [] \<and> pt_helper w = H_read
     \<and> pam_fits (pt_service w) (pt_user w) (pt_pw w)
     \<and> (\<exists>run. pam (pt_service w) (line_of (pt_user w)) = Some run \<and> r = pam_accepts (line_of (pt_pw w)) run)"

lemma asked_wait:
  assumes "asked_for pam r w" "pt_check w = C_wait" "pt_lock w = None"
    "pt_request w = 0 \<and> pt_control w = T_lock \<or> pt_request w = 1 \<and> pt_control w \<in> {T_test, T_wait}"
  shows "ends esrch pam r w"
proof -
  note w = assms(1-3) [unfolded asked_for_def]
  have lock: "ends esrch pam r w'" if "asked_for pam r w'" "pt_check w' = C_wait" "pt_lock w' = None" "pt_request w' = 0" "pt_control w' = T_lock" for w'
  proof (rule ends_next)
    note w' = that [unfolded asked_for_def]
    show "\<forall>s'. pam_step esrch pam w' s' \<longleftrightarrow> s' = w'\<lparr>pt_lock := Some Controller, pt_ok := False, pt_control := T_write\<rparr>"
      using w' by (auto simp: pam_steps)
    obtain run where run: "pam (pt_service w') (line_of (pt_user w')) = Some run" "r = pam_accepts (line_of (pt_pw w')) run" using w' by blast
    show "ends esrch pam r (w'\<lparr>pt_lock := Some Controller, pt_ok := False, pt_control := T_write\<rparr>)"
      using ends_write [of "w'\<lparr>pt_lock := Some Controller, pt_ok := False, pt_control := T_write\<rparr>" pam run esrch] w' run
      by (simp add: in_check_def)
  qed
  have wait: "ends esrch pam r w'" if "asked_for pam r w'" "pt_check w' = C_wait" "pt_lock w' = None" "pt_request w' = 1" "pt_control w' = T_wait" for w'
  proof (rule ends_next)
    note w' = that [unfolded asked_for_def]
    show "\<forall>s'. pam_step esrch pam w' s' \<longleftrightarrow> s' = w'\<lparr>pt_request := 0, pt_control := T_lock\<rparr>" using w' by (auto simp: pam_steps)
    show "ends esrch pam r (w'\<lparr>pt_request := 0, pt_control := T_lock\<rparr>)" by (rule lock) (use w' in \<open>simp_all add: asked_for_def\<close>)
  qed
  have test: "ends esrch pam r w" if "pt_request w = 1" "pt_control w = T_test"
  proof (rule ends_next)
    show "\<forall>s'. pam_step esrch pam w s' \<longleftrightarrow> s' = w\<lparr>pt_control := T_wait\<rparr>" using w that by (auto simp: pam_steps)
    show "ends esrch pam r (w\<lparr>pt_control := T_wait\<rparr>)" by (rule wait) (use w that in \<open>simp_all add: asked_for_def\<close>)
  qed
  show ?thesis using assms lock wait test by blast
qed

lemma asked_unlock:
  assumes "asked_for pam r w" "pt_check w = C_unlock" "pt_lock w = Some Checker" "pt_request w = 1" "pt_control w \<in> {T_test, T_wait}"
  shows "ends esrch pam r w"
proof -
  have unlock: "ends esrch pam r (w'\<lparr>pt_lock := None, pt_check := C_wait\<rparr>)" if "asked_for pam r w'"
    "pt_request w' = 0 \<and> pt_control w' = T_lock \<or> pt_request w' = 1 \<and> pt_control w' \<in> {T_test, T_wait}" for w'
    by (rule asked_wait) (use that in \<open>simp_all add: asked_for_def\<close>)
  have lock: "ends esrch pam r w'" if "asked_for pam r w'" "pt_check w' = C_unlock" "pt_lock w' = Some Checker" "pt_request w' = 0" "pt_control w' = T_lock" for w'
  proof (rule ends_next)
    show "\<forall>s'. pam_step esrch pam w' s' \<longleftrightarrow> s' = w'\<lparr>pt_lock := None, pt_check := C_wait\<rparr>"
      using that by (auto simp: pam_steps asked_for_def)
  qed (rule unlock, use that in simp_all)
  have wait: "ends esrch pam r w'" if "asked_for pam r w'" "pt_check w' = C_unlock" "pt_lock w' = Some Checker" "pt_request w' = 1" "pt_control w' = T_wait" for w'
  proof (rule inevitable_two)
    show "pam_step esrch pam w' s' \<longleftrightarrow> s' = w'\<lparr>pt_lock := None, pt_check := C_wait\<rparr> \<or> s' = w'\<lparr>pt_request := 0, pt_control := T_lock\<rparr>" for s'
      using that by (auto simp: pam_steps asked_for_def)
    show "ends esrch pam r (w'\<lparr>pt_request := 0, pt_control := T_lock\<rparr>)" by (rule lock) (use that in \<open>simp_all add: asked_for_def\<close>)
  qed (rule unlock, use that in simp_all)
  show ?thesis
  proof (cases "pt_control w = T_wait")
    case True
    then show ?thesis using wait assms by blast
  next
    case False
    then have t: "pt_control w = T_test" using assms(5) by simp
    show ?thesis
    proof (rule inevitable_two)
      show "pam_step esrch pam w s' \<longleftrightarrow> s' = w\<lparr>pt_lock := None, pt_check := C_wait\<rparr> \<or> s' = w\<lparr>pt_control := T_wait\<rparr>" for s'
        using assms t by (auto simp: pam_steps asked_for_def)
      show "ends esrch pam r (w\<lparr>pt_control := T_wait\<rparr>)" by (rule wait) (use assms in \<open>simp_all add: asked_for_def\<close>)
    qed (rule unlock, use assms in simp_all)
  qed
qed

text \<open>A step of the check while the thread is about to wait or waits for a request, whichever of them comes first.\<close>

lemma ends_first:
  assumes "pam_ready (w\<lparr>pt_lock := None\<rparr>)" "\<And>c. \<exists>v. check_step esrch (w\<lparr>pt_control := c\<rparr>) = Some v"
    "\<And>c v. c \<in> {T_test, T_wait} \<Longrightarrow> check_step esrch (w\<lparr>pt_control := c\<rparr>) = Some v \<Longrightarrow> ends esrch pam r v"
  shows "ends esrch pam r w"
proof -
  note w = assms(1) [unfolded pam_ready_def]
  obtain v where v: "check_step esrch (w\<lparr>pt_control := T_wait\<rparr>) = Some v" using assms(2) by blast
  have wait: "ends esrch pam r (w\<lparr>pt_control := T_wait\<rparr>)"
    by (rule ends_wait [OF _ _ _ _ v assms(3) [OF _ v]]) (use w in simp_all)
  show ?thesis
  proof (cases "pt_control w = T_wait")
    case True
    then have "w = w\<lparr>pt_control := T_wait\<rparr>" by simp
    then show ?thesis using wait by metis
  next
    case False
    then have t: "pt_control w = T_test" using w by simp
    then have "w = w\<lparr>pt_control := T_test\<rparr>" by simp
    then obtain u where u: "check_step esrch w = Some u" "ends esrch pam r u" using assms(2,3) by (metis insert_iff)
    show ?thesis by (rule ends_test [OF t _ _ _ u(1,2) wait]) (use w in simp_all)
  qed
qed

lemma asked_post:
  assumes "asked_for pam r w" "pt_check w = C_post" "pam_ready (w\<lparr>pt_lock := None\<rparr>)" "pt_lock w = Some Checker"
  shows "ends esrch pam r w"
proof (rule ends_first [OF assms(3)])
  fix c v assume c: "c \<in> {T_test, T_wait}" "check_step esrch (w\<lparr>pt_control := c\<rparr>) = Some v"
  show "ends esrch pam r v" by (rule asked_unlock) (use c assms in \<open>auto simp: check_step_def asked_for_def pam_ready_def\<close>)
qed (use assms in \<open>simp add: check_step_def\<close>)

lemma check_lock:
  assumes "pam_ready w" "pt_check w = C_lock service user pw" "pam_fits service user pw" "pam service (line_of user) = Some run"
  shows "ends esrch pam (pam_accepts (line_of pw) run) w"
proof (rule ends_first)
  show "pam_ready (w\<lparr>pt_lock := None\<rparr>)" using assms(1) by (simp add: pam_ready_def)
  fix c v assume c: "c \<in> {T_test, T_wait}" "check_step esrch (w\<lparr>pt_control := c\<rparr>) = Some v"
  show "ends esrch pam (pam_accepts (line_of pw) run) v"
    by (rule asked_post) (use c assms in \<open>auto simp: check_step_def asked_for_def pam_ready_def\<close>)
qed (use assms in \<open>simp add: check_step_def pam_ready_def\<close>)

lemma check_start:
  assumes "pam_ready w" "pt_check w = C_start service user pw" "pam_fits service user pw" "pam service (line_of user) = Some run"
  shows "ends esrch pam (pam_accepts (line_of pw) run) w"
proof (rule ends_first)
  show "pam_ready (w\<lparr>pt_lock := None\<rparr>)" using assms(1) by (simp add: pam_ready_def)
  fix c v assume c: "c \<in> {T_test, T_wait}" "check_step esrch (w\<lparr>pt_control := c\<rparr>) = Some v"
  show "ends esrch pam (pam_accepts (line_of pw) run) v"
    by (rule check_lock) (use c assms in \<open>auto simp: check_step_def pam_ready_def\<close>)
qed (use assms in \<open>simp add: check_step_def pam_ready_def\<close>)


section \<open>Stopping\<close>

definition over :: "pamthread \<Rightarrow> bool" where
  "over w \<longleftrightarrow> pt_control w = T_over \<and> pt_helper w = H_exit True \<and> pt_lock w = None"

text \<open>No check is going on.\<close>

definition no_check :: "pamthread \<Rightarrow> bool" where
  "no_check w \<longleftrightarrow> pt_check w = C_none \<or> (\<exists>r. pt_check w = C_done r)"

lemma no_check_step: "no_check w \<Longrightarrow> check_step esrch w = None"
  by (auto simp: no_check_def check_step_def)

lemma stop_closed:
  assumes "no_check w" "pt_control w = T_closed" "pt_to w = []" "pt_lock w = None" "pt_helper w \<in> {H_read, H_exit True}"
  shows "inevitable (pam_step esrch pam) over w"
proof -
  have exit: "inevitable (pam_step esrch pam) over w'" if "no_check w'" "pt_control w' = T_closed" "pt_lock w' = None" "pt_helper w' = H_exit True" "pt_childExited w'" for w'
  proof (rule inevitable_one)
    show "pam_step esrch pam w' s' \<longleftrightarrow> s' = w'\<lparr>pt_control := T_over\<rparr>" for s'
      using that no_check_step [of w' esrch] by (auto simp: pam_step_iff control_step_def helper_step_def handlechild_def helper_gone_def)
    show "inevitable (pam_step esrch pam) over (w'\<lparr>pt_control := T_over\<rparr>)" by (rule now) (use that in \<open>simp add: over_def\<close>)
  qed
  have signal: "inevitable (pam_step esrch pam) over w'" if "no_check w'" "pt_control w' = T_closed" "pt_lock w' = None" "pt_helper w' = H_exit True" for w'
  proof (cases "pt_childExited w'")
    case False
    show ?thesis
    proof (rule inevitable_two)
      show "pam_step esrch pam w' s' \<longleftrightarrow> s' = w'\<lparr>pt_control := T_over\<rparr> \<or> s' = w'\<lparr>pt_childExited := True\<rparr>" for s'
        using that False no_check_step [of w' esrch]
        by (auto simp: pam_step_iff control_step_def helper_step_def handlechild_def helper_gone_def Let_def split: if_splits)
      show "inevitable (pam_step esrch pam) over (w'\<lparr>pt_control := T_over\<rparr>)" by (rule now) (use that in \<open>simp add: over_def\<close>)
      show "inevitable (pam_step esrch pam) over (w'\<lparr>pt_childExited := True\<rparr>)" by (rule exit) (use that in \<open>simp_all add: no_check_def\<close>)
    qed
  qed (use exit that in blast)
  show ?thesis
  proof (cases "pt_helper w = H_read")
    case True
    show ?thesis
    proof (rule inevitable_one)
      show "pam_step esrch pam w s' \<longleftrightarrow> s' = w\<lparr>pt_helper := H_exit True\<rparr>" for s'
        using assms True no_check_step [of w esrch]
        by (auto simp: pam_step_iff control_step_def helper_step_def handlechild_def helper_gone_def control_gone_def pipe_read_def)
      show "inevitable (pam_step esrch pam) over (w\<lparr>pt_helper := H_exit True\<rparr>)" by (rule signal) (use assms in \<open>simp_all add: no_check_def\<close>)
    qed
  next
    case False
    then show ?thesis using signal assms by blast
  qed
qed

lemma stop_next:
  assumes "no_check w" "pt_helper w = H_read" "pt_to w = []" "pt_control w \<notin> {T_closed, T_over}" "control_step w = Some v"
    "inevitable (pam_step esrch pam) over v"
  shows "inevitable (pam_step esrch pam) over w"
  by (rule inevitable_one [OF _ assms(6)])
    (use assms(1-5) no_check_step [of w esrch] in \<open>auto simp: pam_step_iff helper_step_def handlechild_def helper_gone_def control_gone_def pipe_read_def\<close>)

lemma stop_lock:
  assumes "no_check w" "pt_helper w = H_read" "pt_to w = []" "pt_stoprq w" "pt_lock w = None"
    "pt_control w = T_lock \<or> pt_request w > 0 \<and> pt_control w = T_wait \<or> pt_request w > 0 \<and> pt_control w = T_test \<and> \<not> pt_childExited w"
  shows "inevitable (pam_step esrch pam) over w"
proof -
  have ends: "inevitable (pam_step esrch pam) over (w'\<lparr>pt_lock := Some Controller, pt_ok := False, pt_control := T_end\<rparr>)"
    if "no_check w'" "pt_helper w' = H_read" "pt_to w' = []" for w'
    by (rule stop_next [where v = "w'\<lparr>pt_lock := None, pt_ok := False, pt_control := T_closed\<rparr>"])
      (use that in \<open>auto simp: control_step_def no_check_def intro!: stop_closed\<close>)
  have lock: "inevitable (pam_step esrch pam) over w'"
    if "no_check w'" "pt_helper w' = H_read" "pt_to w' = []" "pt_stoprq w'" "pt_lock w' = None" "pt_control w' = T_lock" for w'
    by (rule stop_next [OF that(1-3) _ _ ends [OF that(1-3)]]) (use that in \<open>simp_all add: control_step_def\<close>)
  have wait: "inevitable (pam_step esrch pam) over w'"
    if "no_check w'" "pt_helper w' = H_read" "pt_to w' = []" "pt_stoprq w'" "pt_lock w' = None" "pt_control w' = T_wait" "pt_request w' > 0" for w'
    by (rule stop_next [where v = "w'\<lparr>pt_request := pt_request w' - 1, pt_control := T_lock\<rparr>"])
      (use that in \<open>auto simp: control_step_def no_check_def intro!: lock\<close>)
  have test: "inevitable (pam_step esrch pam) over w" if "pt_control w = T_test" "pt_request w > 0" "\<not> pt_childExited w"
    by (rule stop_next [where v = "w\<lparr>pt_control := T_wait\<rparr>"])
      (use that assms in \<open>auto simp: control_step_def no_check_def intro!: wait\<close>)
  show ?thesis using assms lock wait test by blast
qed

section \<open>Starting\<close>

text \<open>
  With everything in place, a new thread is ready. Where something failed before the helper was started, a check returns
  at once where the C library reports the thread that is over, and waits for ever where it does not.
\<close>

lemma start_ready:
  "pr_sigaction r \<Longrightarrow> pr_sigmask r \<Longrightarrow> pr_pipes r \<Longrightarrow> pr_fork r \<Longrightarrow> pr_execl r \<Longrightarrow> 0 \<le> pr_null r \<Longrightarrow> pr_dup2 r \<Longrightarrow> pam_ready (pamthreadproc_start r (PamThread_create None))"
  by (simp add: pamthreadproc_start_def helper_begin_def PamThread_create_def pamthread_new_def pam_ready_def)

definition stuck :: "bool \<Rightarrow> (string \<Rightarrow> string \<Rightarrow> pam_run option) \<Rightarrow> check_pc \<Rightarrow> pamthread \<Rightarrow> bool" where
  "stuck esrch pam c w \<longleftrightarrow> pt_check w = c \<and> (\<forall>w'. \<not> pam_step esrch pam w w')"

lemma over_step:
  assumes "pt_control w = T_over" "pt_helper w = H_none"
  shows "pam_step esrch pam w w' \<longleftrightarrow> check_step esrch w = Some w'"
  using assms by (auto simp: pam_step_iff control_step_def helper_step_def handlechild_def helper_gone_def)

lemma start_failed:
  assumes "\<not> pr_sigaction r \<or> \<not> pr_sigmask r \<or> \<not> pr_pipes r \<or> \<not> pr_fork r"
  shows "inevitable (pam_step esrch pam) (stuck esrch pam (if esrch then C_done False else C_wait))
    ((pamthreadproc_start r (PamThread_create None))\<lparr>pt_check := C_start service user pw\<rparr>)"
proof -
  let ?w = "(pamthreadproc_start r (PamThread_create None))\<lparr>pt_check := C_start service user pw\<rparr>"
  let ?I = "inevitable (pam_step esrch pam) (stuck esrch pam (if esrch then C_done False else C_wait))"
  have w: "pt_control ?w = T_over" "pt_helper ?w = H_none" "pt_lock ?w = None" "pt_request ?w = 0" "pt_response ?w = 0"
    using assms by (auto simp: pamthreadproc_start_def PamThread_create_def pamthread_new_def)
  have next_step: "?I v" if "pt_control v = T_over" "pt_helper v = H_none" "check_step esrch v = Some v'" "?I v'" for v v'
    by (rule inevitable_one [OF _ that(4)]) (use over_step [OF that(1,2)] that(3) in auto)
  show ?thesis
  proof (cases esrch)
    case True
    show ?thesis
    proof (rule next_step [OF w(1,2)])
      show "check_step esrch ?w = Some (?w\<lparr>pt_check := C_done False\<rparr>)" using True w(1) by (simp add: check_step_def)
      show "?I (?w\<lparr>pt_check := C_done False\<rparr>)"
        by (rule now) (use w True in \<open>simp add: stuck_def over_step check_step_def\<close>)
    qed
  next
    case False
    have wait: "?I v" if "pt_control v = T_over" "pt_helper v = H_none" "pt_check v = C_wait" "pt_response v = 0" for v
      by (rule now) (use that False in \<open>simp add: stuck_def over_step check_step_def\<close>)
    let ?a = "?w\<lparr>pt_check := C_lock service user pw\<rparr>"
    let ?b = "?a\<lparr>pt_lock := Some Checker, pt_service := service, pt_user := user, pt_pw := pw, pt_check := C_post\<rparr>"
    let ?c = "?b\<lparr>pt_request := 1, pt_check := C_unlock\<rparr>"
    let ?d = "?c\<lparr>pt_lock := None, pt_check := C_wait\<rparr>"
    have "?I ?d" by (rule wait) (use w in simp_all)
    then have "?I ?c" by (rule next_step [rotated 3]) (use w in \<open>simp_all add: check_step_def\<close>)
    then have "?I ?b" by (rule next_step [rotated 3]) (use w in \<open>simp_all add: check_step_def\<close>)
    then have "?I ?a" by (rule next_step [rotated 3]) (use w in \<open>simp_all add: check_step_def\<close>)
    then show ?thesis by (rule next_step [rotated 3]) (use w False in \<open>simp_all add: check_step_def\<close>)
  qed
qed

section \<open>The properties\<close>

text \<open>
  C36: checking a password comes to an end, with the right answer. From a state in which nothing is going on, whatever
  PAM does in its conversation (as long as it can be started and the texts fit their buffers), and in whatever order
  the thread of the login, the controlling thread and the helper act, \<open>check\<close> returns the result of
  PAM for the service, the first line of the user and the first line of the password, and everything is ready for
  the next check.
\<close>

theorem pam_check_total:
  assumes "pam_ready w" "pt_check w = C_start service user pw" "pam_fits service user pw" "pam service (line_of user) \<noteq> None"
  shows "inevitable (pam_step esrch pam) (pam_answered (pam_answer pam service user pw)) w"
  using check_start [OF assms(1-3)] assms(4) by (auto simp: pam_answer_def)

text \<open>A PAM that asks for the password, and the state after the first checker is created and its first check begun.\<close>

definition ex_conv :: "string \<Rightarrow> string \<Rightarrow> pam_run option" where
  "ex_conv service user = Some (PamConv [PAM_TEXT_INFO, PAM_PROMPT_ECHO_OFF] (\<lambda>r. PamResult (r = [Resp_null, Resp_str ''x''])))"

definition ex_begun :: pamthread where
  "ex_begun = (PamThread_create None)\<lparr>pt_check := C_start ''swad'' (''root'' @ [LF] @ ''y'') ''x''\<rparr>"

lemma ex_begun_ready: "pam_ready ex_begun" "pt_check ex_begun = C_start ''swad'' (''root'' @ [LF] @ ''y'') ''x''"
  "pam_fits ''swad'' (''root'' @ [LF] @ ''y'') ''x''"
proof -
  show "pam_ready ex_begun" by (simp add: ex_begun_def PamThread_create_def pamthread_new_def pam_ready_def)
  show "pt_check ex_begun = C_start ''swad'' (''root'' @ [LF] @ ''y'') ''x''" by (simp add: ex_begun_def)
  show "pam_fits ''swad'' (''root'' @ [LF] @ ''y'') ''x''" by code_simp
qed

theorem pam_check_total_witness:
  "inevitable (pam_step False ex_conv) (pam_answered True) ex_begun"
proof -
  have "inevitable (pam_step False ex_conv) (pam_answered (pam_answer ex_conv ''swad'' (''root'' @ [LF] @ ''y'') ''x'')) ex_begun"
    by (rule pam_check_total [OF ex_begun_ready]) (simp add: ex_conv_def)
  moreover have "pam_answer ex_conv ''swad'' (''root'' @ [LF] @ ''y'') ''x''" by code_simp
  ultimately show ?thesis by simp
qed


text \<open>
  C39: when the last checker is destroyed while no check is going on, the controlling thread and the helper
  both end, in every order of their steps, so that waiting for the thread returns.
\<close>

theorem pam_stops:
  assumes "pam_ready w" "no_check w" "pt_refcnt w = 1"
  shows "\<exists>w'. PamThread_destroy w = Some w' \<and> inevitable (pam_step esrch pam) over w'"
proof -
  let ?w = "w\<lparr>pt_refcnt := 0, pt_stoprq := True, pt_request := 1\<rparr>"
  have "PamThread_destroy w = Some ?w" using assms by (simp add: PamThread_destroy_def pam_ready_def)
  moreover have "inevitable (pam_step esrch pam) over ?w"
    by (rule stop_lock) (use assms in \<open>auto simp: pam_ready_def no_check_def\<close>)
  ultimately show ?thesis by blast
qed

theorem pam_stops_witness:
  "\<exists>w'. PamThread_destroy (PamThread_create None) = Some w' \<and> inevitable (pam_step False ex_conv) over w'"
  by (rule pam_stops) (simp_all add: pam_ready_def no_check_def PamThread_create_def pamthread_new_def)


text \<open>
  C38: where the helper ends during a check, as it does when PAM cannot be started, the signal about it can
  break the loop of the controlling thread before it has answered. Then the check waits for ever, with
  every process at its end or waiting, and so does each login after it, since the authenticator holds its locks.
\<close>

theorem pam_lost_answer:
  assumes "pam_ready w" "pt_check w = C_start service user pw" "pam_fits service user pw" "pam service (line_of user) = None"
  shows "\<exists>w'. (pam_step esrch pam)\<^sup>*\<^sup>* w w' \<and> pt_check w' = C_wait \<and> (\<forall>w''. \<not> pam_step esrch pam w' w'')"
proof -
  let ?line = "service @ '':'' @ user @ [LF]"
  note w = assms(1) [unfolded pam_ready_def] assms(2)
  have f: "pipe_fits ?line" using assms(3) by (simp add: pam_fits_def)
  have len: "length ?line \<le> HELPERBUF - 1" using f by (simp add: pipe_fits_def WRBUF_def HELPERBUF_def)
  have line: "take (HELPERBUF - 1) ?line = ?line" "cstr ?line = ?line" "drop (HELPERBUF - 1) ?line = []"
    by (simp_all only: take_all [OF len] drop_all [OF len] cstr_fits [OF f])
  have gone: "helper_line pam ?line v = v\<lparr>pt_passread := False, pt_pass := [], pt_helper := H_exit False\<rparr>" for v
    using pam_line [of service pam user v] assms(3,4) by (simp add: pam_fits_def)
  let ?s = "w\<lparr>pt_service := service, pt_user := user, pt_pw := pw\<rparr>"
  let ?a = "w\<lparr>pt_control := T_wait\<rparr>"
  let ?b = "?a\<lparr>pt_check := C_lock service user pw\<rparr>"
  let ?c = "?s\<lparr>pt_control := T_wait, pt_lock := Some Checker, pt_check := C_post\<rparr>"
  let ?d = "?c\<lparr>pt_request := 1, pt_check := C_unlock\<rparr>"
  let ?e = "?s\<lparr>pt_control := T_wait, pt_request := 1, pt_check := C_wait\<rparr>"
  let ?f = "?s\<lparr>pt_control := T_lock, pt_check := C_wait\<rparr>"
  let ?g = "?s\<lparr>pt_control := T_write, pt_check := C_wait, pt_lock := Some Controller, pt_ok := False\<rparr>"
  let ?h = "?g\<lparr>pt_control := T_read, pt_to := ?line\<rparr>"
  let ?i = "?g\<lparr>pt_control := T_read, pt_passread := False, pt_pass := [], pt_helper := H_exit False\<rparr>"
  let ?j = "?i\<lparr>pt_control := T_end, pt_childExited := True\<rparr>"
  let ?k = "?j\<lparr>pt_lock := None, pt_control := T_closed\<rparr>"
  let ?l = "?k\<lparr>pt_control := T_over\<rparr>"
  have start: "(pam_step esrch pam)\<^sup>*\<^sup>* w ?a"
  proof (cases "pt_control w = T_wait")
    case True
    then have "w = ?a" by simp
    then show ?thesis by (metis rtranclp.rtrancl_refl)
  next
    case False
    then have "control_step w = Some ?a" using w by (auto simp: control_step_def)
    then show ?thesis by (intro r_into_rtranclp pam_step.control)
  qed
  have "pam_step esrch pam ?a ?b" using w by (intro pam_step.check) (simp add: check_step_def)
  moreover have "pam_step esrch pam ?b ?c" using w by (intro pam_step.check) (simp add: check_step_def)
  moreover have "pam_step esrch pam ?c ?d" using w by (intro pam_step.check) (simp add: check_step_def)
  moreover have "pam_step esrch pam ?d ?e" using w by (intro pam_step.check) (simp add: check_step_def)
  moreover have "pam_step esrch pam ?e ?f" using w by (intro pam_step.control) (simp add: control_step_def)
  moreover have "pam_step esrch pam ?f ?g" using w by (intro pam_step.control) (simp add: control_step_def)
  moreover have "pam_step esrch pam ?g ?h"
    using w f by (intro pam_step.control) (simp add: control_step_def control_write_fits helper_gone_def)
  moreover have "pam_step esrch pam ?h ?i"
    using w line gone by (intro pam_step.helper) (simp add: helper_step_def pipe_read_def)
  moreover have "pam_step esrch pam ?i ?j"
    using w by (intro pam_step.signal [of True]) (simp add: handlechild_def helper_gone_def)
  moreover have "pam_step esrch pam ?j ?k" using w by (intro pam_step.control) (simp add: control_step_def)
  moreover have "pam_step esrch pam ?k ?l" using w by (intro pam_step.control) (simp add: control_step_def helper_gone_def)
  ultimately have "(pam_step esrch pam)\<^sup>*\<^sup>* w ?l"
    by (intro rtranclp_trans [OF start]) ((rule converse_rtranclp_into_rtranclp, assumption)+, rule rtranclp.rtrancl_refl)
  moreover have "\<not> pam_step esrch pam ?l w''" for w'' using w by (auto simp: pam_steps)
  ultimately show ?thesis by (intro exI [of _ ?l]) simp
qed

theorem pam_lost_answer_witness:
  "\<exists>w'. (pam_step False (\<lambda>_ _. None))\<^sup>*\<^sup>* ex_begun w' \<and> pt_check w' = C_wait \<and> (\<forall>w''. \<not> pam_step False (\<lambda>_ _. None) w' w'')"
  by (rule pam_lost_answer [OF ex_begun_ready]) simp

end
