(* ===== verification/Pam_Check.thy ===== *)
theory Pam_Check
  imports Pam_Facts Auth_Limit
begin

text \<open>
  The check of a password as the authenticator sees it, and what the two make of a user with more than
  one line.
\<close>

section \<open>Checkers that look at one line\<close>

lemma line_of_once: "line_of (line_of s) = line_of s"
  by (induction s) (auto simp: line_of_def dest: set_takeWhileD)

text \<open>
  The interface of a checker as the authenticator uses it, for checkers that are not changed by a check and
  answer for the first line of the user.
\<close>

locale line_checker =
  fixes check :: "'k \<Rightarrow> string \<Rightarrow> string \<Rightarrow> (bool \<times> string option) \<times> 'k"
  assumes keeps: "snd (check k user pw) = k"
    and line: "line_of user = line_of user' \<Longrightarrow> fst (fst (check k user pw)) = fst (fst (check k user' pw))"
begin

lemma check_loop_keeps:
  assumes "auth_laws ops" "ah_check ops = check" "check_loop ops st names user pw = (r, st')"
  shows "ph_get (ah_checkers ops) (as_checkers st') k = ph_get (ah_checkers ops) (as_checkers st) k"
proof -
  have laws: "psc_hash_laws (ah_checkers ops)" using assms(1) by (simp add: auth_laws_def)
  show ?thesis using assms(3)
  proof (induction names arbitrary: st)
    case (Cons c names)
    show ?case
    proof (cases "ph_get (ah_checkers ops) (as_checkers st) c")
      case (Some checker)
      obtain a rn checker' where ck: "check checker user pw = ((a, rn), checker')" by (metis prod.exhaust)
      then have same: "checker' = checker" using keeps [of checker user pw] by simp
      show ?thesis
        using Cons Some ck same assms(2) by (auto simp: Let_def psc_hash_lawsD(2) [OF laws] split: if_splits)
    qed (use Cons in simp)
  qed simp
qed

text \<open>A wrong password for the first line of the user is asked of all checkers and accepted by none.\<close>

lemma check_loop_wrong:
  assumes "auth_laws ops" "ah_check ops = check"
    "\<forall>c \<in> set names. \<forall>k. ph_get (ah_checkers ops) (as_checkers st) c = Some k \<longrightarrow> \<not> fst (fst (check k (line_of user) pw))"
  shows "\<exists>st'. check_loop ops st names user pw = (None, st')
    \<and> ((\<exists>c \<in> set names. ph_get (ah_checkers ops) (as_checkers st) c \<noteq> None) \<longrightarrow> asked st st')"
proof -
  have laws: "psc_hash_laws (ah_checkers ops)" using assms(1) by (simp add: auth_laws_def)
  show ?thesis using assms(3)
  proof (induction names arbitrary: st)
    case (Cons c names)
    show ?case
    proof (cases "ph_get (ah_checkers ops) (as_checkers st) c")
      case None
      then show ?thesis using Cons by simp
    next
      case (Some checker)
      obtain a rn checker' where ck: "check checker user pw = ((a, rn), checker')" by (metis prod.exhaust)
      have a: "\<not> a" and same: "checker' = checker"
        using keeps [of checker user pw] line [of user "line_of user" checker pw] line_of_once ck Cons.prems Some by auto
      let ?st = "st\<lparr>as_checkers := ph_set (ah_checkers ops) (as_checkers st) c checker,
        as_log := as_log st @ [EV_check c user pw False]\<rparr>"
      have get: "ph_get (ah_checkers ops) (as_checkers ?st) k = ph_get (ah_checkers ops) (as_checkers st) k" for k
        using Some by (simp add: psc_hash_lawsD(2) [OF laws])
      obtain st' where st': "check_loop ops ?st names user pw = (None, st')" using Cons.IH [of ?st] Cons.prems get by auto
      obtain evs where "as_log st' = as_log ?st @ evs" using check_loop_events [OF st'] by blast
      then have "asked st st'" by (simp add: asked_def is_check_def)
      moreover have "check_loop ops st (c # names) user pw = (None, st')" using Some ck a same st' assms(2) by simp
      ultimately show ?thesis by blast
    qed
  qed simp
qed

end


section \<open>Users that were not seen before\<close>

lemma check_limits_true:
  "check_limits ops ls tv idt ok = Some (r, ls') \<Longrightarrow> \<forall>l \<in> set ls. \<exists>l'. checkLimit ops l tv idt = Some (True, l') \<Longrightarrow> r = ok"
proof (induction ls arbitrary: ok ls')
  case (Cons l ls)
  obtain l' where "checkLimit ops l tv idt = Some (True, l')" using Cons.prems(2) by auto
  then show ?case using Cons by (auto split: option.splits)
qed simp

text \<open>
  \<open>used\<close> are the names the limit has seen. A name it has not seen is accepted once, whatever happened to the
  others, and no name is blocked.
\<close>

definition fresh_inv :: "('k, 'b, 'l, 't, 'c, 'r) auth_ops \<Rightarrow> 'l realm \<Rightarrow> nat \<Rightarrow> string set \<Rightarrow> ('l, 'c, 'r) auth_static \<Rightarrow> 't authenticator
    \<Rightarrow> nat \<Rightarrow> bool" where
  "fresh_inv ops realm t0 used st self T \<longleftrightarrow>
     (\<exists>ls seen Es. eff_limits ops st self realm = Some ls \<and> limits_rel (ah_entries ops) ls T seen Es
        \<and> (\<forall>k s. seen k = Some s \<longrightarrow> t0 \<le> s) \<and> t0 \<le> T
        \<and> (\<forall>i < length ls. l_limit (ls ! i) \<noteq> 0 \<and> (\<forall>v. v \<notin> used \<longrightarrow> Es i v = [])))
     \<and> (\<forall>v. \<not> is_blocked ops self v)"

lemma fresh_inv_later: "fresh_inv ops realm t0 used st self T \<Longrightarrow> T \<le> T' \<Longrightarrow> fresh_inv ops realm t0 used st self T'"
  unfolding fresh_inv_def using limits_rel_later by (meson order_trans)

lemma fresh_call:
  assumes "auth_laws ops" "fresh_inv ops realm t0 used st self tv" "tv \<le> t0 + 65535" "v \<notin> used"
  shows "\<exists>st' self'. check_fail_limit ops (Some tv) st self realm v = Some (True, st', self') \<and> fresh_inv ops realm t0 (insert v used) st' self' tv"
proof -
  from assms(2) obtain ls seen Es where inv: "eff_limits ops st self realm = Some ls" "limits_rel (ah_entries ops) ls tv seen Es"
    "\<forall>k s. seen k = Some s \<longrightarrow> t0 \<le> s" "t0 \<le> tv" "\<forall>i < length ls. l_limit (ls ! i) \<noteq> 0 \<and> (\<forall>v. v \<notin> used \<longrightarrow> Es i v = [])"
    "\<forall>v. \<not> is_blocked ops self v"
    unfolding fresh_inv_def by blast
  have laws: "psc_hash_laws (ah_entries ops)" using assms(1) by (simp add: auth_laws_def)
  obtain r ls' Es' where call: "check_limits (ah_entries ops) ls tv v True = Some (r, ls')"
    "limits_rel (ah_entries ops) ls' tv (seen(v \<mapsto> tv)) Es'" "list_all2 same_limit ls ls'"
    "\<forall>i < length ls. limit_grow v tv (ls ! i) (Es i) (Es' i) r"
    using check_limits_rel [OF laws order_refl assms(3) _ inv(2), of v True] inv(3) by blast
  have pos: "in_window n t (Es i v) < unat (l_limit (ls ! i))" if "i < length ls" for i n t
    using inv(5) that assms(4) by (simp add: in_window_def unat_gt_0)
  have "\<forall>l \<in> set ls. \<exists>l'. checkLimit (ah_entries ops) l tv v = Some (True, l')"
  proof
    fix l assume "l \<in> set ls"
    then obtain i where i: "i < length ls" "ls ! i = l" by (auto simp: in_set_conv_nth)
    have rel: "limit_ok l" "limit_rel (ah_entries ops) l (tv div unat (l_res l)) (\<lambda>k. map_option (\<lambda>s. s div unat (l_res l)) (seen k)) (Es i)"
      using inv(2) i by (auto simp: limits_rel_def)
    have res: "0 < unat (l_res l)" using rel(1) by (simp add: limit_ok_def unat_gt_0)
    have pace: "\<forall>s. map_option (\<lambda>s. s div unat (l_res l)) (seen v) = Some s \<longrightarrow> tv div unat (l_res l) < s + 65536"
      using div_pace [OF assms(3) _ res] inv(3) by auto
    show "\<exists>l'. checkLimit (ah_entries ops) l tv v = Some (True, l')"
      using checkLimit_refines [OF laws rel refl order_refl pace] pos [OF i(1)] i(2) by (auto simp: spec_check_def)
  qed
  then have r: "r" using check_limits_true [OF call(1)] by simp
  then have "RateLimit_check (ah_entries ops) ls (Some tv) v = Some (True, ls')" using call(1) by (simp add: RateLimit_check_def)
  from check_fail_limit_eff [OF assms(1) inv(1) this] obtain st' self' where res:
    "check_fail_limit ops (Some tv) st self realm v = Some (True, st', self')"
    "eff_limits ops st' self' realm = Some ls'" "is_blocked ops self' = is_blocked ops self" by blast
  have "\<forall>i < length ls'. l_limit (ls' ! i) \<noteq> 0 \<and> (\<forall>w. w \<notin> insert v used \<longrightarrow> Es' i w = [])"
  proof (intro allI impI)
    fix i assume "i < length ls'"
    then have i: "i < length ls" using list_all2_lengthD [OF call(3)] by simp
    then show "l_limit (ls' ! i) \<noteq> 0 \<and> (\<forall>w. w \<notin> insert v used \<longrightarrow> Es' i w = [])"
      using list_all2_nthD [OF call(3) i] inv(5) call(4) pos [OF i]
      by (auto simp: same_limit_def limit_grow_def)
  qed
  then have "fresh_inv ops realm t0 (insert v used) st' self' tv"
    unfolding fresh_inv_def using res(2,3) call(2) inv(3,4,6)
    by (intro conjI exI [of _ ls'] exI [of _ "seen(v \<mapsto> tv)"] exI [of _ Es']) auto
  then show ?thesis using res(1) by blast
qed

lemma fresh_login:
  assumes "auth_laws ops" "ph_get (ah_realms ops) (as_realms st) (at_realm self) = Some realm" "rl_checkers realm \<noteq> []"
    "fresh_inv ops realm t0 used st self T" "T \<le> tv" "tv \<le> t0 + 65535" "v \<notin> used"
    "check_loop ops st (rl_checkers realm) v pw = (None, st1)" "asked st st1"
  shows "\<exists>st' self'. Authenticator_login ops (Some tv) st self v pw = Some (0, st', self') \<and> asked st st'
    \<and> fresh_inv ops realm t0 (insert v used) st' self' tv \<and> as_checkers st' = as_checkers st1"
proof -
  have ev: "\<exists>evs. as_log st1 = as_log st @ evs" "as_defaultLimitOpts st1 = as_defaultLimitOpts st" using check_loop_events [OF assms(8)] by blast+
  then have "fail_limits st1 realm = fail_limits st realm" unfolding fail_limits_def by (simp only: split: option.split)
  then have eff: "eff_limits ops st1 self realm = eff_limits ops st self realm" by (simp add: eff_limits_def split: option.split)
  have "fresh_inv ops realm t0 used st self tv" using fresh_inv_later [OF assms(4,5)] .
  then have inv: "fresh_inv ops realm t0 used st1 self tv" "\<not> is_blocked ops self v" by (simp_all add: fresh_inv_def eff)
  from fresh_call [OF assms(1) inv(1) assms(6,7)] obtain st' self' where
    call: "check_fail_limit ops (Some tv) st1 self realm v = Some (True, st', self')" "fresh_inv ops realm t0 (insert v used) st' self' tv"
    by blast
  have log: "as_log st' = as_log st1 @ [EV_limit (Some tv) v True]" "as_checkers st' = as_checkers st1"
    using check_fail_limit_users [OF assms(1) call(1)] by auto
  have "asked st st'" using assms(9) ev(1) log(1) by (auto simp: asked_def)
  then show ?thesis using assms(2,3,8) inv(2) call log(2) by (simp add: Authenticator_login_def login_check_def)
qed


section \<open>PAM as a checker\<close>

text \<open>
  The checker for PAM with its service, as a function: the answer is the one the protocol comes to
  (\<open>pam_check_total\<close>). A byte of the real name that was not written has some value, \<open>rest\<close>; the
  text is read up to its first null byte, as far as the buffer goes.
\<close>

definition cells_text :: "char \<Rightarrow> char option list \<Rightarrow> string" where
  "cells_text rest cs = cstr (map (\<lambda>c. case c of None \<Rightarrow> rest | Some c \<Rightarrow> c) cs)"

definition pam_check ::
  "char \<Rightarrow> (string \<Rightarrow> string \<Rightarrow> pam_run option) \<Rightarrow> (string \<Rightarrow> string option) \<Rightarrow> string \<Rightarrow> string \<Rightarrow> string
    \<Rightarrow> (bool \<times> string option) \<times> string" where
  "pam_check rest pam gecos service user pw =
     (let ok = pam_answer pam service user pw
      in ((ok, if ok then map_option (cells_text rest) (pam_realname user (gecos user)) else None), service))"

interpretation pamc: line_checker "pam_check rest pam gecos" for rest pam gecos
  by unfold_locales (simp_all add: pam_check_def pam_answer_def Let_def)

lemma pam_check_fst: "fst (fst (pam_check rest pam gecos service user pw)) = pam_answer pam service user pw"
  by (simp add: pam_check_def Let_def)

section \<open>Guessing without a limit\<close>

text \<open>Each attempt is for a user with this first line, with a password every checker of the realm refuses.\<close>

definition wrong_guess ::
  "(string \<Rightarrow> string \<Rightarrow> pam_run option) \<Rightarrow> (string, 'b, 'l, 't, 'c, 'r) auth_ops \<Rightarrow> 'c \<Rightarrow> string list \<Rightarrow> string \<Rightarrow> nat \<times> string \<times> string \<Rightarrow> bool" where
  "wrong_guess pam ops checkers names u a \<longleftrightarrow>
     line_of (fst (snd a)) = u
     \<and> (\<forall>c \<in> set names. case ph_get (ah_checkers ops) checkers c of None \<Rightarrow> True | Some service \<Rightarrow> \<not> pam_answer pam service u (snd (snd a)))"

lemma fresh_run:
  assumes "auth_laws ops" "ah_check ops = pam_check rest pam gecos"
  shows "ph_get (ah_realms ops) (as_realms st) r = Some realm \<Longrightarrow>
    \<exists>c \<in> set (rl_checkers realm). ph_get (ah_checkers ops) (as_checkers st) c \<noteq> None \<Longrightarrow>
    fresh_inv ops realm t0 used st \<lparr>at_authInfos = t, at_realm = r\<rparr> T \<Longrightarrow>
    sorted (T # map fst attempts) \<Longrightarrow> \<forall>a \<in> set attempts. fst a \<le> t0 + 65535 \<Longrightarrow>
    distinct (map (\<lambda>a. fst (snd a)) attempts) \<Longrightarrow> \<forall>a \<in> set attempts. fst (snd a) \<notin> used \<Longrightarrow>
    \<forall>a \<in> set attempts. wrong_guess pam ops (as_checkers st) (rl_checkers realm) u a \<Longrightarrow>
    \<exists>s'. login_run ops r attempts (t, st) = Some (map (\<lambda>_. (0, True)) attempts, s')"
proof (induction attempts arbitrary: t st T used)
  case (Cons a attempts)
  obtain tv v pw where a: "a = (tv, v, pw)" by (cases a) auto
  let ?self = "\<lparr>at_authInfos = t, at_realm = r\<rparr>"
  have wrong: "\<forall>c \<in> set (rl_checkers realm). \<forall>k. ph_get (ah_checkers ops) (as_checkers st) c = Some k \<longrightarrow>
      \<not> fst (fst (pam_check rest pam gecos k (line_of v) pw))"
    using Cons.prems(8) a by (auto simp: wrong_guess_def pam_check_fst split: option.splits)
  obtain st1 where loop: "check_loop ops st (rl_checkers realm) v pw = (None, st1)" and "asked st st1"
    using pamc.check_loop_wrong [OF assms wrong] Cons.prems(2) by blast
  have ck: "ph_get (ah_checkers ops) (as_checkers st1) k = ph_get (ah_checkers ops) (as_checkers st) k" for k
    by (rule pamc.check_loop_keeps [OF assms loop])
  have "rl_checkers realm \<noteq> []" "T \<le> tv" "tv \<le> t0 + 65535" "v \<notin> used" using Cons.prems(2,4,5,7) a by auto
  from fresh_login [OF assms(1) _ this(1) Cons.prems(3) this(2-4) loop \<open>asked st st1\<close>] Cons.prems(1)
  obtain st2 self2 where l: "Authenticator_login ops (Some tv) st ?self v pw = Some (0, st2, self2)" "asked st st2"
    "fresh_inv ops realm t0 (insert v used) st2 self2 tv" "as_checkers st2 = as_checkers st1" by auto
  have o: "as_realms st2 = as_realms st" "at_realm self2 = r" using login_users [OF assms(1) l(1)] by (auto simp: login_outcome_def)
  then have self2: "self2 = \<lparr>at_authInfos = at_authInfos self2, at_realm = r\<rparr>" by (cases self2) auto
  have "\<exists>s'. login_run ops r attempts (at_authInfos self2, st2) = Some (map (\<lambda>_. (0, True)) attempts, s')"
  proof (rule Cons.IH)
    show "fresh_inv ops realm t0 (insert v used) st2 \<lparr>at_authInfos = at_authInfos self2, at_realm = r\<rparr> tv"
      using l(3) self2 by simp
    show "\<forall>a \<in> set attempts. fst (snd a) \<notin> insert v used" using Cons.prems(6,7) a by force
    show "\<forall>a \<in> set attempts. wrong_guess pam ops (as_checkers st2) (rl_checkers realm) u a"
      using Cons.prems(8) by (simp add: wrong_guess_def l(4) ck)
  qed (use Cons.prems a o l(4) ck in auto)
  then show ?case using l(1,2) a by auto
qed simp

text \<open>
  C37: the limits on failed logins do not limit guesses of a password with PAM. The authenticator counts the failed
  logins of the whole text it gets as the user, but the helper reads the user up to the first newline. With another
  text after a newline for each attempt, every attempt in the life of a session is checked against the
  same user's password, none is refused, however many there are.
\<close>

theorem newline_evades_limit:
  assumes "auth_laws ops" "ah_check ops = pam_check rest pam gecos" "ph_get (ah_realms ops) (as_realms st) r = Some realm"
    "\<exists>c \<in> set (rl_checkers realm). ph_get (ah_checkers ops) (as_checkers st) c \<noteq> None"
    "getAuthInfo ops \<lparr>at_authInfos = t, at_realm = r\<rparr> = None"
    "fail_limits st realm = Some opts" "\<forall>l \<in> set opts. limit_ok l \<and> l_entries l = None \<and> l_limit l \<noteq> 0"
    "sorted (map fst attempts)" "\<forall>a \<in> set attempts. t0 \<le> fst a \<and> int (fst a) \<le> int t0 + MAXAGE"
    "distinct (map (\<lambda>a. fst (snd a)) attempts)" "\<forall>a \<in> set attempts. wrong_guess pam ops (as_checkers st) (rl_checkers realm) u a"
  shows "\<exists>s'. login_run ops r attempts (t, st) = Some (map (\<lambda>_. (0, True)) attempts, s')"
proof (rule fresh_run [OF assms(1-4) _ _ _ assms(10) _ assms(11), of t0 "{}" t t0])
  show "fresh_inv ops realm t0 {} st \<lparr>at_authInfos = t, at_realm = r\<rparr> t0"
    unfolding fresh_inv_def using assms(5-7)
    by (intro conjI exI [of _ opts] exI [of _ "\<lambda>_. None"] exI [of _ "\<lambda>_ _. []"])
      (auto simp: eff_limits_def is_blocked_def intro: limits_rel_new)
qed (use assms(8,9) in \<open>auto simp: MAXAGE_def\<close>)


definition ex_guesses :: "(nat \<times> string \<times> string) list" where
  "ex_guesses = map (\<lambda>i. (1000 + i, ''root'' @ [LF] @ replicate i CHR ''x'', ''guess'' @ replicate i CHR ''x'')) [0..<20]"

definition ex_pam :: "string \<Rightarrow> string \<Rightarrow> pam_run option" where
  "ex_pam service user = Some (PamConv [PAM_PROMPT_ECHO_OFF] (\<lambda>r. PamResult (user = ''root'' \<and> r = [Resp_str ''secret''])))"

definition ex_pam_ops ::
  "(string, (string \<times> unit) list, (string \<times> entry) list, (string \<times> ((string \<times> unit) list, (string \<times> entry) list) authinfo) list,
    (string \<times> string) list, (string \<times> (string \<times> entry) list realm) list) auth_ops" where
  "ex_pam_ops = ex_ops\<lparr>ah_check := pam_check NUL ex_pam (\<lambda>_. None)\<rparr>"

definition ex_pam_static ::
  "((string \<times> entry) list, (string \<times> string) list, (string \<times> (string \<times> entry) list realm) list) auth_static" where
  "ex_pam_static = Authenticator_registerRealm ex_pam_ops
     (Authenticator_registerChecker ex_pam_ops (Authenticator_init ex_pam_ops None) ''pam'' ''swad'')
     (Realm_addChecker (Realm_create ''SWAD'') ''pam'')"

text \<open>Twenty guesses in twenty seconds, where five in fifteen minutes are allowed.\<close>

theorem newline_evades_limit_witness:
  "\<exists>s'. login_run ex_pam_ops ''SWAD'' ex_guesses ([], ex_pam_static) = Some (replicate 20 (0, True), s')"
proof -
  let ?l = "\<lparr>l_entries = None, l_seconds = 900, l_limit = 5, l_res = 2, l_ncounts = 450\<rparr> :: (string \<times> entry) list limit"
  let ?realm = "Realm_addChecker (Realm_create ''SWAD'') ''pam'' :: (string \<times> entry) list realm"
  have laws: "auth_laws ex_pam_ops" using ex_ops_laws by (simp add: auth_laws_def ex_pam_ops_def)
  have c: "ah_check ex_pam_ops = pam_check NUL ex_pam (\<lambda>_. None)" by (simp add: ex_pam_ops_def)
  note defs = ex_pam_static_def Authenticator_registerRealm_def Authenticator_registerChecker_def ex_pam_ops_def ex_ops_def
    alist_hash_def Realm_addChecker_def Realm_create_def Authenticator_init_def
  have r: "ph_get (ah_realms ex_pam_ops) (as_realms ex_pam_static) ''SWAD'' = Some ?realm" by (simp add: defs)
  have k: "ph_get (ah_checkers ex_pam_ops) (as_checkers ex_pam_static) ''pam'' = Some ''swad''" by (simp add: defs)
  have f: "fail_limits ex_pam_static ?realm = Some [?l]" by code_simp
  have n: "getAuthInfo ex_pam_ops \<lparr>at_authInfos = [], at_realm = ''SWAD''\<rparr> = None" by (simp add: getAuthInfo_def defs)
  have names: "rl_checkers ?realm = [''pam'']" by (simp add: Realm_addChecker_def Realm_create_def)
  have "\<forall>a \<in> set ex_guesses. \<not> pam_answer ex_pam ''swad'' ''root'' (snd (snd a))" by code_simp
  moreover have "\<forall>a \<in> set ex_guesses. line_of (fst (snd a)) = ''root''" by code_simp
  ultimately have w: "\<forall>a \<in> set ex_guesses. wrong_guess ex_pam ex_pam_ops (as_checkers ex_pam_static) (rl_checkers ?realm) ''root'' a"
    by (simp add: wrong_guess_def names k)
  have s: "sorted (map fst ex_guesses)" "distinct (map (\<lambda>a. fst (snd a)) ex_guesses)" by code_simp+
  have "(map (\<lambda>_. (0, True)) ex_guesses :: (int \<times> bool) list) = replicate 20 (0, True)" by (simp add: ex_guesses_def map_replicate_const)
  moreover have "\<exists>s'. login_run ex_pam_ops ''SWAD'' ex_guesses ([], ex_pam_static) = Some (map (\<lambda>_. (0, True)) ex_guesses, s')"
    by (rule newline_evades_limit [OF laws c r _ n f _ s(1) _ s(2) w, of 1000])
      (use names k in \<open>auto simp: limit_ok_def ex_guesses_def MAXAGE_def\<close>)
  ultimately show ?thesis by (simp only:)
qed

end
