(* ===== verification/Bin2cstr.thy ===== *)
theory Bin2cstr
  imports Ip_Addr
begin

text \<open>
  \<open>tools/bin2cstr/src/bin2cstr.c\<close>, the build tool that turns the pages of \<open>tmpl/\<close> into string
  literals for \<open>tmpl.c\<close>, against a reading of string literals as the C standard describes them.
\<close>

section \<open>The tool\<close>

definition lit :: string where
  "lit = ''ABCDEFGHIJKLMNOPQRSTUVWXYZ'' @ ''abcdefghijklmnopqrstuvwxyz''
     @ ''0123456789 !#%&'' @ [CHR 0x27] @ ''()*+,-./:;<=>[]^_{|}~''"

text \<open>
  Where a \<open>char\<close> is signed (\<open>sc\<close>), a byte above 127 shifts to a negative index of \<open>hex\<close>.
\<close>

definition esc :: "bool \<Rightarrow> char \<Rightarrow> string option" where
  "esc sc c =
     (if c = CHR 0x07 then Some [CHR 0x5C, CHR ''a'']
      else if c = CHR 0x08 then Some [CHR 0x5C, CHR ''b'']
      else if c = CHR 0x0C then Some [CHR 0x5C, CHR ''f'']
      else if c = CHR 0x0A then Some [CHR 0x5C, CHR ''n'']
      else if c = CHR 0x0D then Some [CHR 0x5C, CHR ''r'']
      else if c = CHR 0x09 then Some [CHR 0x5C, CHR ''t'']
      else if c = CHR 0x0B then Some [CHR 0x5C, CHR ''v'']
      else if c = CHR 0x5C then Some [CHR 0x5C, CHR 0x5C]
      else if c = CHR 0x22 then Some [CHR 0x5C, CHR 0x22]
      else if c = CHR ''?'' then Some [CHR 0x5C, CHR ''?'']
      else if sc \<and> chval c \<ge> 128 then None
      else Some [CHR 0x5C, CHR ''x'', xdigit (chval c div 16), xdigit (chval c mod 16)])"

text \<open>\<open>strchr\<close> also finds the end of \<open>lit\<close>.\<close>

definition plain :: "bool \<Rightarrow> char \<Rightarrow> bool" where
  "plain triesc c \<longleftrightarrow> \<not> triesc \<and> c = CHR ''?'' \<or> c = NUL \<or> c \<in> set lit"

fun escape_loop :: "bool \<Rightarrow> bool \<Rightarrow> string \<Rightarrow> string option" where
  "escape_loop sc triesc [] = Some []"
| "escape_loop sc triesc (c # data) =
     (case (if plain triesc c then Some [c] else esc sc c) of
        None \<Rightarrow> None
      | Some out \<Rightarrow> map_option ((@) out) (escape_loop sc (c = CHR ''?'' \<and> \<not> triesc) data))"

definition literal :: "bool \<Rightarrow> string \<Rightarrow> string option" where
  "literal sc data = map_option (\<lambda>out. CHR 0x22 # out @ [CHR 0x22, LF]) (escape_loop sc False data)"

text \<open>
  Reading and writing: the numbers are the most that the calls transfer, a call that fails transfers nothing.
  The size of the file was asked for before, its \<open>content\<close> may have changed.
\<close>

fun input_loop :: "nat \<Rightarrow> string \<Rightarrow> string \<Rightarrow> nat list \<Rightarrow> string" where
  "input_loop datasz data content [] = data"
| "input_loop datasz data content (n # ns) =
     (let rdchunk = take (min n (datasz - length data)) content;
          data = data @ rdchunk
      in if rdchunk = [] \<or> length data = datasz then data else input_loop datasz data (drop (length rdchunk) content) ns)"

fun output_loop :: "string \<Rightarrow> string \<Rightarrow> nat list \<Rightarrow> string" where
  "output_loop out datastr [] = out"
| "output_loop out datastr (n # ns) =
     (let wrchunk = take n datastr;
          out = out @ wrchunk;
          datastr = drop n datastr
      in if wrchunk = [] \<or> datastr = [] then out else output_loop out datastr ns)"

text \<open>
  The exit code and what is in the output file, if it could be opened; \<^term>\<open>None\<close> is undefined. The input is its size,
  where it could be opened and has one, and its content.
\<close>

definition bin2cstr_main ::
  "bool \<Rightarrow> nat \<Rightarrow> bool \<Rightarrow> (nat \<times> string) option \<Rightarrow> bool \<Rightarrow> nat list \<Rightarrow> nat list \<Rightarrow> (int \<times> string option) option" where
  "bin2cstr_main sc argc outfd infd alloc reads writes =
     (if argc \<noteq> 3 then Some (1, None)
      else if \<not> outfd then Some (1, None)
      else
        (case infd of
           None \<Rightarrow> Some (1, Some [])
         | Some (datasz, content) \<Rightarrow>
             if \<not> alloc then Some (1, Some [])
             else
               (let data = input_loop datasz [] content reads
                in if length data < datasz then Some (1, Some [])
                   else map_option (\<lambda>datastr.
                       let out = output_loop [] datastr writes
                       in (if length out = length datastr then 0 else 1, Some out)) (literal sc data))))"

section \<open>Reading a literal\<close>

text \<open>The replacements of the first phase of translation.\<close>

definition trigraph :: "char \<Rightarrow> char option" where
  "trigraph c = map_of (zip [CHR ''='', CHR ''('', CHR ''/'', CHR '')'', CHR 0x27, CHR ''<'', CHR ''!'', CHR ''>'', CHR ''-'']
     [CHR ''#'', CHR ''['', CHR 0x5C, CHR '']'', CHR ''^'', CHR ''{'', CHR ''|'', CHR ''}'', CHR ''~'']) c"

fun trigraphs :: "string \<Rightarrow> string" where
  "trigraphs (a # b # c # s) =
     (if a = CHR ''?'' \<and> b = CHR ''?'' \<and> trigraph c \<noteq> None then the (trigraph c) # trigraphs s else a # trigraphs (b # c # s))"
| "trigraphs s = s"

definition simple_escape :: "char \<Rightarrow> char option" where
  "simple_escape c = map_of (zip [CHR ''a'', CHR ''b'', CHR ''f'', CHR ''n'', CHR ''r'', CHR ''t'', CHR ''v'', CHR 0x5C, CHR 0x22, CHR ''?'', CHR 0x27]
     [CHR 0x07, CHR 0x08, CHR 0x0C, LF, CR, TAB, CHR 0x0B, CHR 0x5C, CHR 0x22, CHR ''?'', CHR 0x27]) c"

text \<open>
  The characters up to the closing quote, with what follows it. A hexadecimal escape has all digits
  there are, and its value must fit; octal escapes, which the tool never writes, are left out.
\<close>

function literal_chars :: "string \<Rightarrow> (string \<times> string) option" where
  "literal_chars [] = None"
| "literal_chars (c # s) =
     (if c = CHR 0x22 then Some ([], s)
      else if c = LF \<or> c = NUL then None
      else if c = CHR 0x5C then
        (case s of
           [] \<Rightarrow> None
         | e # r \<Rightarrow>
             if e = CHR ''x'' then
               (let ds = takeWhile isxdigit r
                in if ds = [] \<or> hex_value ds \<ge> 256 then None
                   else map_option (apfst ((#) (chr (hex_value ds)))) (literal_chars (dropWhile isxdigit r)))
             else
               (case simple_escape e of
                  None \<Rightarrow> None
                | Some v \<Rightarrow> map_option (apfst ((#) v)) (literal_chars r)))
      else map_option (apfst ((#) c)) (literal_chars s))"
  by pat_completeness auto

termination
  by (relation "measure length") (auto simp: less_Suc_eq_le intro: order_trans [OF length_dropWhile_le])

definition literal_value :: "string \<Rightarrow> string option" where
  "literal_value s =
     (case s of
        [] \<Rightarrow> None
      | q # s \<Rightarrow>
          if q \<noteq> CHR 0x22 then None
          else (case literal_chars s of Some (v, r) \<Rightarrow> if r = [LF] then Some v else None | None \<Rightarrow> None))"


section \<open>The two loops\<close>

lemma take_then: "xs = take (length xs) ys \<Longrightarrow> xs @ take k (drop (length xs) ys) = take (length xs + k) ys"
  by (metis take_add)

lemma input_loop_take: "\<exists>k. input_loop datasz data content ns = data @ take k content"
proof (induction datasz data content ns rule: input_loop.induct)
  case (2 datasz data content n ns)
  let ?c = "take (min n (datasz - length data)) content"
  show ?case
  proof (cases "?c = [] \<or> length (data @ ?c) = datasz")
    case True
    then show ?thesis by (simp add: Let_def) blast
  next
    case False
    from "2.IH" [OF refl refl False] obtain k where
      k: "input_loop datasz (data @ ?c) (drop (length ?c) content) ns = (data @ ?c) @ take k (drop (length ?c) content)" by blast
    have "?c @ take k (drop (length ?c) content) = take (length ?c + k) content" by (rule take_then) (metis append_eq_conv_conj append_take_drop_id)
    moreover have "input_loop datasz data content (n # ns) = input_loop datasz (data @ ?c) (drop (length ?c) content) ns"
      by (simp only: input_loop.simps(2) Let_def if_not_P [OF False])
    ultimately have "input_loop datasz data content (n # ns) = data @ take (length ?c + k) content" using k by (simp only: append_assoc)
    then show ?thesis by blast
  qed
qed (metis append_Nil2 input_loop.simps(1) take0)

lemma input_loop_size: "length data \<le> datasz \<Longrightarrow> length (input_loop datasz data content ns) \<le> datasz"
  by (induction datasz data content ns rule: input_loop.induct) (auto simp: Let_def)

lemma input_loop_all:
  "\<forall>n \<in> set ns. 0 < n \<Longrightarrow> datasz = length data + length content \<Longrightarrow> length content \<le> length ns \<Longrightarrow> input_loop datasz data content ns = data @ content"
proof (induction datasz data content ns rule: input_loop.induct)
  case (2 datasz data content n ns)
  then show ?case by (auto simp: Let_def min_def)
qed simp

lemma output_loop_prefix: "\<exists>k. output_loop out datastr ns = out @ take k datastr"
proof (induction out datastr ns rule: output_loop.induct)
  case (2 out datastr n ns)
  show ?case
  proof (cases "take n datastr = [] \<or> drop n datastr = []")
    case False
    from "2.IH" [OF refl refl refl False] obtain k where
      "output_loop (out @ take n datastr) (drop n datastr) ns = (out @ take n datastr) @ take k (drop n datastr)" by blast
    then have "output_loop out datastr (n # ns) = out @ take (n + k) datastr" using False by (simp add: Let_def take_add)
    then show ?thesis by blast
  qed (auto simp: Let_def intro: exI [of _ n])
qed (metis append_Nil2 output_loop.simps(1) take0)

lemma output_loop_all: "\<forall>n \<in> set ns. 0 < n \<Longrightarrow> length datastr \<le> length ns \<Longrightarrow> output_loop out datastr ns = out @ datastr"
  by (induction out datastr ns rule: output_loop.induct) (auto simp: Let_def)

section \<open>Escaping\<close>

text \<open>The bytes written as a hexadecimal escape, and those after which a digit would be taken into it.\<close>

definition hexed :: "char \<Rightarrow> bool" where
  "hexed c \<longleftrightarrow> c \<notin> set lit \<union> {NUL, CHR 0x07, CHR 0x08, TAB, LF, CHR 0x0B, CHR 0x0C, CR, CHR 0x5C, CHR 0x22, CHR ''?''}"

fun hex_clash :: "string \<Rightarrow> bool" where
  "hex_clash (c # d # s) \<longleftrightarrow> hexed c \<and> isxdigit d \<or> hex_clash (d # s)"
| "hex_clash s \<longleftrightarrow> False"

lemma lit_chars: "CHR 0x22 \<notin> set lit" "LF \<notin> set lit" "CHR 0x5C \<notin> set lit" "CHR ''?'' \<notin> set lit" "NUL \<notin> set lit"
  by (simp_all add: lit_def)

lemma lit_ascii: "\<forall>c \<in> set lit. chval c < 128"
  by (simp add: lit_def)

lemma lit_digits: "\<forall>n \<in> set ([48..<58] @ [65..<71] @ [97..<103]). chr n \<in> set lit"
  by code_simp

lemma plain_chars: "plain t c \<Longrightarrow> c \<noteq> NUL \<Longrightarrow> c \<notin> {CHR 0x22, LF, CHR 0x5C} \<and> \<not> hexed c"
  using lit_chars by (cases "c = CHR ''?''") (auto simp: plain_def hexed_def)

lemma xdigit_lit: "isxdigit c \<Longrightarrow> c \<in> set lit"
proof -
  assume "isxdigit c"
  then have "chval c \<in> set ([48..<58] @ [65..<71] @ [97..<103])"
    unfolding set_append set_upt by (auto simp: isxdigit_def isdigit_def)
  then have "chr (chval c) \<in> set lit" using lit_digits by blast
  then show ?thesis by simp
qed

lemma esc_hexed: "hexed c \<Longrightarrow> esc sc c = Some out \<Longrightarrow> out = [CHR 0x5C, CHR ''x'', xdigit (chval c div 16), xdigit (chval c mod 16)]"
  by (auto simp only: esc_def hexed_def Un_iff insert_iff de_Morgan_disj if_False option.inject split: if_splits)

lemma esc_values:
  "esc sc (CHR 0x07) = Some [CHR 0x5C, CHR ''a'']"
  "esc sc (CHR 0x08) = Some [CHR 0x5C, CHR ''b'']"
  "esc sc (TAB) = Some [CHR 0x5C, CHR ''t'']"
  "esc sc (LF) = Some [CHR 0x5C, CHR ''n'']"
  "esc sc (CHR 0x0B) = Some [CHR 0x5C, CHR ''v'']"
  "esc sc (CHR 0x0C) = Some [CHR 0x5C, CHR ''f'']"
  "esc sc (CR) = Some [CHR 0x5C, CHR ''r'']"
  "esc sc (CHR 0x5C) = Some [CHR 0x5C, CHR 0x5C]"
  "esc sc (CHR 0x22) = Some [CHR 0x5C, CHR 0x22]"
  "esc sc (CHR ''?'') = Some [CHR 0x5C, CHR ''?'']"
  by (simp_all add: esc_def)

lemma simple_escape_values:
  "simple_escape (CHR ''a'') = Some (CHR 0x07)"
  "simple_escape (CHR ''b'') = Some (CHR 0x08)"
  "simple_escape (CHR ''t'') = Some (TAB)"
  "simple_escape (CHR ''n'') = Some (LF)"
  "simple_escape (CHR ''v'') = Some (CHR 0x0B)"
  "simple_escape (CHR ''f'') = Some (CHR 0x0C)"
  "simple_escape (CHR ''r'') = Some (CR)"
  "simple_escape (CHR 0x5C) = Some (CHR 0x5C)"
  "simple_escape (CHR 0x22) = Some (CHR 0x22)"
  "simple_escape (CHR ''?'') = Some (CHR ''?'')"
  by (simp_all add: simple_escape_def)

lemma esc_simple:
  assumes "esc sc c = Some out" "\<not> plain t c" "\<not> hexed c"
  shows "\<exists>e. out = [CHR 0x5C, e] \<and> simple_escape e = Some c \<and> e \<noteq> CHR ''x''"
proof -
  have "c \<notin> set lit" "c \<noteq> NUL" using assms(2) by (simp_all only: plain_def de_Morgan_disj not_False_eq_True)
  moreover have "c \<in> set lit \<union> {NUL, CHR 0x07, CHR 0x08, TAB, LF, CHR 0x0B, CHR 0x0C, CR, CHR 0x5C, CHR 0x22, CHR ''?''}"
    using assms(3) by (simp only: hexed_def not_not)
  ultimately have "c \<in> {CHR 0x07, CHR 0x08, TAB, LF, CHR 0x0B, CHR 0x0C, CR, CHR 0x5C, CHR 0x22, CHR ''?''}"
    by (metis UnE insertE)
  then show ?thesis using assms(1)
    by (elim insertE emptyE; hypsubst)
      ((simp only: esc_values option.inject, hypsubst?, rule exI, rule conjI, rule refl, rule conjI, rule simple_escape_values, simp)+)
qed

lemma escape_Cons:
  assumes "escape_loop sc t (c # data) = Some out" "c \<noteq> NUL"
  obtains (plain) out' where "out = c # out'" "escape_loop sc (c = CHR ''?'' \<and> \<not> t) data = Some out'" "plain t c"
    | (simple) e out' where "out = CHR 0x5C # e # out'" "escape_loop sc (c = CHR ''?'' \<and> \<not> t) data = Some out'"
      "simple_escape e = Some c" "e \<noteq> CHR ''x''" "\<not> plain t c" "\<not> hexed c"
    | (hex) out' where "out = CHR 0x5C # CHR ''x'' # xdigit (chval c div 16) # xdigit (chval c mod 16) # out'"
      "escape_loop sc False data = Some out'" "hexed c"
proof (cases "plain t c")
  case True
  then show ?thesis using assms plain by auto
next
  case False
  then obtain o1 out' where o: "esc sc c = Some o1" "escape_loop sc (c = CHR ''?'' \<and> \<not> t) data = Some out'" "out = o1 @ out'"
    using assms by (auto split: option.splits)
  show ?thesis
  proof (cases "hexed c")
    case h: True
    then have "c \<noteq> CHR ''?''" by (auto simp: hexed_def)
    then show ?thesis using hex h o esc_hexed [OF h o(1)] by simp
  next
    case h: False
    from esc_simple [OF o(1) False h] obtain e where "o1 = [CHR 0x5C, e]" "simple_escape e = Some c" "e \<noteq> CHR ''x''" by blast
    then show ?thesis using simple [of e out'] o False h by simp
  qed
qed

lemma esc_length: "esc sc c = Some out \<Longrightarrow> length out \<le> 4"
  by (auto simp: esc_def split: if_splits)

lemma escape_length: "escape_loop sc t data = Some out \<Longrightarrow> length out \<le> 4 * length data"
proof (induction data arbitrary: t out)
  case (Cons c data)
  then obtain o1 o2 where o: "(if plain t c then Some [c] else esc sc c) = Some o1"
    "escape_loop sc (c = CHR ''?'' \<and> \<not> t) data = Some o2" "out = o1 @ o2"
    by (auto split: option.splits)
  have "length o1 \<le> 4" using o(1) esc_length by (auto split: if_splits)
  then show ?case using Cons.IH [OF o(2)] o(3) by simp
qed simp

lemma escape_defined: "(\<exists>out. escape_loop sc t data = Some out) \<longleftrightarrow> (sc \<longrightarrow> (\<forall>c \<in> set data. chval c < 128))"
proof (induction data arbitrary: t)
  case (Cons c data)
  have "chval c < 128" if "plain t c" using that lit_ascii by (auto simp: plain_def)
  moreover have "esc sc c = None \<longleftrightarrow> sc \<and> chval c \<ge> 128" by (auto simp: esc_def)
  ultimately show ?case using Cons by (auto split: option.splits)
qed simp

section \<open>What the literal means\<close>

text \<open>The value of the literal in terms of the data.\<close>

function lit_means :: "string \<Rightarrow> string option" where
  "lit_means [] = Some []"
| "lit_means (c # s) =
     (if hexed c then
        (let v = hex_value (xdigit (chval c div 16) # xdigit (chval c mod 16) # takeWhile isxdigit s)
         in if v \<ge> 256 then None else map_option ((#) (chr v)) (lit_means (dropWhile isxdigit s)))
      else map_option ((#) c) (lit_means s))"
  by pat_completeness auto

termination
  by (relation "measure length") (auto simp: less_Suc_eq_le length_dropWhile_le)

lemma escape_digits:
  assumes "escape_loop sc False data = Some out" "NUL \<notin> set data"
  shows "takeWhile isxdigit (out @ CHR 0x22 # r) = takeWhile isxdigit data
    \<and> (\<exists>out'. escape_loop sc False (dropWhile isxdigit data) = Some out' \<and> dropWhile isxdigit (out @ CHR 0x22 # r) = out' @ CHR 0x22 # r)"
  using assms
proof (induction data arbitrary: out)
  case Nil
  then show ?case by (simp add: isxdigit_def isdigit_def)
next
  case (Cons c data)
  have bs: "\<not> isxdigit (CHR 0x5C)" by (simp add: isxdigit_def isdigit_def)
  have q: "isxdigit c \<Longrightarrow> c \<noteq> CHR ''?''" by (auto simp: isxdigit_def isdigit_def)
  from Cons.prems have "c \<noteq> NUL" by auto
  with Cons.prems(1) show ?case
  proof (cases rule: escape_Cons)
    case (plain out')
    then show ?thesis using Cons.IH [of out'] Cons.prems q by auto
  next
    case (simple e out')
    then have "\<not> isxdigit c" using xdigit_lit by (auto simp: plain_def)
    then show ?thesis using simple bs Cons.prems(1) by simp
  next
    case (hex out')
    then have "\<not> isxdigit c" using xdigit_lit by (auto simp: hexed_def)
    then show ?thesis using hex bs Cons.prems(1) by simp
  qed
qed

lemma literal_chars_means:
  "escape_loop sc t data = Some out \<Longrightarrow> NUL \<notin> set data \<Longrightarrow>
    literal_chars (out @ CHR 0x22 # r) = map_option (\<lambda>v. (v, r)) (lit_means data)"
proof (induction data arbitrary: t out rule: lit_means.induct)
  case (2 c s)
  from "2.prems" have "c \<noteq> NUL" "NUL \<notin> set s" by auto
  from "2.prems"(1) this(1) show ?case
  proof (cases rule: escape_Cons)
    case (plain out')
    then show ?thesis using plain_chars [OF plain(3) \<open>c \<noteq> NUL\<close>] "2.IH"(2) [OF _ plain(2) \<open>NUL \<notin> set s\<close>] \<open>c \<noteq> NUL\<close>
      by (simp add: option.map_comp comp_def)
  next
    case (simple e out')
    then show ?thesis using "2.IH"(2) [OF _ simple(2) \<open>NUL \<notin> set s\<close>] by (simp add: option.map_comp comp_def)
  next
    case (hex out')
    let ?h = "xdigit (chval c div 16)" and ?l = "xdigit (chval c mod 16)"
    have "chval c div 16 < 16" using chval_less_256 [of c] by (simp add: less_mult_imp_div_less)
    then have x: "isxdigit ?h" "isxdigit ?l" using xdigit_spec [of "chval c div 16"] xdigit_spec [of "chval c mod 16"] by simp_all
    from escape_digits [OF hex(2) \<open>NUL \<notin> set s\<close>, of r] obtain out'' where
      d: "takeWhile isxdigit (out' @ CHR 0x22 # r) = takeWhile isxdigit s" "escape_loop sc False (dropWhile isxdigit s) = Some out''"
        "dropWhile isxdigit (out' @ CHR 0x22 # r) = out'' @ CHR 0x22 # r" by blast
    have "NUL \<notin> set (dropWhile isxdigit s)" using \<open>NUL \<notin> set s\<close> by (meson set_dropWhileD)
    from "2.IH"(1) [OF hex(3) refl _ d(2) this] x d show ?thesis
      by (simp add: hex(1,3) Let_def option.map_comp comp_def)
  qed
qed simp

lemma hex_pair: "hex_value [xdigit (chval c div 16), xdigit (chval c mod 16)] = chval c"
proof -
  have "chval c div 16 < 16" using chval_less_256 [of c] by (simp add: less_mult_imp_div_less)
  then show ?thesis using xdigit_spec [of "chval c div 16"] xdigit_spec [of "chval c mod 16"] by (simp add: hex_value_def)
qed

lemma lit_means_length:
  "lit_means data = Some v \<Longrightarrow> length v \<le> length data \<and> (hex_clash data \<longrightarrow> length v < length data)"
proof (induction data arbitrary: v rule: lit_means.induct)
  case (2 c s)
  show ?case
  proof (cases "hexed c")
    case True
    then obtain v' where v': "lit_means (dropWhile isxdigit s) = Some v'" "length v = Suc (length v')"
      "\<not> hex_value (xdigit (chval c div 16) # xdigit (chval c mod 16) # takeWhile isxdigit s) \<ge> 256"
      using "2.prems" by (auto simp: Let_def split: if_splits)
    note ih = "2.IH"(1) [OF True refl v'(3,1)]
    show ?thesis
    proof (cases "takeWhile isxdigit s = []")
      case False
      then have "length (dropWhile isxdigit s) < length s" by (cases s) (auto simp: less_Suc_eq_le length_dropWhile_le split: if_splits)
      then show ?thesis using ih v'(2) by simp
    next
      case True
      then have "dropWhile isxdigit s = s" "hex_clash (c # s) \<longrightarrow> hex_clash s" by (cases s; simp split: if_splits)+
      then show ?thesis using ih v'(2) by simp
    qed
  next
    case False
    then obtain v' where "lit_means s = Some v'" "v = c # v'" using "2.prems" by auto
    then show ?thesis using "2.IH"(2) [OF False] False by (cases s) auto
  qed
qed simp

lemma lit_means_exact: "\<not> hex_clash data \<Longrightarrow> lit_means data = Some data"
proof (induction data rule: lit_means.induct)
  case (2 c s)
  show ?case
  proof (cases "hexed c")
    case True
    then have "takeWhile isxdigit s = []" "dropWhile isxdigit s = s" using "2.prems" by (cases s; simp)+
    moreover have "\<not> hex_clash s" using "2.prems" by (cases s) auto
    ultimately show ?thesis using "2.IH"(1) [OF True refl] True using chval_less_256 [of c]
      by (simp add: hex_pair Let_def not_le)
  next
    case False
    have "\<not> hex_clash s" using "2.prems" by (cases s) auto
    then show ?thesis using "2.IH"(2) False by simp
  qed
qed simp

lemma lit_means_iff: "lit_means data = Some data \<longleftrightarrow> \<not> hex_clash data"
  using lit_means_length lit_means_exact by blast


section \<open>Trigraphs\<close>

text \<open>Two question marks in a row, and three.\<close>

fun two_marks :: "string \<Rightarrow> bool" where
  "two_marks (a # b # s) \<longleftrightarrow> a = CHR ''?'' \<and> b = CHR ''?'' \<or> two_marks (b # s)"
| "two_marks s \<longleftrightarrow> False"

fun three_marks :: "string \<Rightarrow> bool" where
  "three_marks (a # b # c # s) \<longleftrightarrow> a = CHR ''?'' \<and> b = CHR ''?'' \<and> c = CHR ''?'' \<or> three_marks (b # c # s)"
| "three_marks s \<longleftrightarrow> False"

lemma trigraphs_none: "\<not> two_marks s \<Longrightarrow> trigraphs s = s"
  by (induction s rule: trigraphs.induct) auto

lemma two_marks_Cons: "two_marks (c # s) \<longleftrightarrow> c = CHR ''?'' \<and> first_char s = CHR ''?'' \<or> two_marks s"
  by (cases s) (auto simp: first_char_def)

lemma three_marks_tl: "\<not> three_marks (c # s) \<Longrightarrow> \<not> three_marks s"
  by (cases s; cases "tl s") auto

lemma xdigit_not_mark: "n < 16 \<Longrightarrow> xdigit n \<noteq> CHR ''?''"
  using xdigit_spec [of n] xdigit_lit lit_chars(4) by metis

text \<open>After \<open>k\<close> question marks in a row.\<close>

lemma escape_marks:
  "escape_loop sc t data = Some out \<Longrightarrow> NUL \<notin> set data \<Longrightarrow> \<not> three_marks (replicate k (CHR ''?'') @ data) \<Longrightarrow> k \<le> 2 \<Longrightarrow> t = (k = 1) \<Longrightarrow>
    \<not> two_marks (out @ [CHR 0x22, LF]) \<and> (0 < k \<longrightarrow> first_char (out @ [CHR 0x22, LF]) \<noteq> CHR ''?'')"
proof (induction data arbitrary: t out k)
  case (Cons c data)
  from Cons.prems have n: "c \<noteq> NUL" "NUL \<notin> set data" by auto
  have k: "k = 0 \<or> k = 1 \<or> k = 2" using Cons.prems(4) by auto
  have later: "\<not> three_marks (replicate 0 (CHR ''?'') @ data)"
    using k Cons.prems(3) three_marks_tl [of c data] three_marks_tl [of "CHR ''?''" "c # data"]
      three_marks_tl [of "CHR ''?''" "CHR ''?'' # c # data"]
    by (auto simp: numeral_2_eq_2)
  from Cons.prems(1) n(1) show ?case
  proof (cases rule: escape_Cons)
    case (plain out')
    show ?thesis
    proof (cases "c = CHR ''?''")
      case True
      then have k: "k = 0" using plain(3) Cons.prems(3,5) k by (auto simp: plain_def lit_chars numeral_2_eq_2)
      have "\<not> three_marks (replicate 1 (CHR ''?'') @ data)" using Cons.prems(3) True k by simp
      from Cons.IH [OF plain(2) n(2) this] show ?thesis using plain(1) True k Cons.prems(5) by (simp add: two_marks_Cons)
    next
      case False
      from Cons.IH [OF plain(2) n(2) later] show ?thesis using plain(1) False by (simp add: two_marks_Cons first_char_def)
    qed
  next
    case (simple e out')
    show ?thesis
    proof (cases "c = CHR ''?''")
      case True
      then have k: "k = 1" using simple(5) Cons.prems(5) k by (auto simp: plain_def)
      have "\<not> three_marks (replicate 2 (CHR ''?'') @ data)" using Cons.prems(3) True k by (simp add: numeral_2_eq_2)
      from Cons.IH [OF simple(2) n(2) this] show ?thesis using simple(1) True k Cons.prems(5)
        by (simp add: two_marks_Cons first_char_def)
    next
      case False
      then have "e \<noteq> CHR ''?''" using simple(3) simple_escape_values(10) by auto
      then show ?thesis using Cons.IH [OF simple(2) n(2) later] simple(1) False by (simp add: two_marks_Cons first_char_def)
    qed
  next
    case (hex out')
    have "chval c div 16 < 16" using chval_less_256 [of c] by (simp add: less_mult_imp_div_less)
    then have "xdigit (chval c div 16) \<noteq> CHR ''?''" "xdigit (chval c mod 16) \<noteq> CHR ''?''" by (simp_all add: xdigit_not_mark)
    then show ?thesis using Cons.IH [OF hex(2) n(2) later] hex(1) by (simp add: two_marks_Cons first_char_def)
  qed
qed (auto simp: first_char_def)

section \<open>The property\<close>

text \<open>
  C40: where the tool succeeds, what it wrote fits its buffer and is a string literal of the content of the file, for a
  file without null bytes, exactly if no byte that is written as a hexadecimal escape comes before a digit, which the
  escape would take in. Without three question marks in a row the replacement of trigraphs does not change it.
\<close>

theorem bin2cstr_literal:
  assumes "bin2cstr_main sc argc outfd (Some (datasz, content)) alloc reads writes = Some (0, out)"
  shows "\<exists>s. out = Some s \<and> length s \<le> 4 * datasz + 3 \<and> datasz \<le> length content
    \<and> (NUL \<notin> set (take datasz content) \<longrightarrow>
        (literal_value s = Some (take datasz content) \<longleftrightarrow> \<not> hex_clash (take datasz content))
        \<and> (\<not> three_marks (take datasz content) \<longrightarrow> trigraphs s = s))"
proof -
  define data where "data = input_loop datasz [] content reads"
  obtain k where "data = take k content" using input_loop_take [of datasz "[]" content reads] by (auto simp: data_def)
  moreover have "length data \<le> datasz" unfolding data_def by (rule input_loop_size) simp
  moreover have "\<not> length data < datasz" using assms by (auto simp: bin2cstr_main_def data_def Let_def split: if_splits)
  ultimately have data: "data = take datasz content" "datasz \<le> length content" by (auto simp: min_def split: if_splits)
  obtain s where s: "literal sc data = Some s" "length (output_loop [] s writes) = length s" "out = Some (output_loop [] s writes)"
    using assms by (auto simp: bin2cstr_main_def data_def Let_def split: if_splits)
  obtain j where "output_loop [] s writes = take j s" using output_loop_prefix [of "[]" s writes] by auto
  then have out: "out = Some s" using s(2,3) by (simp add: min_def split: if_splits)
  obtain b where b: "escape_loop sc False data = Some b" "s = CHR 0x22 # b @ CHR 0x22 # [LF]" using s(1) by (auto simp: literal_def)
  have len: "length s \<le> 4 * datasz + 3" using escape_length [OF b(1)] b(2) data by simp
  have "literal_value s = lit_means data" if "NUL \<notin> set data"
    using literal_chars_means [OF b(1) that, of "[LF]"] by (cases "lit_means data") (simp_all add: literal_value_def b(2))
  moreover have "trigraphs s = s" if "NUL \<notin> set data" "\<not> three_marks data"
    using escape_marks [OF b(1) that(1), of 0] that(2) by (intro trigraphs_none) (simp add: b(2) two_marks_Cons)
  ultimately show ?thesis using out len data lit_means_iff by auto
qed

text \<open>It does succeed where the calls do, if a \<open>char\<close> is unsigned or all bytes are ASCII.\<close>

lemma bin2cstr_succeeds:
  assumes "sc \<longrightarrow> (\<forall>c \<in> set content. chval c < 128)" "\<forall>n \<in> set reads. 0 < n" "\<forall>n \<in> set writes. 0 < n"
    "length content \<le> length reads" "4 * length content + 3 \<le> length writes"
  shows "\<exists>s. bin2cstr_main sc 3 True (Some (length content, content)) True reads writes = Some (0, Some s)"
proof -
  obtain b where b: "escape_loop sc False content = Some b" using assms(1) escape_defined by metis
  then have l: "literal sc content = Some (CHR 0x22 # b @ [CHR 0x22, LF])" by (simp add: literal_def)
  have "input_loop (length content) [] content reads = content" using input_loop_all [of reads "length content" "[]" content] assms by simp
  moreover have "output_loop [] (CHR 0x22 # b @ [CHR 0x22, LF]) writes = CHR 0x22 # b @ [CHR 0x22, LF]"
    using output_loop_all [of writes _ "[]"] assms escape_length [OF b] by simp
  ultimately show ?thesis using l by (simp add: bin2cstr_main_def)
qed

theorem bin2cstr_literal_witness:
  "\<exists>s. bin2cstr_main True 3 True (Some (5, ''$'' @ [CHR 0x22, LF] @ ''??'')) True [2, 3] [20] = Some (0, Some s)
     \<and> literal_value s = Some (''$'' @ [CHR 0x22, LF] @ ''??'') \<and> trigraphs s = s"
proof -
  let ?f = "''$'' @ [CHR 0x22, LF] @ ''??''"
  have "map_option fst (bin2cstr_main True 3 True (Some (5, ?f)) True [2, 3] [20]) = Some 0" by code_simp
  then obtain out where o: "bin2cstr_main True 3 True (Some (5, ?f)) True [2, 3] [20] = Some (0, out)" by auto
  then obtain s where s: "bin2cstr_main True 3 True (Some (5, ?f)) True [2, 3] [20] = Some (0, Some s)"
    using bin2cstr_literal [OF o] by blast
  have "\<not> hex_clash ?f" "\<not> three_marks ?f" by code_simp+
  then show ?thesis using bin2cstr_literal [OF s] s by auto
qed

text \<open>The two ways in which a literal is wrong, as found by a compiler that follows the standard.\<close>

lemma bin2cstr_wrong:
  "bin2cstr_main True 3 True (Some (2, ''$1'')) True [2] [9] = Some (0, Some ([CHR 0x22, CHR 0x5C] @ ''x241'' @ [CHR 0x22, LF]))"
  "literal_value ([CHR 0x22, CHR 0x5C] @ ''x241'' @ [CHR 0x22, LF]) = None"
  "bin2cstr_main True 3 True (Some (4, ''???='')) True [4] [9] = Some (0, Some (''\"?'' @ [CHR 0x5C] @ ''??=\"'' @ [LF]))"
  "trigraphs (''\"?'' @ [CHR 0x5C] @ ''??=\"'' @ [LF]) = ''\"?'' @ [CHR 0x5C] @ ''#\"'' @ [LF]"
  by code_simp+

end
