(* ===== verification/Spec2Isabelle.thy ===== *)
theory Spec2Isabelle
  imports Rnd Url_Code Utf8 Rate_Limit Http_Context Cookies Form_Data Path_Parser Session Proxy_List Template Ip_Addr Auth_Limit Request_Flow Compression Http_Server Pipeline_Answers Http_Connection Config_File Startup_Facts Pam_Check Bin2cstr
begin

text \<open>
  A verification library for swad, the simple web authentication daemon (directory \<open>src/bin/swad\<close> of the
  repository, in C on top of the event library poser), with its helper for PAM and its build tool.

  \<^bold>\<open>The program.\<close> A proxy asks swad whether a request comes from a user who is logged in. \<open>main.c\<close> reads the
  configuration, builds limits, checkers, realms and servers from it, and runs the event loop of poser. A
  server (\<open>httpserver.c\<close>) receives a request on a connection (\<open>http/httprequest.c\<close>), finds its route and runs a
  thread job: the middlewares one inside the other (compression, cookies, session, path, form, protection
  against forged requests), with the handler of the route in the middle. The login handler asks the
  authenticator (\<open>authenticator.c\<close>), which keeps its state as a property of the session, limits failed logins
  and asks the checkers of a realm. The response goes back through the middlewares and is sent
  (\<open>http/httpresponse.c\<close>).

  \<^bold>\<open>How it is modelled.\<close> A definition has the name of the C function, type or macro it models, and the
  control flow of its body. A C string is a list of characters without its end (with it where the code
  looks at the end), a struct a record, an \<open>enum\<close> a datatype, a width that matters a word. An operation on an object
  takes it and returns it changed. \<^const>\<open>None\<close> is what C does not define, or a trap, or not returning. What is not in the
  repository is a parameter: the hash table of poser (record \<open>psc_hash\<close> with the laws \<open>psc_hash_laws\<close>), the random
  source, zlib, what PAM does in a conversation, the checkers as the authenticator sees them, the password database,
  the clocks, the files. Where an object is shared through
  a pointer whose lifetime matters, there is an explicit store: sessions are numbered by
  their allocation, and the objects of a connection live in cells that can be freed.

  \<^bold>\<open>Theories and sources.\<close>
  \<^item> \<open>Swad_Prelude\<close>: characters, \<open>strchr\<close>, \<open>strtoll\<close> and other functions of the C library, shared lemmas.
    \<open>Chain_Table\<close>: the chained hash table of fixed size several files contain, behind the locale of a table that
    owns what it holds; \<open>Psc_Hash\<close>: the laws of poser's table.
  \<^item> \<open>Str_Util\<close> (\<open>util.c\<close>), \<open>Base64\<close>, \<open>Url_Code\<close> (\<open>urlencode.c\<close>), \<open>Html_Escape\<close>, \<open>Utf8\<close>, \<open>Rnd\<close> (\<open>random.c\<close>): the text
    routines and the tokens, with round trips, buffers that suffice, and what they reject.
  \<^item> \<open>Http_Types\<close>, \<open>Header\<close>, \<open>Header_Set\<close>, \<open>Http_Request\<close>, \<open>Http_Response\<close>, \<open>Http_Context\<close> (\<open>http/*.c\<close>): headers as a
    refinement of a multimap, the parser of a request as the state machine it is, fed with the pieces poser delivers, the
    bytes of a response, the objects of a context with their deleters.
  \<^item> \<open>Cookies\<close>, \<open>Form_Data\<close>, \<open>Path_Parser\<close>, \<open>Session\<close>, \<open>Compression\<close>, \<open>Middleware\<close> (\<open>middleware/*.c\<close>): what each
    middleware parses and keeps, the table of sessions as a refinement of a map in which sessions just expire, and the
    middlewares as functions of the rest of the pipeline.
  \<^item> \<open>Ip_Addr\<close>, \<open>Proxy_List\<close> (\<open>ipaddr.c\<close>, \<open>proxylist.c\<close>): addresses, and which of those in a header can be believed.
  \<^item> \<open>Rate_Limit\<close>, \<open>Authenticator\<close>, \<open>Auth_Limit\<close> (\<open>ratelimit.c\<close>, \<open>authenticator.c\<close>): the rings of counters as a refinement of
    counting what was accepted in a window; logins, and how often a password can be tried.
  \<^item> \<open>Template\<close>, \<open>Handlers\<close> (\<open>template.c\<close>, \<open>handler/*.c\<close>): pages without injection, and the two handlers.
  \<^item> \<open>Request_Flow\<close>, \<open>Pipeline_Answers\<close>: one request through the whole pipeline: who can reach the authenticator, and that
    there is always a response.
  \<^item> \<open>Http_Server\<close>, \<open>Http_Connection\<close> (\<open>httpserver.c\<close>): routing and logging of a request; the life of a connection as a
    world of callbacks, pending events and objects, with an abstract machine of its stages.
  \<^item> \<open>Config\<close>, \<open>Config_Args\<close>, \<open>Config_Facts\<close>, \<open>Config_File\<close> (\<open>config.c\<close>): the file, the command line, and what every
    configuration has in common.
  \<^item> \<open>Pam\<close>, \<open>Pam_Facts\<close>, \<open>Pam_Check\<close> (\<open>cred/pamchecker.c\<close>, \<open>libexec/swad_pam/main.c\<close>): the thread of a login, the thread
    that controls the helper and the helper as processes that act in any order; that a check comes to its answer, where it does not, and
    what the authenticator makes of the answers.
  \<^item> \<open>Bin2cstr\<close> (\<open>tools/bin2cstr/src/bin2cstr.c\<close>): the string literals of the pages, against a reader of literals.
  \<^item> \<open>Startup\<close>, \<open>Startup_Facts\<close> (\<open>main.c\<close>): swad as it is built from a configuration, the composition of the components above.

  \<^bold>\<open>Interfaces.\<close> The locales state what one component relies on in another, and are interpreted on the
  model's own definitions where these are given: an owning table for the chained tables of contexts and sessions, and the
  others next to the component that provides them.

  \<^bold>\<open>Loops.\<close> Loops are structural recursions, or functions with a measure: the length of the input, the free slots of an
  array, the distance of a 16-bit clock. The pipeline is run with as much fuel as it has middlewares and a
  handler, which is enough because each call moves to the next position. Sending a response ends after the number of
  reports that its body has pieces. A check with PAM ends on every way through its steps (the inductive
  \<open>inevitable\<close>), not just on some.

  \<^bold>\<open>Not modelled.\<close> The functions of poser (events, sockets, threads, the service), zlib, PAM and the C library
  are parameters or events. Failures to set up the lock and the semaphores of PAM are not modelled. Locks are not modelled where an operation runs under its lock as a whole; where another
  thread can act in between, the locks are part of the state (\<open>Pam\<close>) or the theorem says so (\<open>Session\<close>). Texts for the terminal and the log, other than the
  line for a request, are left out. The files of \<open>tmpl\<close> and the build files are data.
\<close>

end
